(* ===== verification/Prelude.thy ===== *)
theory Prelude
  imports Main "HOL-Library.Word" "HOL-Library.Monad_Syntax"
begin

text \<open>
  Shared vocabulary of the development.

  \<^item> Rust's unsigned integers are words of their width (\<open>u8\<close>, \<open>u16\<close>, \<open>u64\<close>); a \<open>usize\<close> used as
    an index, a length or a loop counter is a \<open>nat\<close>, and a 64-bit word where it is an atomic counter that
    wraps around.
  \<^item> A computation that can panic (an index out of range, \<open>expect\<close> on \<open>None\<close>, an explicit
    \<open>panic!\<close>) has an option result and \<open>None\<close> is the panic; \<open>do\<close>-blocks of the option monad then
    follow the order in which the code evaluates.
  \<^item> A \<open>Result<T, E>\<close> is a sum \<open>'e + 'a\<close> with \<open>Inl\<close> for \<open>Err\<close>.
\<close>

unbundle bit_operations_syntax

type_synonym u8 = "8 word"
type_synonym u16 = "16 word"
type_synonym u32 = "32 word"
type_synonym u64 = "64 word"
type_synonym bytes = "u8 list"
type_synonym block = "u8 list"

named_theorems gf_simps \<open>rewrite rules that read byte operations as field operations\<close>
named_theorems exec_simps \<open>rewrite rules that run a panicking computation on a well-formed state\<close>
named_theorems inv_intros \<open>preservation lemmas of component invariants\<close>

subsection \<open>Indexing that panics\<close>

text \<open>\<open>xs[i]\<close> and \<open>xs[i] = v\<close>: a panic when the index is out of range.\<close>

definition idx :: "'a list \<Rightarrow> nat \<Rightarrow> 'a option" where
  "idx xs i = (if i < length xs then Some (xs ! i) else None)"

definition set_idx :: "'a list \<Rightarrow> nat \<Rightarrow> 'a \<Rightarrow> 'a list option" where
  "set_idx xs i v = (if i < length xs then Some (xs[i := v]) else None)"

text \<open>\<open>&xs[a..b]\<close>: a panic unless \<open>a \<le> b \<le> xs.len()\<close>.\<close>

definition slice :: "'a list \<Rightarrow> nat \<Rightarrow> nat \<Rightarrow> 'a list option" where
  "slice xs a b = (if a \<le> b \<and> b \<le> length xs then Some (take (b - a) (drop a xs)) else None)"

text \<open>\<open>dst[a..b].copy_from_slice(src)\<close>: a panic when the range is invalid or its length is not
  that of \<open>src\<close>.\<close>

definition copy_at :: "'a list \<Rightarrow> nat \<Rightarrow> nat \<Rightarrow> 'a list \<Rightarrow> 'a list option" where
  "copy_at dst a b src =
     (if a \<le> b \<and> b \<le> length dst \<and> length src = b - a
      then Some (take a dst @ src @ drop b dst) else None)"

lemma idx_Some [exec_simps]: "i < length xs \<Longrightarrow> idx xs i = Some (xs ! i)"
  by (simp add: idx_def)

lemma idx_eq_Some_iff: "idx xs i = Some v \<longleftrightarrow> i < length xs \<and> xs ! i = v"
  by (auto simp: idx_def)

lemma idx_eq_None_iff: "idx xs i = None \<longleftrightarrow> length xs \<le> i"
  by (auto simp: idx_def)

lemma set_idx_Some [exec_simps]: "i < length xs \<Longrightarrow> set_idx xs i v = Some (xs[i := v])"
  by (simp add: set_idx_def)

lemma slice_Some [exec_simps]:
  "a \<le> b \<Longrightarrow> b \<le> length xs \<Longrightarrow> slice xs a b = Some (take (b - a) (drop a xs))"
  by (simp add: slice_def)

lemma slice_eq_None_iff: "slice xs a b = None \<longleftrightarrow> b < a \<or> length xs < b"
  by (auto simp: slice_def)

lemma copy_at_Some [exec_simps]:
  "a \<le> b \<Longrightarrow> b \<le> length dst \<Longrightarrow> length src = b - a \<Longrightarrow>
   copy_at dst a b src = Some (take a dst @ src @ drop b dst)"
  by (simp add: copy_at_def)

subsection \<open>Loops that may panic\<close>

text \<open>A \<open>for\<close> loop whose body may panic: the state is threaded through and the first panic ends
  the loop.\<close>

primrec ofold :: "('a \<Rightarrow> 's \<Rightarrow> 's option) \<Rightarrow> 'a list \<Rightarrow> 's \<Rightarrow> 's option" where
  "ofold f [] s = Some s"
| "ofold f (x # xs) s = Option.bind (f x s) (ofold f xs)"

text \<open>\<open>iter.map(f).collect()\<close> with a body that may panic.\<close>

primrec omap :: "('a \<Rightarrow> 'b option) \<Rightarrow> 'a list \<Rightarrow> 'b list option" where
  "omap f [] = Some []"
| "omap f (x # xs) = do { y \<leftarrow> f x; ys \<leftarrow> omap f xs; Some (y # ys) }"

lemma ofold_Cons_fun: "ofold f (x # xs) = (\<lambda>s. Option.bind (f x s) (ofold f xs))"
  by (rule ext) simp

lemma ofold_append: "ofold f (xs @ ys) s = Option.bind (ofold f xs s) (ofold f ys)"
  by (induction xs arbitrary: s) (auto split: Option.bind_splits)

lemma ofold_cong [fundef_cong]:
  "xs = ys \<Longrightarrow> s = t \<Longrightarrow> (\<And>x u. x \<in> set ys \<Longrightarrow> f x u = g x u) \<Longrightarrow> ofold f xs s = ofold g ys t"
proof (induction ys arbitrary: xs s t)
  case Nil
  then show ?case by simp
next
  case (Cons y ys)
  then have "ofold f ys = ofold g ys" by fastforce
  with Cons.prems show ?case by simp
qed

lemma ofold_Some:
  "(\<And>x u. x \<in> set xs \<Longrightarrow> f x u = Some (g x u)) \<Longrightarrow> ofold f xs s = Some (fold g xs s)"
  by (induction xs arbitrary: s) auto

lemma ofold_None: "x \<in> set xs \<Longrightarrow> (\<And>u. f x u = None) \<Longrightarrow> ofold f xs s = None"
  by (induction xs arbitrary: s) (auto split: Option.bind_splits)

text \<open>A loop over an array whose step \<open>j\<close> only rewrites entry \<open>j\<close>.\<close>

lemma ofold_pointwise:
  assumes "\<And>j out. j < n \<Longrightarrow> j < length out \<Longrightarrow> upd j out = Some (out[j := h j (out ! j)])" "n \<le> length out"
  shows "ofold upd [0..<n] out = Some (map (\<lambda>j. h j (out ! j)) [0..<n] @ drop n out)"
  using assms
proof (induction n)
  case (Suc n)
  then have "ofold upd [0..<n] out = Some (map (\<lambda>j. h j (out ! j)) [0..<n] @ drop n out)" by simp
  with Suc.prems show ?case
    by (simp add: ofold_append list_update_append nth_append flip: Cons_nth_drop_Suc)
qed simp

text \<open>The rule for a loop whose body keeps an invariant: the loop ends without a panic in a state
  that satisfies the invariant.\<close>

lemma ofold_invariant:
  assumes "P 0 s"
    and "\<And>i s. i < length xs \<Longrightarrow> P i s \<Longrightarrow> \<exists>s'. f (xs ! i) s = Some s' \<and> P (Suc i) s'"
  shows "\<exists>s'. ofold f xs s = Some s' \<and> P (length xs) s'"
  using assms
proof (induction xs arbitrary: P s)
  case Nil
  then show ?case by simp
next
  case (Cons x xs)
  from Cons.prems(2)[of 0 s] Cons.prems(1) obtain s1 where s1: "f x s = Some s1" "P 1 s1"
    by auto
  have "\<exists>s'. ofold f xs s1 = Some s' \<and> P (Suc (length xs)) s'"
    using Cons.IH[of "\<lambda>i. P (Suc i)" s1] Cons.prems(2)[of "Suc i" for i] s1(2) by force
  with s1(1) show ?case by simp
qed

lemma omap_Some: "(\<And>x. x \<in> set xs \<Longrightarrow> f x = Some (g x)) \<Longrightarrow> omap f xs = Some (map g xs)"
  by (induction xs) auto

lemma omap_None: "x \<in> set xs \<Longrightarrow> f x = None \<Longrightarrow> omap f xs = None"
  by (induction xs) (auto split: Option.bind_splits)

lemma omap_length: "omap f xs = Some ys \<Longrightarrow> length ys = length xs"
  by (induction xs arbitrary: ys) (auto split: Option.bind_splits)

lemma omap_nth: "omap f xs = Some ys \<Longrightarrow> i < length xs \<Longrightarrow> f (xs ! i) = Some (ys ! i)"
proof (induction xs arbitrary: ys i)
  case (Cons x xs)
  then show ?case by (cases i) (auto split: Option.bind_splits)
qed simp

text \<open>The shape of the hand-unrolled loops of the code: four steps at a time while they fit, then one
  at a time. \<open>loop4\<close> and \<open>loop1\<close> are the two \<open>while\<close> loops; \<open>unrolled4\<close> runs them in sequence.\<close>

function loop4 :: "(nat \<Rightarrow> 's \<Rightarrow> 's option) \<Rightarrow> nat \<Rightarrow> nat \<Rightarrow> 's \<Rightarrow> (nat \<times> 's) option" where
  "loop4 upd j n s =
     (if j + 4 \<le> n
      then do { s \<leftarrow> upd j s; s \<leftarrow> upd (j + 1) s; s \<leftarrow> upd (j + 2) s; s \<leftarrow> upd (j + 3) s;
                loop4 upd (j + 4) n s }
      else Some (j, s))"
  by pat_completeness auto
termination
  by (relation "measure (\<lambda>(upd, j, n, s). n - j)") auto

function loop1 :: "(nat \<Rightarrow> 's \<Rightarrow> 's option) \<Rightarrow> nat \<Rightarrow> nat \<Rightarrow> 's \<Rightarrow> 's option" where
  "loop1 upd j n s = (if j < n then do { s \<leftarrow> upd j s; loop1 upd (j + 1) n s } else Some s)"
  by pat_completeness auto
termination
  by (relation "measure (\<lambda>(upd, j, n, s). n - j)") auto

definition unrolled4 :: "(nat \<Rightarrow> 's \<Rightarrow> 's option) \<Rightarrow> nat \<Rightarrow> 's \<Rightarrow> 's option" where
  "unrolled4 upd n s = do { (j, s) \<leftarrow> loop4 upd 0 n s; loop1 upd j n s }"

declare loop4.simps [simp del] loop1.simps [simp del]

lemma loop1_eq_ofold: "loop1 upd j n s = ofold upd [j..<n] s"
proof (induction upd j n s rule: loop1.induct)
  case (1 upd j n s)
  show ?case
  proof (cases "j < n")
    case True
    have "loop1 upd j n s = Option.bind (upd j s) (ofold upd [Suc j..<n])"
      using True "1.IH"[OF True] by (subst loop1.simps) (auto intro!: Option.bind_cong)
    with True show ?thesis by (simp add: upt_conv_Cons)
  qed (simp add: loop1.simps)
qed

lemma upt_unroll4: "j + 4 \<le> n \<Longrightarrow> [j..<n] = j # (j + 1) # (j + 2) # (j + 3) # [j + 4..<n]"
  by (simp add: upt_conv_Cons numeral_eq_Suc)

lemma loop4_eq_ofold: "do { (j, s) \<leftarrow> loop4 upd j n s; loop1 upd j n s } = ofold upd [j..<n] s"
proof (induction "n - j" arbitrary: j s rule: less_induct)
  case less
  show ?case
  proof (cases "j + 4 \<le> n")
    case True
    then have IH: "Option.bind (loop4 upd (j + 4) n t) (\<lambda>(j, s). loop1 upd j n s) = ofold upd [j + 4..<n] t"
      for t using less[of "j + 4" t] by simp
    from True show ?thesis
      by (subst loop4.simps) (simp add: upt_unroll4 IH ofold_Cons_fun)
  next
    case False
    then show ?thesis by (subst loop4.simps) (simp add: loop1_eq_ofold)
  qed
qed

lemma unrolled4_eq_ofold: "unrolled4 upd n s = ofold upd [0..<n] s"
  by (simp add: unrolled4_def loop4_eq_ofold)

subsection \<open>Strings\<close>

text \<open>\<open>to_lowercase\<close> on ASCII characters.\<close>

definition ascii_lower :: "char \<Rightarrow> char" where
  "ascii_lower c = (if 65 \<le> (of_char c :: nat) \<and> (of_char c :: nat) \<le> 90 then char_of (of_char c + 32 :: nat) else c)"

definition is_space :: "char \<Rightarrow> bool" where
  "is_space c \<longleftrightarrow> of_char c \<in> {9, 10, 11, 12, 13, 32 :: nat}"

definition trim :: "string \<Rightarrow> string" where
  "trim s = rev (dropWhile is_space (rev (dropWhile is_space s)))"

text \<open>\<open>str::split\<close> with a character: the parts between its occurrences, at least one.\<close>

fun split_on :: "char \<Rightarrow> string \<Rightarrow> string list" where
  "split_on d [] = [[]]"
| "split_on d (c # cs) =
     (if c = d then [] # split_on d cs
      else case split_on d cs of [] \<Rightarrow> [[c]] | p # ps \<Rightarrow> (c # p) # ps)"

lemma split_on_not_Nil [simp]: "split_on d cs \<noteq> []"
  by (induction d cs rule: split_on.induct) (auto split: list.split)

lemma split_on_no_delim: "d \<notin> set cs \<Longrightarrow> split_on d cs = [cs]"
  by (induction d cs rule: split_on.induct) auto

lemma split_on_append: "d \<notin> set cs \<Longrightarrow> split_on d (cs @ d # ds) = cs # split_on d ds"
  by (induction cs) auto

subsection \<open>Big-endian integers\<close>

definition u16_to_be_bytes :: "u16 \<Rightarrow> bytes" where
  "u16_to_be_bytes w = [ucast (drop_bit 8 w), ucast w]"

definition u16_from_be_bytes :: "u8 \<Rightarrow> u8 \<Rightarrow> u16" where
  "u16_from_be_bytes hi lo = push_bit 8 (ucast hi) OR ucast lo"

lemma u16_be_roundtrip [simp]:
  "u16_from_be_bytes (u16_to_be_bytes w ! 0) (u16_to_be_bytes w ! Suc 0) = w"
  by (rule bit_word_eqI)
     (auto simp: u16_from_be_bytes_def u16_to_be_bytes_def bit_simps)

lemma not_bit_u8_high: "\<not> bit (b :: u8) (8 + n)"
  by (auto dest!: bit_imp_le_length)

lemma u16_to_from_be_bytes [simp]: "u16_to_be_bytes (u16_from_be_bytes a b) = [a, b]"
  unfolding u16_to_be_bytes_def u16_from_be_bytes_def
  by (auto intro!: bit_word_eqI simp: bit_simps not_bit_u8_high)

lemma length_u16_to_be_bytes [simp]: "length (u16_to_be_bytes w) = 2"
  by (simp add: u16_to_be_bytes_def)

subsection \<open>Words\<close>

text \<open>Every word is an exclusive or of powers of two: an induction rule that reduces a statement
  additive in a word to single bits.\<close>

lemma take_bit_Suc_xor:
  "take_bit (Suc n) (a :: 'a::len word) = take_bit n a XOR (if bit a n then 2 ^ n else 0)"
  by (rule bit_word_eqI) (auto simp: bit_simps less_Suc_eq)

lemma word_basis_induct:
  fixes a :: "'a::len word"
  assumes zero: "P 0" and base: "\<And>i. i < LENGTH('a) \<Longrightarrow> P (2 ^ i)"
    and add: "\<And>x y. P x \<Longrightarrow> P y \<Longrightarrow> P (x XOR y)"
  shows "P a"
proof -
  have "P (take_bit n a)" if "n \<le> LENGTH('a)" for n
    using that
  proof (induction n)
    case 0
    then show ?case using zero by simp
  next
    case (Suc n)
    then show ?case using zero base add by (simp add: take_bit_Suc_xor)
  qed
  from this[of "LENGTH('a)"] show ?thesis by simp
qed

lemma word_xor_eq_0_iff: "(a :: 'a::len word) XOR b = 0 \<longleftrightarrow> a = b"
proof
  assume "a XOR b = 0"
  moreover have "a = (a XOR b) XOR b" by (simp add: xor.assoc)
  ultimately show "a = b" by simp
qed simp

subsection \<open>Lists\<close>

lemma map_upt_nth_slice:
  "a + n \<le> length xs \<Longrightarrow> map ((!) xs) [a..<a + n] = take n (drop a xs)"
  by (rule nth_equalityI) auto

lemma length_concat_take_Suc:
  "r < length rs \<Longrightarrow>
   length (concat (take (Suc r) rs)) = length (concat (take r rs)) + length (rs ! r)"
  by (simp add: take_Suc_conv_app_nth)

lemma concat_take_nth_drop:
  "r < length rs \<Longrightarrow> concat rs = concat (take r rs) @ rs ! r @ concat (drop (Suc r) rs)"
  by (metis concat.simps(2) concat_append id_take_nth_drop)

lemma length_concat_take_le: "length (concat (take r rs)) \<le> length (concat rs)"
  by (metis append_take_drop_id concat_append le_add1 length_append)

end
