(* ===== verification/F32.thy ===== *)
theory F32
  imports Complex_Main Prelude
begin

text \<open>
  Single-precision numbers. A finite \<open>f32\<close> value is a real number; each operation of the source is the
  exact operation followed by \<open>f32\<close>, rounding to the nearest value with a 24-bit significand and ties
  to even, with the spacing \<open>2 powi -149\<close> of the subnormal range below. Infinities and NaN are not
  represented: above the largest finite value the model keeps rounding with the largest spacing, and
  the places where the source divides are stated with the divisor positive.
\<close>

subsection \<open>Rounding\<close>

text \<open>Round to the nearest integer, ties to even.\<close>

definition rne :: "real \<Rightarrow> int" where
  "rne y = (let f = \<lfloor>y\<rfloor>; d = y - of_int f
            in if d < 1 / 2 then f else if 1 / 2 < d then f + 1 else if even f then f else f + 1)"

text \<open>The exponent of the spacing at \<open>x \<ge> 0\<close>: the least \<open>e \<ge> -149\<close> with \<open>x < 2 powi (e + 24)\<close>.\<close>

function f32_exp_from :: "real \<Rightarrow> int \<Rightarrow> int" where
  "f32_exp_from x e = (if 104 \<le> e \<or> x < 2 powi (e + 24) then e else f32_exp_from x (e + 1))"
  by pat_completeness auto
termination
  by (relation "measure (\<lambda>(x, e). nat (104 - e))") auto

declare f32_exp_from.simps [simp del]

definition f32_exp :: "real \<Rightarrow> int" where
  "f32_exp x = f32_exp_from x (- 149)"

definition f32_pos :: "real \<Rightarrow> real" where
  "f32_pos x = of_int (rne (x / 2 powi f32_exp x)) * 2 powi f32_exp x"

definition f32 :: "real \<Rightarrow> real" where
  "f32 x = (if 0 \<le> x then f32_pos x else - f32_pos (- x))"

subsection \<open>The integer part\<close>

lemma rne_bounds: "of_int \<lfloor>y\<rfloor> \<le> (of_int (rne y) :: real)" "rne y \<le> \<lfloor>y\<rfloor> + 1"
  by (auto simp: rne_def Let_def)

lemma rne_mono: "x \<le> y \<Longrightarrow> rne x \<le> rne y"
proof -
  assume xy: "x \<le> y"
  then consider "\<lfloor>x\<rfloor> = \<lfloor>y\<rfloor>" | "\<lfloor>x\<rfloor> + 1 \<le> \<lfloor>y\<rfloor>" using floor_mono[OF xy] by linarith
  then show ?thesis
  proof cases
    case 1
    then show ?thesis using xy by (auto simp: rne_def Let_def)
  next
    case 2
    then show ?thesis using rne_bounds[of x] rne_bounds[of y] by linarith
  qed
qed

lemma rne_of_int [simp]: "rne (of_int n) = n"
  by (simp add: rne_def)

lemma rne_error: "\<bar>of_int (rne y) - y\<bar> \<le> 1 / 2"
proof -
  have "0 \<le> y - of_int \<lfloor>y\<rfloor>" "y - of_int \<lfloor>y\<rfloor> < 1" by linarith+
  then show ?thesis by (simp add: rne_def Let_def abs_if) linarith
qed

subsection \<open>The exponent\<close>

lemma f32_exp_from_spec:
  "e0 \<le> 104 \<Longrightarrow> e0 \<le> f32_exp_from x e0 \<and> f32_exp_from x e0 \<le> 104 \<and>
     (f32_exp_from x e0 = 104 \<or> x < 2 powi (f32_exp_from x e0 + 24)) \<and>
     (f32_exp_from x e0 = e0 \<or> 2 powi (f32_exp_from x e0 + 23) \<le> x)"
proof (induction x e0 rule: f32_exp_from.induct)
  case (1 x e0)
  show ?case
  proof (cases "104 \<le> e0 \<or> x < 2 powi (e0 + 24)")
    case True
    then have "f32_exp_from x e0 = e0" by (subst f32_exp_from.simps) simp
    with True 1(2) show ?thesis by auto
  next
    case False
    then have "f32_exp_from x e0 = f32_exp_from x (e0 + 1)" by (subst f32_exp_from.simps) simp
    with 1(1)[OF False] False show ?thesis by (auto simp: add.commute[of e0] add.assoc)
  qed
qed

lemmas f32_exp_spec = f32_exp_from_spec[of "- 149", folded f32_exp_def, simplified]

lemma powi_mono: "a \<le> b \<Longrightarrow> (2 :: real) powi a \<le> 2 powi b"
  by (rule power_int_increasing) simp_all

lemma powi_add: "(2 :: real) powi (a + b) = 2 powi a * 2 powi b"
  by (simp add: power_int_add)

lemma f32_exp_mono:
  assumes "x \<le> y"
  shows "f32_exp x \<le> f32_exp y"
proof (rule ccontr)
  assume *: "\<not> f32_exp x \<le> f32_exp y"
  then have "2 powi (f32_exp x + 23) \<le> x" "y < 2 powi (f32_exp y + 24)"
    using f32_exp_spec[of x] f32_exp_spec[of y] by auto
  moreover have "(2 :: real) powi (f32_exp y + 24) \<le> 2 powi (f32_exp x + 23)"
    using * by (intro powi_mono) simp
  ultimately show False using assms by linarith
qed

lemma f32_exp_unique:
  assumes "2 powi (e + 23) \<le> x" "x < 2 powi (e + 24)" "- 149 \<le> e" "e \<le> 104"
  shows "f32_exp x = e"
proof (rule antisym)
  show "f32_exp x \<le> e"
  proof (rule ccontr)
    assume "\<not> f32_exp x \<le> e"
    then have "2 powi (f32_exp x + 23) \<le> x" "(2 :: real) powi (e + 24) \<le> 2 powi (f32_exp x + 23)"
      using f32_exp_spec[of x] assms(3) by (auto intro: powi_mono)
    with assms(2) show False by linarith
  qed
  show "e \<le> f32_exp x"
  proof (rule ccontr)
    assume "\<not> e \<le> f32_exp x"
    then have "x < 2 powi (f32_exp x + 24)" "(2 :: real) powi (f32_exp x + 24) \<le> 2 powi (e + 23)"
      using f32_exp_spec[of x] assms(4) by (auto intro: powi_mono)
    with assms(1) show False by linarith
  qed
qed

subsection \<open>Laws of rounding\<close>

lemma f32_pos_mono:
  assumes "0 \<le> x" "x \<le> y"
  shows "f32_pos x \<le> f32_pos y"
proof (cases "f32_exp x = f32_exp y")
  case True
  then show ?thesis
    using assms by (simp add: f32_pos_def rne_mono divide_right_mono mult_right_mono)
next
  case False
  define a b where "a = f32_exp x" and "b = f32_exp y"
  have ab: "a < b" using False f32_exp_mono[OF assms(2)] by (simp add: a_def b_def)
  then have x: "x < 2 powi (a + 24)" and y: "2 powi (b + 23) \<le> y"
    using f32_exp_spec[of x] f32_exp_spec[of y] by (auto simp: a_def b_def)
  have "x / 2 powi a \<le> of_int (2 ^ 24)" using x by (simp add: powi_add field_simps)
  then have "rne (x / 2 powi a) \<le> 2 ^ 24" using rne_mono[of _ "of_int (2 ^ 24)"] by (simp only: rne_of_int)
  then have "(of_int (rne (x / 2 powi a)) :: real) \<le> of_int (2 ^ 24)" by (rule of_int_le_iff[THEN iffD2])
  then have "f32_pos x \<le> of_int (2 ^ 24) * 2 powi a"
    unfolding f32_pos_def a_def[symmetric] by (rule mult_right_mono) simp
  also have "\<dots> = 2 powi (a + 24)" by (simp add: powi_add)
  also have "\<dots> \<le> 2 powi (b + 23)" using ab by (intro powi_mono) simp
  also have "\<dots> = of_int (2 ^ 23) * 2 powi b" by (simp add: powi_add)
  also have "\<dots> \<le> f32_pos y"
  proof -
    have "of_int (2 ^ 23) \<le> y / 2 powi b" using y by (simp add: powi_add field_simps)
    then have "2 ^ 23 \<le> rne (y / 2 powi b)" using rne_mono[of "of_int (2 ^ 23)"] by (simp only: rne_of_int)
    then have "(of_int (2 ^ 23) :: real) \<le> of_int (rne (y / 2 powi b))" by (rule of_int_le_iff[THEN iffD2])
    then show ?thesis
      unfolding f32_pos_def b_def[symmetric] by (rule mult_right_mono) simp
  qed
  finally show ?thesis .
qed

lemma f32_pos_0 [simp]: "f32_pos 0 = 0"
  using rne_of_int[of 0] by (simp add: f32_pos_def)

lemma f32_0 [simp]: "f32 0 = 0"
  by (simp add: f32_def)

lemma f32_minus [simp]: "f32 (- x) = - f32 x"
  by (auto simp: f32_def)

lemma f32_pos_nonneg: "0 \<le> x \<Longrightarrow> 0 \<le> f32_pos x"
  using f32_pos_mono[of 0 x] by simp

lemma f32_mono: "x \<le> y \<Longrightarrow> f32 x \<le> f32 y"
  using f32_pos_mono[of x y] f32_pos_mono[of "- y" "- x"] f32_pos_nonneg[of "- x"] f32_pos_nonneg[of y]
  by (auto simp: f32_def)

lemma f32_nonneg: "0 \<le> x \<Longrightarrow> 0 \<le> f32 x"
  using f32_mono[of 0 x] by simp

text \<open>Numbers with a 24-bit significand are exact.\<close>

lemma f32_pos_multiple:
  assumes x: "x = of_int m * 2 powi e" and e: "f32_exp x \<le> e"
  shows "f32_pos x = x"
proof -
  define a where "a = f32_exp x"
  have "x = of_int (m * 2 ^ nat (e - a)) * 2 powi a"
    using powi_add[of "e - a" a] x e by (simp add: power_int_def a_def)
  then obtain n where n: "x = of_int n * 2 powi a" by blast
  then have "x / 2 powi a = of_int n" by simp
  then have "f32_pos x = of_int n * 2 powi a" by (simp only: f32_pos_def a_def[symmetric] rne_of_int)
  with n show ?thesis by simp
qed

lemma f32_pos_exact:
  assumes x: "x = of_int m * 2 powi e" "0 \<le> m" "m \<le> 2 ^ 24" and e: "- 149 \<le> e"
  shows "f32_pos x = x"
proof (cases "f32_exp x \<le> e")
  case True
  with x(1) show ?thesis by (rule f32_pos_multiple)
next
  case False
  define a where "a = f32_exp x"
  have "2 powi (a + 23) \<le> x" using f32_exp_spec[of x] False e by (auto simp: a_def)
  moreover have "of_int m * 2 powi e \<le> of_int (2 ^ 24) * (2 :: real) powi e"
    by (rule mult_right_mono[OF of_int_le_iff[THEN iffD2, OF x(3)]]) simp
  moreover have "of_int (2 ^ 24) * (2 :: real) powi e = 2 powi (e + 24)" by (simp add: powi_add)
  moreover have "(2 :: real) powi (e + 24) \<le> 2 powi (a + 23)" using False by (intro powi_mono) (simp add: a_def)
  ultimately have "x = 2 powi (a + 23)" using x(1) by linarith
  then have "x = of_int (2 ^ 23) * 2 powi a" by (simp add: powi_add)
  then show ?thesis by (rule f32_pos_multiple) (simp add: a_def)
qed

lemma f32_exact:
  assumes "x = of_int m * 2 powi e" "\<bar>m\<bar> \<le> 2 ^ 24" "- 149 \<le> e"
  shows "f32 x = x"
proof (cases "0 \<le> m")
  case True
  then have "0 \<le> x" using assms(1) by simp
  then show ?thesis using f32_pos_exact[OF assms(1) True _ assms(3)] assms(2) by (simp add: f32_def)
next
  case False
  then have "x < 0" "- x = of_int (- m) * 2 powi e" using assms(1) by (simp_all add: mult_less_0_iff)
  then show ?thesis using f32_pos_exact[of "- x" "- m" e] False assms by (simp add: f32_def)
qed

lemma f32_of_int: "\<bar>n\<bar> \<le> 2 ^ 24 \<Longrightarrow> f32 (of_int n) = of_int n"
  by (rule f32_exact[of _ n 0]) simp_all

lemma f32_1 [simp]: "f32 1 = 1"
  using f32_of_int[of 1] by simp

lemma f32_half [simp]: "f32 (1 / 2) = 1 / 2"
  by (rule f32_exact[of _ 1 "- 1"]) simp_all

text \<open>Rounding a rounded number changes nothing.\<close>

lemma f32_pos_idem:
  assumes "0 \<le> x"
  shows "f32_pos (f32_pos x) = f32_pos x"
proof (cases "f32_exp x = 104")
  case True
  then show ?thesis
    using f32_exp_spec[of "f32_pos x"] by (intro f32_pos_multiple[of _ "rne (x / 2 powi 104)" 104]) (simp_all add: f32_pos_def)
next
  case False
  define a where "a = f32_exp x"
  have "x < 2 powi (a + 24)" using f32_exp_spec[of x] False by (auto simp: a_def)
  then have "x / 2 powi a \<le> of_int (2 ^ 24)" by (simp add: powi_add field_simps)
  then have m: "rne (x / 2 powi a) \<le> 2 ^ 24" using rne_mono[of _ "of_int (2 ^ 24)"] by (simp only: rne_of_int)
  have "of_int 0 \<le> x / 2 powi a" using assms(1) by simp
  then have "0 \<le> rne (x / 2 powi a)" using rne_mono[of "of_int 0"] by (simp only: rne_of_int)
  moreover have "- 149 \<le> a" using f32_exp_spec[of x] by (simp add: a_def)
  ultimately show ?thesis
    using m by (intro f32_pos_exact[of _ "rne (x / 2 powi a)" a]) (simp_all add: f32_pos_def a_def)
qed

lemma f32_idem [simp]: "f32 (f32 x) = f32 x"
  using f32_pos_idem[of x] f32_pos_idem[of "- x"] f32_pos_nonneg[of x] f32_pos_nonneg[of "- x"]
  by (auto simp: f32_def)

lemma f32_pos_error:
  assumes "x < 2 powi (e + 24)" "- 149 \<le> e"
  shows "\<bar>f32_pos x - x\<bar> \<le> 2 powi e / 2"
proof -
  define a where "a = f32_exp x"
  have "a \<le> e"
  proof (rule ccontr)
    assume "\<not> a \<le> e"
    then have "2 powi (a + 23) \<le> x" "(2 :: real) powi (e + 24) \<le> 2 powi (a + 23)"
      using f32_exp_spec[of x] assms(2) by (auto simp: a_def intro: powi_mono)
    with assms(1) show False by linarith
  qed
  have "f32_pos x - x = (of_int (rne (x / 2 powi a)) - x / 2 powi a) * 2 powi a"
    by (simp add: f32_pos_def a_def field_simps)
  then have "\<bar>f32_pos x - x\<bar> = \<bar>of_int (rne (x / 2 powi a)) - x / 2 powi a\<bar> * 2 powi a"
    by (simp add: abs_mult)
  also have "\<dots> \<le> 1 / 2 * 2 powi a" by (intro mult_right_mono rne_error) simp
  also have "\<dots> \<le> 2 powi e / 2" using powi_mono[OF \<open>a \<le> e\<close>] by simp
  finally show ?thesis .
qed

lemma f32_error:
  assumes "\<bar>x\<bar> < 2 powi (e + 24)" "- 149 \<le> e"
  shows "\<bar>f32 x - x\<bar> \<le> 2 powi e / 2"
  using f32_pos_error[of x e] f32_pos_error[of "- x" e] assms by (auto simp: f32_def abs_if split: if_splits)

text \<open>A value that exceeds 1 by at most half a unit in the last place rounds to 1.\<close>

lemma f32_le_1: "x \<le> 1 + 1 / 2 ^ 24 \<Longrightarrow> f32 x \<le> 1"
proof -
  assume "x \<le> 1 + 1 / 2 ^ 24"
  then have "f32 x \<le> f32 (1 + 1 / 2 ^ 24)" by (rule f32_mono)
  also have "f32_exp (1 + 1 / 2 ^ 24) = - 23"
    by (rule f32_exp_unique) (simp_all add: power_int_def)
  then have "f32 (1 + 1 / 2 ^ 24) = of_int (rne (2 ^ 23 + 1 / 2)) / 2 ^ 23"
    by (simp add: f32_def f32_pos_def power_int_def field_simps)
  also have "rne (2 ^ 23 + 1 / 2) = 2 ^ 23"
    by (simp add: rne_def Let_def)
  finally show ?thesis by simp
qed

lemma f32_unit: "0 \<le> x \<Longrightarrow> x \<le> 1 \<Longrightarrow> 0 \<le> f32 x \<and> f32 x \<le> 1"
  using f32_mono[of x 1] by (simp add: f32_nonneg)

lemma f32_error_unit:
  assumes "\<bar>x\<bar> \<le> 1"
  shows "\<bar>f32 x - x\<bar> \<le> 1 / 2 ^ 25"
proof (cases "\<bar>x\<bar> = 1")
  case True
  then have "x = 1 \<or> x = - 1" by auto
  then show ?thesis by (auto simp del: f32_minus simp: f32_minus[of 1])
next
  case False
  then show ?thesis using f32_error[of x "- 24"] assms by (simp add: power_int_def field_simps)
qed

text \<open>A running average of values in the unit interval stays there, in spite of rounding.\<close>

lemma f32_average_unit:
  assumes "0 \<le> w" "w \<le> 1" "f32 w = w" "0 \<le> a" "a \<le> 1" "0 \<le> b" "b \<le> 1"
  shows "0 \<le> f32 (f32 (w * a) + f32 (f32 (1 - w) * b)) \<and> f32 (f32 (w * a) + f32 (f32 (1 - w) * b)) \<le> 1"
proof
  have "0 \<le> f32 (1 - w)" using assms f32_nonneg by simp
  then show "0 \<le> f32 (f32 (w * a) + f32 (f32 (1 - w) * b))"
    using assms by (intro f32_nonneg add_nonneg_nonneg) (simp_all add: f32_nonneg)
  have "w * a \<le> w" using assms by (simp add: mult_left_le)
  then have 1: "f32 (w * a) \<le> w" using f32_mono assms(3) by metis
  have "f32 (1 - w) * b \<le> f32 (1 - w)" using \<open>0 \<le> f32 (1 - w)\<close> assms by (simp add: mult_left_le)
  then have "f32 (f32 (1 - w) * b) \<le> f32 (f32 (1 - w))" by (rule f32_mono)
  also have "\<dots> = f32 (1 - w)" by (rule f32_idem)
  also have "\<dots> \<le> (1 - w) + 1 / 2 ^ 25" using f32_error_unit[of "1 - w"] assms by (simp add: abs_if split: if_splits)
  finally show "f32 (f32 (w * a) + f32 (f32 (1 - w) * b)) \<le> 1"
    using 1 by (intro f32_le_1) simp
qed

subsection \<open>Conversions\<close>

text \<open>\<open>as usize\<close> truncates and saturates; \<open>round\<close> takes halves away from zero.\<close>

definition f32_as_usize :: "real \<Rightarrow> nat" where
  "f32_as_usize x = min (2 ^ 64 - 1) (nat \<lfloor>x\<rfloor>)"

definition f32_round :: "real \<Rightarrow> real" where
  "f32_round x = (if 0 \<le> x then of_int \<lfloor>x + 1 / 2\<rfloor> else - of_int \<lfloor>1 / 2 - x\<rfloor>)"

definition usize_as_f32 :: "nat \<Rightarrow> real" where
  "usize_as_f32 n = f32 (of_nat n)"

lemma usize_as_f32_mono: "m \<le> n \<Longrightarrow> usize_as_f32 m \<le> usize_as_f32 n"
  by (simp add: usize_as_f32_def f32_mono)

lemma usize_as_f32_pos: "0 < n \<Longrightarrow> 1 \<le> usize_as_f32 n"
  using f32_mono[of 1 "of_nat n"] by (simp add: usize_as_f32_def)

lemma usize_as_f32_exact: "n \<le> 2 ^ 24 \<Longrightarrow> usize_as_f32 n = of_nat n"
  using f32_of_int[of "int n"] of_nat_mono[of n "2 ^ 24", where 'a=int] by (simp add: usize_as_f32_def)

text \<open>A ratio of counts.\<close>

lemma f32_ratio_unit: "m \<le> n \<Longrightarrow> 0 < n \<Longrightarrow>
  0 \<le> f32 (usize_as_f32 m / usize_as_f32 n) \<and> f32 (usize_as_f32 m / usize_as_f32 n) \<le> 1"
  using usize_as_f32_mono[of 0 m] usize_as_f32_mono[of m n] usize_as_f32_pos[of n]
  by (intro f32_unit) (simp_all add: usize_as_f32_def)

end
