(* ===== verification/Memory_Pool.thy ===== *)
theory Memory_Pool
  imports Prelude
begin

text \<open>
  The block pool of \<open>src/src/optimize.rs\<close> (\<open>MemoryPool\<close>), the buffer contract that the FEC components
  rely on (locale \<open>block_allocator\<close>) and the pool's configuration (\<open>OptimizeConfig\<close>).

  A queue of free blocks per NUMA node is a list (\<open>pop\<close> takes its head, \<open>push\<close> appends); the three
  atomic counters are 64-bit words, so \<open>fetch_add\<close> and \<open>fetch_sub\<close> wrap. The result of libnuma's
  \<open>numa_num_configured_nodes\<close> and of \<open>current_node\<close> are the arguments \<open>nodes\<close> and \<open>nd\<close>; binding
  a block's pages to a node does not change its contents. Operations run one after the other. A loop
  that makes no progress gives \<open>None\<close>. The doubling of the capacity in \<open>alloc\<close> is taken modulo \<open>2 ^ 64\<close>
  here; the theory \<open>Pool_Telemetry\<close> has the operations with their metrics and with the overflow checks of a
  debug build, and shows that they do the same on pools of any realistic size.
\<close>

type_synonym usize = "64 word"

record MemoryPool =
  pools :: "block list list"
  block_size :: nat
  num_nodes :: nat
  capacity :: usize
  in_use :: usize
  available :: usize

text \<open>A new block is zeroed. (For a block size of 0 the allocating crate reports an error, which the code unwraps.)\<close>

definition alloc_numa_block :: "nat \<Rightarrow> nat \<Rightarrow> block" where
  "alloc_numa_block bs node = replicate bs 0"

definition pool_new :: "nat \<Rightarrow> usize \<Rightarrow> nat \<Rightarrow> MemoryPool" where
  "pool_new nodes cap bs =
     \<lparr>pools = map (\<lambda>n. let node_cap = unat cap div nodes + (if n < unat cap mod nodes then 1 else 0)
                        in map (\<lambda>_. alloc_numa_block bs n) [0..<node_cap]) [0..<nodes],
      block_size = bs, num_nodes = nodes, capacity = cap, in_use = 0, available = cap\<rparr>"

definition push_block :: "nat \<Rightarrow> block \<Rightarrow> block list list \<Rightarrow> block list list" where
  "push_block n b qs = qs[n := qs ! n @ [b]]"

text \<open>The body of the \<open>for\<close> loop of \<open>grow\<close>.\<close>

definition grow_push :: "nat \<Rightarrow> MemoryPool \<Rightarrow> MemoryPool" where
  "grow_push n p =
     p\<lparr>pools := push_block n (alloc_numa_block (block_size p) n) (pools p),
       available := available p + 1, capacity := capacity p + 1\<rparr>"

text \<open>One pass of the \<open>for\<close> loop of \<open>grow\<close> over the queues \<open>ns\<close>, with its \<open>break\<close>.\<close>

primrec grow_round :: "usize \<Rightarrow> nat list \<Rightarrow> MemoryPool \<Rightarrow> MemoryPool" where
  "grow_round new_capacity [] p = p"
| "grow_round new_capacity (n # ns) p =
     (if capacity p \<ge> new_capacity then p
      else grow_round new_capacity ns (grow_push n p))"

lemma unat_plus1_less: "(c :: usize) < m \<Longrightarrow> unat (c + 1) = unat c + 1"
proof -
  assume "c < m"
  then have "unat c < unat m" by (simp add: word_less_nat_alt)
  moreover have "unat m < 2 ^ 64" using unsigned_less[of m] by simp
  ultimately show ?thesis by (simp add: unat_word_ariths)
qed

lemma capacity_grow_push [simp]: "capacity (grow_push n p) = capacity p + 1"
  by (simp add: grow_push_def)

lemma grow_round_capacity_le:
  "capacity p \<le> m \<Longrightarrow>
   capacity p \<le> capacity (grow_round m ns p) \<and> capacity (grow_round m ns p) \<le> m"
proof (induction ns arbitrary: p)
  case (Cons n ns)
  show ?case
  proof (cases "capacity p < m")
    case True
    with Cons.IH[of "grow_push n p"] inc_le[OF True] unat_plus1_less[OF True]
    show ?thesis by (auto simp: not_le word_le_nat_alt)
  qed (use Cons.prems in auto)
qed simp

lemma grow_round_progress:
  "capacity p < m \<Longrightarrow> ns \<noteq> [] \<Longrightarrow>
   unat m - unat (capacity (grow_round m ns p)) < unat m - unat (capacity p)"
proof (cases ns)
  case (Cons n ns')
  assume lt: "capacity p < m"
  have "unat (capacity p) + 1 \<le> unat (capacity (grow_round m ns' (grow_push n p)))"
    using grow_round_capacity_le[of "grow_push n p" m ns'] inc_le[OF lt] unat_plus1_less[OF lt]
    by (simp add: word_le_nat_alt)
  moreover have "unat (capacity p) < unat m" using lt by (simp add: word_less_nat_alt)
  ultimately show ?thesis using lt Cons by (simp add: not_le)
qed simp

text \<open>The \<open>while\<close> loop of \<open>grow\<close>: without a queue the body does nothing and the loop never ends.\<close>

function grow :: "usize \<Rightarrow> MemoryPool \<Rightarrow> MemoryPool option" where
  "grow new_capacity p =
     (if capacity p < new_capacity
      then if pools p = [] then None
           else grow new_capacity (grow_round new_capacity [0..<length (pools p)] p)
      else Some p)"
  by pat_completeness auto
termination
  by (relation "measure (\<lambda>(m, p). unat m - unat (capacity p))") (simp_all add: grow_round_progress)

declare grow.simps [simp del]

definition alloc :: "nat \<Rightarrow> MemoryPool \<Rightarrow> (block \<times> MemoryPool) option" where
  "alloc nd p =
     (case (if nd < length (pools p) then pools p ! nd else []) of
        b # q \<Rightarrow> Some (b, p\<lparr>pools := (pools p)[nd := q], available := available p - 1,
                            in_use := in_use p + 1\<rparr>)
      | [] \<Rightarrow> do {
          p \<leftarrow> grow (capacity p * 2) p;
          Some (alloc_numa_block (block_size p) nd, p\<lparr>in_use := in_use p + 1\<rparr>) })"

definition free :: "nat \<Rightarrow> block \<Rightarrow> MemoryPool \<Rightarrow> MemoryPool" where
  "free nd b p =
     (let b = map (\<lambda>_. 0) b;
          p = (if available p < capacity p
               then (let p = (if nd < length (pools p)
                              then p\<lparr>pools := push_block nd b (pools p)\<rparr> else p)
                     in p\<lparr>available := available p + 1\<rparr>)
               else p)
      in p\<lparr>in_use := in_use p - 1\<rparr>)"

text \<open>One pass of the shrinking loop of \<open>set_capacity\<close>: at most one block from every queue.\<close>

primrec shrink_round :: "nat list \<Rightarrow> usize \<times> MemoryPool \<Rightarrow> usize \<times> MemoryPool" where
  "shrink_round [] s = s"
| "shrink_round (n # ns) s =
     (case s of (diff, p) \<Rightarrow>
        if diff = 0 then s
        else shrink_round ns
               (case pools p ! n of
                  [] \<Rightarrow> (diff, p)
                | b # q \<Rightarrow> (diff - 1, p\<lparr>pools := (pools p)[n := q], available := available p - 1,
                                       capacity := capacity p - 1\<rparr>)))"

lemma shrink_round_le: "unat (fst (shrink_round ns s)) \<le> unat (fst s)"
proof (induction ns arbitrary: s)
  case (Cons n ns)
  obtain diff p where s: "s = (diff, p)" by (cases s)
  have "diff \<noteq> 0 \<Longrightarrow> unat (diff - 1) \<le> unat diff" by (simp add: unat_sub word_le_nat_alt unat_gt_0 Suc_leI)
  then show ?case
    using Cons[of "(diff, p)"] Cons[of "(diff - 1, q)" for q] s
    by (fastforce split: list.split intro: order_trans)
qed simp

lemma shrink_round_decr: "shrink_round ns (d, p) = (d', p') \<Longrightarrow> d' \<noteq> d \<Longrightarrow> unat d' < unat d"
  using shrink_round_le[of ns "(d, p)"] by (auto simp: word_unat_eq_iff le_less)

text \<open>The shrinking loop: a pass that pops nothing leaves the state as it was, so that the loop never
  ends.\<close>

function shrink :: "usize \<Rightarrow> MemoryPool \<Rightarrow> MemoryPool option" where
  "shrink diff p =
     (if 0 < diff \<and> 0 < available p
      then (case shrink_round [0..<length (pools p)] (diff, p) of
              (diff', p') \<Rightarrow>
                if diff' = 0 then Some p'
                else if diff' = diff then None
                else shrink diff' p')
      else Some p)"
  by pat_completeness auto
termination
  by (relation "measure (\<lambda>(d, p). unat d)") (auto dest!: sym[of "(_, _)" "shrink_round _ _"] simp: shrink_round_decr)

declare shrink.simps [simp del]

definition set_capacity :: "usize \<Rightarrow> MemoryPool \<Rightarrow> MemoryPool option" where
  "set_capacity new_capacity p =
     (let current = capacity p
      in if new_capacity > current then grow new_capacity p else shrink (current - new_capacity) p)"

subsection \<open>The pool invariant\<close>

text \<open>Every free block is zeroed and of the pool's block size; the counter \<open>available\<close> is the number of
  queued blocks plus \<open>k\<close> phantom blocks (blocks freed on a node without a queue are counted but
  dropped), and it does not exceed the capacity.\<close>

definition queued :: "MemoryPool \<Rightarrow> nat" where
  "queued p = sum_list (map length (pools p))"

definition clean_queues :: "nat \<Rightarrow> block list list \<Rightarrow> bool" where
  "clean_queues bs qs \<longleftrightarrow> list_all (list_all (\<lambda>b. b = replicate bs 0)) qs"

definition pool_inv :: "nat \<Rightarrow> MemoryPool \<Rightarrow> bool" where
  "pool_inv k p \<longleftrightarrow>
     length (pools p) = num_nodes p \<and> clean_queues (block_size p) (pools p) \<and>
     queued p + k = unat (available p) \<and> available p \<le> capacity p"

lemma clean_queues_update:
  "clean_queues bs qs \<Longrightarrow> list_all (\<lambda>b. b = replicate bs 0) q \<Longrightarrow> clean_queues bs (qs[n := q])"
  by (auto simp: clean_queues_def list_all_iff dest: set_update_subset_insert[THEN subsetD])

lemma clean_queues_nth: "clean_queues bs qs \<Longrightarrow> n < length qs \<Longrightarrow> list_all (\<lambda>b. b = replicate bs 0) (qs ! n)"
  by (auto simp: clean_queues_def list_all_iff dest: nth_mem)

lemma clean_queues_push: "clean_queues bs qs \<Longrightarrow> n < length qs \<Longrightarrow> clean_queues bs (push_block n (replicate bs 0) qs)"
  by (simp add: push_block_def clean_queues_update clean_queues_nth)

lemma queued_push: "n < length qs \<Longrightarrow> sum_list (map length (push_block n b qs)) = Suc (sum_list (map length qs))"
  by (simp add: push_block_def map_update sum_list_update elem_le_sum_list trans_le_add1)

lemma queued_pop:
  "n < length qs \<Longrightarrow> qs ! n = b # q \<Longrightarrow> Suc (sum_list (map length (qs[n := q]))) = sum_list (map length qs)"
  using elem_le_sum_list[of n "map length qs"] by (simp add: map_update sum_list_update)

lemma length_push_block [simp]: "length (push_block n b qs) = length qs"
  by (simp add: push_block_def)

lemma pool_inv_grow_push:
  assumes "pool_inv k p" "n < num_nodes p" "capacity p < m"
  shows "pool_inv k (grow_push n p)"
proof -
  have "available p < m" using assms by (auto simp: pool_inv_def)
  then show ?thesis
    using assms unat_plus1_less[of "capacity p" m] unat_plus1_less[of "available p" m]
    by (auto simp: pool_inv_def grow_push_def clean_queues_push queued_push queued_def
        alloc_numa_block_def word_le_nat_alt)
qed

text \<open>What growing leaves alone.\<close>

definition pool_frame :: "MemoryPool \<Rightarrow> MemoryPool \<Rightarrow> bool" where
  "pool_frame p p' \<longleftrightarrow> block_size p' = block_size p \<and> num_nodes p' = num_nodes p \<and> in_use p' = in_use p"

lemma pool_inv_grow_round:
  "pool_inv k p \<Longrightarrow> list_all (\<lambda>n. n < num_nodes p) ns \<Longrightarrow>
   pool_inv k (grow_round m ns p) \<and> pool_frame p (grow_round m ns p)"
proof (induction ns arbitrary: p)
  case (Cons n ns)
  show ?case
  proof (cases "capacity p < m")
    case True
    with Cons pool_inv_grow_push[of k p n m] Cons.IH[of "grow_push n p"] show ?thesis
      by (simp add: not_le pool_frame_def grow_push_def)
  next
    case False
    with Cons.prems show ?thesis by (simp add: pool_frame_def not_less)
  qed
qed (simp add: pool_frame_def)

lemma grow_spec:
  "pool_inv k p \<Longrightarrow> 0 < num_nodes p \<Longrightarrow>
   \<exists>p'. grow m p = Some p' \<and> pool_inv k p' \<and> pool_frame p p' \<and> capacity p' = max (capacity p) m"
proof (induction m p rule: grow.induct)
  case (1 m p)
  show ?case
  proof (cases "capacity p < m")
    case False
    then show ?thesis using 1 by (subst grow.simps) (simp add: pool_frame_def max_def)
  next
    case True
    define q where "q = grow_round m [0..<length (pools p)] p"
    have ne: "pools p \<noteq> []" using 1 by (auto simp: pool_inv_def)
    have q: "pool_inv k q \<and> pool_frame p q"
      unfolding q_def using "1.prems" by (intro pool_inv_grow_round) (auto simp: list_all_iff pool_inv_def)
    have "capacity q \<le> m" using grow_round_capacity_le[of p m] True by (simp add: q_def)
    with "1.IH"[OF True ne] q "1.prems"(2) obtain p' where
      "grow m q = Some p'" "pool_inv k p'" "pool_frame q p'" "capacity p' = m"
      by (auto simp: q_def[symmetric] pool_frame_def max_def split: if_splits)
    then show ?thesis
      using True ne q by (subst grow.simps) (auto simp: q_def[symmetric] pool_frame_def max_def)
  qed
qed

lemma pool_inv_in_use [simp]: "pool_inv k (p\<lparr>in_use := n\<rparr>) = pool_inv k p"
  by (simp add: pool_inv_def queued_def)

lemma unat_pred: "0 < unat (a :: usize) \<Longrightarrow> unat (a - 1) = unat a - 1"
  by (simp add: unat_sub word_le_nat_alt Suc_leI)

lemma pool_inv_pop:
  assumes inv: "pool_inv k p" and n: "n < num_nodes p" "pools p ! n = b # q"
  shows "pool_inv k (p\<lparr>pools := (pools p)[n := q], available := available p - 1\<rparr>)"
    "pool_inv k (p\<lparr>pools := (pools p)[n := q], available := available p - 1, capacity := capacity p - 1\<rparr>)"
    "b = replicate (block_size p) 0" "0 < unat (available p)"
proof -
  have len: "n < length (pools p)" using inv n by (simp add: pool_inv_def)
  have cl: "list_all (\<lambda>b. b = replicate (block_size p) 0) (b # q)"
    using inv len n clean_queues_nth[of "block_size p" "pools p" n] by (simp add: pool_inv_def)
  then show "b = replicate (block_size p) 0" by simp
  from queued_pop[OF len n(2)] inv show pos: "0 < unat (available p)"
    by (simp add: pool_inv_def queued_def)
  have "unat (available p) \<le> unat (capacity p)" using inv by (simp add: pool_inv_def word_le_nat_alt)
  then show "pool_inv k (p\<lparr>pools := (pools p)[n := q], available := available p - 1\<rparr>)"
    "pool_inv k (p\<lparr>pools := (pools p)[n := q], available := available p - 1, capacity := capacity p - 1\<rparr>)"
    using inv cl queued_pop[OF len n(2)] pos
    by (auto simp: pool_inv_def queued_def clean_queues_update unat_pred word_le_nat_alt)
qed

lemma alloc_spec:
  assumes inv: "pool_inv k p" and nodes: "0 < num_nodes p"
  shows "\<exists>p'. alloc nd p = Some (replicate (block_size p) 0, p') \<and> pool_inv k p' \<and>
           block_size p' = block_size p \<and> num_nodes p' = num_nodes p \<and> in_use p' = in_use p + 1"
proof (cases "if nd < length (pools p) then pools p ! nd else []")
  case Nil
  with grow_spec[OF inv nodes, of "capacity p * 2"] show ?thesis
    by (auto simp: alloc_def alloc_numa_block_def pool_frame_def)
next
  case (Cons b q)
  then have "nd < num_nodes p" "pools p ! nd = b # q"
    using inv by (auto simp: pool_inv_def split: if_splits)
  from pool_inv_pop[OF inv this] Cons show ?thesis
    by (simp add: alloc_def)
qed

lemma map_zero_replicate: "length b = n \<Longrightarrow> map (\<lambda>_. 0) b = replicate n 0"
  by (simp add: map_replicate_const)

lemma free_spec:
  assumes inv: "pool_inv k p" and len: "length b = block_size p"
  shows "pool_inv (if available p < capacity p \<and> \<not> nd < num_nodes p then Suc k else k) (free nd b p) \<and>
         block_size (free nd b p) = block_size p \<and> num_nodes (free nd b p) = num_nodes p \<and>
         in_use (free nd b p) = in_use p - 1 \<and> capacity (free nd b p) = capacity p"
proof -
  have "available p < capacity p \<Longrightarrow> available p + 1 \<le> capacity p" by (rule inc_le)
  moreover have "clean_queues (block_size p) (push_block nd (map (\<lambda>_. 0) b) (pools p))"
    if "nd < num_nodes p"
    using inv that len by (simp add: pool_inv_def map_zero_replicate clean_queues_push)
  ultimately show ?thesis
    using inv unat_plus1_less[of "available p" "capacity p"]
    by (auto simp: free_def pool_inv_def queued_def queued_push)
qed

lemma pool_inv_new: "0 < nodes \<Longrightarrow> pool_inv 0 (pool_new nodes cap bs)"
proof -
  assume nodes: "0 < nodes"
  have "sum_list (map (\<lambda>n. c div nodes + (if n < c mod nodes then 1 else 0)) [0..<nodes]) = c" for c
  proof -
    have "sum_list (map (\<lambda>n. c div nodes + (if n < r then 1 else 0)) [0..<m]) = m * (c div nodes) + min m r"
      for m r :: nat by (induction m) auto
    from this[of "c mod nodes" nodes] nodes show ?thesis by (simp add: min_absorb2 less_imp_le)
  qed
  then show ?thesis
    by (auto simp: pool_inv_def pool_new_def queued_def clean_queues_def list_all_iff comp_def
        alloc_numa_block_def Let_def)
qed

lemma shrink_round_spec:
  assumes "pool_inv k p" "list_all (\<lambda>n. n < num_nodes p) ns" "shrink_round ns (d, p) = (d', p')"
  shows "pool_inv k p' \<and> pool_frame p p' \<and> unat d' + queued p = unat d + queued p' \<and>
         unat (capacity p') + queued p = unat (capacity p) + queued p' \<and>
         (d' = d \<longrightarrow> d = 0 \<or> list_all (\<lambda>n. pools p ! n = []) ns)"
  using assms
proof (induction ns arbitrary: d p)
  case (Cons n ns)
  show ?case
  proof (cases "d = 0 \<or> pools p ! n = []")
    case True
    with Cons show ?thesis by (auto simp: pool_frame_def split: if_splits)
  next
    case False
    then obtain b q where q: "pools p ! n = b # q" "d \<noteq> 0" by (cases "pools p ! n") auto
    define p1 where "p1 = p\<lparr>pools := (pools p)[n := q], available := available p - 1, capacity := capacity p - 1\<rparr>"
    have n: "n < num_nodes p" "n < length (pools p)" using Cons.prems by (simp_all add: pool_inv_def)
    note pop = pool_inv_pop[OF Cons.prems(1) n(1) q(1)]
    have "shrink_round ns (d - 1, p1) = (d', p')" using Cons.prems(3) q by (simp add: p1_def)
    from Cons.IH[OF _ _ this] Cons.prems pop
    have IH: "pool_inv k p'" "pool_frame p1 p'" "unat d' + queued p1 = unat (d - 1) + queued p'"
      "unat (capacity p') + queued p1 = unat (capacity p1) + queued p'"
      by (simp_all add: p1_def)
    have "Suc (queued p1) = queued p" using queued_pop[OF n(2) q(1)] by (simp add: queued_def p1_def)
    moreover have "unat (d - 1) = unat d - 1" "0 < unat d"
      using q(2) by (simp_all add: unat_pred unat_gt_0)
    moreover have "unat (capacity p1) = unat (capacity p) - 1" "0 < unat (capacity p)"
      using pop(4) Cons.prems(1) by (auto simp: p1_def unat_pred pool_inv_def word_le_nat_alt)
    moreover have "unat d' \<le> unat (d - 1)"
      using shrink_round_le[of ns "(d - 1, p1)"] \<open>shrink_round ns (d - 1, p1) = (d', p')\<close> by simp
    ultimately show ?thesis using IH by (auto simp: pool_frame_def p1_def)
  qed
qed (simp add: pool_frame_def)

lemma queued_0_iff: "queued p = 0 \<longleftrightarrow> list_all (\<lambda>n. pools p ! n = []) [0..<length (pools p)]"
  by (auto simp: queued_def list_all_iff in_set_conv_nth) (metis nth_mem)

text \<open>Shrinking removes \<open>diff\<close> blocks when so many are queued; otherwise it empties the queues when
  there are no phantom blocks and never ends when there are.\<close>

lemma shrink_spec:
  "pool_inv k p \<Longrightarrow> \<exists>p'. pool_inv k p' \<and> pool_frame p p' \<and>
     shrink d p = (if unat d \<le> queued p \<or> k = 0 then Some p' else None) \<and>
     unat (capacity p') = unat (capacity p) - min (unat d) (queued p) \<and>
     queued p' = queued p - min (unat d) (queued p)"
proof (induction d p rule: shrink.induct)
  case (1 d p)
  show ?case
  proof (cases "0 < d \<and> 0 < available p")
    case False
    then have "unat d = 0 \<or> (queued p = 0 \<and> k = 0)"
      using 1(2) by (auto simp: pool_inv_def word_gt_0)
    with False 1(2) show ?thesis
      by (subst shrink.simps) (auto intro!: exI[of _ p] simp: pool_frame_def)
  next
    case True
    obtain d' p' where r: "shrink_round [0..<length (pools p)] (d, p) = (d', p')" by fastforce
    have s: "pool_inv k p'" "pool_frame p p'" "unat d' + queued p = unat d + queued p'"
      "unat (capacity p') + queued p = unat (capacity p) + queued p'"
      "d' = d \<longrightarrow> d = 0 \<or> queued p = 0"
      using shrink_round_spec[OF 1(2) _ r] 1(2)
      by (auto simp: list_all_iff pool_inv_def queued_0_iff)
    have dpos: "0 < unat d" using True by (simp add: word_less_nat_alt)
    have step: "shrink d p = (if d' = 0 then Some p' else if d' = d then None else shrink d' p')"
      using True r by (subst shrink.simps) simp
    consider "d' = 0" | "d' \<noteq> 0" "d' = d" | "d' \<noteq> 0" "d' \<noteq> d" by blast
    then show ?thesis
    proof cases
      case 1
      with s step show ?thesis by (intro exI[of _ p']) simp
    next
      case 2
      then have "queued p = 0" "k \<noteq> 0"
        using s(5) True \<open>pool_inv k p\<close> by (auto simp: pool_inv_def word_less_nat_alt)
      with 2 s step dpos show ?thesis by (intro exI[of _ p']) simp
    next
      case 3
      from "1.IH"[OF True r[symmetric] 3 s(1)] obtain p2 where p2: "pool_inv k p2" "pool_frame p' p2"
        "shrink d' p' = (if unat d' \<le> queued p' \<or> k = 0 then Some p2 else None)"
        "unat (capacity p2) = unat (capacity p') - min (unat d') (queued p')"
        "queued p2 = queued p' - min (unat d') (queued p')" by blast
      have "unat d' \<le> queued p' \<longleftrightarrow> unat d \<le> queued p" using s(3) by linarith
      moreover have "min (unat d') (queued p') + queued p = min (unat d) (queued p) + queued p'"
        using s(3) by linarith
      ultimately show ?thesis
        using p2 s step 3 by (intro exI[of _ p2]) (auto simp: pool_frame_def)
    qed
  qed
qed

lemma set_capacity_spec:
  assumes "pool_inv k p" "0 < num_nodes p"
  shows "\<exists>p'. pool_inv k p' \<and> pool_frame p p' \<and>
     set_capacity c p = (if capacity p < c \<or> unat (capacity p) - unat c \<le> queued p \<or> k = 0
                         then Some p' else None) \<and>
     unat (capacity p') = (if capacity p < c then unat c
                           else unat (capacity p) - min (unat (capacity p) - unat c) (queued p))"
proof (cases "capacity p < c")
  case True
  with grow_spec[OF assms, of c] show ?thesis by (auto simp: set_capacity_def max_def)
next
  case False
  then have "unat (capacity p - c) = unat (capacity p) - unat c" by (simp add: unat_sub not_less)
  with shrink_spec[OF assms(1), of "capacity p - c"] False show ?thesis
    by (auto simp: set_capacity_def)
qed

subsection \<open>The buffer contract\<close>

text \<open>The idiom of the FEC code: take a block and copy \<open>n\<close> bytes to its front; give several blocks
  back.\<close>

definition alloc_filled :: "('p \<Rightarrow> (block \<times> 'p) option) \<Rightarrow> nat \<Rightarrow> bytes \<Rightarrow> 'p \<Rightarrow> (block \<times> 'p) option" where
  "alloc_filled al n src p = do { (b, p) \<leftarrow> al p; b \<leftarrow> copy_at b 0 n src; Some (b, p) }"

definition pool_ok :: "MemoryPool \<Rightarrow> bool" where
  "pool_ok p \<longleftrightarrow> pool_inv (unat (available p) - queued p) p \<and> 0 < num_nodes p"

lemma pool_ok_iff: "pool_ok p \<longleftrightarrow> (\<exists>k. pool_inv k p) \<and> 0 < num_nodes p"
  by (auto simp: pool_ok_def pool_inv_def)

text \<open>What a client of the pool may rely on: allocation never fails and gives a zeroed block of the
  fixed size, and a block of that size can be given back at any time.\<close>

locale block_allocator =
  fixes al :: "'p \<Rightarrow> (block \<times> 'p) option" and fr :: "block \<Rightarrow> 'p \<Rightarrow> 'p"
    and bsize :: "'p \<Rightarrow> nat" and ok :: "'p \<Rightarrow> bool"
  assumes al_ok: "ok p \<Longrightarrow> \<exists>p'. al p = Some (replicate (bsize p) 0, p') \<and> ok p' \<and> bsize p' = bsize p"
    and fr_ok: "ok p \<Longrightarrow> length b = bsize p \<Longrightarrow> ok (fr b p) \<and> bsize (fr b p) = bsize p"
begin

lemma alloc_filled_ok:
  assumes "ok p" "length src = n" "n \<le> bsize p"
  shows "\<exists>p'. alloc_filled al n src p = Some (src @ replicate (bsize p - n) 0, p') \<and> ok p' \<and> bsize p' = bsize p"
  using al_ok[OF assms(1)] assms by (auto simp: alloc_filled_def exec_simps)

lemma alloc_filled_panic:
  "ok p \<Longrightarrow> n \<noteq> length src \<or> bsize p < n \<Longrightarrow> alloc_filled al n src p = None"
  using al_ok[of p] by (auto simp: alloc_filled_def copy_at_def)

lemma free_all_ok:
  "ok p \<Longrightarrow> list_all (\<lambda>b. length b = bsize p) bs \<Longrightarrow>
   ok (fold fr bs p) \<and> bsize (fold fr bs p) = bsize p"
  using fr_ok by (induction bs arbitrary: p) auto

end

interpretation pool: block_allocator "alloc nd" "free nd" block_size pool_ok for nd
proof unfold_locales
  fix p
  assume "pool_ok p"
  then obtain k where k: "pool_inv k p" "0 < num_nodes p" by (auto simp: pool_ok_iff)
  from alloc_spec[OF this, of nd] k(2) show "\<exists>p'. alloc nd p = Some (replicate (block_size p) 0, p') \<and>
      pool_ok p' \<and> block_size p' = block_size p"
    by (auto simp: pool_ok_iff)
  fix b :: block
  assume "length b = block_size p"
  with free_spec[OF k(1), of b nd] k(2) show "pool_ok (free nd b p) \<and> block_size (free nd b p) = block_size p"
    by (metis pool_ok_iff)
qed

lemma pool_ok_new [inv_intros]: "0 < nodes \<Longrightarrow> pool_ok (pool_new nodes cap bs)"
  using pool_inv_new[of nodes cap bs] by (auto simp: pool_ok_iff) (simp add: pool_new_def)

lemma block_size_pool_new [simp]: "block_size (pool_new nodes cap bs) = bs"
  by (simp add: pool_new_def)

subsection \<open>Every history of the pool\<close>

text \<open>The states a pool of \<open>nodes\<close> queues goes through: any interleaving of allocations, returns of
  blocks of its size and capacity changes, on any node. The index counts the blocks handed out and not
  given back.\<close>

inductive pool_reach :: "nat \<Rightarrow> nat \<Rightarrow> int \<Rightarrow> MemoryPool \<Rightarrow> bool" for nodes bs where
  reach_new: "pool_reach nodes bs 0 (pool_new nodes cap bs)"
| reach_alloc: "pool_reach nodes bs n p \<Longrightarrow> alloc nd p = Some (b, p') \<Longrightarrow> pool_reach nodes bs (n + 1) p'"
| reach_free: "pool_reach nodes bs n p \<Longrightarrow> length b = bs \<Longrightarrow> pool_reach nodes bs (n - 1) (free nd b p)"
| reach_set: "pool_reach nodes bs n p \<Longrightarrow> set_capacity c p = Some p' \<Longrightarrow> pool_reach nodes bs n p'"

inductive_cases pool_reach_cases: "pool_reach nodes bs n p"

lemma set_capacity_ok:
  assumes "pool_ok p" "set_capacity c p = Some p'"
  shows "pool_ok p' \<and> pool_frame p p'"
proof -
  obtain k where k: "pool_inv k p" "0 < num_nodes p" using assms by (auto simp: pool_ok_iff)
  from set_capacity_spec[OF this, of c] assms(2) k(2) show ?thesis
    by (auto simp: pool_ok_iff pool_frame_def split: if_splits)
qed

lemma pool_reach_ok:
  "pool_reach nodes bs n p \<Longrightarrow> 0 < nodes \<Longrightarrow> pool_ok p \<and> block_size p = bs \<and> in_use p = of_int n"
proof (induction rule: pool_reach.induct)
  case (reach_new cap)
  then show ?case by (simp add: inv_intros) (simp add: pool_new_def)
next
  case (reach_alloc n p nd b p')
  then obtain k where "pool_inv k p" "0 < num_nodes p" by (auto simp: pool_ok_iff)
  from alloc_spec[OF this, of nd] reach_alloc pool.al_ok[of p nd] show ?case by auto
next
  case (reach_free n p b nd)
  then obtain k where "pool_inv k p" by (auto simp: pool_ok_iff)
  from free_spec[OF this, of b nd] pool.fr_ok[of p b nd] reach_free show ?case by auto
next
  case (reach_set n p c p')
  with set_capacity_ok[of p c p'] show ?case by (auto simp: pool_frame_def)
qed

subsection \<open>Configuration and manager\<close>

record OptimizeConfig =
  cfg_pool_capacity :: usize
  cfg_block_size :: nat
  cfg_enable_xdp :: bool

definition OptimizeConfig_default :: OptimizeConfig where
  "OptimizeConfig_default = \<lparr>cfg_pool_capacity = 1024, cfg_block_size = 4096, cfg_enable_xdp = False\<rparr>"

text \<open>The \<open>[optimize]\<close> section as deserialised: every field is optional. The TOML parser is a
  parameter.\<close>

record OptimizeSection =
  sec_pool_capacity :: "usize option"
  sec_block_size :: "nat option"
  sec_enable_xdp :: "bool option"

definition unwrap_or :: "'a option \<Rightarrow> 'a \<Rightarrow> 'a" where
  "unwrap_or x d = (case x of None \<Rightarrow> d | Some v \<Rightarrow> v)"

definition OptimizeConfig_from_toml ::
  "(string \<Rightarrow> string + OptimizeSection option) \<Rightarrow> string \<Rightarrow> string + OptimizeConfig" where
  "OptimizeConfig_from_toml parse s =
     (case parse s of
        Inl e \<Rightarrow> Inl e
      | Inr root \<Rightarrow>
          let sec = unwrap_or root \<lparr>sec_pool_capacity = None, sec_block_size = None, sec_enable_xdp = None\<rparr>
          in Inr \<lparr>cfg_pool_capacity = unwrap_or (sec_pool_capacity sec) 1024,
                  cfg_block_size = unwrap_or (sec_block_size sec) 4096,
                  cfg_enable_xdp = unwrap_or (sec_enable_xdp sec) False\<rparr>)"

definition OptimizeConfig_validate :: "OptimizeConfig \<Rightarrow> string + unit" where
  "OptimizeConfig_validate c =
     (if cfg_pool_capacity c = 0 then Inl ''pool_capacity must be > 0''
      else if cfg_block_size c = 0 then Inl ''block_size must be > 0''
      else Inr ())"

record OptimizationManager =
  memory_pool :: MemoryPool
  xdp_available :: bool
  use_xdp :: bool

text \<open>\<open>supported\<close> is the answer of \<open>XdpSocket::is_supported\<close>.\<close>

definition manager_new_with_config ::
  "nat \<Rightarrow> bool \<Rightarrow> usize \<Rightarrow> nat \<Rightarrow> bool \<Rightarrow> OptimizationManager" where
  "manager_new_with_config nodes supported cap bs enable_xdp =
     \<lparr>memory_pool = pool_new nodes cap bs, xdp_available = supported,
      use_xdp = (enable_xdp \<and> supported)\<rparr>"

definition manager_from_cfg :: "nat \<Rightarrow> bool \<Rightarrow> OptimizeConfig \<Rightarrow> OptimizationManager" where
  "manager_from_cfg nodes supported c =
     manager_new_with_config nodes supported (cfg_pool_capacity c) (cfg_block_size c) (cfg_enable_xdp c)"

definition manager_new :: "nat \<Rightarrow> bool \<Rightarrow> OptimizationManager" where
  "manager_new nodes supported = manager_new_with_config nodes supported 1024 4096 False"

definition alloc_block :: "nat \<Rightarrow> OptimizationManager \<Rightarrow> (block \<times> OptimizationManager) option" where
  "alloc_block nd m = do { (b, p) \<leftarrow> alloc nd (memory_pool m); Some (b, m\<lparr>memory_pool := p\<rparr>) }"

definition free_block :: "nat \<Rightarrow> block \<Rightarrow> OptimizationManager \<Rightarrow> OptimizationManager" where
  "free_block nd b m = m\<lparr>memory_pool := free nd b (memory_pool m)\<rparr>"

text \<open>\<open>create_xdp_socket\<close> with the two socket constructors as arguments: an AF\_XDP socket when the
  manager allows it, a plain UDP one when its creation fails.\<close>

definition create_xdp_socket :: "(unit \<Rightarrow> 'e + 's) \<Rightarrow> (unit \<Rightarrow> 'e + 's) \<Rightarrow> OptimizationManager \<Rightarrow> 's option" where
  "create_xdp_socket new_xdp new_udp m =
     (if \<not> xdp_available m \<or> \<not> use_xdp m then None
      else case new_xdp () of
             Inr sock \<Rightarrow> Some sock
           | Inl e \<Rightarrow> (case new_udp () of Inr sock \<Rightarrow> Some sock | Inl e \<Rightarrow> None))"

lemma unwrap_or_simps [simp]: "unwrap_or None d = d" "unwrap_or (Some v) d = v"
  by (simp_all add: unwrap_or_def)

subsection \<open>Properties\<close>

text \<open>C18: in every state that allocations, returns and capacity changes on any nodes can reach, an
  allocation succeeds and gives a block of the configured size whose bytes are all zero (nothing of an
  earlier use is visible), the free-block counter covers the queued blocks and is at most the capacity,
  and \<open>in_use\<close> is the number of blocks handed out and not given back.\<close>

theorem pool_alloc_zeroed:
  assumes "0 < nodes" "pool_reach nodes bs n p"
  shows "\<exists>p'. alloc nd p = Some (replicate bs 0, p') \<and> pool_reach nodes bs (n + 1) p' \<and>
           in_use p = of_int n \<and> queued p \<le> unat (available p) \<and> available p \<le> capacity p"
proof -
  have ok: "pool_ok p" "block_size p = bs" "in_use p = of_int n"
    using pool_reach_ok[OF assms(2,1)] by simp_all
  then obtain p' where "alloc nd p = Some (replicate bs 0, p')" using pool.al_ok[of p nd] by auto
  with reach_alloc[OF assms(2)] ok show ?thesis by (auto simp: pool_ok_def pool_inv_def)
qed

theorem pool_alloc_zeroed_witness:
  "\<exists>p'. alloc 0 (pool_new 1 2 4) = Some (replicate 4 0, p') \<and> pool_reach 1 4 (0 + 1) p' \<and>
        in_use (pool_new 1 2 4) = of_int 0 \<and> queued (pool_new 1 2 4) \<le> unat (available (pool_new 1 2 4)) \<and>
        available (pool_new 1 2 4) \<le> capacity (pool_new 1 2 4)"
  by (rule pool_alloc_zeroed) (simp_all add: reach_new)

text \<open>C23: lowering the capacity below what the queues can give up ends only if no phantom block was
  counted: with \<open>k\<close> phantom blocks the shrinking loop of \<open>set_capacity\<close> never returns exactly when more
  blocks are to be dropped than are queued and \<open>k\<close> is positive. When it returns, the invariant holds and
  the capacity is the requested one, or as low as the queues allowed.\<close>

theorem set_capacity_outcome:
  assumes "pool_inv k p" "0 < num_nodes p"
  shows "(set_capacity c p = None \<longleftrightarrow>
            c \<le> capacity p \<and> queued p < unat (capacity p) - unat c \<and> 0 < k) \<and>
         (case set_capacity c p of None \<Rightarrow> True
          | Some p' \<Rightarrow> pool_inv k p' \<and> in_use p' = in_use p \<and>
              unat (capacity p') = max (unat c) (unat (capacity p) - queued p))"
proof -
  from set_capacity_spec[OF assms, of c] obtain p' where p': "pool_inv k p'" "pool_frame p p'"
    "set_capacity c p = (if capacity p < c \<or> unat (capacity p) - unat c \<le> queued p \<or> k = 0
       then Some p' else None)"
    "unat (capacity p') = (if capacity p < c then unat c
       else unat (capacity p) - min (unat (capacity p) - unat c) (queued p))" by blast
  have "capacity p < c \<longleftrightarrow> unat (capacity p) < unat c" by (simp add: word_less_nat_alt)
  with p' show ?thesis
    by (auto simp: pool_frame_def not_less word_le_nat_alt min_def max_def split: if_splits)
qed

definition phantom_pool :: MemoryPool where
  "phantom_pool = free 5 [0, 0] (snd (the (alloc 0 (pool_new 1 2 2))))"

theorem set_capacity_outcome_witness:
  "pool_inv 1 phantom_pool \<and> 0 < num_nodes phantom_pool \<and> set_capacity 0 phantom_pool = None"
proof -
  have "pool_inv 1 phantom_pool" "0 < num_nodes phantom_pool" by code_simp+
  moreover have "0 \<le> capacity phantom_pool \<and>
      queued phantom_pool < unat (capacity phantom_pool) - unat (0 :: usize) \<and> 0 < (1 :: nat)"
    by code_simp
  ultimately show ?thesis using set_capacity_outcome[of 1 phantom_pool 0] by blast
qed

end
