(* ===== verification/Packet.thy ===== *)
theory Packet
  imports Memory_Pool
begin

text \<open>
  The FEC packet and its wire framing (\<open>src/src/fec/encoder.rs\<close>).

  A packet owns one pool block for its data and possibly one for its coding coefficients; both are
  longer than the bytes in use, whose numbers are \<open>len\<close> and \<open>coeff_len\<close>. The pool behind the
  \<open>mem_pool\<close> reference is threaded through every operation that takes or returns blocks.
  \<open>frame\<close> and \<open>parse_frame\<close> are the wire format by itself; \<open>to_raw\<close>, \<open>from_raw\<close> and \<open>from_block\<close>
  are shown to implement them. Several places of the code build a \<open>Packet\<close> without naming
  \<open>coeff_len\<close>; the model gives it the value 0 there.
\<close>

record Packet =
  pid :: u64
  data :: "block option"
  len :: nat
  is_systematic :: bool
  coefficients :: "block option"
  coeff_len :: nat

text \<open>The errors of quiche.\<close>

datatype QuicheError = Done | BufferTooShort | UnknownVersion | InvalidFrame | InvalidPacket | InvalidState
  | InvalidStreamState u64 | InvalidTransportParam | CryptoFail | TlsFail | FlowControl | StreamLimit
  | StreamStopped u64 | StreamReset u64 | FinalSize | CongestionControl | IdLimit | OutOfIdentifiers | KeyUpdate
  | CryptoBufferExceeded | InvalidAckRange | OptimisticAckDetected

definition from_raw ::
  "nat \<Rightarrow> u64 \<Rightarrow> bytes \<Rightarrow> MemoryPool \<Rightarrow> ((string + Packet) \<times> MemoryPool) option" where
  "from_raw nd i raw_data p =
     (if raw_data = [] then Some (Inl ''Raw data is empty'', p)
      else do {
        b0 \<leftarrow> idx raw_data 0;
        let sys = (b0 = 1);
        (r, p) \<leftarrow>
          (if \<not> sys
           then if length raw_data < 3
                then Some (Inl ''Buffer too short for coefficient length'', p)
                else do {
                  hi \<leftarrow> idx raw_data 1;
                  lo \<leftarrow> idx raw_data 2;
                  let cl = unat (u16_from_be_bytes hi lo);
                  if length raw_data < 3 + cl
                  then Some (Inl ''Buffer too short for coefficients'', p)
                  else do {
                    src \<leftarrow> slice raw_data 3 (3 + cl);
                    (cb, p) \<leftarrow> alloc_filled (alloc nd) cl src p;
                    Some (Inr (Some cb, cl, 3 + cl), p) } }
           else Some (Inr (None, 0, 1), p));
        case r of
          Inl e \<Rightarrow> Some (Inl e, p)
        | Inr (cs, cl, off) \<Rightarrow> do {
            payload \<leftarrow> slice raw_data off (length raw_data);
            (d, p) \<leftarrow> alloc nd p;
            if length d < length payload then Some (Inl ''Buffer from pool is too small'', p)
            else do {
              d \<leftarrow> copy_at d 0 (length payload) payload;
              Some (Inr \<lparr>pid = i, data = Some d, len = length payload, is_systematic = sys,
                         coefficients = cs, coeff_len = cl\<rparr>, p) } } })"

definition from_block ::
  "nat \<Rightarrow> u64 \<Rightarrow> block \<Rightarrow> nat \<Rightarrow> MemoryPool \<Rightarrow> ((string + Packet) \<times> MemoryPool) option" where
  "from_block nd i b n p =
     (if n = 0 \<or> length b < n then Some (Inl ''Invalid raw packet length'', free nd b p)
      else do {
        b0 \<leftarrow> idx b 0;
        let sys = (b0 = 1);
        (r, p) \<leftarrow>
          (if \<not> sys
           then if n < 3
                then Some (Inl ''Buffer too short for coefficient length'', free nd b p)
                else do {
                  hi \<leftarrow> idx b 1;
                  lo \<leftarrow> idx b 2;
                  let cl = unat (u16_from_be_bytes hi lo);
                  if n < 3 + cl
                  then Some (Inl ''Buffer too short for coefficients'', free nd b p)
                  else do {
                    src \<leftarrow> slice b 3 (3 + cl);
                    (cb, p) \<leftarrow> alloc_filled (alloc nd) cl src p;
                    Some (Inr (Some cb, cl, 3 + cl), p) } }
           else Some (Inr (None, 0, 1), p));
        case r of
          Inl e \<Rightarrow> Some (Inl e, p)
        | Inr (cs, cl, off) \<Rightarrow> do {
            moved \<leftarrow> slice b off n;
            b \<leftarrow> copy_at b 0 (n - off) moved;
            Some (Inr \<lparr>pid = i, data = Some b, len = n - off, is_systematic = sys,
                       coefficients = cs, coeff_len = cl\<rparr>, p) } })"

definition to_raw :: "Packet \<Rightarrow> bytes \<Rightarrow> ((QuicheError + nat) \<times> bytes) option" where
  "to_raw pk buffer =
     (let required_len = len pk + 1 + (if coefficients pk = None then 0 else 2 + coeff_len pk)
      in if length buffer < required_len then Some (Inl BufferTooShort, buffer)
         else do {
           buffer \<leftarrow> set_idx buffer 0 (if is_systematic pk then 1 else 0);
           (offset, buffer) \<leftarrow>
             (case coefficients pk of
                None \<Rightarrow> Some (1, buffer)
              | Some coeffs \<Rightarrow> do {
                  buffer \<leftarrow> copy_at buffer 1 3 (u16_to_be_bytes (of_nat (coeff_len pk)));
                  src \<leftarrow> slice coeffs 0 (coeff_len pk);
                  buffer \<leftarrow> copy_at buffer 3 (3 + coeff_len pk) src;
                  Some (3 + coeff_len pk, buffer) });
           buffer \<leftarrow>
             (case data pk of
                None \<Rightarrow> Some buffer
              | Some d \<Rightarrow> do {
                  src \<leftarrow> slice d 0 (len pk);
                  copy_at buffer offset (offset + len pk) src });
           Some (Inr (offset + len pk), buffer) })"

definition clone_for_encoder :: "nat \<Rightarrow> Packet \<Rightarrow> MemoryPool \<Rightarrow> (Packet \<times> MemoryPool) option" where
  "clone_for_encoder nd pk p = do {
     (new_data, p) \<leftarrow> alloc nd p;
     new_data \<leftarrow> (case data pk of
                   None \<Rightarrow> Some new_data
                 | Some d \<Rightarrow> do { src \<leftarrow> slice d 0 (len pk); copy_at new_data 0 (len pk) src });
     (cs, p) \<leftarrow> (case coefficients pk of
                   None \<Rightarrow> Some (None, p)
                 | Some c \<Rightarrow> do {
                     (nb, p) \<leftarrow> alloc nd p;
                     src \<leftarrow> slice c 0 (coeff_len pk);
                     nb \<leftarrow> copy_at nb 0 (coeff_len pk) src;
                     Some (Some nb, p) });
     Some (\<lparr>pid = pid pk, data = Some new_data, len = len pk, is_systematic = is_systematic pk,
            coefficients = cs, coeff_len = coeff_len pk\<rparr>, p) }"

text \<open>\<open>Drop for Packet\<close>: both blocks go back to the pool.\<close>

definition free_opt :: "nat \<Rightarrow> block option \<Rightarrow> MemoryPool \<Rightarrow> MemoryPool" where
  "free_opt nd b p = (case b of None \<Rightarrow> p | Some b \<Rightarrow> free nd b p)"

definition drop_packet :: "nat \<Rightarrow> Packet \<Rightarrow> MemoryPool \<Rightarrow> MemoryPool" where
  "drop_packet nd pk p = free_opt nd (coefficients pk) (free_opt nd (data pk) p)"

subsection \<open>The wire format\<close>

text \<open>The content of a packet: the systematic flag, the coefficients and the payload.\<close>

record view =
  v_systematic :: bool
  v_coeffs :: "bytes option"
  v_payload :: bytes

definition packet_view :: "Packet \<Rightarrow> view" where
  "packet_view pk =
     \<lparr>v_systematic = is_systematic pk,
      v_coeffs = map_option (take (coeff_len pk)) (coefficients pk),
      v_payload = (case data pk of None \<Rightarrow> [] | Some d \<Rightarrow> take (len pk) d)\<rparr>"

definition frame :: "view \<Rightarrow> bytes" where
  "frame v = (if v_systematic v then 1 else 0) #
     (case v_coeffs v of None \<Rightarrow> [] | Some c \<Rightarrow> u16_to_be_bytes (of_nat (length c)) @ c) @ v_payload v"

definition parse_frame :: "bytes \<Rightarrow> string + view" where
  "parse_frame raw =
     (if raw = [] then Inl ''Raw data is empty''
      else if raw ! 0 = 1 then Inr \<lparr>v_systematic = True, v_coeffs = None, v_payload = drop 1 raw\<rparr>
      else if length raw < 3 then Inl ''Buffer too short for coefficient length''
      else let cl = unat (u16_from_be_bytes (raw ! 1) (raw ! 2))
           in if length raw < 3 + cl then Inl ''Buffer too short for coefficients''
              else Inr \<lparr>v_systematic = False, v_coeffs = Some (take cl (drop 3 raw)),
                        v_payload = drop (3 + cl) raw\<rparr>)"

text \<open>Contents the format can carry: coefficients come with repair packets only, and their number fits
  the 16-bit length field.\<close>

definition view_ok :: "view \<Rightarrow> bool" where
  "view_ok v \<longleftrightarrow> (v_systematic v \<longleftrightarrow> v_coeffs v = None) \<and>
     (case v_coeffs v of None \<Rightarrow> True | Some c \<Rightarrow> length c < 65536)"

lemma parse_frame_frame: "view_ok v \<Longrightarrow> parse_frame (frame v) = Inr v"
proof (cases "v_coeffs v")
  case None
  assume "view_ok v"
  with None show ?thesis by (cases v) (auto simp: view_ok_def parse_frame_def frame_def)
next
  case (Some c)
  assume ok: "view_ok v"
  have cl: "unat (of_nat (length c) :: u16) = length c"
    using ok Some by (simp add: view_ok_def unsigned_of_nat take_bit_nat_eq_self)
  obtain hi lo where hl: "u16_to_be_bytes (of_nat (length c)) = [hi, lo]"
    by (simp add: u16_to_be_bytes_def)
  then have "u16_from_be_bytes hi lo = of_nat (length c)"
    using u16_be_roundtrip[of "of_nat (length c)"] by simp
  with ok Some hl cl show ?thesis
    by (cases v) (auto simp: view_ok_def parse_frame_def frame_def Let_def numeral_3_eq_3)
qed

subsection \<open>The operations implement the format\<close>

definition blk_ok :: "nat \<Rightarrow> nat \<Rightarrow> block option \<Rightarrow> bool" where
  "blk_ok bs n b = (case b of None \<Rightarrow> True | Some d \<Rightarrow> length d = bs \<and> n \<le> bs)"

definition packet_ok :: "nat \<Rightarrow> Packet \<Rightarrow> bool" where
  "packet_ok bs pk \<longleftrightarrow> blk_ok bs (len pk) (data pk) \<and> blk_ok bs (coeff_len pk) (coefficients pk)"

lemma blk_ok_simps [simp]: "blk_ok bs n None" "blk_ok bs n (Some d) \<longleftrightarrow> length d = bs \<and> n \<le> bs"
  by (simp_all add: blk_ok_def)

lemma free_opt_ok [inv_intros]:
  "pool_ok p \<Longrightarrow> blk_ok (block_size p) n b \<Longrightarrow> pool_ok (free_opt nd b p) \<and> block_size (free_opt nd b p) = block_size p"
  using pool.fr_ok by (cases b) (auto simp: free_opt_def)

lemma drop_packet_ok [inv_intros]:
  "pool_ok p \<Longrightarrow> packet_ok (block_size p) pk \<Longrightarrow>
   pool_ok (drop_packet nd pk p) \<and> block_size (drop_packet nd pk p) = block_size p"
  using free_opt_ok[of p "len pk" "data pk" nd]
    free_opt_ok[of "free_opt nd (data pk) p" "coeff_len pk" "coefficients pk" nd]
  by (simp add: drop_packet_def packet_ok_def)

lemma parse_frame_repairE:
  assumes "parse_frame raw = Inr v" "raw ! 0 \<noteq> 1"
  obtains cl where "cl = unat (u16_from_be_bytes (raw ! Suc 0) (raw ! 2))" "raw \<noteq> []" "3 + cl \<le> length raw"
    "v = \<lparr>v_systematic = False, v_coeffs = Some (take cl (drop 3 raw)), v_payload = drop (3 + cl) raw\<rparr>"
  using assms by (auto simp: parse_frame_def Let_def split: if_splits)

text \<open>Reading a frame whose parts fit the blocks of the pool gives a packet with that content.\<close>

lemma from_raw_error:
  "parse_frame raw = Inl e \<Longrightarrow> from_raw nd i raw p = Some (Inl e, p)"
  by (auto simp: parse_frame_def from_raw_def idx_def Let_def split: if_splits)

lemma from_raw_ok:
  assumes "pool_ok p" "parse_frame raw = Inr v" "length (v_payload v) \<le> block_size p"
    "case v_coeffs v of None \<Rightarrow> True | Some c \<Rightarrow> length c \<le> block_size p"
  shows "\<exists>pk p'. from_raw nd i raw p = Some (Inr pk, p') \<and> packet_view pk = v \<and> pid pk = i \<and>
           packet_ok (block_size p) pk \<and> data pk \<noteq> None \<and> pool_ok p' \<and> block_size p' = block_size p"
proof (cases "raw ! 0 = 1")
  case True
  with assms pool.al_ok[OF assms(1), of nd] show ?thesis
    by (auto simp: parse_frame_def from_raw_def exec_simps Suc_le_eq packet_view_def packet_ok_def split: if_splits)
next
  case False
  from parse_frame_repairE[OF assms(2) this] obtain cl where
    cl_def: "cl = unat (u16_from_be_bytes (raw ! Suc 0) (raw ! 2))" and v: "raw \<noteq> []" "3 + cl \<le> length raw"
    "v = \<lparr>v_systematic = False, v_coeffs = Some (take cl (drop 3 raw)), v_payload = drop (3 + cl) raw\<rparr>" .
  have cl: "cl \<le> block_size p" "length (take cl (drop 3 raw)) = cl" using assms(4) v by auto
  obtain p1 where p1: "alloc_filled (alloc nd) cl (take cl (drop 3 raw)) p =
      Some (take cl (drop 3 raw) @ replicate (block_size p - cl) 0, p1)" "pool_ok p1" "block_size p1 = block_size p"
    using pool.alloc_filled_ok[OF assms(1) cl(2,1), of nd] by blast
  with pool.al_ok[of p1 nd] False v cl assms(3) show ?thesis
    by (auto simp: from_raw_def exec_simps Let_def cl_def[symmetric] packet_view_def packet_ok_def)
qed

lemma from_raw_panic:
  "pool_ok p \<Longrightarrow> parse_frame raw = Inr v \<Longrightarrow> v_coeffs v = Some c \<Longrightarrow> block_size p < length c \<Longrightarrow>
   from_raw nd i raw p = None"
  using pool.alloc_filled_panic[of p "length c" c nd]
  by (auto simp: parse_frame_def from_raw_def exec_simps Let_def split: if_splits)

lemma from_raw_too_small:
  assumes "pool_ok p" "parse_frame raw = Inr v" "block_size p < length (v_payload v)"
    "case v_coeffs v of None \<Rightarrow> True | Some c \<Rightarrow> length c \<le> block_size p"
  shows "\<exists>p'. from_raw nd i raw p = Some (Inl ''Buffer from pool is too small'', p') \<and>
           pool_ok p' \<and> block_size p' = block_size p"
proof (cases "raw ! 0 = 1")
  case True
  with assms pool.al_ok[OF assms(1), of nd] show ?thesis
    by (auto simp: parse_frame_def from_raw_def exec_simps Suc_le_eq split: if_splits)
next
  case False
  from parse_frame_repairE[OF assms(2) this] obtain cl where
    cl_def: "cl = unat (u16_from_be_bytes (raw ! Suc 0) (raw ! 2))" and v: "raw \<noteq> []" "3 + cl \<le> length raw"
    "v = \<lparr>v_systematic = False, v_coeffs = Some (take cl (drop 3 raw)), v_payload = drop (3 + cl) raw\<rparr>" .
  have cl: "cl \<le> block_size p" "length (take cl (drop 3 raw)) = cl" using assms(4) v by auto
  obtain b p1 where p1: "alloc_filled (alloc nd) cl (take cl (drop 3 raw)) p = Some (b, p1)"
      "pool_ok p1" "block_size p1 = block_size p"
    using pool.alloc_filled_ok[OF assms(1) cl(2,1), of nd] by blast
  with pool.al_ok[of p1 nd] False v cl assms(3) show ?thesis
    by (auto simp: from_raw_def exec_simps Let_def cl_def[symmetric])
qed

lemma length_frame_view:
  assumes "packet_ok bs pk" "data pk \<noteq> None"
  shows "length (frame (packet_view pk)) =
           len pk + 1 + (if coefficients pk = None then 0 else 2 + coeff_len pk)"
  using assms by (auto simp: frame_def packet_view_def packet_ok_def split: option.splits)

lemma to_raw_short:
  "packet_ok bs pk \<Longrightarrow> data pk \<noteq> None \<Longrightarrow> length buffer < length (frame (packet_view pk)) \<Longrightarrow>
   to_raw pk buffer = Some (Inl BufferTooShort, buffer)"
  by (simp add: to_raw_def length_frame_view)

lemma copy_at_at:
  "length xs = a \<Longrightarrow> length src = n \<Longrightarrow> a + n \<le> length xs + length ys \<Longrightarrow>
   copy_at (xs @ ys) a (a + n) src = Some ((xs @ src) @ drop n ys)"
  by (simp add: copy_at_def)

lemma to_raw_frame:
  assumes ok: "packet_ok bs pk" "data pk = Some d" and len: "length (frame (packet_view pk)) \<le> length buffer"
  shows "to_raw pk buffer = Some (Inr (length (frame (packet_view pk))),
           frame (packet_view pk) @ drop (length (frame (packet_view pk))) buffer)"
proof -
  obtain x xs where b: "buffer = x # xs" using len by (cases buffer) (simp_all add: frame_def)
  define fl :: u8 where "fl = (if is_systematic pk then 1 else 0)"
  have d: "slice d 0 (len pk) = Some (take (len pk) d)" "length (take (len pk) d) = len pk"
    using ok by (simp_all add: packet_ok_def exec_simps)
  note lf = length_frame_view[OF ok(1)]
  show ?thesis
  proof (cases "coefficients pk")
    case None
    then show ?thesis
      using copy_at_at[of "[fl]" 1 "take (len pk) d" "len pk" xs] len lf ok d b
      by (simp add: to_raw_def exec_simps frame_def packet_view_def fl_def[symmetric])
  next
    case (Some c)
    have c: "slice c 0 (coeff_len pk) = Some (take (coeff_len pk) c)" "length (take (coeff_len pk) c) = coeff_len pk"
      using ok Some by (simp_all add: packet_ok_def exec_simps)
    obtain hi lo where lb: "u16_to_be_bytes (of_nat (coeff_len pk)) = [hi, lo]"
      by (simp add: u16_to_be_bytes_def)
    define C D where "C = take (coeff_len pk) c" and "D = take (len pk) d"
    have CD: "length C = coeff_len pk" "length D = len pk" using c d by (simp_all add: C_def D_def)
    have xs: "2 + coeff_len pk + len pk \<le> length xs" using len lf ok Some b by simp
    have s1: "copy_at (fl # xs) 1 3 [hi, lo] = Some (fl # hi # lo # drop 2 xs)"
      using xs by (simp add: copy_at_def numeral_3_eq_3 numeral_2_eq_2)
    have s2: "copy_at (fl # hi # lo # drop 2 xs) 3 (3 + coeff_len pk) C =
        Some (fl # hi # lo # C @ drop (2 + coeff_len pk) xs)"
      using xs CD by (simp add: copy_at_def numeral_3_eq_3)
    have s3: "copy_at (fl # hi # lo # C @ drop (2 + coeff_len pk) xs) (3 + coeff_len pk)
        (3 + coeff_len pk + len pk) D = Some (fl # hi # lo # C @ D @ drop (2 + coeff_len pk + len pk) xs)"
      using xs CD by (simp add: copy_at_def numeral_3_eq_3 add.commute)
    have "to_raw pk buffer = Some (Inr (3 + coeff_len pk + len pk),
        fl # hi # lo # C @ D @ drop (2 + coeff_len pk + len pk) xs)"
      using ok Some b c(1) d(1) len s1 s2 s3
      by (simp add: to_raw_def lf exec_simps lb fl_def[symmetric] C_def[symmetric] D_def[symmetric])
    moreover have "frame (packet_view pk) = fl # hi # lo # C @ D"
      using ok Some c(2) lb by (simp add: frame_def packet_view_def fl_def C_def D_def)
    ultimately show ?thesis using b CD by (simp add: ac_simps)
  qed
qed

lemma from_block_error:
  "0 < n \<Longrightarrow> n \<le> length b \<Longrightarrow> parse_frame (take n b) = Inl e \<Longrightarrow>
   from_block nd i b n p = Some (Inl e, free nd b p)"
  by (auto simp: parse_frame_def from_block_def idx_def Let_def split: if_splits)

lemma from_block_ok:
  assumes "pool_ok p" "0 < n" "n \<le> length b" "length b = block_size p" "parse_frame (take n b) = Inr v"
  shows "\<exists>pk p'. from_block nd i b n p = Some (Inr pk, p') \<and> packet_view pk = v \<and> pid pk = i \<and>
           packet_ok (block_size p) pk \<and> data pk \<noteq> None \<and> pool_ok p' \<and> block_size p' = block_size p"
proof (cases "b ! 0 = 1")
  case True
  with assms show ?thesis
    by (auto simp: parse_frame_def from_block_def exec_simps Suc_le_eq packet_view_def packet_ok_def drop_take
        split: if_splits)
next
  case False
  then have "take n b ! 0 \<noteq> 1" using assms(2) by simp
  from parse_frame_repairE[OF assms(5) this] obtain cl where
    cl: "cl = unat (u16_from_be_bytes (take n b ! Suc 0) (take n b ! 2))" "3 + cl \<le> length (take n b)"
    and v: "v = \<lparr>v_systematic = False, v_coeffs = Some (take cl (drop 3 (take n b))),
                 v_payload = drop (3 + cl) (take n b)\<rparr>" .
  have n: "3 + cl \<le> n" "b \<noteq> []" using cl(2) by auto
  have cl_def: "cl = unat (u16_from_be_bytes (b ! Suc 0) (b ! 2))"
    and C: "take cl (drop 3 (take n b)) = take cl (drop 3 b)" "length (take cl (drop 3 b)) = cl"
    using cl(1) n assms(3) by (simp_all add: drop_take)
  obtain p1 where "alloc_filled (alloc nd) cl (take cl (drop 3 b)) p =
      Some (take cl (drop 3 b) @ replicate (block_size p - cl) 0, p1)" "pool_ok p1" "block_size p1 = block_size p"
    using pool.alloc_filled_ok[OF assms(1) C(2), of nd] assms(3,4) n by auto
  moreover have "slice b 3 (3 + cl) = Some (take cl (drop 3 b))"
    using n assms(3) by (simp add: exec_simps)
  moreover define P where "P = take (n - (3 + cl)) (drop (3 + cl) b)"
  moreover have "slice b (3 + cl) n = Some P"
    using n assms(3) by (simp add: exec_simps P_def)
  moreover have "copy_at b 0 (n - (3 + cl)) P = Some (P @ drop (n - (3 + cl)) b)" "length P = n - (3 + cl)"
    using assms(3) by (simp_all add: copy_at_def P_def)
  ultimately have "from_block nd i b n p =
      Some (Inr \<lparr>pid = i, data = Some (P @ drop (n - (3 + cl)) b), len = n - (3 + cl), is_systematic = False,
        coefficients = Some (take cl (drop 3 b) @ replicate (block_size p - cl) 0), coeff_len = cl\<rparr>, p1)"
    "pool_ok p1" "block_size p1 = block_size p" "length P = n - (3 + cl)"
    using False n assms(2,3) by (simp_all add: from_block_def Let_def idx_def flip: cl_def)
  moreover have "v_payload v = P" by (simp add: v P_def drop_take)
  ultimately show ?thesis
    using C v n assms(3,4) by (simp add: packet_view_def packet_ok_def)
qed

lemma clone_for_encoder_ok:
  assumes "pool_ok p" "packet_ok (block_size p) pk" "data pk = Some d"
  shows "\<exists>pk' p'. clone_for_encoder nd pk p = Some (pk', p') \<and> packet_view pk' = packet_view pk \<and>
           pid pk' = pid pk \<and> len pk' = len pk \<and> coeff_len pk' = coeff_len pk \<and>
           packet_ok (block_size p) pk' \<and> data pk' \<noteq> None \<and> pool_ok p' \<and> block_size p' = block_size p"
proof -
  obtain p1 where p1: "alloc nd p = Some (replicate (block_size p) 0, p1)" "pool_ok p1" "block_size p1 = block_size p"
    using pool.al_ok[OF assms(1), of nd] by auto
  obtain p2 where p2: "alloc nd p1 = Some (replicate (block_size p) 0, p2)" "pool_ok p2" "block_size p2 = block_size p"
    using pool.al_ok[OF p1(2), of nd] p1 by auto
  show ?thesis
    using assms p1 p2
    by (cases "coefficients pk")
       (auto simp: clone_for_encoder_def packet_ok_def packet_view_def exec_simps)
qed

subsection \<open>Properties\<close>

text \<open>C3: what \<open>to_raw\<close> writes, \<open>from_raw\<close> reads back. For a packet whose blocks come from the pool, with
  coefficients exactly when it is a repair packet and fewer than 65536 of them, serialising into any
  large enough buffer returns the number of bytes written and leaves the rest of the buffer alone, and
  deserialising those bytes gives a packet with the same flag, coefficients, payload and lengths.\<close>

theorem packet_roundtrip:
  assumes "pool_ok p" "packet_ok (block_size p) pk" "data pk \<noteq> None" "view_ok (packet_view pk)"
    "length (frame (packet_view pk)) \<le> length buffer"
  shows "\<exists>n buffer' pk' p'. to_raw pk buffer = Some (Inr n, buffer') \<and>
           drop n buffer' = drop n buffer \<and> length buffer' = length buffer \<and>
           from_raw nd (pid pk) (take n buffer') p = Some (Inr pk', p') \<and>
           packet_view pk' = packet_view pk \<and> pid pk' = pid pk \<and> pool_ok p'"
proof -
  let ?v = "packet_view pk"
  obtain d where d: "data pk = Some d" using assms(3) by auto
  have "length (v_payload ?v) \<le> block_size p"
    "case v_coeffs ?v of None \<Rightarrow> True | Some c \<Rightarrow> length c \<le> block_size p"
    using assms(2) d by (auto simp: packet_view_def packet_ok_def split: option.splits)
  from from_raw_ok[OF assms(1) parse_frame_frame[OF assms(4)] this, of nd "pid pk"]
  show ?thesis using to_raw_frame[OF assms(2) d assms(5)] assms(5) by auto
qed

definition sample_repair :: Packet where
  "sample_repair = \<lparr>pid = 7, data = Some [10, 11, 12, 0], len = 3, is_systematic = False,
                    coefficients = Some [5, 6, 0, 0], coeff_len = 2\<rparr>"

theorem packet_roundtrip_witness:
  "\<exists>n buffer' pk' p'. to_raw sample_repair (replicate 10 9) = Some (Inr n, buffer') \<and>
     drop n buffer' = drop n (replicate 10 9) \<and> length buffer' = length (replicate 10 (9 :: u8)) \<and>
     from_raw 0 (pid sample_repair) (take n buffer') (pool_new 1 2 4) = Some (Inr pk', p') \<and>
     packet_view pk' = packet_view sample_repair \<and> pid pk' = pid sample_repair \<and> pool_ok p'"
  by (rule packet_roundtrip)
     (simp_all add: pool_ok_new packet_ok_def view_ok_def packet_view_def frame_def sample_repair_def)

text \<open>C4: \<open>from_block\<close>, the in-place variant that the receive path uses, on every block of the pool and every
  length. It never panics. A length of zero or beyond the block is refused with a message of its own
  (\<open>from_raw\<close> says of an empty frame that it is empty); otherwise it agrees with the wire format: a malformed frame is
  reported with the same message as \<open>from_raw\<close>, and a well-formed one gives the packet that \<open>parse_frame\<close>
  describes, with the given number. On every error the block goes back to the pool.\<close>

theorem from_block_refines:
  assumes "pool_ok p" "length b = block_size p"
  shows "if n = 0 \<or> length b < n
         then from_block nd i b n p = Some (Inl ''Invalid raw packet length'', free nd b p) \<and> pool_ok (free nd b p) \<and>
              from_raw nd i [] p = Some (Inl ''Raw data is empty'', p)
         else case parse_frame (take n b) of
           Inl e \<Rightarrow> from_block nd i b n p = Some (Inl e, free nd b p) \<and> pool_ok (free nd b p) \<and>
                    from_raw nd i (take n b) p = Some (Inl e, p)
         | Inr v \<Rightarrow> (\<exists>pk p' pk2 p2. from_block nd i b n p = Some (Inr pk, p') \<and> packet_view pk = v \<and> pid pk = i \<and>
                       packet_ok (block_size p) pk \<and> pool_ok p' \<and>
                       from_raw nd i (take n b) p = Some (Inr pk2, p2) \<and> packet_view pk2 = v \<and> pid pk2 = i)"
proof (cases "n = 0 \<or> length b < n")
  case True
  then show ?thesis using pool.fr_ok[OF assms, of nd] by (simp add: from_block_def from_raw_error parse_frame_def)
next
  case False
  then have n: "0 < n" "n \<le> length b" by simp_all
  show ?thesis
  proof (cases "parse_frame (take n b)")
    case (Inl e)
    with False show ?thesis using from_block_error[OF n] from_raw_error pool.fr_ok[OF assms, of nd] by simp
  next
    case (Inr v)
    have "length (v_payload v) \<le> block_size p"
      "case v_coeffs v of None \<Rightarrow> True | Some c \<Rightarrow> length c \<le> block_size p"
      using Inr assms(2) n by (auto simp: parse_frame_def Let_def split: if_splits)
    from from_raw_ok[OF assms(1) Inr this, of nd i] from_block_ok[OF assms(1) n assms(2) Inr, of nd i]
    show ?thesis using Inr False by auto
  qed
qed

theorem from_block_refines_witness:
  "\<exists>pk p' pk2 p2. from_block 0 1 [1, 2, 3, 4] 3 (pool_new 1 2 4) = Some (Inr pk, p') \<and>
     packet_view pk = \<lparr>v_systematic = True, v_coeffs = None, v_payload = [2, 3]\<rparr> \<and>
     pid pk = 1 \<and> packet_ok 4 pk \<and> pool_ok p' \<and>
     from_raw 0 1 [1, 2, 3] (pool_new 1 2 4) = Some (Inr pk2, p2) \<and>
     packet_view pk2 = \<lparr>v_systematic = True, v_coeffs = None, v_payload = [2, 3]\<rparr> \<and> pid pk2 = 1"
proof -
  have "parse_frame (take 3 [1, 2, 3, 4]) = Inr \<lparr>v_systematic = True, v_coeffs = None, v_payload = [2, 3]\<rparr>"
    by (simp add: parse_frame_def)
  with from_block_refines[of "pool_new 1 2 4" "[1, 2, 3, 4]" 3 0 1] show ?thesis
    by (simp add: pool_ok_new)
qed

text \<open>\<open>from_raw\<close> on every input: malformed frames are errors and leave the pool alone, a payload
  larger than a block is an error, a frame that fits gives a packet, and the only inputs on which it
  panics are frames that announce (and contain) more coefficients than a block holds.\<close>

lemma from_raw_outcome:
  assumes "pool_ok p"
  shows "case parse_frame raw of
           Inl e \<Rightarrow> from_raw nd i raw p = Some (Inl e, p)
         | Inr v \<Rightarrow>
             if (case v_coeffs v of None \<Rightarrow> False | Some c \<Rightarrow> block_size p < length c)
             then from_raw nd i raw p = None
             else if block_size p < length (v_payload v)
             then \<exists>p'. from_raw nd i raw p = Some (Inl ''Buffer from pool is too small'', p') \<and> pool_ok p'
             else \<exists>pk p'. from_raw nd i raw p = Some (Inr pk, p') \<and> packet_view pk = v \<and> pool_ok p'"
proof (cases "parse_frame raw")
  case (Inl e)
  then show ?thesis using from_raw_error by simp
next
  case (Inr v)
  show ?thesis
    using from_raw_panic[OF assms Inr, of _ nd i] from_raw_too_small[OF assms Inr, of nd i]
      from_raw_ok[OF assms Inr, of nd i] Inr
    by (cases "v_coeffs v") (auto simp: not_less)
qed

end
