(* ===== verification/Cpu_Dispatch.thy ===== *)
theory Cpu_Dispatch
  imports Prelude
begin

text \<open>
  CPU feature detection and SIMD dispatch (\<open>src/src/optimize.rs\<close>, lines 186 to 408).

  The detector is the hash map it keeps: a feature that was never inserted reads as absent. What the
  \<open>cpufeatures\<close> crate reports is a parameter (\<open>x86_info\<close>, \<open>arm_info\<close>). \<open>dispatch\<close> and
  \<open>dispatch_bitslice\<close> hand one policy value to a closure, so the model returns the policy and the
  callers branch on it.
\<close>

datatype CpuFeature = AVX | AVX2 | SSE2 | AVX512F | AVX512BW | AVX512VBMI | VAES | AESNI
  | PCLMULQDQ | NEON

type_synonym FeatureDetector = "CpuFeature \<rightharpoonup> bool"

datatype SimdPolicy = Avx512 | Avx2 | Sse2 | Pclmulqdq | Neon | Scalar

record x86_info =
  has_avx :: bool
  has_avx2 :: bool
  has_sse2 :: bool
  has_avx512f :: bool
  has_avx512bw :: bool
  has_avx512vbmi :: bool
  has_vaes :: bool
  has_aes :: bool
  has_pclmulqdq :: bool

record arm_info =
  has_neon :: bool
  has_arm_aes :: bool
  has_pmull :: bool

definition detect_x86 :: "x86_info \<Rightarrow> FeatureDetector" where
  "detect_x86 info =
     [AVX \<mapsto> has_avx info, AVX2 \<mapsto> has_avx2 info, SSE2 \<mapsto> has_sse2 info,
      AVX512F \<mapsto> has_avx512f info \<and> has_avx512bw info, AVX512BW \<mapsto> has_avx512bw info,
      AVX512VBMI \<mapsto> has_avx512vbmi info, VAES \<mapsto> has_vaes info, AESNI \<mapsto> has_aes info,
      PCLMULQDQ \<mapsto> has_pclmulqdq info]"

definition detect_arm :: "arm_info \<Rightarrow> FeatureDetector" where
  "detect_arm info = [NEON \<mapsto> has_neon info, AESNI \<mapsto> has_arm_aes info, PCLMULQDQ \<mapsto> has_pmull info]"

definition has_feature :: "FeatureDetector \<Rightarrow> CpuFeature \<Rightarrow> bool" where
  "has_feature d f = (case d f of None \<Rightarrow> False | Some b \<Rightarrow> b)"

definition has_any :: "FeatureDetector \<Rightarrow> CpuFeature list \<Rightarrow> bool" where
  "has_any d fs = list_ex (has_feature d) fs"

text \<open>The discriminant \<open>*k as u8\<close> of a feature is its position in the enum.\<close>

primrec feature_bit :: "CpuFeature \<Rightarrow> nat" where
  "feature_bit AVX = 0"
| "feature_bit AVX2 = 1"
| "feature_bit SSE2 = 2"
| "feature_bit AVX512F = 3"
| "feature_bit AVX512BW = 4"
| "feature_bit AVX512VBMI = 5"
| "feature_bit VAES = 6"
| "feature_bit AESNI = 7"
| "feature_bit PCLMULQDQ = 8"
| "feature_bit NEON = 9"

definition all_features :: "CpuFeature list" where
  "all_features = [AVX, AVX2, SSE2, AVX512F, AVX512BW, AVX512VBMI, VAES, AESNI, PCLMULQDQ, NEON]"

text \<open>The telemetry mask folds over the entries of the map; the iteration order of the hash map does
  not matter because the bits are joined by OR.\<close>

definition feature_mask :: "FeatureDetector \<Rightarrow> u64" where
  "feature_mask d =
     fold (\<lambda>f m. if d f = Some True then m OR push_bit (feature_bit f) 1 else m) all_features 0"

text \<open>The numeric policy exported as \<open>SIMD_ACTIVE\<close>.\<close>

definition simd_active :: "FeatureDetector \<Rightarrow> nat" where
  "simd_active d =
     (if has_feature d AVX512F \<and> has_feature d AVX512VBMI then 3
      else if has_feature d AVX2 then 2
      else if has_feature d SSE2 \<or> has_feature d NEON then 1
      else 0)"

definition dispatch :: "FeatureDetector \<Rightarrow> SimdPolicy" where
  "dispatch d =
     (if has_feature d AVX512F \<and> has_feature d AVX512VBMI then Avx512
      else if has_feature d AVX2 then Avx2
      else if has_feature d SSE2 then Sse2
      else if has_feature d PCLMULQDQ then Pclmulqdq
      else if has_feature d NEON then Neon
      else Scalar)"

definition dispatch_bitslice :: "FeatureDetector \<Rightarrow> SimdPolicy" where
  "dispatch_bitslice d =
     (if has_feature d AVX512F \<and> has_feature d AVX512VBMI \<and> has_feature d PCLMULQDQ then Avx512
      else if has_feature d AVX2 \<and> has_feature d PCLMULQDQ then Avx2
      else if has_feature d SSE2 \<and> has_feature d PCLMULQDQ then Sse2
      else if has_feature d NEON \<and> has_feature d PCLMULQDQ then Neon
      else Scalar)"

text \<open>\<open>policy.as_any().is::<Avx2>() || policy.as_any().is::<Neon>()\<close>: the test that selects the
  parallel loops of the FEC code.\<close>

definition parallel_policy :: "FeatureDetector \<Rightarrow> bool" where
  "parallel_policy d = (dispatch d = Avx2 \<or> dispatch d = Neon)"

subsection \<open>What the dispatchers choose\<close>

lemma dispatch_bitslice_Scalar_iff:
  "dispatch_bitslice d = Scalar \<longleftrightarrow>
     \<not> has_feature d PCLMULQDQ \<or>
     \<not> has_feature d AVX2 \<and> \<not> has_feature d SSE2 \<and> \<not> has_feature d NEON \<and>
     \<not> (has_feature d AVX512F \<and> has_feature d AVX512VBMI)"
  by (auto simp: dispatch_bitslice_def)

lemma dispatch_bitslice_no_clmul: "\<not> has_feature d PCLMULQDQ \<Longrightarrow> dispatch_bitslice d = Scalar"
  by (simp add: dispatch_bitslice_def)

lemma feature_bit_inject: "feature_bit f = feature_bit g \<longleftrightarrow> f = g"
  by (cases f; cases g) simp_all

lemma feature_bit_less: "feature_bit f < 10"
  by (cases f) simp_all

lemma bit_feature_fold:
  "n < 64 \<Longrightarrow> bit (fold (\<lambda>f m. if d f = Some True then m OR push_bit (feature_bit f) 1 else m) fs (m0 :: u64)) n
     \<longleftrightarrow> bit m0 n \<or> (\<exists>f \<in> set fs. d f = Some True \<and> feature_bit f = n)"
  by (induction fs arbitrary: m0) (auto simp: bit_simps)

lemma set_all_features: "set all_features = UNIV"
proof -
  have "f \<in> set all_features" for f
    by (cases f) (simp_all add: all_features_def)
  then show ?thesis by blast
qed

lemma bit_feature_mask: "bit (feature_mask d) (feature_bit f) \<longleftrightarrow> has_feature d f"
proof -
  have "feature_bit f < 64" using feature_bit_less[of f] by simp
  then show ?thesis
    by (auto simp: feature_mask_def bit_feature_fold set_all_features has_feature_def
        feature_bit_inject split: option.splits)
qed

end
