(* ===== verification/Shift_Product.thy ===== *)
theory Shift_Product
  imports Prelude
begin

text \<open>
  Shift-and-add products on words.

  Both multiplication loops of \<open>gf_tables.rs\<close> add shifted copies of one factor, selected by the bits
  of the other; they differ in what a shift does to the top bit. The locale \<open>shift_product\<close> states
  what is needed of the shift (it is additive and produces the powers of two from 1) and derives that
  the product is a commutative ring multiplication over exclusive or.
\<close>

primrec shift_sum :: "('a::len word \<Rightarrow> 'a word) \<Rightarrow> nat \<Rightarrow> 'a word \<Rightarrow> 'a word \<Rightarrow> 'a word" where
  "shift_sum xt 0 a b = 0"
| "shift_sum xt (Suc n) a b = (if bit b 0 then a else 0) XOR shift_sum xt n (xt a) (drop_bit 1 b)"

lemma shift_sum_zero_right: "shift_sum xt n a 0 = 0"
  by (induction n arbitrary: a) simp_all

lemma shift_sum_xor_right: "shift_sum xt n a (b XOR c) = shift_sum xt n a b XOR shift_sum xt n a c"
  by (induction n arbitrary: a b c) (auto simp: bit_xor_iff drop_bit_xor ac_simps)

text \<open>The loop that the code writes: it stops as soon as the second factor is zero.\<close>

lemma shift_loop_sum:
  assumes step: "\<And>a b res. loop a b res =
      (if b = 0 then res else loop (xt a) (drop_bit 1 b) (if bit b 0 then res XOR a else res))"
    and "unat (b :: 'a::len word) < 2 ^ n"
  shows "loop a b res = res XOR shift_sum xt n a b"
  using assms(2)
proof (induction n arbitrary: a b res)
  case 0
  then have "b = 0" by (simp add: unat_eq_zero)
  then show ?case by (simp add: step)
next
  case (Suc n)
  show ?case
  proof (cases "b = 0")
    case True
    then show ?thesis by (simp add: step shift_sum_zero_right)
  next
    case False
    have "unat (drop_bit 1 b) < 2 ^ n"
    proof -
      have "unat (drop_bit 1 b) = unat b div 2"
        by (simp only: unat_drop_bit_eq) (simp add: drop_bit_eq_div)
      with Suc.prems show ?thesis by simp
    qed
    with Suc.IH[of "drop_bit 1 b"] False show ?thesis
      by (subst step) (simp add: ac_simps)
  qed
qed

locale shift_product =
  fixes xt :: "'a::len word \<Rightarrow> 'a word"
  assumes xt_xor: "xt (a XOR b) = xt a XOR xt b"
    and xt_pow_1: "i < LENGTH('a) \<Longrightarrow> (xt ^^ i) 1 = 2 ^ i"
begin

abbreviation prod :: "'a word \<Rightarrow> 'a word \<Rightarrow> 'a word" where
  "prod a b \<equiv> shift_sum xt LENGTH('a) a b"

lemma xt_0: "xt 0 = 0"
  using xt_xor[of 0 0] by simp

lemma shift_sum_xor_left: "shift_sum xt n (a XOR b) c = shift_sum xt n a c XOR shift_sum xt n b c"
  by (induction n arbitrary: a b c) (auto simp: xt_xor ac_simps)

lemma shift_sum_xt: "shift_sum xt n (xt a) b = xt (shift_sum xt n a b)"
  by (induction n arbitrary: a b) (auto simp: xt_xor xt_0)

lemma shift_sum_funpow: "shift_sum xt n ((xt ^^ i) a) b = (xt ^^ i) (shift_sum xt n a b)"
  by (induction i) (simp_all add: shift_sum_xt)

lemma shift_sum_zero_left: "shift_sum xt n 0 b = 0"
  using shift_sum_xor_left[of n 0 0 b] by simp

lemma shift_sum_pow2:
  "i < LENGTH('a) \<Longrightarrow> shift_sum xt n a (2 ^ i) = (if i < n then (xt ^^ i) a else 0)"
proof (induction n arbitrary: a i)
  case (Suc n)
  show ?case
  proof (cases i)
    case 0
    then show ?thesis by (simp add: shift_sum_zero_right)
  next
    case (Suc j)
    then have "drop_bit 1 ((2 :: 'a word) ^ i) = 2 ^ j"
      using Suc.prems by (intro bit_word_eqI) (auto simp: bit_simps)
    moreover have "\<not> bit ((2 :: 'a word) ^ i) 0" using Suc by (simp add: bit_0)
    ultimately show ?thesis
      using Suc Suc.IH[of j] Suc.prems by (simp add: funpow_swap1)
  qed
qed simp

lemma prod_pow2: "i < LENGTH('a) \<Longrightarrow> prod a (2 ^ i) = (xt ^^ i) a"
  by (simp add: shift_sum_pow2)

lemma prod_one_left: "prod 1 b = b"
  by (rule word_basis_induct[of "\<lambda>b. prod 1 b = b"])
     (simp_all add: shift_sum_zero_right prod_pow2 xt_pow_1 shift_sum_xor_right)

lemma prod_commute: "prod a b = prod b a"
proof (rule word_basis_induct[of "\<lambda>a. prod a b = prod b a"])
  fix i
  assume i: "i < LENGTH('a)"
  have "prod (2 ^ i) b = (xt ^^ i) (prod 1 b)"
    using i by (metis shift_sum_funpow xt_pow_1)
  then show "prod (2 ^ i) b = prod b (2 ^ i)"
    using i by (simp only: prod_one_left prod_pow2)
qed (simp_all only: shift_sum_zero_right shift_sum_zero_left shift_sum_xor_right shift_sum_xor_left)

lemma prod_funpow_right: "prod a ((xt ^^ i) b) = (xt ^^ i) (prod a b)"
  by (metis prod_commute shift_sum_funpow)

lemma prod_assoc: "prod (prod a b) c = prod a (prod b c)"
proof (rule word_basis_induct[of "\<lambda>c. prod (prod a b) c = prod a (prod b c)"])
  fix i
  assume i: "i < LENGTH('a)"
  show "prod (prod a b) (2 ^ i) = prod a (prod b (2 ^ i))"
    by (simp only: prod_pow2[OF i] prod_funpow_right)
qed (simp_all only: shift_sum_zero_right shift_sum_xor_right)

lemma prod_xor_left: "prod (a XOR b) c = prod a c XOR prod b c"
  by (rule shift_sum_xor_left)

end

end
