(* ===== verification/Gf_Field.thy ===== *)
theory Gf_Field
  imports Gf_Tables Shift_Product
begin

text \<open>
  The bytes with the shift-and-add product form a field, and the table routines compute in it.

  \<open>xtime\<close> is one round of the multiplication loop: a shift reduced by the polynomial. The product is
  additive in both arguments and commutes with \<open>xtime\<close>, from which commutativity and associativity
  follow by induction over bits. The tables hold the powers of 2, which run through all 255 non-zero
  bytes.
\<close>

subsection \<open>One round of the loop\<close>

definition xtime :: "u8 \<Rightarrow> u8" where
  "xtime a = (if a AND 0x80 \<noteq> 0 then push_bit 1 a XOR 0x1D else push_bit 1 a)"

lemma and_0x80_iff: "(a :: u8) AND 0x80 \<noteq> 0 \<longleftrightarrow> bit a 7"
proof -
  have "a AND 0x80 = a AND push_bit 7 1" by simp
  also have "\<dots> \<noteq> 0 \<longleftrightarrow> bit a 7"
    by (metis and_exp_eq_0_iff_not_bit push_bit_of_1)
  finally show ?thesis .
qed

lemma and_1_iff: "(b :: u8) AND 1 \<noteq> 0 \<longleftrightarrow> bit b 0"
  by (simp add: and_one_eq mod2_eq_if bit_0)

lemma xtime_alt: "xtime a = push_bit 1 a XOR (if bit a 7 then 0x1D else 0)"
  unfolding xtime_def by (simp add: and_0x80_iff)

lemma xtime_xor: "xtime (a XOR b) = xtime a XOR xtime b"
  by (auto simp: xtime_alt bit_xor_iff push_bit_xor ac_simps)

lemma xtime_0 [simp]: "xtime 0 = 0"
  by (simp add: xtime_def)

lemma poly_as_u8: "ucast IRREDUCIBLE_POLY = (0x1D :: u8)"
  by (simp add: IRREDUCIBLE_POLY_def)

lemma gf_mul_shift_loop_0 [simp]: "gf_mul_shift_loop a 0 res = res"
  by (subst gf_mul_shift_loop.simps) simp

lemma gf_mul_shift_loop_xtime:
  "gf_mul_shift_loop a b res =
     (if b = 0 then res
      else gf_mul_shift_loop (xtime a) (drop_bit 1 b) (if bit b 0 then res XOR a else res))"
  by (subst gf_mul_shift_loop.simps)
     (simp add: Let_def xtime_def and_1_iff poly_as_u8)

lemma xtime_pow_1: "i < 8 \<Longrightarrow> (xtime ^^ i) 1 = 2 ^ i"
proof -
  assume "i < 8"
  then have "i \<in> {0, 1, 2, 3, 4, 5, 6, 7}" by auto
  then show ?thesis by (auto simp: xtime_def numeral_eq_Suc)
qed

interpretation gf8_shift: shift_product xtime
  by unfold_locales (simp_all add: xtime_xor xtime_pow_1)

lemma gf_mul_shift_sum: "gf_mul_shift a b = shift_sum xtime LENGTH(8) a b"
proof -
  have "unat b < 2 ^ 8" using unsigned_less[of b] by simp
  from shift_loop_sum[of gf_mul_shift_loop xtime, OF gf_mul_shift_loop_xtime this, of a 0]
  show ?thesis by (simp add: gf_mul_shift_def)
qed

lemmas gf_mul_shift_xor_right = shift_sum_xor_right[of xtime "LENGTH(8)", folded gf_mul_shift_sum]
lemmas gf_mul_shift_xor_left = gf8_shift.prod_xor_left[folded gf_mul_shift_sum]
lemmas gf_mul_shift_one_left = gf8_shift.prod_one_left[folded gf_mul_shift_sum]
lemmas gf_mul_shift_commute = gf8_shift.prod_commute[folded gf_mul_shift_sum]
lemmas gf_mul_shift_assoc = gf8_shift.prod_assoc[folded gf_mul_shift_sum]
lemma gf_mul_shift_zero [simp]: "gf_mul_shift a 0 = 0" "gf_mul_shift 0 a = 0"
  by (simp_all only: gf_mul_shift_sum shift_sum_zero_right gf8_shift.shift_sum_zero_left)

lemmas gf_mul_shift_pow2 = gf8_shift.prod_pow2[folded gf_mul_shift_sum]

datatype gf8 = GF8 (raw: u8)

lemma gf8_eq_iff: "x = y \<longleftrightarrow> raw x = raw y"
  by (cases x; cases y) simp

instantiation gf8 :: comm_ring_1
begin

definition zero_gf8 :: gf8 where "0 = GF8 0"
definition one_gf8 :: gf8 where "1 = GF8 1"
definition plus_gf8 :: "gf8 \<Rightarrow> gf8 \<Rightarrow> gf8" where "x + y = GF8 (raw x XOR raw y)"
definition minus_gf8 :: "gf8 \<Rightarrow> gf8 \<Rightarrow> gf8" where "x - y = GF8 (raw x XOR raw y)"
definition uminus_gf8 :: "gf8 \<Rightarrow> gf8" where "- x = (x :: gf8)"
definition times_gf8 :: "gf8 \<Rightarrow> gf8 \<Rightarrow> gf8" where "x * y = GF8 (gf_mul_shift (raw x) (raw y))"

instance
  by standard
     (simp_all add: gf8_eq_iff zero_gf8_def one_gf8_def plus_gf8_def minus_gf8_def uminus_gf8_def
       times_gf8_def gf_mul_shift_assoc gf_mul_shift_one_left gf_mul_shift_xor_left
       gf_mul_shift_commute[of "raw x" "raw y" for x y] ac_simps)

end

subsection \<open>Powers of the generator\<close>

definition pw :: "nat \<Rightarrow> u8" where
  "pw i = (xtime ^^ i) 1"

primrec xtimes :: "nat \<Rightarrow> u8 \<Rightarrow> u8 list" where
  "xtimes 0 x = []"
| "xtimes (Suc n) x = x # xtimes n (xtime x)"

lemma length_xtimes [simp]: "length (xtimes n x) = n"
  by (induction n arbitrary: x) simp_all

lemma nth_xtimes: "i < n \<Longrightarrow> xtimes n x ! i = (xtime ^^ i) x"
  by (induction n arbitrary: x i) (auto simp: nth_Cons' funpow_swap1 gr0_conv_Suc)

lemma pw_0 [simp]: "pw 0 = 1"
  by (simp add: pw_def)

lemma pw_Suc: "pw (Suc i) = xtime (pw i)"
  by (simp add: pw_def)

lemma GF8_pw: "GF8 (pw i) = GF8 2 ^ i"
proof (induction i)
  case 0
  then show ?case by (simp add: one_gf8_def)
next
  case (Suc i)
  have "gf_mul_shift (pw i) 2 = xtime (pw i)"
    using gf_mul_shift_pow2[of 1 "pw i"] by simp
  with Suc show ?case
    by (simp add: pw_Suc times_gf8_def gf8_eq_iff gf_mul_shift_commute[of 2])
qed

lemma pw_255: "pw 255 = 1"
proof -
  have "last (xtimes 256 1) = 1" by code_simp
  then show ?thesis by (simp add: last_conv_nth nth_xtimes pw_def del: xtimes.simps flip: length_greater_0_conv)
qed

lemma pw_neq_1: "0 < d \<Longrightarrow> d < 255 \<Longrightarrow> pw d \<noteq> 1"
proof -
  assume d: "0 < d" "d < 255"
  have "list_all (\<lambda>x. x \<noteq> 1) (xtimes 254 2)" by code_simp
  moreover have "xtimes 254 2 ! (d - 1) = pw d"
  proof -
    have "xtime 1 = 2" by (simp add: xtime_def)
    then have "(xtime ^^ (d - 1)) 2 = (xtime ^^ Suc (d - 1)) 1" by (simp add: funpow_swap1)
    then show ?thesis using d by (simp add: nth_xtimes pw_def)
  qed
  ultimately show ?thesis using d by (auto simp: list_all_length simp del: xtimes.simps)
qed

lemma alpha_255: "GF8 2 ^ 255 = 1"
  using GF8_pw[of 255] by (simp add: pw_255 one_gf8_def)

lemma pw_mod: "pw (i + 255) = pw i"
proof -
  have "GF8 (pw (i + 255)) = GF8 (pw i)"
    unfolding GF8_pw by (simp add: power_add alpha_255)
  then show ?thesis by simp
qed

lemma pw_neq_0: "pw i \<noteq> 0"
proof
  assume "pw i = 0"
  then have "GF8 2 ^ i = 0" by (simp add: GF8_pw[symmetric] zero_gf8_def)
  then have "GF8 2 ^ (i * 255) = 0" using power_mult[of "GF8 2" i 255] by simp
  moreover have "GF8 2 ^ (i * 255) = 1"
    using alpha_255 power_mult[of "GF8 2" 255 i] by (simp add: mult.commute)
  ultimately show False by simp
qed

lemma pw_inj: "i < 255 \<Longrightarrow> j < 255 \<Longrightarrow> pw i = pw j \<Longrightarrow> i = j"
proof (induction i j rule: linorder_wlog)
  case (le i j)
  show ?case
  proof (rule ccontr)
    assume "i \<noteq> j"
    with le have ij: "i < j" by simp
    have eq: "GF8 2 ^ i = GF8 2 ^ j" using le by (simp add: GF8_pw[symmetric])
    have "GF8 2 ^ (j - i) = GF8 2 ^ (j - i) * GF8 2 ^ 255" by (simp add: alpha_255)
    also have "\<dots> = GF8 2 ^ j * GF8 2 ^ (255 - i)" using ij le by (simp flip: power_add)
    also have "\<dots> = GF8 2 ^ i * GF8 2 ^ (255 - i)" by (simp add: eq)
    also have "\<dots> = 1" using le alpha_255 by (simp flip: power_add)
    finally have "pw (j - i) = 1" by (simp add: GF8_pw[symmetric] one_gf8_def)
    moreover have "j - i < 255" using le by (simp add: less_imp_diff_less)
    ultimately show False using pw_neq_1[of "j - i"] ij by simp
  qed
qed simp

lemma pw_image: "n = 255 \<Longrightarrow> pw ` {..<n} = UNIV - {0}"
proof -
  assume n: "n = 255"
  have "inj_on pw {..<n}" using n by (intro inj_onI pw_inj) simp_all
  then have "card (pw ` {..<n}) = card (UNIV - {0 :: u8})"
    using n by (simp add: card_image card_word card_Diff_subset)
  moreover have "pw ` {..<n} \<subseteq> UNIV - {0}" using pw_neq_0 by auto
  ultimately show ?thesis by (intro card_subset_eq) simp_all
qed

lemma pw_surj: "a \<noteq> 0 \<Longrightarrow> \<exists>i < 255. pw i = a"
proof -
  define n :: nat where "n = 255"
  assume "a \<noteq> 0"
  then have "a \<in> pw ` {..<n}" using pw_image[of n] n_def by simp
  then have "\<exists>i < n. pw i = a" by blast
  then show ?thesis by (simp add: n_def)
qed

subsection \<open>The tables\<close>

text \<open>What \<open>init_gf_tables\<close> establishes: entry \<open>i\<close> of the exponential table is the \<open>i\<close>-th power of 2
  (twice around), and the logarithm table inverts it.\<close>

definition tables_ok :: "u8 list \<Rightarrow> u8 list \<Rightarrow> bool" where
  "tables_ok exps logs \<longleftrightarrow>
     length exps = 512 \<and> length logs = 256 \<and>
     (\<forall>j < 510. exps ! j = pw j) \<and> (\<forall>j < 255. logs ! unat (pw j) = of_nat j)"

definition gf_ready :: "gf_env \<Rightarrow> bool" where
  "gf_ready g \<longleftrightarrow> tables_ok (EXP_TABLE g) (LOG_TABLE g)"

lemma all_u8_code: "list_all (\<lambda>i. P (of_nat i :: u8)) [0..<256] \<Longrightarrow> P a"
proof -
  assume *: "list_all (\<lambda>i. P (of_nat i :: u8)) [0..<256]"
  have "unat a < 256" using unsigned_less[of a] by simp
  then have "unat a \<in> set [0..<256]" by (simp only: set_upt atLeastLessThan_iff) simp
  with * have "P (of_nat (unat a))" by (metis (mono_tags) list_all_iff)
  then show ?thesis by simp
qed

lemma xtime_u16:
  "(if 256 \<le> push_bit 1 (ucast a :: u16) then push_bit 1 (ucast a) XOR IRREDUCIBLE_POLY
    else push_bit 1 (ucast a)) = (ucast (xtime a) :: u16)"
  by (rule all_u8_code[where P = "\<lambda>a. (if 256 \<le> push_bit 1 (ucast a :: u16)
        then push_bit 1 (ucast a) XOR IRREDUCIBLE_POLY else push_bit 1 (ucast a)) = (ucast (xtime a) :: u16)"])
     code_simp

lemma unat_ucast_u16: "unat (ucast (a :: u8) :: u16) = unat a"
proof -
  have "unat a < 256" using unsigned_less[of a] by simp
  then show ?thesis by (simp add: unsigned_ucast_eq take_bit_nat_eq_self)
qed

lemma ucast_ucast_u8: "ucast (ucast (a :: u8) :: u16) = a"
  by (rule bit_word_eqI) (simp add: bit_simps)

lemma init_step_pw:
  "init_step i (ucast (pw i), exps, logs) =
     (ucast (pw (Suc i)), exps[i := pw i, i + 255 := pw i], logs[unat (pw i) := of_nat i])"
  unfolding init_step.simps Let_def xtime_u16 pw_Suc by (simp add: unat_ucast_u16 ucast_ucast_u8)

lemma init_loop:
  assumes "length exps = 512" "length logs = 256" "n \<le> 255"
  shows "\<exists>e l. fold init_step [0..<n] (1, exps, logs) = (ucast (pw n), e, l) \<and>
           length e = 512 \<and> length l = 256 \<and>
           (\<forall>j < n. e ! j = pw j \<and> e ! (j + 255) = pw j \<and> l ! unat (pw j) = of_nat j)"
  using assms(3)
proof (induction n)
  case 0
  then show ?case using assms by simp
next
  case (Suc n)
  then obtain e l where el: "fold init_step [0..<n] (1, exps, logs) = (ucast (pw n), e, l)"
    "length e = 512" "length l = 256"
    "\<And>j. j < n \<Longrightarrow> e ! j = pw j \<and> e ! (j + 255) = pw j \<and> l ! unat (pw j) = of_nat j"
    by auto
  have u: "unat (pw n) < 256" using unsigned_less[of "pw n"] by simp
  have ne: "unat (pw n) \<noteq> unat (pw j)" if "j < n" for j
    using pw_inj[of j n] that Suc.prems by (auto simp flip: word_unat_eq_iff)
  show ?case
    using Suc.prems u ne
    by (auto simp: el init_step_pw nth_list_update less_Suc_eq simp del: init_step.simps)
qed

lemma init_gf_tables_ready: "gf_ready (init_gf_tables (gf_statics d))"
proof -
  from init_loop[of "replicate 512 0" "replicate 256 0" 255] obtain e l where
    el: "fold init_step [0..<255] (1, replicate 512 0, replicate 256 0) = (ucast (pw 255), e, l)"
    "length e = 512" "length l = 256"
    "\<And>j. j < 255 \<Longrightarrow> e ! j = pw j \<and> e ! (j + 255) = pw j \<and> l ! unat (pw j) = of_nat j"
    by auto
  have "e ! j = pw j" if "j < 510" for j
  proof (cases "j < 255")
    case False
    with el(4)[of "j - 255"] pw_mod[of "j - 255"] that show ?thesis by simp
  qed (simp add: el)
  with el show ?thesis
    by (simp add: gf_ready_def tables_ok_def init_gf_tables_def gf_statics_def GF_ORDER_def
        del: upt_rec_numeral)
qed

lemma features_init_gf_tables [simp]: "features (init_gf_tables g) = features g"
  by (simp add: init_gf_tables_def split: prod.split)

subsection \<open>The table routines compute in the field\<close>

lemma table_log: "tables_ok exps logs \<Longrightarrow> i < 255 \<Longrightarrow> logs ! unat (pw i) = of_nat i"
  by (simp add: tables_ok_def)

lemma table_exp: "tables_ok exps logs \<Longrightarrow> i < 510 \<Longrightarrow> exps ! i = pw i"
  by (simp add: tables_ok_def)

lemma unat_log_sum:
  assumes "i < 255" "j < 255"
  shows "unat (ucast (of_nat i :: u8) + ucast (of_nat j :: u8) :: u16) = i + j"
proof -
  have i: "unat (of_nat i :: u8) = i" and j: "unat (of_nat j :: u8) = j"
    using assms by (simp_all add: unsigned_of_nat take_bit_nat_eq_self)
  then show ?thesis
    using assms by (simp add: unat_word_ariths unat_ucast_u16)
qed

lemma gf_mul_table_shift: "gf_ready g \<Longrightarrow> gf_mul_table g a b = gf_mul_shift a b"
proof (cases "a = 0 \<or> b = 0")
  case True
  then show ?thesis
    by (auto simp: gf_mul_table_def)
next
  case False
  assume "gf_ready g"
  then have ok: "tables_ok (EXP_TABLE g) (LOG_TABLE g)" by (simp add: gf_ready_def)
  from False obtain i j where ij: "i < 255" "pw i = a" "j < 255" "pw j = b"
    using pw_surj by meson
  have "gf_mul_table g a b = pw (i + j)"
    using ij False by (simp add: gf_mul_table_def table_log[OF ok] unat_log_sum table_exp[OF ok]
        flip: ij(2,4))
  moreover have "GF8 (pw (i + j)) = GF8 (gf_mul_shift a b)"
    using ij GF8_pw by (simp add: power_add times_gf8_def flip: ij(2,4))
       (simp add: GF8_pw[symmetric] times_gf8_def)
  ultimately show ?thesis by simp
qed

lemma gf_inv_pw: "gf_ready g \<Longrightarrow> i < 255 \<Longrightarrow> gf_inv g (pw i) = Some (pw (255 - i))"
proof -
  assume "gf_ready g" and i: "i < 255"
  then have ok: "tables_ok (EXP_TABLE g) (LOG_TABLE g)" by (simp add: gf_ready_def)
  have "unat (of_nat i :: u8) = i"
    using i by (simp add: unsigned_of_nat take_bit_nat_eq_self)
  then show ?thesis
    using i by (simp add: gf_inv_def pw_neq_0 table_log[OF ok] table_exp[OF ok])
qed

lemma gf_inv_prefetch_eq: "gf_inv_prefetch g a = gf_inv g a"
  by (simp add: gf_inv_prefetch_def gf_inv_def Let_def)

text \<open>The inverse of the field is the one the table gives.\<close>

definition std_env :: gf_env where
  "std_env = init_gf_tables (gf_statics Map.empty)"

lemma gf_ready_std_env: "gf_ready std_env"
  by (simp add: std_env_def init_gf_tables_ready)

lemma pw_times_inv: "i < 255 \<Longrightarrow> GF8 (pw (255 - i)) * GF8 (pw i) = 1"
  by (simp add: GF8_pw alpha_255 flip: power_add)

instantiation gf8 :: field
begin

definition inverse_gf8 :: "gf8 \<Rightarrow> gf8" where
  "inverse x = (case gf_inv std_env (raw x) of None \<Rightarrow> 0 | Some y \<Rightarrow> GF8 y)"
definition divide_gf8 :: "gf8 \<Rightarrow> gf8 \<Rightarrow> gf8" where
  "x div y = x * inverse (y :: gf8)"

instance
proof
  fix x y :: gf8
  show "x div y = x * inverse y" by (rule divide_gf8_def)
  show "inverse (0 :: gf8) = 0" by (simp add: inverse_gf8_def gf_inv_def zero_gf8_def)
  assume "x \<noteq> 0"
  then obtain a where a: "x = GF8 a" "a \<noteq> 0" by (cases x) (auto simp: zero_gf8_def)
  then obtain i where i: "i < 255" "pw i = a" using pw_surj by blast
  with a show "inverse x * x = 1"
    using pw_times_inv[OF i(1)] gf_inv_pw[OF gf_ready_std_env i(1)] by (simp add: inverse_gf8_def)
qed

end

lemma gf_inv_field: "gf_ready g \<Longrightarrow> a \<noteq> 0 \<Longrightarrow> gf_inv g a = Some (raw (inverse (GF8 a)))"
proof -
  assume g: "gf_ready g" "a \<noteq> 0"
  then obtain i where i: "i < 255" "pw i = a" using pw_surj by blast
  show ?thesis
    using gf_inv_pw[OF g(1) i(1)] gf_inv_pw[OF gf_ready_std_env i(1)] i
    by (simp add: inverse_gf8_def)
qed

subsection \<open>The scalar environment\<close>

text \<open>Tables initialised and no carry-less kernel selected: the environment in which \<open>gf_mul\<close> is the
  product of the field.\<close>

definition gf_scalar :: "gf_env \<Rightarrow> bool" where
  "gf_scalar g \<longleftrightarrow> gf_ready g \<and> dispatch_bitslice (features g) = Scalar"

lemma gf_scalar_std_env: "gf_scalar std_env"
  using gf_ready_std_env
  by (simp add: gf_scalar_def std_env_def gf_statics_def dispatch_bitslice_def has_feature_def)

lemma gf_scalar_init: "\<not> has_feature d PCLMULQDQ \<Longrightarrow> gf_scalar (init_gf_tables (gf_statics d))"
  using init_gf_tables_ready[of d]
  by (simp add: gf_scalar_def dispatch_bitslice_no_clmul) (simp add: gf_statics_def dispatch_bitslice_no_clmul)

lemma gf_mul_scalar: "gf_scalar g \<Longrightarrow> gf_mul g a b = gf_mul_shift a b"
  by (simp add: gf_scalar_def gf_mul_def gf_mul_table_shift)

lemma gf_mul_one_right [gf_simps]: "gf_scalar g \<Longrightarrow> gf_mul g x 1 = x"
  by (simp add: gf_mul_scalar gf_mul_shift_commute[of x] gf_mul_shift_one_left)

lemma GF8_xor [gf_simps]: "GF8 (a XOR b) = GF8 a + GF8 b"
  by (simp add: plus_gf8_def)

lemma GF8_0 [gf_simps]: "GF8 0 = 0"
  by (simp add: zero_gf8_def)

lemma GF8_1 [gf_simps]: "GF8 1 = 1"
  by (simp add: one_gf8_def)

lemma GF8_mul [gf_simps]: "gf_scalar g \<Longrightarrow> GF8 (gf_mul g a b) = GF8 a * GF8 b"
  by (simp add: gf_mul_scalar times_gf8_def)

lemma GF8_mul_add [gf_simps]: "gf_scalar g \<Longrightarrow> GF8 (gf_mul_add g a b c) = GF8 a * GF8 b + GF8 c"
  by (simp add: gf_mul_add_def gf_simps)

lemma GF8_eq_0_iff [simp]: "GF8 a = 0 \<longleftrightarrow> a = 0"
  by (simp add: zero_gf8_def)

lemma gf8_add_self: "x + x = (0 :: gf8)"
  by (simp add: plus_gf8_def zero_gf8_def)

lemma gf8_minus_is_plus: "x - y = (x + y :: gf8)"
  by (simp add: minus_gf8_def plus_gf8_def)

lemma gf_scalar_ready: "gf_scalar g \<Longrightarrow> gf_ready g"
  by (simp add: gf_scalar_def)

subsection \<open>Slices\<close>

lemma mul_slice_loop:
  assumes "length b = length a" "length out = length a"
  shows "ofold (\<lambda>i out. do { x \<leftarrow> idx a i; y \<leftarrow> idx b i; set_idx out i (mul x y) }) [0..<length a] out =
         Some (map2 mul a b)"
proof -
  have "ofold (\<lambda>i out. do { x \<leftarrow> idx a i; y \<leftarrow> idx b i; set_idx out i (mul x y) }) [0..<length a] out =
      Some (map (\<lambda>j. mul (a ! j) (b ! j)) [0..<length a] @ drop (length a) out)"
    using assms by (intro ofold_pointwise) (simp_all add: idx_def set_idx_def)
  also have "map (\<lambda>j. mul (a ! j) (b ! j)) [0..<length a] @ drop (length a) out = map2 mul a b"
    using assms by (intro nth_equalityI) simp_all
  finally show ?thesis .
qed

lemma gf_mul_slice_with_eq:
  "length b = length a \<Longrightarrow> length out = length a \<Longrightarrow> gf_mul_slice_with mul a b out = Some (map2 mul a b)"
  using mul_slice_loop[of b a out mul] by (simp add: gf_mul_slice_with_def unrolled4_eq_ofold)

lemma gf_mul_slice_eq:
  "gf_mul_slice g a b out =
     (if length a = length b \<and> length out = length a then Some (map2 (gf_mul g) a b) else None)"
  using mul_slice_loop[of b a out "gf_mul_table g"]
  by (auto simp: gf_mul_slice_def gf_mul_def[abs_def] gf_mul_slice_avx512_def gf_mul_slice_avx2_def
      gf_mul_slice_sse2_def gf_mul_slice_neon_def gf_mul_slice_with_eq gf_mul_avx512_def[abs_def]
      gf_mul_avx2_def[abs_def] gf_mul_neon_def[abs_def] split: SimdPolicy.split)

subsection \<open>The carry-less kernels\<close>

text \<open>The bits of the carry-less product, of its folding from the top, and of both.\<close>

lemma bit_fold_xor:
  "bit (fold (\<lambda>i t. if P i then t XOR f i else t) xs t) j \<longleftrightarrow>
   bit t j \<noteq> odd (length (filter (\<lambda>i. P i \<and> bit (f i) j) xs))" for t :: "'a :: len word"
  by (induction xs arbitrary: t) (auto simp: bit_xor_iff)

lemma bit_u8_less: "bit (a :: u8) i \<Longrightarrow> i < 8"
  using bit_imp_le_length[of a i] by simp

lemma bit_clmul: "bit (clmul a b) j \<longleftrightarrow> odd (card {(p, q). bit a p \<and> bit b q \<and> p + q = j})"
proof -
  have s: "bit (push_bit q (ucast a :: u16)) j \<longleftrightarrow> q \<le> j \<and> bit a (j - q)" if "q < 8" for q
    using that bit_u8_less[of a "j - q"] by (auto simp: bit_push_bit_iff bit_ucast_iff)
  have "bit (clmul a b) j \<longleftrightarrow> odd (card {q. q < 8 \<and> bit b q \<and> bit (push_bit q (ucast a :: u16)) j})"
    unfolding clmul_def bit_fold_xor by (simp add: length_filter_conv_card conj_commute cong: conj_cong)
  also have "{q. q < 8 \<and> bit b q \<and> bit (push_bit q (ucast a :: u16)) j} = snd ` {(p, q). bit a p \<and> bit b q \<and> p + q = j}"
    using s bit_u8_less[of b] by (auto simp: image_iff) (metis le_add_diff_inverse2)
  also have "card \<dots> = card {(p, q). bit a p \<and> bit b q \<and> p + q = j}"
    by (intro card_image) (auto simp: inj_on_def)
  finally show ?thesis .
qed

lemma bit_fold_step:
  fixes u t :: u16
  assumes "\<And>i. bit u i \<longleftrightarrow> odd (length (filter (\<lambda>j. bit t (i + j)) js))"
  shows "bit (u XOR drop_bit n u) i \<longleftrightarrow> odd (length (filter (\<lambda>j. bit t (i + j)) (js @ map ((+) n) js)))"
  by (simp add: bit_xor_iff bit_drop_bit_eq assms filter_map comp_def ac_simps)

lemma low_bits: "bit (0xFF :: u16) i \<longleftrightarrow> i < 8"
proof -
  have "(0xFF :: u16) = mask 8" by (simp add: mask_numeral)
  then have "bit (0xFF :: u16) i \<longleftrightarrow> bit (mask 8 :: u16) i" by (rule arg_cong)
  also have "\<dots> \<longleftrightarrow> i < 8" unfolding bit_mask_iff by auto
  finally show ?thesis .
qed

lemma bit_clmul_fold:
  assumes "i < 8"
  shows "bit (clmul_fold t) i \<longleftrightarrow> odd (card {j \<in> {i..<16}. bit t j})"
proof -
  define js where "js = (let d = (\<lambda>n js. js @ map ((+) n) js) in d 1 (d 2 (d 4 (d 8 [0 :: nat]))))"
  have "distinct js" "sort js = [0..<16]" unfolding js_def by code_simp+
  then have js: "distinct js" "set js = {..<16}" by (metis, metis set_sort atLeast_upt)
  have one: "bit t i \<longleftrightarrow> odd (length (filter (\<lambda>j. bit t (i + j)) [0]))" for i by simp
  have "bit (clmul_fold t) i \<longleftrightarrow> odd (length (filter (\<lambda>j. bit t (i + j)) js))"
    using bit_fold_step[OF bit_fold_step[OF bit_fold_step[OF bit_fold_step[OF one, of 8], of 4], of 2], of 1 i] assms
    unfolding clmul_fold_def Let_def js_def
    by (simp only: bit_ucast_iff bit_and_iff low_bits) simp
  also have "length (filter (\<lambda>j. bit t (i + j)) js) = card ((+) i ` ({j. bit t (i + j)} \<inter> {..<16}))"
    by (simp add: distinct_length_filter js card_image)
  also have "(+) i ` ({j. bit t (i + j)} \<inter> {..<16}) = {j \<in> {i..<16}. bit t j}"
  proof (intro equalityI subsetI)
    fix j assume "j \<in> {j \<in> {i..<16}. bit t j}"
    then show "j \<in> (+) i ` ({j. bit t (i + j)} \<inter> {..<16})" by (intro image_eqI[of _ _ "j - i"]) auto
  next
    fix j assume "j \<in> (+) i ` ({j. bit t (i + j)} \<inter> {..<16})"
    then show "j \<in> {j \<in> {i..<16}. bit t j}" using bit_imp_le_length[of t j] by auto
  qed
  finally show ?thesis .
qed

lemma bit_kernel:
  assumes "i < 8"
  shows "bit (clmul_fold (clmul a b)) i \<longleftrightarrow> odd (card {(p, q). bit a p \<and> bit b q \<and> i \<le> p + q})"
proof -
  let ?S = "\<lambda>j. {(p, q). bit a p \<and> bit b q \<and> p + q = j}"
  have fin: "finite (?S j)" for j
    by (rule finite_subset[of _ "{..<8} \<times> {..<8}"]) (auto dest: bit_u8_less)
  have "{(p, q). bit a p \<and> bit b q \<and> i \<le> p + q} = (\<Union>j \<in> {i..<16}. ?S j)"
    using bit_u8_less[of a] bit_u8_less[of b] by fastforce
  then have "card {(p, q). bit a p \<and> bit b q \<and> i \<le> p + q} = (\<Sum>j \<in> {i..<16}. card (?S j))"
    using fin by (simp only: card_UN_disjoint[of "{i..<16}" ?S]) (subst card_UN_disjoint, auto)
  moreover have "odd (\<Sum>j \<in> {i..<16}. card (?S j)) \<longleftrightarrow> odd (card {j \<in> {i..<16}. odd (card (?S j))})"
    by (simp only: even_sum_iff[OF finite_atLeastLessThan])
  ultimately show ?thesis by (simp only: bit_clmul_fold[OF assms] bit_clmul)
qed

lemma kernel_one: "clmul_fold (clmul 1 b) = b \<longleftrightarrow> b \<in> {0, 1}"
proof
  assume b: "clmul_fold (clmul 1 b) = b"
  let ?f = "\<lambda>i. odd (card {q. bit b q \<and> i \<le> q})"
  have f: "bit b i \<longleftrightarrow> ?f i" if "i < 8" for i
  proof -
    have "{(p, q). bit (1 :: u8) p \<and> bit b q \<and> i \<le> p + q} = Pair 0 ` {q. bit b q \<and> i \<le> q}" by (auto simp: bit_1_iff)
    with bit_kernel[OF that, of 1 b] b show ?thesis by (simp add: card_image inj_on_def)
  qed
  have rec: "?f i \<longleftrightarrow> bit b i \<noteq> ?f (Suc i)" for i
  proof -
    have "finite {q. bit b q \<and> Suc i \<le> q}" by (rule finite_subset[of _ "{..<8}"]) (auto dest: bit_u8_less)
    moreover have "{q. bit b q \<and> i \<le> q} = (if bit b i then insert i {q. bit b q \<and> Suc i \<le> q} else {q. bit b q \<and> Suc i \<le> q})"
      by (auto simp: Suc_le_eq le_less)
    ultimately show ?thesis by simp
  qed
  have "\<not> bit b (Suc i)" for i
    using f[of i] f[of "Suc i"] rec[of i] bit_u8_less[of b "Suc i"] by fastforce
  then have "b = (if bit b 0 then 1 else 0)"
    by (intro bit_word_eqI) (case_tac n, simp_all add: bit_1_iff)
  then show "b \<in> {0, 1}" by (auto split: if_splits)
next
  assume "b \<in> {0, 1}"
  moreover have "clmul_fold (clmul 1 0) = 0" "clmul_fold (clmul 1 1) = 1" by code_simp+
  ultimately show "clmul_fold (clmul 1 b) = b" by blast
qed

subsection \<open>Properties\<close>

text \<open>C16: after \<open>init_gf_tables\<close>, on any CPU, the table product is the shift-and-add product for all 65536
  pairs of bytes, the inverse panics exactly on 0 and otherwise multiplies with its argument to 1, and the
  prefetching variant of the inverse gives the same result.\<close>

theorem gf_tables_compute_field:
  "gf_mul_table (init_gf_tables (gf_statics d)) a b = gf_mul_shift a b \<and>
   (case gf_inv (init_gf_tables (gf_statics d)) a of None \<Rightarrow> a = 0 | Some i \<Rightarrow> gf_mul_shift a i = 1) \<and>
   gf_inv_prefetch (init_gf_tables (gf_statics d)) a = gf_inv (init_gf_tables (gf_statics d)) a"
proof -
  let ?g = "init_gf_tables (gf_statics d)"
  have ready: "gf_ready ?g" by (rule init_gf_tables_ready)
  have "case gf_inv ?g a of None \<Rightarrow> a = 0 | Some i \<Rightarrow> gf_mul_shift a i = 1"
  proof (cases "a = 0")
    case False
    then have "GF8 a * GF8 (raw (inverse (GF8 a))) = 1" by (simp add: gf8_eq_iff[of "GF8 (raw _)"] field_simps)
    then have "gf_mul_shift a (raw (inverse (GF8 a))) = 1" by (simp add: times_gf8_def one_gf8_def)
    with False show ?thesis by (simp add: gf_inv_field[OF ready])
  qed (simp add: gf_inv_def)
  then show ?thesis by (simp add: gf_mul_table_shift[OF ready] gf_inv_prefetch_eq)
qed

text \<open>Without a carry-less kernel \<open>gf_mul\<close> is the multiplication of a field whose addition is exclusive or:
  commutative, associative, distributive, with unit 1 and without zero divisors.\<close>

lemma gf_mul_field_laws:
  assumes "gf_scalar g"
  shows "gf_mul g a b = gf_mul g b a \<and> gf_mul g (gf_mul g a b) c = gf_mul g a (gf_mul g b c) \<and>
         gf_mul g a (b XOR c) = gf_mul g a b XOR gf_mul g a c \<and> gf_mul g a 1 = a \<and>
         (gf_mul g a b = 0 \<longleftrightarrow> a = 0 \<or> b = 0)"
proof -
  have inj: "GF8 x = GF8 y \<longleftrightarrow> x = y" for x y by simp
  have "GF8 (gf_mul g a b) = GF8 (gf_mul g b a)" "GF8 (gf_mul g (gf_mul g a b) c) = GF8 (gf_mul g a (gf_mul g b c))"
    "GF8 (gf_mul g a (b XOR c)) = GF8 (gf_mul g a b XOR gf_mul g a c)" "GF8 (gf_mul g a 1) = GF8 a"
    "GF8 (gf_mul g a b) = 0 \<longleftrightarrow> GF8 a = 0 \<or> GF8 b = 0"
    using assms by (simp_all add: gf_simps mult.commute mult.left_commute distrib_left del: GF8_eq_0_iff)
  then show ?thesis unfolding inj GF8_eq_0_iff by blast
qed

text \<open>C21: on a CPU for which \<open>dispatch_bitslice\<close> selects a carry-less kernel, what \<open>gf_mul\<close> computes: bit \<open>i\<close> is the parity of
  the pairs of a bit of \<open>a\<close> and a bit of \<open>b\<close> whose positions sum up to \<open>i\<close> or more, since the folding adds up
  the carry-less product from the top instead of reducing it by the polynomial. It is not the product of the
  field: the product with 1 is wrong for all bytes but 0 and 1, and there are zero divisors.\<close>

theorem simd_product:
  assumes "dispatch_bitslice (features g) \<in> {Avx512, Avx2, Sse2, Neon}"
  shows "(\<forall>i < 8. bit (gf_mul g a b) i \<longleftrightarrow> odd (card {(p, q). bit a p \<and> bit b q \<and> i \<le> p + q})) \<and>
         (gf_mul g 1 b = gf_mul_shift 1 b \<longleftrightarrow> b \<in> {0, 1}) \<and>
         gf_mul g 0x80 3 = 0 \<and> gf_mul_shift 0x80 3 \<noteq> 0"
proof -
  have "clmul_fold (clmul 0x80 3) = 0" "gf_mul_shift 0x80 3 \<noteq> 0" by code_simp+
  moreover have "gf_mul g x y = clmul_fold (clmul x y)" for x y
    using assms by (auto simp: gf_mul_def gf_mul_avx512_def gf_mul_avx2_def gf_mul_neon_def gf_mul_bitsliced_avx512_def
        gf_mul_bitsliced_avx2_def gf_mul_bitsliced_sse2_def gf_mul_bitsliced_neon_def)
  ultimately show ?thesis by (simp add: bit_kernel kernel_one gf_mul_shift_one_left del: insert_iff)
qed

theorem simd_product_witness:
  "gf_mul (std_env\<lparr>features := [PCLMULQDQ \<mapsto> True, SSE2 \<mapsto> True]\<rparr>) 1 2 \<noteq> 2"
  using simd_product[of "std_env\<lparr>features := [PCLMULQDQ \<mapsto> True, SSE2 \<mapsto> True]\<rparr>" 1 2]
  by (simp add: dispatch_bitslice_def has_feature_def gf_mul_shift_one_left)

text \<open>The slice product, whichever of its five implementations runs, panics exactly when the three slices
  do not have the same length and otherwise is the element-wise \<open>gf_mul\<close>; the unrolled loops treat every
  remainder of the length modulo four.\<close>

lemma gf_mul_slice_pointwise:
  "gf_mul_slice g a b out =
     (if length a = length b \<and> length out = length a then Some (map2 (gf_mul g) a b) else None)"
  by (rule gf_mul_slice_eq)

end
