(* ===== verification/Linear_Algebra.thy ===== *)
theory Linear_Algebra
  imports Main
begin

text \<open>
  Linear algebra over a field, as far as the erasure code needs it: a Cauchy system has only the trivial
  solution, elementary row operations keep the solutions of a system, and a matrix with trivial kernel
  always offers the next pivot of Gauss-Jordan elimination. Matrices are functions of a row and a
  column index below a bound \<open>k\<close>.
\<close>

subsection \<open>Cauchy systems\<close>

lemma sum_diff_mult:
  fixes x z w :: "nat \<Rightarrow> 'a::field"
  shows "(\<Sum>i<k. x i * z i) - (\<Sum>i<k. x i * w i) = (\<Sum>i<k. x i * (z i - w i))"
  by (simp add: sum_subtractf right_diff_distrib)

lemma fraction_shift: "w \<noteq> 0 \<Longrightarrow> (w + d) * (x / w) = x + x * d / (w :: 'a::field)"
  by (simp add: field_simps)

lemma fraction_diff: "u \<noteq> 0 \<Longrightarrow> v \<noteq> 0 \<Longrightarrow> z / u - z / v = (v - u) * (z / v / (u :: 'a::field))"
  by (simp add: field_simps)

text \<open>One elimination step: a sum of \<open>k + 1\<close> simple fractions that vanishes at \<open>y\<close> and at \<open>y0\<close> gives
  one with \<open>k\<close> fractions that vanishes at \<open>y\<close>.\<close>

lemma fractions_step:
  fixes a x :: "nat \<Rightarrow> 'a::field"
  assumes y: "(\<Sum>i<Suc k. x i / (y - a i)) = 0" and y0: "(\<Sum>i<Suc k. x i / (y0 - a i)) = 0"
    and ne: "\<And>i. i < Suc k \<Longrightarrow> y \<noteq> a i" "\<And>i. i < Suc k \<Longrightarrow> y0 \<noteq> a i" "y \<noteq> y0"
  shows "(\<Sum>i<k. x i * (a i - a k) / (y0 - a i) / (y - a i)) = 0"
proof -
  have expand: "x k + (\<Sum>i<k. x i) + (\<Sum>i<k. x i * (a i - a k) / (z - a i)) = 0"
    if "(\<Sum>i<Suc k. x i / (z - a i)) = 0" "\<And>i. i < Suc k \<Longrightarrow> z \<noteq> a i" for z
  proof -
    have "(z - a k) * (\<Sum>i<Suc k. x i / (z - a i)) = x k + (\<Sum>i<k. (z - a k) * (x i / (z - a i)))"
      using that(2)[of k] by (simp add: distrib_left sum_distrib_left add.commute)
    also have "(\<Sum>i<k. (z - a k) * (x i / (z - a i))) = (\<Sum>i<k. x i + x i * (a i - a k) / (z - a i))"
    proof (rule sum.cong)
      fix i
      assume "i \<in> {..<k}"
      then have "z - a i \<noteq> 0" using that(2)[of i] by simp
      then show "(z - a k) * (x i / (z - a i)) = x i + x i * (a i - a k) / (z - a i)"
        using fraction_shift[of "z - a i" "a i - a k" "x i"] by simp
    qed simp
    finally show ?thesis using that(1) by (simp add: sum.distrib add.assoc)
  qed
  have gen: "u + s = 0 \<Longrightarrow> u + t = 0 \<Longrightarrow> 0 = s - t" for u s t :: 'a
    by (simp add: add_eq_0_iff)
  define X where "X = x k + (\<Sum>i<k. x i)"
  have "X + (\<Sum>i<k. x i * (a i - a k) / (y - a i)) = 0" "X + (\<Sum>i<k. x i * (a i - a k) / (y0 - a i)) = 0"
    unfolding X_def by (rule expand[OF y], erule ne(1), rule expand[OF y0], erule ne(2))
  then have "0 = (\<Sum>i<k. x i * (a i - a k) / (y - a i)) - (\<Sum>i<k. x i * (a i - a k) / (y0 - a i))"
    by (rule gen)
  also have "\<dots> = (\<Sum>i<k. (y0 - y) * (x i * (a i - a k) / (y0 - a i) / (y - a i)))"
    unfolding sum_subtractf[symmetric]
  proof (rule sum.cong)
    fix i
    assume "i \<in> {..<k}"
    then have "y - a i \<noteq> 0" "y0 - a i \<noteq> 0" using ne(1,2)[of i] by auto
    then show "x i * (a i - a k) / (y - a i) - x i * (a i - a k) / (y0 - a i) =
        (y0 - y) * (x i * (a i - a k) / (y0 - a i) / (y - a i))"
      using fraction_diff[of "y - a i" "y0 - a i" "x i * (a i - a k)"] by simp
  qed simp
  finally have "(y0 - y) * (\<Sum>i<k. x i * (a i - a k) / (y0 - a i) / (y - a i)) = 0"
    by (simp only: sum_distrib_left)
  then show ?thesis using ne(3) by (simp only: mult_eq_0_iff) simp
qed

lemma cauchy_trivial:
  fixes a x y :: "nat \<Rightarrow> 'a::field"
  assumes "inj_on a {..<k}" "inj_on y {..<k}" "\<And>i j. i < k \<Longrightarrow> j < k \<Longrightarrow> y j \<noteq> a i"
    and "\<And>j. j < k \<Longrightarrow> (\<Sum>i<k. x i / (y j - a i)) = 0"
  shows "i < k \<Longrightarrow> x i = 0"
  using assms
proof (induction k arbitrary: x i)
  case (Suc k)
  have inj: "inj_on a {..<k}" "inj_on y {..<k}"
    by (rule inj_on_subset[OF Suc.prems(2)], simp, rule inj_on_subset[OF Suc.prems(3)], simp)
  define x' where "x' i = x i * (a i - a k) / (y k - a i)" for i
  have "(\<Sum>i<k. x' i / (y j - a i)) = 0" if "j < k" for j
    unfolding x'_def
  proof (rule fractions_step[where y = "y j" and ?y0.0 = "y k"])
    show "y j \<noteq> y k" using that inj_onD[OF Suc.prems(3), of j k] by auto
  qed (use that in \<open>simp_all only: Suc.prems(4,5) less_Suc_eq simp_thms\<close>)
  note x'0 = this
  have x': "x' l = 0" if "l < k" for l
    by (rule Suc.IH[of l x', OF that inj Suc.prems(4) x'0]) simp_all
  have x: "x l = 0" if "l < k" for l
  proof -
    have "a l - a k \<noteq> 0" using that inj_onD[OF Suc.prems(2), of l k] by auto
    moreover have "y k - a l \<noteq> 0" using Suc.prems(4)[of l k] that by simp
    ultimately show ?thesis using x'[OF that] unfolding x'_def by (simp only: divide_eq_0_iff mult_eq_0_iff) simp
  qed
  moreover have "x k = 0"
  proof -
    have "(\<Sum>i<k. x i / (y k - a i)) = 0" by (rule sum.neutral) (simp add: x)
    then have "x k / (y k - a k) = 0" using Suc.prems(5)[of k] by simp
    then show ?thesis using Suc.prems(4)[of k k] by simp
  qed
  ultimately show ?case using Suc.prems(1) by (metis less_SucE)
qed simp

subsection \<open>Row operations\<close>

definition dot :: "nat \<Rightarrow> (nat \<Rightarrow> 'a::field) \<Rightarrow> (nat \<Rightarrow> 'a) \<Rightarrow> 'a" where
  "dot k row x = (\<Sum>c<k. row c * x c)"

definition trivial_kernel :: "nat \<Rightarrow> (nat \<Rightarrow> nat \<Rightarrow> 'a::field) \<Rightarrow> bool" where
  "trivial_kernel k M \<longleftrightarrow> (\<forall>x. (\<forall>r<k. dot k (M r) x = 0) \<longrightarrow> (\<forall>c<k. x c = 0))"

text \<open>The columns below \<open>i\<close> are those of the unit matrix.\<close>

definition unit_cols :: "nat \<Rightarrow> nat \<Rightarrow> (nat \<Rightarrow> nat \<Rightarrow> 'a::field) \<Rightarrow> bool" where
  "unit_cols k i M \<longleftrightarrow> (\<forall>r<k. \<forall>c<i. M r c = (if r = c then 1 else 0))"

lemma dot_scale: "dot k (\<lambda>c. row c * f) x = dot k row x * f"
  by (simp add: dot_def sum_distrib_left mult_ac)

lemma dot_add_scaled: "dot k (\<lambda>c. row c + f * row' c) x = dot k row x + f * dot k row' x"
  by (simp add: dot_def sum.distrib sum_distrib_left algebra_simps)

lemma dot_cong: "(\<And>c. c < k \<Longrightarrow> row c = row' c) \<Longrightarrow> dot k row x = dot k row' x"
  by (simp add: dot_def)

lemma dot_unit:
  "i < k \<Longrightarrow> (\<And>c. c < k \<Longrightarrow> row c = (if c = i then 1 else 0)) \<Longrightarrow> dot k row x = x i"
  by (simp add: dot_def if_distrib[of "\<lambda>z. z * _"] cong: if_cong)

lemma trivial_kernel_mono:
  assumes "trivial_kernel k M"
    and "\<And>x r. (\<And>r. r < k \<Longrightarrow> dot k (N r) x = 0) \<Longrightarrow> r < k \<Longrightarrow> dot k (M r) x = 0"
  shows "trivial_kernel k N"
  using assms unfolding trivial_kernel_def by metis

lemma trivial_kernel_swap:
  assumes "trivial_kernel k M" "i < k" "p < k"
    and "\<And>r c. r < k \<Longrightarrow> c < k \<Longrightarrow> N r c = M (if r = i then p else if r = p then i else r) c"
  shows "trivial_kernel k N"
proof (rule trivial_kernel_mono[OF assms(1)])
  fix x r
  assume z: "\<And>r. r < k \<Longrightarrow> dot k (N r) x = 0" and r: "r < k"
  define r' where "r' = (if r = i then p else if r = p then i else r)"
  have "r' < k" "dot k (M r) x = dot k (N r') x"
    using r assms(2,3) by (auto simp: r'_def assms(4) intro!: dot_cong)
  with z show "dot k (M r) x = 0" by simp
qed

lemma trivial_kernel_scale:
  assumes "trivial_kernel k M" "f \<noteq> 0"
    and "\<And>r c. r < k \<Longrightarrow> c < k \<Longrightarrow> N r c = (if r = i then M r c * f else M r c)"
  shows "trivial_kernel k N"
proof (rule trivial_kernel_mono[OF assms(1)])
  fix x r
  assume z: "\<And>r. r < k \<Longrightarrow> dot k (N r) x = 0" and r: "r < k"
  have "dot k (N r) x = (if r = i then dot k (M r) x * f else dot k (M r) x)"
    using r by (auto simp: assms(3) simp flip: dot_scale intro!: dot_cong)
  with z[OF r] assms(2) show "dot k (M r) x = 0" by (auto split: if_splits)
qed

lemma trivial_kernel_add_scaled:
  assumes "trivial_kernel k M" "t < k" "s < k" "t \<noteq> s"
    and "\<And>r c. r < k \<Longrightarrow> c < k \<Longrightarrow> N r c = (if r = t then M t c + f * M s c else M r c)"
  shows "trivial_kernel k N"
proof (rule trivial_kernel_mono[OF assms(1)])
  fix x r
  assume z: "\<And>r. r < k \<Longrightarrow> dot k (N r) x = 0" and r: "r < k"
  have same: "dot k (M r) x = 0" if "r < k" "r \<noteq> t" for r
    using z[OF that(1)] that by (simp add: assms(5) cong: dot_cong)
  have "dot k (N t) x = dot k (M t) x + f * dot k (M s) x"
    using assms(2) by (simp add: assms(5) flip: dot_add_scaled cong: dot_cong)
  with z[OF assms(2)] same[of s] assms(3,4) have "dot k (M t) x = 0" by simp
  with same r show "dot k (M r) x = 0" by (cases "r = t") auto
qed

lemma pivot_exists:
  assumes tk: "trivial_kernel k M" and uc: "unit_cols k i M" and i: "i < k"
  shows "\<exists>r. i \<le> r \<and> r < k \<and> M r i \<noteq> 0"
proof (rule ccontr)
  assume no: "\<not> ?thesis"
  define x where "x c = (if c < i then - M c i else if c = i then 1 else 0)" for c
  have "dot k (M r) x = 0" if r: "r < k" for r
  proof -
    have "dot k (M r) x = (\<Sum>c<Suc i. M r c * x c)"
      unfolding dot_def using i by (intro sum.mono_neutral_right) (auto simp: x_def)
    also have "\<dots> = (\<Sum>c<i. M r c * - M c i) + M r i" by (simp add: x_def)
    also have "(\<Sum>c<i. M r c * - M c i) = (\<Sum>c<i. if c = r then - M r i else 0)"
      using r uc by (intro sum.cong) (auto simp: unit_cols_def)
    also have "\<dots> = (if r < i then - M r i else 0)" by simp
    finally show ?thesis using no r by (auto simp: not_less)
  qed
  with tk have "x i = 0" using i by (simp add: trivial_kernel_def)
  then show False by (simp add: x_def)
qed

end
