(* ===== verification/Fec_Encoder.thy ===== *)
theory Fec_Encoder
  imports Packet Gf_Field Linear_Algebra
begin

text \<open>
  The systematic encoder over GF(2^8) (\<open>Encoder\<close> of \<open>src/src/fec/decoder.rs\<close>): a sliding window of
  the last \<open>k\<close> source packets and repair packets that are Cauchy combinations of the window.

  The rayon branch of \<open>generate_repair_packet\<close> performs the updates of the sequential branch in an
  unspecified order; the model runs them in order. The window is a bounded FIFO; the locale
  \<open>sliding_window\<close> states that contract for the encoders and the loss estimator.
\<close>

subsection \<open>Bounded windows\<close>

text \<open>A queue that drops its oldest element when it holds exactly \<open>cap\<close> elements.\<close>

locale sliding_window =
  fixes add :: "'a \<Rightarrow> 'w \<Rightarrow> 'w" and contents :: "'w \<Rightarrow> 'a list" and cap :: "'w \<Rightarrow> nat"
  assumes contents_add:
    "contents (add x w) = (if length (contents w) = cap w then tl (contents w) else contents w) @ [x]"
    and cap_add: "cap (add x w) = cap w"
begin

lemma cap_fold: "cap (fold add xs w) = cap w"
  by (induction xs arbitrary: w) (simp_all add: cap_add)

text \<open>A window of positive capacity holds the most recent elements, at most \<open>cap\<close> of them.\<close>

lemma contents_fold:
  assumes "contents w = []" "0 < cap w"
  shows "contents (fold add xs w) = drop (length xs - cap w) xs"
proof (induction xs rule: rev_induct)
  case Nil
  then show ?case using assms by simp
next
  case (snoc x xs)
  define n where "n = cap w"
  have "contents (fold add (xs @ [x]) w) =
      (if length (drop (length xs - n) xs) = n then tl (drop (length xs - n) xs)
       else drop (length xs - n) xs) @ [x]"
    by (simp add: contents_add snoc cap_fold n_def)
  also have "\<dots> = drop (length (xs @ [x]) - n) (xs @ [x])"
    using assms(2) by (auto simp: n_def tl_drop drop_Suc Suc_diff_le)
  finally show ?case by (simp add: n_def)
qed

text \<open>With capacity 0 the length is 0 only once: the queue keeps everything.\<close>

lemma contents_fold_cap_0:
  assumes "contents w = []" "cap w = 0"
  shows "contents (fold add xs w) = xs"
proof (induction xs rule: rev_induct)
  case (snoc x xs)
  then show ?case using assms by (auto simp: contents_add cap_fold)
qed (simp add: assms)

end

subsection \<open>The encoder\<close>

record Encoder =
  enc_k :: nat
  enc_n :: nat
  source_window :: "Packet list"

definition Encoder_new :: "nat \<Rightarrow> nat \<Rightarrow> Encoder" where
  "Encoder_new k n = \<lparr>enc_k = k, enc_n = n, source_window = []\<rparr>"

text \<open>Adding a packet; one that leaves the window is dropped, which returns its blocks to the pool.\<close>

definition Encoder_add_source_packet :: "nat \<Rightarrow> Packet \<Rightarrow> Encoder \<times> MemoryPool \<Rightarrow> Encoder \<times> MemoryPool" where
  "Encoder_add_source_packet nd pk s =
     (case s of (e, p) \<Rightarrow>
        let (w, p) = (if length (source_window e) = enc_k e
                      then (case source_window e of
                              [] \<Rightarrow> ([], p)
                            | old # w \<Rightarrow> (w, drop_packet nd old p))
                      else (source_window e, p))
        in (e\<lparr>source_window := w @ [pk]\<rparr>, p))"

definition generate_cauchy_coefficients :: "gf_env \<Rightarrow> nat \<Rightarrow> nat \<Rightarrow> bytes option" where
  "generate_cauchy_coefficients g k repair_index =
     (let y = of_nat (k + repair_index) :: u8
      in if k = 0 then Some []
         else omap (\<lambda>i. gf_inv_prefetch g (of_nat i XOR y)) [0..<k])"

text \<open>The unrolled loop over the bytes of one source packet.\<close>

definition encode_source :: "gf_env \<Rightarrow> u8 \<Rightarrow> bytes \<Rightarrow> nat \<Rightarrow> bytes \<Rightarrow> bytes option" where
  "encode_source g coeff source_data packet_len repair_data =
     unrolled4 (\<lambda>j rd. do { s \<leftarrow> idx source_data j; r \<leftarrow> idx rd j; set_idx rd j (gf_mul_add g coeff s r) })
       packet_len repair_data"

definition encode_window :: "gf_env \<Rightarrow> bytes \<Rightarrow> nat \<Rightarrow> Packet list \<Rightarrow> bytes \<Rightarrow> bytes option" where
  "encode_window g coeffs packet_len ws repair_data =
     ofold (\<lambda>(i, source_packet) rd. do {
         coeff \<leftarrow> idx coeffs i;
         if coeff = 0 then Some rd
         else do {
           d \<leftarrow> data source_packet;
           source_data \<leftarrow> slice d 0 (len source_packet);
           encode_source g coeff source_data packet_len rd } })
       (List.enumerate 0 ws) repair_data"

definition Encoder_generate_repair_packet ::
  "gf_env \<Rightarrow> nat \<Rightarrow> Encoder \<Rightarrow> nat \<Rightarrow> MemoryPool \<Rightarrow> (Packet option \<times> MemoryPool) option" where
  "Encoder_generate_repair_packet g nd e repair_packet_index p =
     (if length (source_window e) < enc_k e then Some (None, p)
      else do {
        first \<leftarrow> idx (source_window e) 0;
        let packet_len = len first;
        (repair_data, p) \<leftarrow> alloc nd p;
        let repair_data = map (\<lambda>_. 0) repair_data;
        coeffs \<leftarrow> generate_cauchy_coefficients g (enc_k e) repair_packet_index;
        repair_data \<leftarrow> encode_window g coeffs packet_len (source_window e) repair_data;
        (coeff_block, p) \<leftarrow> alloc_filled (alloc nd) (length coeffs) coeffs p;
        Some (Some \<lparr>pid = pid (last (source_window e)) + 1 + of_nat repair_packet_index,
                    data = Some repair_data, len = packet_len, is_systematic = False,
                    coefficients = Some coeff_block, coeff_len = length coeffs\<rparr>, p) })"

subsection \<open>The window\<close>

interpretation enc_window: sliding_window "Encoder_add_source_packet nd" "\<lambda>s. source_window (fst s)"
  "\<lambda>s. enc_k (fst s)" for nd
  by unfold_locales
     (auto simp: Encoder_add_source_packet_def Let_def split: prod.splits list.splits if_splits)

subsection \<open>Cauchy coefficients\<close>

lemma unat_of_nat_u8: "n < 256 \<Longrightarrow> unat (of_nat n :: u8) = n"
  by (simp add: unsigned_of_nat take_bit_nat_eq_self)

lemma of_nat_u8_inj: "m < 256 \<Longrightarrow> n < 256 \<Longrightarrow> (of_nat m :: u8) = of_nat n \<longleftrightarrow> m = n"
  by (metis unat_of_nat_u8)

lemma of_nat_u8_xor_neq_0: "m < 256 \<Longrightarrow> n < 256 \<Longrightarrow> m \<noteq> n \<Longrightarrow> (of_nat m :: u8) XOR of_nat n \<noteq> 0"
  by (simp add: word_xor_eq_0_iff of_nat_u8_inj)

text \<open>The points of the Cauchy matrix as field elements.\<close>

definition gpt :: "nat \<Rightarrow> gf8" where
  "gpt i = GF8 (of_nat i)"

lemma gpt_inj: "m < 256 \<Longrightarrow> n < 256 \<Longrightarrow> gpt m = gpt n \<longleftrightarrow> m = n"
  by (simp add: gpt_def of_nat_u8_inj)

lemma GF8_xor_points: "GF8 (of_nat i XOR of_nat j) = gpt j - gpt i"
  by (simp add: gpt_def gf8_minus_is_plus GF8_xor add.commute)

lemma cauchy_coefficients:
  assumes "gf_ready g" "k + r < 256"
  shows "generate_cauchy_coefficients g k r = Some (map (\<lambda>i. raw (1 / (gpt (k + r) - gpt i))) [0..<k])"
proof -
  have "gf_inv_prefetch g (of_nat i XOR of_nat (k + r)) = Some (raw (1 / (gpt (k + r) - gpt i)))"
    if "i < k" for i
    using that assms of_nat_u8_xor_neq_0[of i "k + r"]
    by (simp add: gf_inv_prefetch_eq gf_inv_field GF8_xor_points divide_inverse del: of_nat_add)
  then show ?thesis
    by (auto simp: generate_cauchy_coefficients_def simp del: of_nat_add intro!: omap_Some)
qed

text \<open>From \<open>k = 256\<close> on, some point of the columns is the point of the row and the inverse of 0 panics.\<close>

lemma cauchy_coefficients_panic:
  assumes "256 \<le> k"
  shows "generate_cauchy_coefficients g k r = None"
proof -
  define i where "i = (k + r) mod 256"
  have "i < k" using assms by (simp add: i_def order_less_le_trans[OF mod_less_divisor])
  have "(of_nat i :: u8) = of_nat (k + r)"
    unfolding i_def by (rule word_unat_eq_iff[THEN iffD2]) (simp add: unsigned_of_nat take_bit_eq_mod del: of_nat_add)
  then have "gf_inv_prefetch g (of_nat i XOR of_nat (k + r)) = None"
    by (simp add: gf_inv_prefetch_def del: of_nat_add)
  then show ?thesis
    using omap_None[of i "[0..<k]" "\<lambda>i. gf_inv_prefetch g (of_nat i XOR of_nat (k + r))"] \<open>i < k\<close> assms
    by (simp add: generate_cauchy_coefficients_def del: of_nat_add)
qed

subsection \<open>Repair data\<close>

lemma encode_source_eq:
  assumes "m \<le> length sd" "m \<le> length rd"
  shows "encode_source g c sd m rd = Some (map (\<lambda>j. gf_mul_add g c (sd ! j) (rd ! j)) [0..<m] @ drop m rd)"
  unfolding encode_source_def unrolled4_eq_ofold
  using assms by (intro ofold_pointwise) (simp_all add: idx_def set_idx_def)

text \<open>A source packet shorter than the first one of the window is indexed out of range.\<close>

lemma encode_source_short:
  assumes "length sd < m"
  shows "encode_source g c sd m rd = None"
proof -
  define upd where "upd = (\<lambda>j rd. do { s \<leftarrow> idx sd j; r \<leftarrow> idx rd j; set_idx rd j (gf_mul_add g c s r) })"
  have split: "[0..<m] = [0..<length sd] @ length sd # [Suc (length sd)..<m]"
    using assms(1) by (metis less_imp_le_nat upt_add_eq_append upt_conv_Cons zero_le le_add_diff_inverse)
  have "ofold upd [0..<m] rd = Option.bind (ofold upd [0..<length sd] rd) (\<lambda>_. None)"
    unfolding split ofold_append by (rule arg_cong[of _ _ "Option.bind _"]) (simp add: upd_def idx_def fun_eq_iff)
  also have "\<dots> = None" by (cases "ofold upd [0..<length sd] rd") simp_all
  finally show ?thesis by (simp add: encode_source_def unrolled4_eq_ofold upd_def)
qed

definition source_ok :: "nat \<Rightarrow> nat \<Rightarrow> Packet \<Rightarrow> bool" where
  "source_ok bs packet_len pk \<longleftrightarrow>
     (case data pk of None \<Rightarrow> False | Some d \<Rightarrow> length d = bs \<and> packet_len \<le> len pk \<and> len pk \<le> bs)"

definition src_byte :: "Packet list \<Rightarrow> nat \<Rightarrow> nat \<Rightarrow> gf8" where
  "src_byte ws i j = (case data (ws ! i) of None \<Rightarrow> 0 | Some d \<Rightarrow> GF8 (d ! j))"

text \<open>The accumulated repair data: byte \<open>j\<close> is the linear combination of bytes \<open>j\<close> of the window.\<close>

lemma encode_window_spec:
  assumes g: "gf_scalar g" and len: "length coeffs = length ws"
    and src: "list_all (source_ok bs packet_len) ws" and pl: "packet_len \<le> bs"
  shows "\<exists>rd. encode_window g coeffs packet_len ws (replicate bs 0) = Some rd \<and> length rd = bs \<and>
    (\<forall>j < bs. GF8 (rd ! j) = (if j < packet_len
        then \<Sum>i<length ws. GF8 (coeffs ! i) * src_byte ws i j else 0))"
proof -
  let ?P = "\<lambda>n rd. length rd = bs \<and> (\<forall>j < bs. GF8 (rd ! j) = (if j < packet_len
        then \<Sum>i<n. GF8 (coeffs ! i) * src_byte ws i j else 0))"
  have "\<exists>rd. encode_window g coeffs packet_len ws (replicate bs 0) = Some rd \<and> ?P (length (List.enumerate 0 ws)) rd"
    unfolding encode_window_def
  proof (rule ofold_invariant[where P = ?P])
    show "?P 0 (replicate bs 0)" by (simp add: GF8_0)
  next
    fix i rd
    assume i: "i < length (List.enumerate 0 ws)" and P: "?P i rd"
    then have e: "List.enumerate 0 ws ! i = (i, ws ! i)" "i < length ws" by (simp_all add: nth_enumerate_eq)
    obtain d where d: "data (ws ! i) = Some d" "length d = bs" "packet_len \<le> len (ws ! i)" "len (ws ! i) \<le> bs"
      using src e(2) by (auto simp: list_all_length source_ok_def split: option.splits)
    show "\<exists>rd'. (case List.enumerate 0 ws ! i of (i, source_packet) \<Rightarrow> \<lambda>rd. do {
         coeff \<leftarrow> idx coeffs i;
         if coeff = 0 then Some rd
         else do {
           d \<leftarrow> data source_packet;
           source_data \<leftarrow> slice d 0 (len source_packet);
           encode_source g coeff source_data packet_len rd } }) rd = Some rd' \<and> ?P (Suc i) rd'"
    proof (cases "coeffs ! i = 0")
      case True
      with e len P show ?thesis by (simp add: exec_simps GF8_0)
    next
      case False
      with e len P d g pl show ?thesis
        by (auto simp: exec_simps encode_source_eq src_byte_def nth_append gf_simps add.commute)
    qed
  qed
  then show ?thesis by (simp only: length_enumerate)
qed

lemma raw_GF8_eq: "GF8 (raw x) = x"
  by (cases x) simp

definition window_ok :: "nat \<Rightarrow> Packet list \<Rightarrow> bool" where
  "window_ok bs ws \<longleftrightarrow> ws \<noteq> [] \<and> list_all (source_ok bs (len (hd ws))) ws"

lemma generate_repair_packet_spec:
  assumes g: "gf_scalar g" and p: "pool_ok p" "block_size p = bs"
    and w: "window_ok bs ws" "length ws = k" "k + r < 256" "k \<le> bs"
  shows "\<exists>rd p'. Encoder_generate_repair_packet g nd \<lparr>enc_k = k, enc_n = n, source_window = ws\<rparr> r p =
      Some (Some \<lparr>pid = pid (last ws) + 1 + of_nat r, data = Some rd, len = len (hd ws), is_systematic = False,
         coefficients = Some (map (\<lambda>i. raw (1 / (gpt (k + r) - gpt i))) [0..<k] @ replicate (bs - k) 0),
         coeff_len = k\<rparr>, p') \<and> pool_ok p' \<and> block_size p' = bs \<and> length rd = bs \<and>
      (\<forall>j < bs. GF8 (rd ! j) = (if j < len (hd ws)
         then \<Sum>i<k. 1 / (gpt (k + r) - gpt i) * src_byte ws i j else 0))"
proof -
  define cs where "cs = map (\<lambda>i. raw (1 / (gpt (k + r) - gpt i))) [0..<k]"
  have cs: "generate_cauchy_coefficients g k r = Some cs" "length cs = k"
    using cauchy_coefficients[OF gf_scalar_ready[OF g] w(3)] by (simp_all add: cs_def)
  have w1: "ws \<noteq> []" "list_all (source_ok bs (len (hd ws))) ws" using w(1) by (simp_all add: window_ok_def)
  then have k: "0 < k" using w(2) by auto
  have pl: "len (hd ws) \<le> bs" using w1 by (cases ws) (auto simp: source_ok_def split: option.splits)
  obtain p1 where p1: "alloc nd p = Some (replicate bs 0, p1)" "pool_ok p1" "block_size p1 = bs"
    using pool.al_ok[OF p(1), of nd] p(2) by auto
  obtain rd where rd: "encode_window g cs (len (hd ws)) ws (replicate bs 0) = Some rd" "length rd = bs"
    "\<forall>j < bs. GF8 (rd ! j) = (if j < len (hd ws) then \<Sum>i<k. GF8 (cs ! i) * src_byte ws i j else 0)"
    using encode_window_spec[OF g _ w1(2) pl, of cs] cs(2) w(2) by auto
  obtain p2 where p2: "alloc_filled (alloc nd) k cs p1 = Some (cs @ replicate (bs - k) 0, p2)"
    "pool_ok p2" "block_size p2 = bs"
    using pool.alloc_filled_ok[OF p1(2) cs(2), of nd] w(4) p1(3) by auto
  have sum: "(\<Sum>i<k. GF8 (cs ! i) * src_byte ws i j) = (\<Sum>i<k. 1 / (gpt (k + r) - gpt i) * src_byte ws i j)" for j
    by (intro sum.cong) (simp_all add: cs_def raw_GF8_eq)
  show ?thesis
    using w1(1) w(2) k p1 rd p2 cs sum
    by (simp add: Encoder_generate_repair_packet_def idx_def hd_conv_nth map_replicate_const cs_def[symmetric])
qed

lemma generate_repair_packet_short:
  assumes g: "gf_ready g" and p: "pool_ok p" "block_size p = bs"
    and w: "length ws = k" "k + r < 256" "i < k" "len (ws ! i) < len (ws ! 0)"
  shows "Encoder_generate_repair_packet g nd \<lparr>enc_k = k, enc_n = n, source_window = ws\<rparr> r p = None"
proof -
  define cs where "cs = map (\<lambda>i. raw (1 / (gpt (k + r) - gpt i))) [0..<k]"
  have cs: "generate_cauchy_coefficients g k r = Some cs" "length cs = k"
    using cauchy_coefficients[OF g w(2)] by (simp_all add: cs_def)
  have "gpt (k + r) - gpt i \<noteq> 0" using w gpt_inj[of "k + r" i] by simp
  then have c: "cs ! i \<noteq> 0"
    using w(3) by (simp add: cs_def raw_GF8_eq flip: GF8_eq_0_iff)
  have "encode_source g c sd (len (ws ! 0)) rd = None" if "slice d 0 (len (ws ! i)) = Some sd" for c d sd rd
    using that w(4) by (intro encode_source_short) (auto simp: slice_def split: if_splits)
  then have "(case (i, ws ! i) of (i, source_packet) \<Rightarrow> \<lambda>rd. do {
         coeff \<leftarrow> idx cs i;
         if coeff = 0 then Some rd
         else do {
           d \<leftarrow> data source_packet;
           source_data \<leftarrow> slice d 0 (len source_packet);
           encode_source g coeff source_data (len (ws ! 0)) rd } }) rd = None" for rd
    using c cs(2) w(3) by (auto simp: idx_def split: Option.bind_split)
  moreover have "(i, ws ! i) \<in> set (List.enumerate 0 ws)"
    using w by (auto simp: in_set_enumerate_eq)
  ultimately have "encode_window g cs (len (ws ! 0)) ws rd = None" for rd
    unfolding encode_window_def by (rule ofold_None[rotated])
  then show ?thesis
    using w cs pool.al_ok[OF p(1), of nd] by (auto simp: Encoder_generate_repair_packet_def idx_def)
qed

lemma Encoder_add_pool_ok [inv_intros]:
  "pool_ok p \<Longrightarrow> list_all (packet_ok (block_size p)) (source_window e) \<Longrightarrow>
   pool_ok (snd (Encoder_add_source_packet nd pk (e, p))) \<and>
   block_size (snd (Encoder_add_source_packet nd pk (e, p))) = block_size p"
  using drop_packet_ok[of p _ nd]
  by (auto simp: Encoder_add_source_packet_def split: list.split)

subsection \<open>Properties\<close>

text \<open>C22: after any sequence of source packets the window of a new encoder holds exactly the last \<open>k\<close> of
  them, in order. For \<open>k = 0\<close> (the window of the zero mode) the length test never matches again after
  the first packet and the window keeps every packet ever sent.\<close>

theorem encoder_window_last_k:
  "source_window (fst (fold (Encoder_add_source_packet nd) pks (Encoder_new k n, p))) =
     (if k = 0 then pks else drop (length pks - k) pks)"
  using enc_window.contents_fold[of "(Encoder_new k n, p)" nd pks]
    enc_window.contents_fold_cap_0[of "(Encoder_new k n, p)" nd pks]
  by (simp add: Encoder_new_def)

text \<open>C20: with initialised tables the coefficient row of repair packet \<open>r\<close> over a window of \<open>k\<close> packets
  exists when \<open>k + r < 256\<close>, consists of \<open>k\<close> pairwise different non-zero values, and entry \<open>i\<close> is the
  field inverse of \<open>i XOR (k + r)\<close>. For \<open>k\<close> of 256 and more, which the strong mode uses, computing the row
  always panics on the inverse of zero.\<close>

theorem cauchy_row:
  assumes "gf_ready g"
  shows "(k + r < 256 \<longrightarrow> (\<exists>cs. generate_cauchy_coefficients g k r = Some cs \<and> length cs = k \<and> distinct cs \<and>
            0 \<notin> set cs \<and> (\<forall>i < k. gf_mul_shift (cs ! i) (of_nat i XOR of_nat (k + r)) = 1))) \<and>
         (256 \<le> k \<longrightarrow> generate_cauchy_coefficients g k r = None)"
proof (intro conjI impI cauchy_coefficients_panic)
  assume kr: "k + r < 256"
  define x where "x i = gpt (k + r) - gpt i" for i
  have x: "x i \<noteq> 0" "x i = GF8 (of_nat i XOR of_nat (k + r))" if "i < k" for i
    using that kr gpt_inj[of "k + r" i] by (simp_all add: x_def GF8_xor_points del: of_nat_add)
  have inj: "x i = x j \<longleftrightarrow> i = j" if "i < k" "j < k" for i j
    using that kr gpt_inj[of i j] by (simp add: x_def)
  have "raw (1 / x i) \<noteq> 0" if "i < k" for i
    using x(1)[OF that] by (metis GF8_eq_0_iff divide_eq_0_iff one_neq_zero raw_GF8_eq)
  moreover have "gf_mul_shift (raw (1 / x i)) (of_nat i XOR of_nat (k + r)) = 1" if "i < k" for i
  proof -
    have "GF8 (gf_mul_shift (raw (1 / x i)) (of_nat i XOR of_nat (k + r))) = 1 / x i * x i"
      unfolding x(2)[OF that] by (simp add: times_gf8_def)
    then show ?thesis using x(1)[OF that] by (simp add: one_gf8_def)
  qed
  moreover have "distinct (map (\<lambda>i. raw (1 / x i)) [0..<k])"
    using inj by (auto simp: distinct_map inj_on_def gf8_eq_iff[symmetric] divide_inverse)
  ultimately show "\<exists>cs. generate_cauchy_coefficients g k r = Some cs \<and> length cs = k \<and> distinct cs \<and>
            0 \<notin> set cs \<and> (\<forall>i < k. gf_mul_shift (cs ! i) (of_nat i XOR of_nat (k + r)) = 1)"
    using cauchy_coefficients[OF assms kr, folded x_def]
    by (intro exI[of _ "map (\<lambda>i. raw (1 / x i)) [0..<k]"]) (auto simp del: of_nat_add)
qed

theorem cauchy_row_witness: "generate_cauchy_coefficients std_env 300 0 = None"
  using cauchy_row[OF gf_ready_std_env, of 300 0] by simp

text \<open>C2: the repair packet over a full window. Without a carry-less kernel, for blocks of the pool, a
  window of \<open>k\<close> packets none of which is shorter than the first and \<open>k + r < 256\<close>, the operation returns a
  repair packet whose coefficient prefix is the Cauchy row, whose data is byte by byte the combination
  of the window's data in GF(2^8) up to the length of the first packet and zero after it, and the pool
  keeps its invariant.\<close>

theorem repair_packet_combination:
  assumes "gf_scalar g" "pool_ok p" "window_ok (block_size p) (source_window e)"
    "length (source_window e) = enc_k e" "enc_k e + r < 256" "enc_k e \<le> block_size p"
  shows "\<exists>pk p' rd cs. Encoder_generate_repair_packet g nd e r p = Some (Some pk, p') \<and> pool_ok p' \<and>
           generate_cauchy_coefficients g (enc_k e) r = Some cs \<and>
           packet_view pk = \<lparr>v_systematic = False, v_coeffs = Some cs, v_payload = take (len pk) rd\<rparr> \<and>
           data pk = Some rd \<and> len pk = len (hd (source_window e)) \<and> length rd = block_size p \<and>
           (\<forall>j < block_size p. GF8 (rd ! j) =
              (if j < len pk then \<Sum>i<enc_k e. GF8 (cs ! i) * src_byte (source_window e) i j else 0))"
proof -
  obtain k n ws where e: "e = \<lparr>enc_k = k, enc_n = n, source_window = ws\<rparr>" by (cases e)
  from generate_repair_packet_spec[OF assms(1,2) refl, of ws k r nd n] assms
  obtain rd p' where *: "Encoder_generate_repair_packet g nd e r p =
      Some (Some \<lparr>pid = pid (last ws) + 1 + of_nat r, data = Some rd, len = len (hd ws), is_systematic = False,
         coefficients = Some (map (\<lambda>i. raw (1 / (gpt (k + r) - gpt i))) [0..<k] @ replicate (block_size p - k) 0),
         coeff_len = k\<rparr>, p')" "pool_ok p'" "length rd = block_size p"
      "\<forall>j < block_size p. GF8 (rd ! j) = (if j < len (hd ws)
         then \<Sum>i<k. 1 / (gpt (k + r) - gpt i) * src_byte ws i j else 0)"
    unfolding e by auto
  show ?thesis
    using * cauchy_coefficients[OF gf_scalar_ready[OF assms(1)] assms(5)]
    by (simp add: e packet_view_def raw_GF8_eq)
qed

definition sample_source :: "u64 \<Rightarrow> bytes \<Rightarrow> nat \<Rightarrow> Packet" where
  "sample_source i d n = \<lparr>pid = i, data = Some d, len = n, is_systematic = True, coefficients = None, coeff_len = 0\<rparr>"

theorem repair_packet_combination_witness:
  "\<exists>pk p'. Encoder_generate_repair_packet std_env 0
      \<lparr>enc_k = 2, enc_n = 3, source_window = [sample_source 0 [1, 2, 0] 2, sample_source 1 [3, 4, 0] 2]\<rparr> 0
      (pool_new 1 4 3) = Some (Some pk, p') \<and> len pk = 2"
  using repair_packet_combination[of std_env "pool_new 1 4 3"
      "\<lparr>enc_k = 2, enc_n = 3, source_window = [sample_source 0 [1, 2, 0] 2, sample_source 1 [3, 4, 0] 2]\<rparr>" 0 0]
  by (auto simp: gf_scalar_std_env pool_ok_new window_ok_def source_ok_def sample_source_def)

text \<open>A window that contains a packet shorter than its first one makes repair generation panic (the
  byte loops run to the length of the first packet).\<close>

lemma repair_short_packet_panics:
  assumes "gf_ready g" "pool_ok p" "length (source_window e) = enc_k e" "enc_k e + r < 256"
    "i < enc_k e" "len (source_window e ! i) < len (source_window e ! 0)"
  shows "Encoder_generate_repair_packet g nd e r p = None"
proof -
  obtain k n ws where e: "e = \<lparr>enc_k = k, enc_n = n, source_window = ws\<rparr>" by (cases e)
  show ?thesis
    using generate_repair_packet_short[OF assms(1,2) refl, of ws k r i nd n] assms unfolding e by simp
qed

end
