(* ===== verification/Csr_Matrix.thy ===== *)
theory Csr_Matrix
  imports Gf_Field Linear_Algebra
begin

text \<open>
  The compressed-sparse-row matrix of the decoder (\<open>CsrMatrix\<close> of \<open>src/src/fec/decoder.rs\<close>).

  The operations work on the flat arrays as the code does and panic (\<open>None\<close>) where an index, a
  \<open>drain\<close>, an \<open>insert\<close> or an unchecked subtraction would. \<open>csr_of\<close> builds the arrays from a list of
  sparse rows; each operation on such a matrix is shown to be the expected operation on the rows. The
  rayon branches perform independent updates and are modelled as maps.
\<close>

record CsrMatrix =
  vals :: "u8 list"
  col_indices :: "nat list"
  row_ptr :: "nat list"
  payloads :: "block option list"
  num_cols :: nat

type_synonym srow = "(nat \<times> u8) list"

definition csr_new :: "nat \<Rightarrow> CsrMatrix" where
  "csr_new nc = \<lparr>vals = [], col_indices = [], row_ptr = [0], payloads = [], num_cols = nc\<rparr>"

definition num_rows :: "CsrMatrix \<Rightarrow> nat" where
  "num_rows m = length (row_ptr m) - 1"

definition append_row :: "bytes \<Rightarrow> block option \<Rightarrow> CsrMatrix \<Rightarrow> CsrMatrix" where
  "append_row row payload m =
     (let m = fold (\<lambda>(col_idx, v) m. if v \<noteq> 0
                      then m\<lparr>vals := vals m @ [v], col_indices := col_indices m @ [col_idx]\<rparr> else m)
                (List.enumerate 0 row) m
      in m\<lparr>row_ptr := row_ptr m @ [length (vals m)], payloads := payloads m @ [payload]\<rparr>)"

primrec find_col :: "CsrMatrix \<Rightarrow> nat \<Rightarrow> nat list \<Rightarrow> u8 option" where
  "find_col m col [] = Some 0"
| "find_col m col (i # is) = do {
     c \<leftarrow> idx (col_indices m) i;
     if c = col then idx (vals m) i else find_col m col is }"

definition get_val :: "CsrMatrix \<Rightarrow> nat \<Rightarrow> nat \<Rightarrow> u8 option" where
  "get_val m row col = do {
     row_start \<leftarrow> idx (row_ptr m) row;
     row_end \<leftarrow> idx (row_ptr m) (row + 1);
     find_col m col [row_start..<row_end] }"

definition get_payload :: "CsrMatrix \<Rightarrow> nat \<Rightarrow> block option option" where
  "get_payload m row = idx (payloads m) row"

definition row_entries :: "CsrMatrix \<Rightarrow> nat \<Rightarrow> srow option" where
  "row_entries m row = do {
     start \<leftarrow> idx (row_ptr m) row;
     fin \<leftarrow> idx (row_ptr m) (row + 1);
     omap (\<lambda>i. do { c \<leftarrow> idx (col_indices m) i; v \<leftarrow> idx (vals m) i; Some (c, v) }) [start..<fin] }"

definition checked_sub :: "nat \<Rightarrow> nat \<Rightarrow> nat option" where
  "checked_sub a b = (if b \<le> a then Some (a - b) else None)"

definition drain :: "nat \<Rightarrow> nat \<Rightarrow> 'a list \<Rightarrow> 'a list option" where
  "drain a b xs = (if a \<le> b \<and> b \<le> length xs then Some (take a xs @ drop b xs) else None)"

definition clear_row :: "nat \<Rightarrow> CsrMatrix \<Rightarrow> CsrMatrix option" where
  "clear_row row m = do {
     start \<leftarrow> idx (row_ptr m) row;
     fin \<leftarrow> idx (row_ptr m) (row + 1);
     diff \<leftarrow> checked_sub fin start;
     if diff = 0 then Some m
     else do {
       vs \<leftarrow> drain start fin (vals m);
       cs \<leftarrow> drain start fin (col_indices m);
       ptrs \<leftarrow> omap (\<lambda>ptr. checked_sub ptr diff) (drop (row + 1) (row_ptr m));
       Some (m\<lparr>vals := vs, col_indices := cs, row_ptr := take (row + 1) (row_ptr m) @ ptrs\<rparr>) } }"

definition vec_insert :: "nat \<Rightarrow> 'a \<Rightarrow> 'a list \<Rightarrow> 'a list option" where
  "vec_insert i x xs = (if i \<le> length xs then Some (take i xs @ x # drop i xs) else None)"

definition insert_row :: "nat \<Rightarrow> srow \<Rightarrow> CsrMatrix \<Rightarrow> CsrMatrix option" where
  "insert_row row entries m = do {
     start \<leftarrow> idx (row_ptr m) row;
     m \<leftarrow> ofold (\<lambda>(col, v) m. do {
            vs \<leftarrow> vec_insert start v (vals m);
            cs \<leftarrow> vec_insert start col (col_indices m);
            Some (m\<lparr>vals := vs, col_indices := cs\<rparr>) }) (rev entries) m;
     Some (m\<lparr>row_ptr := take (row + 1) (row_ptr m) @
               map (\<lambda>ptr. ptr + length entries) (drop (row + 1) (row_ptr m))\<rparr>) }"

definition vec_swap :: "nat \<Rightarrow> nat \<Rightarrow> 'a list \<Rightarrow> 'a list option" where
  "vec_swap i j xs = do { x \<leftarrow> idx xs i; y \<leftarrow> idx xs j; Some (xs[i := y, j := x]) }"

definition swap_rows :: "nat \<Rightarrow> nat \<Rightarrow> CsrMatrix \<Rightarrow> CsrMatrix option" where
  "swap_rows r1 r2 m =
     (if r1 = r2 then Some m
      else do {
        row1 \<leftarrow> row_entries m r1;
        row2 \<leftarrow> row_entries m r2;
        let (hi, lo, hi_row, lo_row) = (if r1 > r2 then (r1, r2, row1, row2) else (r2, r1, row2, row1));
        m \<leftarrow> clear_row hi m;
        m \<leftarrow> clear_row lo m;
        m \<leftarrow> insert_row hi lo_row m;
        m \<leftarrow> insert_row lo hi_row m;
        ps \<leftarrow> vec_swap r1 r2 (payloads m);
        Some (m\<lparr>payloads := ps\<rparr>) })"

text \<open>Multiplying the entries \<open>a..b\<close> of the value array: the slice of the parallel branch and the loop of
  the sequential one panic under the same condition.\<close>

definition map_range :: "('a \<Rightarrow> 'a) \<Rightarrow> nat \<Rightarrow> nat \<Rightarrow> 'a list \<Rightarrow> 'a list option" where
  "map_range f a b xs = ofold (\<lambda>i xs. do { v \<leftarrow> idx xs i; set_idx xs i (f v) }) [a..<b] xs"

definition scale_row :: "gf_env \<Rightarrow> nat \<Rightarrow> u8 \<Rightarrow> CsrMatrix \<Rightarrow> CsrMatrix option" where
  "scale_row g row factor m = do {
     row_start \<leftarrow> idx (row_ptr m) row;
     row_end \<leftarrow> idx (row_ptr m) (row + 1);
     vs \<leftarrow> map_range (\<lambda>v. gf_mul g v factor) row_start row_end (vals m);
     payload \<leftarrow> idx (payloads m) row;
     Some (m\<lparr>vals := vs,
             payloads := (payloads m)[row := map_option (map (\<lambda>b. gf_mul g b factor)) payload]\<rparr>) }"

text \<open>The payload update of \<open>add_scaled_row\<close>. The parallel branch runs over the whole target and indexes
  the source; the sequential one stops at the shorter of the two.\<close>

definition add_scaled_payload :: "gf_env \<Rightarrow> u8 \<Rightarrow> bytes \<Rightarrow> bytes \<Rightarrow> bytes option" where
  "add_scaled_payload g factor src tgt =
     (if parallel_policy (features g)
      then omap (\<lambda>(i, t). do { s \<leftarrow> idx src i; Some (gf_mul_add g factor s t) }) (List.enumerate 0 tgt)
      else unrolled4 (\<lambda>i tgt. do { s \<leftarrow> idx src i; t \<leftarrow> idx tgt i; set_idx tgt i (gf_mul_add g factor s t) })
             (min (length tgt) (length src)) tgt)"

definition add_scaled_row :: "gf_env \<Rightarrow> nat \<Rightarrow> nat \<Rightarrow> u8 \<Rightarrow> CsrMatrix \<Rightarrow> CsrMatrix option" where
  "add_scaled_row g target_row source_row factor m = do {
     t_entries \<leftarrow> row_entries m target_row;
     dense \<leftarrow> ofold (\<lambda>(c, v) dense. set_idx dense c v) t_entries (replicate (num_cols m) 0);
     s_entries \<leftarrow> row_entries m source_row;
     dense \<leftarrow> ofold (\<lambda>(c, v) dense. do { d \<leftarrow> idx dense c; set_idx dense c (d XOR gf_mul g v factor) })
                s_entries dense;
     m \<leftarrow> clear_row target_row m;
     m \<leftarrow> insert_row target_row (filter (\<lambda>(c, v). v \<noteq> 0) (List.enumerate 0 dense)) m;
     src \<leftarrow> idx (payloads m) source_row;
     tgt \<leftarrow> idx (payloads m) target_row;
     case (src, tgt) of
       (Some src, Some tgt) \<Rightarrow> do {
         tgt \<leftarrow> add_scaled_payload g factor src tgt;
         Some (m\<lparr>payloads := (payloads m)[target_row := Some tgt]\<rparr>) }
     | _ \<Rightarrow> Some m }"

subsection \<open>Matrices given by their rows\<close>

definition ptrs :: "srow list \<Rightarrow> nat list" where
  "ptrs rs = map (\<lambda>r. length (concat (take r rs))) [0..<length rs + 1]"

definition csr_of :: "srow list \<Rightarrow> block option list \<Rightarrow> nat \<Rightarrow> CsrMatrix" where
  "csr_of rs ps nc =
     \<lparr>vals = map snd (concat rs), col_indices = map fst (concat rs), row_ptr = ptrs rs,
      payloads = ps, num_cols = nc\<rparr>"

definition sparse :: "bytes \<Rightarrow> srow" where
  "sparse row = filter (\<lambda>(c, v). v \<noteq> 0) (List.enumerate 0 row)"

definition row_val :: "srow \<Rightarrow> nat \<Rightarrow> u8" where
  "row_val row col = (case map_of row col of None \<Rightarrow> 0 | Some v \<Rightarrow> v)"

lemma csr_of_sel [simp]:
  "vals (csr_of rs ps nc) = map snd (concat rs)" "col_indices (csr_of rs ps nc) = map fst (concat rs)"
  "row_ptr (csr_of rs ps nc) = ptrs rs" "payloads (csr_of rs ps nc) = ps" "num_cols (csr_of rs ps nc) = nc"
  by (simp_all add: csr_of_def)

lemma csr_of_payloads [simp]: "(csr_of rs ps nc)\<lparr>payloads := ps'\<rparr> = csr_of rs ps' nc"
  by (simp add: csr_of_def)

lemma length_ptrs [simp]: "length (ptrs rs) = Suc (length rs)"
  by (simp add: ptrs_def)

lemma nth_ptrs [simp]: "r \<le> length rs \<Longrightarrow> ptrs rs ! r = length (concat (take r rs))"
  by (simp add: ptrs_def del: upt_Suc)

lemma csr_new_of: "csr_new nc = csr_of [] [] nc"
  by (simp add: csr_new_def csr_of_def ptrs_def)

lemma num_rows_csr_of [simp]: "num_rows (csr_of rs ps nc) = length rs"
  by (simp add: num_rows_def)

lemma append_row_fold:
  "fold (\<lambda>(col_idx, v) m. if v \<noteq> 0
           then m\<lparr>vals := vals m @ [v], col_indices := col_indices m @ [col_idx]\<rparr> else m) es m =
   m\<lparr>vals := vals m @ map snd (filter (\<lambda>(c, v). v \<noteq> 0) es),
     col_indices := col_indices m @ map fst (filter (\<lambda>(c, v). v \<noteq> 0) es)\<rparr>"
  by (induction es arbitrary: m) auto

lemma append_row_csr_of:
  "append_row row payload (csr_of rs ps nc) = csr_of (rs @ [sparse row]) (ps @ [payload]) nc"
  by (simp add: append_row_def append_row_fold csr_of_def sparse_def ptrs_def)

text \<open>The two pointers of row \<open>r\<close> delimit its entries.\<close>

lemma row_ptrs:
  "r < length rs \<Longrightarrow> idx (ptrs rs) r = Some (length (concat (take r rs)))"
  "r < length rs \<Longrightarrow> idx (ptrs rs) (Suc r) = Some (length (concat (take r rs)) + length (rs ! r))"
  by (simp_all add: idx_def length_concat_take_Suc)

lemma nth_concat_row:
  "r < length rs \<Longrightarrow> j < length (rs ! r) \<Longrightarrow> concat rs ! (length (concat (take r rs)) + j) = rs ! r ! j"
  by (subst concat_take_nth_drop[of r rs]) (simp_all add: nth_append)

lemma concat_row_bound:
  "r < length rs \<Longrightarrow> j < length (rs ! r) \<Longrightarrow> length (concat (take r rs)) + j < length (concat rs)"
  by (subst concat_take_nth_drop[of r rs]) simp_all

lemma row_entries_csr_of [exec_simps]:
  assumes "r < length rs"
  shows "row_entries (csr_of rs ps nc) r = Some (rs ! r)"
proof -
  let ?s = "length (concat (take r rs))"
  have "omap (\<lambda>i. do { c \<leftarrow> idx (map fst (concat rs)) i; v \<leftarrow> idx (map snd (concat rs)) i; Some (c, v) })
      [?s..<?s + length (rs ! r)] = Some (map ((!) (concat rs)) [?s..<?s + length (rs ! r)])"
  proof (rule omap_Some)
    fix i
    assume "i \<in> set [?s..<?s + length (rs ! r)]"
    then have "i < length (concat rs)" using concat_row_bound[OF assms, of "i - ?s"] by auto
    then show "do { c \<leftarrow> idx (map fst (concat rs)) i; v \<leftarrow> idx (map snd (concat rs)) i; Some (c, v) } =
        Some (concat rs ! i)" by (simp add: idx_def)
  qed
  moreover have "map ((!) (concat rs)) [?s..<?s + length (rs ! r)] = rs ! r"
    using nth_concat_row[OF assms] by (intro nth_equalityI) simp_all
  ultimately show ?thesis using assms by (simp add: row_entries_def row_ptrs)
qed

lemma find_col_row:
  assumes "r < length rs" "n \<le> length (rs ! r)"
  shows "find_col (csr_of rs ps nc) col [length (concat (take r rs)) + n..<length (concat (take r rs)) + length (rs ! r)] =
         Some (row_val (drop n (rs ! r)) col)"
  using assms(2)
proof (induction "length (rs ! r) - n" arbitrary: n)
  case 0
  then show ?case by (simp add: row_val_def)
next
  case (Suc d)
  then have n: "n < length (rs ! r)" by simp
  note [simp] = nth_concat_row[OF assms(1) n] concat_row_bound[OF assms(1) n]
  have "drop n (rs ! r) = rs ! r ! n # drop (Suc n) (rs ! r)" using n by (simp add: Cons_nth_drop_Suc)
  then show ?case
    using Suc.hyps(1)[of "Suc n"] Suc.hyps(2) n
    by (cases "rs ! r ! n") (simp add: upt_conv_Cons idx_def row_val_def)
qed

lemma get_val_csr_of [exec_simps]:
  "r < length rs \<Longrightarrow> get_val (csr_of rs ps nc) r col = Some (row_val (rs ! r) col)"
  using find_col_row[of r rs 0 ps nc col] by (simp add: get_val_def row_ptrs)

subsection \<open>Replacing rows\<close>

lemma length_concat_take_update:
  assumes "r < i" "i \<le> length rs"
  shows "length (concat (take i (rs[r := x]))) = length (concat (take i rs)) - length (rs ! r) + length x"
    and "length (rs ! r) \<le> length (concat (take i rs))"
proof -
  have "take i rs ! r = rs ! r" "r < length (take i rs)" using assms by simp_all
  then have le: "length (rs ! r) \<le> sum_list (map length (take i rs))"
    using elem_le_sum_list[of r "map length (take i rs)"] by simp
  then show "length (rs ! r) \<le> length (concat (take i rs))" by (simp add: length_concat)
  show "length (concat (take i (rs[r := x]))) = length (concat (take i rs)) - length (rs ! r) + length x"
    using assms le by (simp add: length_concat take_update_swap map_update sum_list_update)
qed

lemma ptrs_update:
  assumes "r < length rs"
  shows "ptrs (rs[r := x]) = take (Suc r) (ptrs rs) @
           map (\<lambda>p. p - length (rs ! r) + length x) (drop (Suc r) (ptrs rs))"
proof (rule nth_equalityI)
  fix i
  assume "i < length (ptrs (rs[r := x]))"
  then have i: "i \<le> length rs" by simp
  show "ptrs (rs[r := x]) ! i = (take (Suc r) (ptrs rs) @
           map (\<lambda>p. p - length (rs ! r) + length x) (drop (Suc r) (ptrs rs))) ! i"
  proof (cases "i \<le> r")
    case True
    then show ?thesis using assms i by (simp add: nth_append take_update_cancel)
  next
    case False
    then show ?thesis
      using assms i length_concat_take_update(1)[of r i rs x] by (simp add: nth_append min_def)
  qed
qed (use assms in simp)

lemma concat_update: "r < length rs \<Longrightarrow> concat (rs[r := x]) = concat (take r rs) @ x @ concat (drop (Suc r) rs)"
  by (simp add: upd_conv_take_nth_drop)

lemma drain_row:
  "r < length rs \<Longrightarrow>
   drain (length (concat (take r rs))) (length (concat (take r rs)) + length (rs ! r)) (map f (concat rs)) =
   Some (map f (concat (rs[r := []])))"
  unfolding concat_update concat_take_nth_drop[of r rs] by (simp add: drain_def)

lemma later_ptr_ge:
  assumes "r < length rs" "q \<in> set (drop (Suc r) (ptrs rs))"
  shows "length (rs ! r) \<le> q"
proof -
  obtain i where "i < length rs - r" "q = length (concat (take (Suc (r + i)) rs))"
    using assms by (auto simp: in_set_conv_nth)
  then show ?thesis using length_concat_take_update(2)[of r "Suc (r + i)" rs] by simp
qed

lemma clear_row_csr_of [exec_simps]:
  assumes "r < length rs"
  shows "clear_row r (csr_of rs ps nc) = Some (csr_of (rs[r := []]) ps nc)"
proof (cases "rs ! r = []")
  case True
  then have "rs[r := []] = rs" by (metis list_update_id)
  with True assms show ?thesis by (simp add: clear_row_def row_ptrs checked_sub_def)
next
  case False
  have "omap (\<lambda>ptr. checked_sub ptr (length (rs ! r))) (drop (Suc r) (ptrs rs)) =
      Some (map (\<lambda>p. p - length (rs ! r)) (drop (Suc r) (ptrs rs)))"
  proof (rule omap_Some)
    fix q
    assume "q \<in> set (drop (Suc r) (ptrs rs))"
    then show "checked_sub q (length (rs ! r)) = Some (q - length (rs ! r))"
      using later_ptr_ge[OF assms] by (simp add: checked_sub_def)
  qed
  with False assms ptrs_update[OF assms, of "[]"] show ?thesis
    by (simp add: clear_row_def row_ptrs checked_sub_def drain_row csr_of_def)
qed

lemma insert_entries:
  assumes "start \<le> length (vals m)" "start \<le> length (col_indices m)"
  shows "ofold (\<lambda>(col, v) m. do {
            vs \<leftarrow> vec_insert start v (vals m);
            cs \<leftarrow> vec_insert start col (col_indices m);
            Some (m\<lparr>vals := vs, col_indices := cs\<rparr>) }) (rev es) m =
         Some (m\<lparr>vals := take start (vals m) @ map snd es @ drop start (vals m),
                 col_indices := take start (col_indices m) @ map fst es @ drop start (col_indices m)\<rparr>)"
  using assms
  by (induction es) (auto simp: ofold_append vec_insert_def)

lemma insert_row_csr_of [exec_simps]:
  assumes "r < length rs"
  shows "insert_row r es (csr_of rs ps nc) = Some (csr_of (rs[r := es @ rs ! r]) ps nc)"
proof -
  let ?s = "length (concat (take r rs))"
  have le: "?s \<le> length (concat rs)" by (rule length_concat_take_le)
  have "take ?s (map snd (concat rs)) @ map snd es @ drop ?s (map snd (concat rs)) = map snd (concat (rs[r := es @ rs ! r]))"
    "take ?s (map fst (concat rs)) @ map fst es @ drop ?s (map fst (concat rs)) = map fst (concat (rs[r := es @ rs ! r]))"
    unfolding concat_update[OF assms] concat_take_nth_drop[OF assms] by simp_all
  moreover have "map (\<lambda>ptr. ptr + length es) (drop (Suc r) (ptrs rs)) =
      map (\<lambda>p. p - length (rs ! r) + length (es @ rs ! r)) (drop (Suc r) (ptrs rs))"
  proof (rule map_cong)
    fix q
    assume "q \<in> set (drop (Suc r) (ptrs rs))"
    then show "q + length es = q - length (rs ! r) + length (es @ rs ! r)"
      using later_ptr_ge[OF assms, of q] by simp
  qed simp
  ultimately show ?thesis
    using assms le ptrs_update[OF assms, of "es @ rs ! r"]
    by (simp add: insert_row_def row_ptrs insert_entries csr_of_def)
qed

lemma vec_swap_Some [exec_simps]:
  "i < length xs \<Longrightarrow> j < length xs \<Longrightarrow> vec_swap i j xs = Some (xs[i := xs ! j, j := xs ! i])"
  by (simp add: vec_swap_def idx_def)

lemma update_pair: "a \<noteq> b \<Longrightarrow> xs[a := u, b := v, a := x, b := y] = xs[a := x, b := y]"
  by (metis list_update_overwrite list_update_swap)

lemma swap_rows_csr_of [exec_simps]:
  assumes "r1 < length rs" "r2 < length rs" "length ps = length rs"
  shows "swap_rows r1 r2 (csr_of rs ps nc) =
         Some (csr_of (rs[r1 := rs ! r2, r2 := rs ! r1]) (ps[r1 := ps ! r2, r2 := ps ! r1]) nc)"
proof (cases "r1 = r2")
  case True
  then show ?thesis by (simp add: swap_rows_def)
next
  case False
  then consider "r2 < r1" | "r1 < r2" by linarith
  then show ?thesis
  proof cases
    case 1
    have "rs[r1 := [], r2 := [], r1 := rs ! r2, r2 := rs ! r1] = rs[r1 := rs ! r2, r2 := rs ! r1]"
      using 1 by (simp add: update_pair)
    with 1 assms show ?thesis by (simp add: swap_rows_def exec_simps)
  next
    case 2
    have "rs[r2 := [], r1 := [], r2 := rs ! r1, r1 := rs ! r2] = rs[r1 := rs ! r2, r2 := rs ! r1]"
      using 2 by (simp add: update_pair list_update_swap[of r1 r2])
    with 2 assms show ?thesis by (simp add: swap_rows_def exec_simps)
  qed
qed

subsection \<open>Scaling and adding rows\<close>

lemma map_range_eq:
  "a + n \<le> length xs \<Longrightarrow>
   map_range f a (a + n) xs = Some (take a xs @ map f (take n (drop a xs)) @ drop (a + n) xs)"
proof (induction n)
  case 0
  then show ?case by (simp add: map_range_def)
next
  case (Suc n)
  then have IH: "ofold (\<lambda>i xs. do { v \<leftarrow> idx xs i; set_idx xs i (f v) }) [a..<a + n] xs =
      Some (take a xs @ map f (take n (drop a xs)) @ drop (a + n) xs)"
    by (simp add: map_range_def)
  have d: "drop (a + n) xs = xs ! (a + n) # drop (Suc (a + n)) xs" using Suc.prems by (simp add: Cons_nth_drop_Suc)
  have t: "take (Suc n) (drop a xs) = take n (drop a xs) @ [xs ! (a + n)]"
    using Suc.prems by (simp add: take_Suc_conv_app_nth)
  have "map_range f a (a + Suc n) xs =
      Option.bind (Some (take a xs @ map f (take n (drop a xs)) @ drop (a + n) xs))
        (ofold (\<lambda>i xs. do { v \<leftarrow> idx xs i; set_idx xs i (f v) }) [a + n])"
    by (simp add: map_range_def ofold_append IH)
  then show ?case
    using Suc.prems by (simp add: idx_def set_idx_def nth_append list_update_append d t)
qed

lemma scale_row_csr_of [exec_simps]:
  assumes "r < length rs" "length ps = length rs"
  shows "scale_row g r f (csr_of rs ps nc) =
         Some (csr_of (rs[r := map (\<lambda>(c, v). (c, gf_mul g v f)) (rs ! r)])
                (ps[r := map_option (map (\<lambda>b. gf_mul g b f)) (ps ! r)]) nc)"
proof -
  let ?s = "length (concat (take r rs))" and ?n = "length (rs ! r)"
  let ?row = "map (\<lambda>(c, v). (c, gf_mul g v f)) (rs ! r)"
  have eq: "map h (concat rs) = map h (concat (take r rs)) @ map h (rs ! r) @ map h (concat (drop (Suc r) rs))"
    for h :: "nat \<times> u8 \<Rightarrow> 'c" by (subst concat_take_nth_drop[OF assms(1)]) simp
  have "?s + ?n \<le> length (map snd (concat rs))" unfolding eq by simp
  then have "map_range (\<lambda>v. gf_mul g v f) ?s (?s + ?n) (map snd (concat rs)) = Some (map snd (concat (rs[r := ?row])))"
    unfolding concat_update[OF assms(1)]
    by (subst map_range_eq) (simp_all add: eq[of snd] comp_def case_prod_beta)
  moreover have "map fst (concat (rs[r := ?row])) = map fst (concat rs)"
    unfolding concat_update[OF assms(1)] concat_take_nth_drop[OF assms(1)] by (simp add: comp_def case_prod_beta)
  moreover have "ptrs (rs[r := ?row]) = ptrs rs"
  proof -
    have "map (\<lambda>p. p - ?n + length ?row) (drop (Suc r) (ptrs rs)) = drop (Suc r) (ptrs rs)"
      using later_ptr_ge[OF assms(1)] by (intro map_idI) simp
    then show ?thesis using ptrs_update[OF assms(1), of ?row] by simp
  qed
  ultimately show ?thesis
    using assms by (simp add: scale_row_def row_ptrs idx_Some[of r ps] csr_of_def)
qed

lemma add_scaled_payload_eq [exec_simps]:
  assumes "length src = length tgt"
  shows "add_scaled_payload g f src tgt = Some (map2 (gf_mul_add g f) src tgt)"
proof (cases "parallel_policy (features g)")
  case True
  have "omap (\<lambda>(i, t). do { s \<leftarrow> idx src i; Some (gf_mul_add g f s t) }) (List.enumerate 0 tgt) =
      Some (map (\<lambda>(i, t). gf_mul_add g f (src ! i) t) (List.enumerate 0 tgt))"
    using assms by (intro omap_Some) (auto simp: idx_def in_set_enumerate_eq)
  also have "map (\<lambda>(i, t). gf_mul_add g f (src ! i) t) (List.enumerate 0 tgt) = map2 (gf_mul_add g f) src tgt"
    using assms by (intro nth_equalityI) (simp_all add: nth_enumerate_eq)
  finally show ?thesis using True by (simp add: add_scaled_payload_def)
next
  case False
  have "ofold (\<lambda>i tgt. do { s \<leftarrow> idx src i; t \<leftarrow> idx tgt i; set_idx tgt i (gf_mul_add g f s t) })
      [0..<length tgt] tgt = Some (map (\<lambda>j. gf_mul_add g f (src ! j) (tgt ! j)) [0..<length tgt] @ drop (length tgt) tgt)"
    using assms by (intro ofold_pointwise) (simp_all add: idx_def set_idx_def)
  also have "map (\<lambda>j. gf_mul_add g f (src ! j) (tgt ! j)) [0..<length tgt] @ drop (length tgt) tgt =
      map2 (gf_mul_add g f) src tgt" using assms by (intro nth_equalityI) simp_all
  finally show ?thesis using assms False by (simp add: add_scaled_payload_def unrolled4_eq_ofold)
qed

text \<open>Sparse rows: at most one entry per column, all columns in range.\<close>

definition wf_row :: "nat \<Rightarrow> srow \<Rightarrow> bool" where
  "wf_row nc row \<longleftrightarrow> distinct (map fst row) \<and> list_all (\<lambda>(c, v). c < nc) row"

lemma enumerate_fst_snd: "(c, v) \<in> set (List.enumerate 0 d) \<longleftrightarrow> c < length d \<and> v = d ! c"
  by (auto simp: in_set_enumerate_eq)

lemma wf_row_sparse: "wf_row (length d) (sparse d)"
proof -
  have "distinct (map fst (List.enumerate 0 d))" by simp
  then have "distinct (map fst (sparse d))" unfolding sparse_def by (rule distinct_map_filter)
  then show ?thesis
    by (auto simp: wf_row_def sparse_def list_all_iff enumerate_fst_snd)
qed

lemma row_val_sparse: "row_val (sparse d) c = (if c < length d then d ! c else 0)"
proof (cases "c < length d \<and> d ! c \<noteq> 0")
  case True
  then have "(c, d ! c) \<in> set (sparse d)" by (simp add: sparse_def enumerate_fst_snd)
  moreover have "distinct (map fst (sparse d))" using wf_row_sparse[of d] by (simp add: wf_row_def)
  ultimately have "map_of (sparse d) c = Some (d ! c)" by simp
  with True show ?thesis by (simp add: row_val_def)
next
  case False
  then have "map_of (sparse d) c = None"
    by (auto simp: map_of_eq_None_iff sparse_def enumerate_fst_snd)
  with False show ?thesis by (auto simp: row_val_def)
qed

lemma fill_dense:
  "wf_row (length dense) es \<Longrightarrow>
   ofold (\<lambda>(c, v) dense. set_idx dense c v) es dense =
   Some (map (\<lambda>c. case map_of es c of None \<Rightarrow> dense ! c | Some v \<Rightarrow> v) [0..<length dense])"
proof (induction es arbitrary: dense)
  case Nil
  then show ?case by (simp add: map_nth)
next
  case (Cons e es)
  obtain c v where e: "e = (c, v)" by (cases e)
  have c: "c < length dense" "c \<notin> fst ` set es" "wf_row (length (dense[c := v])) es"
    using Cons.prems e by (auto simp: wf_row_def)
  then have "map_of es c = None" by (simp add: map_of_eq_None_iff)
  then have "(case map_of es d of None \<Rightarrow> dense[c := v] ! d | Some v \<Rightarrow> v) =
      (case map_of (e # es) d of None \<Rightarrow> dense ! d | Some v \<Rightarrow> v)" if "d < length dense" for d
    using that e c(1) by (auto simp: nth_list_update split: option.splits)
  then show ?case using Cons.IH[OF c(3)] e c(1) by (simp add: set_idx_def)
qed

lemma xor_dense:
  "wf_row (length dense) es \<Longrightarrow>
   ofold (\<lambda>(c, v) dense. do { d \<leftarrow> idx dense c; set_idx dense c (d XOR h v) }) es dense =
   Some (map (\<lambda>c. dense ! c XOR (case map_of es c of None \<Rightarrow> 0 | Some v \<Rightarrow> h v)) [0..<length dense])"
proof (induction es arbitrary: dense)
  case Nil
  then show ?case by (simp add: map_nth)
next
  case (Cons e es)
  obtain c v where e: "e = (c, v)" by (cases e)
  let ?d = "dense[c := dense ! c XOR h v]"
  have c: "c < length dense" "c \<notin> fst ` set es" "wf_row (length ?d) es"
    using Cons.prems e by (auto simp: wf_row_def)
  then have "map_of es c = None" by (simp add: map_of_eq_None_iff)
  then have "?d ! d XOR (case map_of es d of None \<Rightarrow> 0 | Some v \<Rightarrow> h v) =
      dense ! d XOR (case map_of (e # es) d of None \<Rightarrow> 0 | Some v \<Rightarrow> h v)" if "d < length dense" for d
    using that e c(1) by (auto simp: nth_list_update split: option.splits)
  then show ?case using Cons.IH[OF c(3)] e c(1) by (simp add: set_idx_def idx_def)
qed

definition added_row :: "gf_env \<Rightarrow> nat \<Rightarrow> u8 \<Rightarrow> srow \<Rightarrow> srow \<Rightarrow> srow" where
  "added_row g nc f src tgt =
     sparse (map (\<lambda>c. row_val tgt c XOR (case map_of src c of None \<Rightarrow> 0 | Some v \<Rightarrow> gf_mul g v f)) [0..<nc])"

definition added_payload :: "gf_env \<Rightarrow> u8 \<Rightarrow> block option \<Rightarrow> block option \<Rightarrow> block option" where
  "added_payload g f src tgt =
     (case (src, tgt) of (Some s, Some t) \<Rightarrow> Some (map2 (gf_mul_add g f) s t) | _ \<Rightarrow> tgt)"

lemma added_row_wf: "wf_row nc (added_row g nc f src tgt)"
  using wf_row_sparse[of "map (\<lambda>c. row_val tgt c XOR (case map_of src c of None \<Rightarrow> 0 | Some v \<Rightarrow> gf_mul g v f)) [0..<nc]"]
  by (simp add: added_row_def)

lemma add_scaled_row_csr_of [exec_simps]:
  assumes "t < length rs" "s < length rs" "t \<noteq> s" "length ps = length rs"
    "wf_row nc (rs ! t)" "wf_row nc (rs ! s)"
    "\<And>a b. ps ! s = Some a \<Longrightarrow> ps ! t = Some b \<Longrightarrow> length a = length b"
  shows "add_scaled_row g t s f (csr_of rs ps nc) =
         Some (csr_of (rs[t := added_row g nc f (rs ! s) (rs ! t)])
                (ps[t := added_payload g f (ps ! s) (ps ! t)]) nc)"
proof -
  have d1: "ofold (\<lambda>(c, v) dense. set_idx dense c v) (rs ! t) (replicate nc 0) = Some (map (row_val (rs ! t)) [0..<nc])"
    using fill_dense[of "replicate nc 0" "rs ! t"] assms(5) by (auto simp: row_val_def split: option.split)
  have d2: "ofold (\<lambda>(c, v) dense. do { d \<leftarrow> idx dense c; set_idx dense c (d XOR gf_mul g v f) }) (rs ! s)
      (map (row_val (rs ! t)) [0..<nc]) = Some (map (\<lambda>c. row_val (rs ! t) c XOR
        (case map_of (rs ! s) c of None \<Rightarrow> 0 | Some v \<Rightarrow> gf_mul g v f)) [0..<nc])"
    using xor_dense[of "map (row_val (rs ! t)) [0..<nc]" "rs ! s" "\<lambda>v. gf_mul g v f"] assms(6) by simp
  have sp: "filter (\<lambda>(c, v). v \<noteq> 0) (List.enumerate 0 (map (\<lambda>c. row_val (rs ! t) c XOR
      (case map_of (rs ! s) c of None \<Rightarrow> 0 | Some v \<Rightarrow> gf_mul g v f)) [0..<nc])) = added_row g nc f (rs ! s) (rs ! t)"
    by (simp add: added_row_def sparse_def)
  have "add_scaled_row g t s f (csr_of rs ps nc) =
      (case (ps ! s, ps ! t) of
         (Some src, Some tgt) \<Rightarrow> do {
           tgt \<leftarrow> add_scaled_payload g f src tgt;
           Some (csr_of (rs[t := added_row g nc f (rs ! s) (rs ! t)]) (ps[t := Some tgt]) nc) }
       | _ \<Rightarrow> Some (csr_of (rs[t := added_row g nc f (rs ! s) (rs ! t)]) ps nc))"
    using assms(1-4)
    by (simp add: add_scaled_row_def row_entries_csr_of clear_row_csr_of insert_row_csr_of d1 d2 sp idx_Some
        split: option.split)
  moreover have up: "ps[t := None] = ps" if "ps ! t = None" using that by (metis list_update_id)
  ultimately show ?thesis
    using assms(1-4,7)
    by (auto simp: up added_payload_def add_scaled_payload_eq split: option.splits)
qed

end
