(* ===== verification/Dense_Matrix.thy ===== *)
theory Dense_Matrix
  imports Gf_Field
begin

text \<open>
  Dense matrices over bytes (\<open>mat_mul\<close> and \<open>recursive_inverse\<close> of \<open>src/src/fec/decoder.rs\<close>).

  A \<open>Vec<Vec<u8>>\<close> is a list of rows. The block inversion follows the code: it splits at \<open>n / 2\<close>,
  inverts the upper left block and the Schur complement, and panics when a \<open>1 \<times> 1\<close> block is zero. When
  it returns, the result is a right inverse in GF(2^8).
\<close>

type_synonym mat = "bytes list"

text \<open>One row of the product: the loops over \<open>k\<close> and \<open>j\<close> for a fixed \<open>i\<close>.\<close>

definition mat_mul_row :: "gf_env \<Rightarrow> mat \<Rightarrow> nat \<Rightarrow> nat \<Rightarrow> bytes \<Rightarrow> bytes option" where
  "mat_mul_row g b mid cols a_row =
     ofold (\<lambda>k out. do {
         x \<leftarrow> idx a_row k;
         if x = 0 then Some out
         else ofold (\<lambda>j out. do {
                b_row \<leftarrow> idx b k;
                y \<leftarrow> idx b_row j;
                z \<leftarrow> idx out j;
                set_idx out j (z XOR gf_mul g x y) }) [0..<cols] out })
       [0..<mid] (replicate cols 0)"

definition mat_mul :: "gf_env \<Rightarrow> mat \<Rightarrow> mat \<Rightarrow> mat option" where
  "mat_mul g a b = do {
     b0 \<leftarrow> idx b 0;
     omap (mat_mul_row g b (length b) (length b0)) a }"

text \<open>A block of a matrix: rows \<open>r0..r1\<close>, columns \<open>c0..c1\<close>.\<close>

definition mat_block :: "mat \<Rightarrow> nat \<Rightarrow> nat \<Rightarrow> nat \<Rightarrow> nat \<Rightarrow> mat option" where
  "mat_block m r0 r1 c0 c1 =
     omap (\<lambda>i. omap (\<lambda>j. do { row \<leftarrow> idx m i; idx row j }) [c0..<c1]) [r0..<r1]"

definition mat_xor :: "mat \<Rightarrow> mat \<Rightarrow> nat \<Rightarrow> nat \<Rightarrow> mat option" where
  "mat_xor x y rows cols =
     omap (\<lambda>i. omap (\<lambda>j. do { rx \<leftarrow> idx x i; u \<leftarrow> idx rx j; ry \<leftarrow> idx y i; v \<leftarrow> idx ry j; Some (u XOR v) })
             [0..<cols]) [0..<rows]"

lemma length_mat_block: "mat_block m r0 r1 c0 c1 = Some x \<Longrightarrow> length x = r1 - r0"
  by (auto simp: mat_block_def dest: omap_length)

lemma length_mat_xor: "mat_xor x y rows cols = Some z \<Longrightarrow> length z = rows"
  by (auto simp: mat_xor_def dest: omap_length)

lemma upper_half_less: "m \<noteq> [] \<Longrightarrow> length m \<noteq> Suc 0 \<Longrightarrow> length m - length m div 2 < length m"
  by (cases m) auto

text \<open>The outer option is a panic, the inner one the \<open>Option\<close> that the function returns.\<close>

function recursive_inverse :: "gf_env \<Rightarrow> mat \<Rightarrow> mat option option" where
  "recursive_inverse g m =
     (let n = length m
      in if n = 0 then Some None
         else if n = 1 then do {
           row \<leftarrow> idx m 0;
           x \<leftarrow> idx row 0;
           inv \<leftarrow> gf_inv g x;
           Some (Some [[inv]]) }
         else do {
           let mid = n div 2;
           a \<leftarrow> mat_block m 0 mid 0 mid;
           b \<leftarrow> mat_block m 0 mid mid n;
           c \<leftarrow> mat_block m mid n 0 mid;
           d \<leftarrow> mat_block m mid n mid n;
           ra \<leftarrow> recursive_inverse g a;
           case ra of
             None \<Rightarrow> Some None
           | Some a_inv \<Rightarrow> do {
               ca_inv \<leftarrow> mat_mul g c a_inv;
               temp \<leftarrow> mat_mul g ca_inv b;
               d0 \<leftarrow> idx d 0;
               schur \<leftarrow> mat_xor d temp (length d) (length d0);
               rs \<leftarrow> recursive_inverse g schur;
               case rs of
                 None \<Rightarrow> Some None
               | Some schur_inv \<Rightarrow> do {
                   upper_right \<leftarrow> mat_mul g a_inv b;
                   upper_right \<leftarrow> mat_mul g upper_right schur_inv;
                   let upper_right = map (map (\<lambda>v. gf_mul g v 1)) upper_right;
                   lower_left \<leftarrow> mat_mul g schur_inv ca_inv;
                   upper_left \<leftarrow> mat_mul g a_inv b;
                   upper_left \<leftarrow> mat_mul g upper_left schur_inv;
                   upper_left \<leftarrow> mat_mul g upper_left ca_inv;
                   res_a \<leftarrow> mat_xor a_inv upper_left (length a_inv) (length a_inv);
                   top \<leftarrow> omap (\<lambda>i. do {
                            l \<leftarrow> omap (\<lambda>j. do { row \<leftarrow> idx res_a i; idx row j }) [0..<mid];
                            r \<leftarrow> omap (\<lambda>j. do { row \<leftarrow> idx upper_right i; idx row (j - mid) }) [mid..<n];
                            Some (l @ r) }) [0..<mid];
                   bottom \<leftarrow> omap (\<lambda>i. do {
                            l \<leftarrow> omap (\<lambda>j. do { row \<leftarrow> idx lower_left (i - mid); idx row j }) [0..<mid];
                            r \<leftarrow> omap (\<lambda>j. do { row \<leftarrow> idx schur_inv (i - mid); idx row (j - mid) }) [mid..<n];
                            Some (l @ r) }) [mid..<n];
                   Some (Some (top @ bottom)) } } })"
  by pat_completeness auto
termination
  by (relation "measure (\<lambda>(g, m). length m)")
     (auto dest!: length_mat_block length_mat_xor simp: upper_half_less)

declare recursive_inverse.simps [simp del]

subsection \<open>Products\<close>

definition dims :: "nat \<Rightarrow> nat \<Rightarrow> mat \<Rightarrow> bool" where
  "dims r c m \<longleftrightarrow> length m = r \<and> list_all (\<lambda>row. length row = c) m"

definition mget :: "mat \<Rightarrow> nat \<Rightarrow> nat \<Rightarrow> gf8" where
  "mget m i j = GF8 (m ! i ! j)"

lemma dims_row: "dims r c m \<Longrightarrow> i < r \<Longrightarrow> length (m ! i) = c"
  by (simp add: dims_def list_all_length)

lemma dims_length: "dims r c m \<Longrightarrow> length m = r"
  by (simp add: dims_def)

lemma omap_rows:
  assumes "\<And>i. i < length xs \<Longrightarrow> \<exists>y. f (xs ! i) = Some y \<and> P i y"
  shows "\<exists>ys. omap f xs = Some ys \<and> length ys = length xs \<and> (\<forall>i < length xs. P i (ys ! i))"
proof -
  have "f x = Some (the (f x))" if "x \<in> set xs" for x
    using that assms by (auto simp: in_set_conv_nth) fastforce
  then have eq: "omap f xs = Some (map (\<lambda>x. the (f x)) xs)" by (rule omap_Some)
  have "P i (the (f (xs ! i)))" if "i < length xs" for i using assms[OF that] by auto
  with eq show ?thesis by simp
qed

text \<open>A matrix built entry by entry.\<close>

lemma omap_entries:
  assumes "\<And>i j. r0 \<le> i \<Longrightarrow> i < r1 \<Longrightarrow> c0 \<le> j \<Longrightarrow> j < c1 \<Longrightarrow> f i j = Some (e i j)"
  shows "omap (\<lambda>i. omap (f i) [c0..<c1]) [r0..<r1] = Some (map (\<lambda>i. map (e i) [c0..<c1]) [r0..<r1])"
  using assms by (intro omap_Some) auto

lemma mat_mul_row_spec:
  assumes g: "gf_scalar g" and b: "dims mid cols b" and a: "length a_row = mid"
  shows "\<exists>out. mat_mul_row g b mid cols a_row = Some out \<and> length out = cols \<and>
           (\<forall>j < cols. GF8 (out ! j) = (\<Sum>l<mid. GF8 (a_row ! l) * mget b l j))"
proof -
  let ?P = "\<lambda>n out. length out = cols \<and> (\<forall>j < cols. GF8 (out ! j) = (\<Sum>l<n. GF8 (a_row ! l) * mget b l j))"
  have "\<exists>out. mat_mul_row g b mid cols a_row = Some out \<and> ?P (length [0..<mid]) out"
    unfolding mat_mul_row_def
  proof (rule ofold_invariant[where P = ?P])
    show "?P 0 (replicate cols 0)" by (simp add: GF8_0)
  next
    fix k out
    assume "k < length [0..<mid]" and P: "?P k out"
    then have k: "k < mid" "[0..<mid] ! k = k" "k < length b" "length (b ! k) = cols"
      using b by (auto simp: dims_length dims_row)
    have "ofold (\<lambda>j out. do { b_row \<leftarrow> idx b k; y \<leftarrow> idx b_row j; z \<leftarrow> idx out j;
        set_idx out j (z XOR gf_mul g x y) }) [0..<cols] out =
        Some (map (\<lambda>j. out ! j XOR gf_mul g x (b ! k ! j)) [0..<cols] @ drop cols out)" for x
      using k P by (intro ofold_pointwise) (simp_all add: idx_def set_idx_def)
    with k a P g show "\<exists>out'. do { x \<leftarrow> idx a_row ([0..<mid] ! k);
        if x = 0 then Some out
        else ofold (\<lambda>j out. do { b_row \<leftarrow> idx b ([0..<mid] ! k); y \<leftarrow> idx b_row j; z \<leftarrow> idx out j;
               set_idx out j (z XOR gf_mul g x y) }) [0..<cols] out } = Some out' \<and> ?P (Suc k) out'"
      by (cases "a_row ! k = 0") (simp_all add: idx_Some[of k a_row] gf_simps mget_def)
  qed
  then show ?thesis by simp
qed

lemma mat_mul_spec:
  assumes g: "gf_scalar g" and a: "dims r k a" and b: "dims k c b" and k: "0 < k"
  shows "\<exists>x. mat_mul g a b = Some x \<and> dims r c x \<and>
           (\<forall>i < r. \<forall>j < c. mget x i j = (\<Sum>l<k. mget a i l * mget b l j))"
proof -
  have "\<exists>ys. omap (mat_mul_row g b k c) a = Some ys \<and> length ys = length a \<and>
      (\<forall>i < length a. length (ys ! i) = c \<and> (\<forall>j < c. GF8 (ys ! i ! j) = (\<Sum>l<k. GF8 (a ! i ! l) * mget b l j)))"
    using mat_mul_row_spec[OF g b] dims_row[OF a] dims_length[OF a] by (intro omap_rows) simp
  then show ?thesis
    using dims_length[OF a] dims_length[OF b] dims_row[OF b, of 0] k
    by (auto simp: mat_mul_def idx_def dims_def list_all_length mget_def)
qed

subsection \<open>Block inversion\<close>

text \<open>Products and right inverses of matrices given as functions.\<close>

definition mprod :: "nat \<Rightarrow> (nat \<Rightarrow> nat \<Rightarrow> gf8) \<Rightarrow> (nat \<Rightarrow> nat \<Rightarrow> gf8) \<Rightarrow> nat \<Rightarrow> nat \<Rightarrow> gf8" where
  "mprod k X Y i j = (\<Sum>l<k. X i l * Y l j)"

definition rinv :: "nat \<Rightarrow> (nat \<Rightarrow> nat \<Rightarrow> gf8) \<Rightarrow> (nat \<Rightarrow> nat \<Rightarrow> gf8) \<Rightarrow> bool" where
  "rinv n X Y \<longleftrightarrow> (\<forall>i < n. \<forall>j < n. mprod n X Y i j = (if i = j then 1 else 0))"

lemma mprod_cong:
  "(\<And>l. l < k \<Longrightarrow> X i l = X' i l) \<Longrightarrow> (\<And>l. l < k \<Longrightarrow> Y l j = Y' l j) \<Longrightarrow> mprod k X Y i j = mprod k X' Y' i j"
  by (simp add: mprod_def)

lemma mprod_assoc: "mprod k (mprod l X Y) Z i j = mprod l X (mprod k Y Z) i j"
  unfolding mprod_def sum_distrib_left sum_distrib_right
  by (subst sum.swap) (simp add: mult.assoc)

lemma mprod_add_right: "mprod k X (\<lambda>i j. Y i j + Z i j) i j = mprod k X Y i j + mprod k X Z i j"
  by (simp add: mprod_def distrib_left sum.distrib)

lemma mprod_add_left: "mprod k (\<lambda>i j. X i j + Y i j) Z i j = mprod k X Z i j + mprod k Y Z i j"
  by (simp add: mprod_def distrib_right sum.distrib)

lemma mprod_unit: "i < k \<Longrightarrow> (\<And>l. l < k \<Longrightarrow> X i l = (if i = l then 1 else 0)) \<Longrightarrow> mprod k X Y i j = Y i j"
  by (simp add: mprod_def if_distrib[of "\<lambda>z. z * _"] cong: if_cong)

lemma rinv_cancel: "rinv n X Y \<Longrightarrow> i < n \<Longrightarrow> mprod n X (mprod n Y Z) i j = Z i j"
  unfolding mprod_assoc[symmetric] by (rule mprod_unit) (simp_all add: rinv_def)

lemma block_inverse:
  assumes A: "rinv p A A'" and S: "rinv q S S'"
    and T: "\<And>i j. i < q \<Longrightarrow> j < p \<Longrightarrow> T i j = mprod p C A' i j"
    and S_def: "\<And>i j. i < q \<Longrightarrow> j < q \<Longrightarrow> S i j = D i j + mprod p T B i j"
    and U: "\<And>i j. i < p \<Longrightarrow> j < q \<Longrightarrow> U i j = mprod p A' B i j"
    and UR: "\<And>i j. i < p \<Longrightarrow> j < q \<Longrightarrow> UR i j = mprod q U S' i j"
    and LL: "\<And>i j. i < q \<Longrightarrow> j < p \<Longrightarrow> LL i j = mprod q S' T i j"
    and UL: "\<And>i j. i < p \<Longrightarrow> j < p \<Longrightarrow> UL i j = mprod q UR T i j"
  shows "i < p \<Longrightarrow> j < p \<Longrightarrow> mprod p A (\<lambda>i j. A' i j + UL i j) i j + mprod q B LL i j = (if i = j then 1 else 0)"
    and "i < p \<Longrightarrow> j < q \<Longrightarrow> mprod p A UR i j + mprod q B S' i j = 0"
    and "i < q \<Longrightarrow> j < p \<Longrightarrow> mprod p C (\<lambda>i j. A' i j + UL i j) i j + mprod q D LL i j = 0"
    and "i < q \<Longrightarrow> j < q \<Longrightarrow> mprod p C UR i j + mprod q D S' i j = (if i = j then 1 else 0)"
proof -
  have cancel: "a + b = c \<Longrightarrow> a = c + b" for a b c :: gf8
    by (metis add.assoc add.right_neutral gf8_add_self)
  have AUR: "mprod p A UR i j = mprod q B S' i j" if "i < p" "j < q" for i j
  proof -
    have "mprod p A UR i j = mprod q (mprod p A U) S' i j"
      unfolding mprod_assoc using that UR by (intro mprod_cong) simp_all
    also have "\<dots> = mprod q B S' i j"
    proof (rule mprod_cong)
      fix l assume "l < q"
      have "mprod p A U i l = mprod p A (mprod p A' B) i l" using U \<open>l < q\<close> by (intro mprod_cong) simp_all
      then show "mprod p A U i l = B i l" using rinv_cancel[OF A that(1)] by simp
    qed simp
    finally show ?thesis .
  qed
  have CUR: "mprod p C UR i j + mprod q D S' i j = (if i = j then 1 else 0)" if "i < q" "j < q" for i j
  proof -
    have "mprod p C UR i j = mprod q (mprod p C U) S' i j"
      unfolding mprod_assoc using that UR by (intro mprod_cong) simp_all
    also have "\<dots> = mprod q (mprod p T B) S' i j"
    proof (rule mprod_cong)
      fix l assume "l < q"
      have "mprod p C U i l = mprod p (mprod p C A') B i l"
        unfolding mprod_assoc using U \<open>l < q\<close> by (intro mprod_cong) simp_all
      also have "\<dots> = mprod p T B i l" using T that by (intro mprod_cong) simp_all
      finally show "mprod p C U i l = mprod p T B i l" .
    qed simp
    finally have "mprod p C UR i j + mprod q D S' i j = mprod q (\<lambda>i l. D i l + mprod p T B i l) S' i j"
      by (simp add: mprod_add_left add.commute)
    also have "\<dots> = mprod q S S' i j" using S_def that by (intro mprod_cong) simp_all
    finally show ?thesis using S that by (simp add: rinv_def)
  qed
  show "i < p \<Longrightarrow> j < q \<Longrightarrow> mprod p A UR i j + mprod q B S' i j = 0" by (simp add: AUR gf8_add_self)
  show "i < q \<Longrightarrow> j < q \<Longrightarrow> mprod p C UR i j + mprod q D S' i j = (if i = j then 1 else 0)" by (rule CUR)
  have UL2: "mprod p X UL i j = mprod q (mprod p X UR) T i j" if "j < p" for X i j
    unfolding mprod_assoc using UL that by (intro mprod_cong) simp_all
  have LL2: "mprod q X LL i j = mprod q (mprod q X S') T i j" if "j < p" for X i j
    unfolding mprod_assoc using LL that by (intro mprod_cong) simp_all
  show "mprod p A (\<lambda>i j. A' i j + UL i j) i j + mprod q B LL i j = (if i = j then 1 else 0)"
    if "i < p" "j < p"
  proof -
    have "mprod p A UL i j = mprod q B LL i j"
      unfolding UL2[OF that(2)] LL2[OF that(2)] using AUR that by (intro mprod_cong) simp_all
    then show ?thesis
      using A that by (simp add: mprod_add_right rinv_def add.assoc gf8_add_self)
  qed
  show "mprod p C (\<lambda>i j. A' i j + UL i j) i j + mprod q D LL i j = 0" if "i < q" "j < p"
  proof -
    have "mprod p C UL i j = mprod q (\<lambda>i l. (if i = l then 1 else 0) + mprod q D S' i l) T i j"
      unfolding UL2[OF that(2)] using cancel[OF CUR] that by (intro mprod_cong) simp_all
    also have "\<dots> = T i j + mprod q D LL i j"
      unfolding mprod_add_left LL2[OF that(2)] using that by (simp add: mprod_unit)
    finally have "mprod p C (\<lambda>i j. A' i j + UL i j) i j + mprod q D LL i j =
        (mprod p C A' i j + T i j) + (mprod q D LL i j + mprod q D LL i j)"
      by (simp add: mprod_add_right ac_simps)
    then show ?thesis using T[OF that] by (simp add: gf8_add_self)
  qed
qed

lemma dims_map: "dims (r1 - r0) (c1 - c0) (map (\<lambda>i. map (e i) [c0..<c1]) [r0..<r1])"
  by (simp add: dims_def list_all_iff)

lemma mat_block_spec:
  assumes "dims n n m" "r1 \<le> n" "c1 \<le> n"
  shows "\<exists>x. mat_block m r0 r1 c0 c1 = Some x \<and> dims (r1 - r0) (c1 - c0) x \<and>
           (\<forall>i < r1 - r0. \<forall>j < c1 - c0. mget x i j = mget m (r0 + i) (c0 + j))"
proof -
  have "mat_block m r0 r1 c0 c1 = Some (map (\<lambda>i. map (\<lambda>j. m ! i ! j) [c0..<c1]) [r0..<r1])"
    unfolding mat_block_def using assms
    by (intro omap_entries) (simp add: idx_def dims_length dims_row)
  then show ?thesis using dims_map by (auto simp: mget_def)
qed

lemma mat_xor_spec:
  assumes "dims r c x" "dims r c y"
  shows "\<exists>z. mat_xor x y r c = Some z \<and> dims r c z \<and> (\<forall>i < r. \<forall>j < c. mget z i j = mget x i j + mget y i j)"
proof -
  have "mat_xor x y r c = Some (map (\<lambda>i. map (\<lambda>j. x ! i ! j XOR y ! i ! j) [0..<c]) [0..<r])"
    unfolding mat_xor_def using assms
    by (intro omap_entries) (simp add: idx_def dims_length dims_row)
  then show ?thesis using dims_map[of r 0 c 0] by (auto simp: mget_def GF8_xor)
qed

text \<open>Putting two blocks side by side and two such strips on top of each other.\<close>

lemma strip_spec:
  assumes "dims r c1 x" "dims r c2 y"
  shows "omap (\<lambda>i. do {
            l \<leftarrow> omap (\<lambda>j. do { row \<leftarrow> idx x (i - o1); idx row j }) [0..<c1];
            r \<leftarrow> omap (\<lambda>j. do { row \<leftarrow> idx y (i - o1); idx row (j - c1) }) [c1..<c1 + c2];
            Some (l @ r) }) [o1..<o1 + r] = Some (map2 (@) x y)"
proof -
  have "omap (\<lambda>j. do { row \<leftarrow> idx x i; idx row j }) [0..<c1] = Some (x ! i)"
    "omap (\<lambda>j. do { row \<leftarrow> idx y i; idx row (j - c1) }) [c1..<c1 + c2] = Some (y ! i)" if "i < r" for i
  proof -
    have "omap (\<lambda>j. do { row \<leftarrow> idx x i; idx row j }) [0..<c1] = Some (map ((!) (x ! i)) [0..<c1])"
      "omap (\<lambda>j. do { row \<leftarrow> idx y i; idx row (j - c1) }) [c1..<c1 + c2] = Some (map (\<lambda>j. y ! i ! (j - c1)) [c1..<c1 + c2])"
      using that assms by (intro omap_Some; auto simp: idx_def dims_length dims_row)+
    moreover have "map ((!) (x ! i)) [0..<c1] = x ! i" "map (\<lambda>j. y ! i ! (j - c1)) [c1..<c1 + c2] = y ! i"
      using that assms by (auto intro!: nth_equalityI simp: dims_row)
    ultimately show "omap (\<lambda>j. do { row \<leftarrow> idx x i; idx row j }) [0..<c1] = Some (x ! i)"
      "omap (\<lambda>j. do { row \<leftarrow> idx y i; idx row (j - c1) }) [c1..<c1 + c2] = Some (y ! i)" by simp_all
  qed
  then have "omap (\<lambda>i. do {
            l \<leftarrow> omap (\<lambda>j. do { row \<leftarrow> idx x (i - o1); idx row j }) [0..<c1];
            r \<leftarrow> omap (\<lambda>j. do { row \<leftarrow> idx y (i - o1); idx row (j - c1) }) [c1..<c1 + c2];
            Some (l @ r) }) [o1..<o1 + r] = Some (map (\<lambda>i. x ! (i - o1) @ y ! (i - o1)) [o1..<o1 + r])"
    by (intro omap_Some) auto
  also have "map (\<lambda>i. x ! (i - o1) @ y ! (i - o1)) [o1..<o1 + r] = map2 (@) x y"
    using assms by (intro nth_equalityI) (simp_all add: dims_length)
  finally show ?thesis .
qed

lemma mget_blocks:
  assumes "dims p p a" "dims p q b" "dims q p c" "dims q q d"
  defines "m \<equiv> map2 (@) a b @ map2 (@) c d"
  shows "dims (p + q) (p + q) m"
    and "i < p \<Longrightarrow> j < p \<Longrightarrow> mget m i j = mget a i j"
    and "i < p \<Longrightarrow> j < q \<Longrightarrow> mget m i (p + j) = mget b i j"
    and "i < q \<Longrightarrow> j < p \<Longrightarrow> mget m (p + i) j = mget c i j"
    and "i < q \<Longrightarrow> j < q \<Longrightarrow> mget m (p + i) (p + j) = mget d i j"
  using assms by (auto simp: m_def mget_def nth_append dims_def list_all_length)

lemma sum_split: "(\<Sum>l<p + q. f l) = (\<Sum>l<p. f l) + (\<Sum>l<q. f (p + l :: nat) :: gf8)"
  by (induction q) (simp_all add: add.assoc)

lemma rinv_blocks:
  assumes "\<And>i j. i < p \<Longrightarrow> j < p \<Longrightarrow> mprod p M N i j + mprod q (\<lambda>i l. M i (p + l)) (\<lambda>l. N (p + l)) i j = (if i = j then 1 else 0)"
    "\<And>i j. i < p \<Longrightarrow> j < q \<Longrightarrow> mprod p M N i (p + j) + mprod q (\<lambda>i l. M i (p + l)) (\<lambda>l. N (p + l)) i (p + j) = 0"
    "\<And>i j. i < q \<Longrightarrow> j < p \<Longrightarrow> mprod p M N (p + i) j + mprod q (\<lambda>i l. M i (p + l)) (\<lambda>l. N (p + l)) (p + i) j = 0"
    "\<And>i j. i < q \<Longrightarrow> j < q \<Longrightarrow> mprod p M N (p + i) (p + j) + mprod q (\<lambda>i l. M i (p + l)) (\<lambda>l. N (p + l)) (p + i) (p + j) = (if i = j then 1 else 0)"
  shows "rinv (p + q) M N"
proof -
  have split: "mprod (p + q) M N i j = mprod p M N i j + mprod q (\<lambda>i l. M i (p + l)) (\<lambda>l. N (p + l)) i j" for i j
    by (simp add: mprod_def sum_split)
  have cs: "i < p \<or> (\<exists>i'<q. i = p + i')" if "i < p + q" for i
    using that by (metis add_less_cancel_left le_iff_add not_less)
  show ?thesis
    unfolding rinv_def split
  proof (intro allI impI)
    fix i j
    assume "i < p + q" "j < p + q"
    from cs[OF this(1)] cs[OF this(2)] assms
    show "mprod p M N i j + mprod q (\<lambda>i l. M i (p + l)) (\<lambda>l. N (p + l)) i j = (if i = j then 1 else 0)"
      by auto
  qed
qed

lemma mat_mul_mprod:
  assumes "gf_scalar g" "dims r k a" "dims k c b" "0 < k"
  shows "\<exists>x. mat_mul g a b = Some x \<and> dims r c x \<and> (\<forall>i < r. \<forall>j < c. mget x i j = mprod k (mget a) (mget b) i j)"
  using mat_mul_spec[OF assms] by (simp add: mprod_def)

lemma mul_one_id: "gf_scalar g \<Longrightarrow> map (map (\<lambda>v. gf_mul g v 1)) x = x"
  by (simp add: gf_mul_one_right map_idI)

text \<open>The result assembled from its four blocks.\<close>

lemma assembled_rinv:
  assumes ai: "dims p p ai" "rinv p A (mget ai)" and si: "dims q q si" "rinv q S (mget si)"
    and dims: "dims p p x" "dims p q ur" "dims q p ll"
    and m: "\<And>i j. i < p \<Longrightarrow> j < p \<Longrightarrow> A i j = M i j" "\<And>i j. i < p \<Longrightarrow> j < q \<Longrightarrow> B i j = M i (p + j)"
      "\<And>i j. i < q \<Longrightarrow> j < p \<Longrightarrow> C i j = M (p + i) j" "\<And>i j. i < q \<Longrightarrow> j < q \<Longrightarrow> D i j = M (p + i) (p + j)"
    and eqs: "\<And>i j. i < q \<Longrightarrow> j < p \<Longrightarrow> T i j = mprod p C (mget ai) i j"
      "\<And>i j. i < q \<Longrightarrow> j < q \<Longrightarrow> S i j = D i j + mprod p T B i j"
      "\<And>i j. i < p \<Longrightarrow> j < q \<Longrightarrow> U i j = mprod p (mget ai) B i j"
      "\<And>i j. i < p \<Longrightarrow> j < q \<Longrightarrow> mget ur i j = mprod q U (mget si) i j"
      "\<And>i j. i < q \<Longrightarrow> j < p \<Longrightarrow> mget ll i j = mprod q (mget si) T i j"
      "\<And>i j. i < p \<Longrightarrow> j < p \<Longrightarrow> UL i j = mprod q (mget ur) T i j"
    and x: "\<And>i j. i < p \<Longrightarrow> j < p \<Longrightarrow> mget x i j = mget ai i j + UL i j"
  shows "rinv (p + q) M (mget (map2 (@) x ur @ map2 (@) ll si))"
proof -
  define w where "w = map2 (@) x ur @ map2 (@) ll si"
  note wb = mget_blocks(2-)[OF dims si(1), folded w_def]
  note simps = mprod_def m[symmetric] wb x
  note inv = block_inverse[OF ai(2) si(2) eqs]
  let ?R = "\<lambda>i j. mprod q (\<lambda>i l. M i (p + l)) (\<lambda>l. mget w (p + l)) i j"
  have "mprod p M (mget w) i j = mprod p A (\<lambda>i j. mget ai i j + UL i j) i j" "?R i j = mprod q B (mget ll) i j"
    if "i < p" "j < p" for i j using that by (simp_all add: simps)
  moreover have "mprod p M (mget w) i (p + j) = mprod p A (mget ur) i j" "?R i (p + j) = mprod q B (mget si) i j"
    if "i < p" "j < q" for i j using that by (simp_all add: simps)
  moreover have "mprod p M (mget w) (p + i) j = mprod p C (\<lambda>i j. mget ai i j + UL i j) i j"
    "?R (p + i) j = mprod q D (mget ll) i j"
    if "i < q" "j < p" for i j using that by (simp_all add: simps)
  moreover have "mprod p M (mget w) (p + i) (p + j) = mprod p C (mget ur) i j"
    "?R (p + i) (p + j) = mprod q D (mget si) i j"
    if "i < q" "j < q" for i j using that by (simp_all add: simps)
  ultimately show ?thesis
    unfolding w_def[symmetric] using inv by (intro rinv_blocks) simp_all
qed

text \<open>When the block inversion returns, it returns a matrix, and that matrix is a right inverse.\<close>

lemma recursive_inverse_rinv:
  "gf_scalar g \<Longrightarrow> dims n n m \<Longrightarrow> 0 < n \<Longrightarrow> recursive_inverse g m = Some r \<Longrightarrow>
   \<exists>inv. r = Some inv \<and> dims n n inv \<and> rinv n (mget m) (mget inv)"
proof (induction n arbitrary: m r rule: less_induct)
  case (less n)
  note g = less.prems(1) and len = dims_length[OF less.prems(2)]
  show ?case
  proof (cases "n = 1")
    case True
    then have row: "length (m ! 0) = 1" "m ! 0 \<noteq> []" using dims_row[OF less.prems(2), of 0] by auto
    have x: "m ! 0 ! 0 \<noteq> 0"
      using less.prems(4) True len row by (subst (asm) recursive_inverse.simps) (auto simp: idx_def gf_inv_def)
    then have "r = Some [[raw (inverse (GF8 (m ! 0 ! 0)))]]"
      using less.prems(4) True len row gf_inv_field[OF gf_scalar_ready[OF g] x]
      by (subst (asm) recursive_inverse.simps) (simp add: idx_def)
    then show ?thesis
      using True x by (simp add: dims_def rinv_def mprod_def mget_def)
  next
    case False
    define p q where "p = n div 2" and "q = n - n div 2"
    have pq: "0 < p" "0 < q" "p < n" "q < n" "n = p + q" "n - p = q"
      using False less.prems(3) by (auto simp: p_def q_def)
    have half: "n div 2 = p" by (simp add: p_def)
    note blk = mat_block_spec[OF less.prems(2)]
    obtain a where a: "mat_block m 0 p 0 p = Some a" "dims p p a" "\<And>i j. i < p \<Longrightarrow> j < p \<Longrightarrow> mget a i j = mget m i j"
      using blk[of p p 0 0] pq by auto
    obtain b where b: "mat_block m 0 p p n = Some b" "dims p q b"
      "\<And>i j. i < p \<Longrightarrow> j < q \<Longrightarrow> mget b i j = mget m i (p + j)"
      using blk[of p n 0 p] pq by auto
    obtain c where c: "mat_block m p n 0 p = Some c" "dims q p c"
      "\<And>i j. i < q \<Longrightarrow> j < p \<Longrightarrow> mget c i j = mget m (p + i) j"
      using blk[of n p p 0] pq by auto
    obtain d where d: "mat_block m p n p n = Some d" "dims q q d"
      "\<And>i j. i < q \<Longrightarrow> j < q \<Longrightarrow> mget d i j = mget m (p + i) (p + j)"
      using blk[of n n p p] pq by auto
    have "recursive_inverse g m = None" if "recursive_inverse g a = None"
      using that less.prems(3) False len a(1) b(1) c(1) d(1) half
      by (subst recursive_inverse.simps) (simp add: Let_def)
    then obtain ra where ra: "recursive_inverse g a = Some ra" using less.prems(4) by fastforce
    from less.IH[OF pq(3) g a(2) pq(1) ra] obtain ai where
      ai: "ra = Some ai" "dims p p ai" "rinv p (mget a) (mget ai)" by blast
    obtain t where t: "mat_mul g c ai = Some t" "dims q p t" "\<forall>i < q. \<forall>j < p. mget t i j = mprod p (mget c) (mget ai) i j"
      using mat_mul_mprod[OF g c(2) ai(2) pq(1)] by blast
    obtain tb where tb: "mat_mul g t b = Some tb" "dims q q tb" "\<forall>i < q. \<forall>j < q. mget tb i j = mprod p (mget t) (mget b) i j"
      using mat_mul_mprod[OF g t(2) b(2) pq(1)] by blast
    obtain sc where sc: "mat_xor d tb q q = Some sc" "dims q q sc" "\<forall>i < q. \<forall>j < q. mget sc i j = mget d i j + mget tb i j"
      using mat_xor_spec[OF d(2) tb(2)] by blast
    have d0: "idx d 0 = Some (d ! 0)" "length (d ! 0) = q" "length d = q"
      using d(2) pq by (simp_all add: idx_def dims_length dims_row)
    have "recursive_inverse g m = None" if "recursive_inverse g sc = None"
      using that less.prems(3) False len a(1) b(1) c(1) d(1) ra ai(1) t(1) tb(1) sc(1) d0 half
      by (subst recursive_inverse.simps) (simp add: Let_def)
    then obtain rs where rs: "recursive_inverse g sc = Some rs" using less.prems(4) by fastforce
    from less.IH[OF pq(4) g sc(2) pq(2) rs] obtain si where
      si: "rs = Some si" "dims q q si" "rinv q (mget sc) (mget si)" by blast
    obtain u where u: "mat_mul g ai b = Some u" "dims p q u" "\<forall>i < p. \<forall>j < q. mget u i j = mprod p (mget ai) (mget b) i j"
      using mat_mul_mprod[OF g ai(2) b(2) pq(1)] by blast
    obtain ur where ur: "mat_mul g u si = Some ur" "dims p q ur" "\<forall>i < p. \<forall>j < q. mget ur i j = mprod q (mget u) (mget si) i j"
      using mat_mul_mprod[OF g u(2) si(2) pq(2)] by blast
    obtain ll where ll: "mat_mul g si t = Some ll" "dims q p ll" "\<forall>i < q. \<forall>j < p. mget ll i j = mprod q (mget si) (mget t) i j"
      using mat_mul_mprod[OF g si(2) t(2) pq(2)] by blast
    obtain ul where ul: "mat_mul g ur t = Some ul" "dims p p ul" "\<forall>i < p. \<forall>j < p. mget ul i j = mprod q (mget ur) (mget t) i j"
      using mat_mul_mprod[OF g ur(2) t(2) pq(2)] by blast
    obtain x where x: "mat_xor ai ul p p = Some x" "dims p p x" "\<forall>i < p. \<forall>j < p. mget x i j = mget ai i j + mget ul i j"
      using mat_xor_spec[OF ai(2) ul(2)] by blast
    define w where "w = map2 (@) x ur @ map2 (@) ll si"
    have "recursive_inverse g m = Some (Some w)"
      using less.prems(3) False len a(1) b(1) c(1) d(1) ra ai(1,2) t(1) tb(1) sc(1) rs si(1) u(1) ur(1) ll(1) ul(1) x(1) d0
        strip_spec[OF x(2) ur(2), of 0] strip_spec[OF ll(2) si(2), of p] pq(5) half
      by (subst recursive_inverse.simps) (simp add: Let_def mul_one_id[OF g] dims_length w_def)
    moreover have "dims n n w" using mget_blocks(1)[OF x(2) ur(2) ll(2) si(2)] pq(5) by (simp add: w_def)
    moreover have "rinv n (mget m) (mget w)"
      unfolding w_def pq(5)
      by (rule assembled_rinv[OF ai(2,3) si(2,3) x(2) ur(2) ll(2)])
         (simp_all add: a(3) b(3) c(3) d(3) t(3) tb(3) sc(3) u(3) ur(3) ll(3) ul(3) x(3))
    ultimately show ?thesis using less.prems(4) by simp
  qed
qed

subsection \<open>Properties\<close>

definition mat_one :: "nat \<Rightarrow> mat" where
  "mat_one n = map (\<lambda>i. map (\<lambda>j. if i = j then 1 else 0) [0..<n]) [0..<n]"

lemma mat_eqI:
  assumes "dims r c x" "dims r c y" "\<And>i j. i < r \<Longrightarrow> j < c \<Longrightarrow> mget x i j = mget y i j"
  shows "x = y"
  using assms by (intro nth_equalityI) (simp_all add: dims_length dims_row mget_def)

lemma gf_inv_1: "gf_ready g \<Longrightarrow> gf_inv g 1 = Some 1"
  using gf_inv_field[of g 1] by (simp add: GF8_1) (simp add: one_gf8_def)

text \<open>C19: on a non-empty square matrix, without a carry-less kernel, whenever the block inversion returns it
  returns a matrix (never \<open>None\<close>), and the product of the argument with it, computed by \<open>mat_mul\<close>, is the
  unit matrix.\<close>

theorem recursive_inverse_correct:
  assumes "gf_scalar g" "dims n n m" "0 < n" "recursive_inverse g m = Some r"
  shows "\<exists>inv. r = Some inv \<and> dims n n inv \<and> mat_mul g m inv = Some (mat_one n)"
proof -
  obtain inv where inv: "r = Some inv" "dims n n inv" "rinv n (mget m) (mget inv)"
    using recursive_inverse_rinv[OF assms] by blast
  obtain x where x: "mat_mul g m inv = Some x" "dims n n x"
    "\<forall>i < n. \<forall>j < n. mget x i j = mprod n (mget m) (mget inv) i j"
    using mat_mul_mprod[OF assms(1,2) inv(2) assms(3)] by blast
  have "dims n n (mat_one n)" by (simp add: mat_one_def dims_def list_all_iff)
  then have "x = mat_one n"
    using x inv(3) by (intro mat_eqI[of n n]) (auto simp: rinv_def mat_one_def mget_def gf_simps)
  with inv x show ?thesis by simp
qed

theorem recursive_inverse_correct_witness:
  "recursive_inverse std_env [[1]] = Some (Some [[1]]) \<and> mat_mul std_env [[1]] [[1]] = Some (mat_one 1)"
proof -
  have "recursive_inverse std_env [[1]] = Some (Some [[1]])"
    by (subst recursive_inverse.simps) (simp add: idx_def gf_inv_1 gf_ready_std_env)
  with recursive_inverse_correct[OF gf_scalar_std_env, of 1 "[[1]]" "Some [[1]]"] show ?thesis
    by (simp add: dims_def)
qed

text \<open>The block inversion does not pivot: on the invertible matrix that swaps two coordinates it panics,
  for every table contents and CPU.\<close>

lemma recursive_inverse_no_pivot:
  "recursive_inverse g [[0, 1], [1, 0]] = None"
proof -
  have a: "recursive_inverse g [[0]] = None"
    by (subst recursive_inverse.simps) (simp add: idx_def gf_inv_def)
  have "mat_block [[0, 1], [1, 0]] 0 1 0 1 = Some [[0]]" by (simp add: mat_block_def idx_def)
  with a show ?thesis
    by (subst recursive_inverse.simps) (simp add: Let_def split: Option.bind_split)
qed

end
