(* ===== verification/Wiedemann.thy ===== *)
theory Wiedemann
  imports Csr_Matrix Dense_Matrix
begin

text \<open>
  The ingredients of \<open>wiedemann_algorithm\<close> (\<open>src/src/fec/decoder.rs\<close>), the decoder for windows of more
  than 256 packets: the deterministic start vectors, the Krylov sequences of \<open>block_lanczos_iteration\<close>,
  the Berlekamp-Massey recurrence, and the polynomial in the coefficient matrix that serves as its
  inverse. The algorithm itself is composed in \<open>Fec_Decoder\<close>.
\<close>

definition lanczos_init :: "nat \<Rightarrow> bytes list" where
  "lanczos_init k =
     (let block = min (max (k div 256) 1) 32
      in map (\<lambda>b. map (\<lambda>i. of_nat ((i + b + 1) mod 255)) [0..<k]) [0..<block])"

text \<open>The dense \<open>k \<times> k\<close> matrix of the coefficients.\<close>

definition dense_matrix :: "nat \<Rightarrow> CsrMatrix \<Rightarrow> mat option" where
  "dense_matrix k m =
     omap (\<lambda>row. do {
         es \<leftarrow> row_entries m row;
         ofold (\<lambda>(col, v) a_row. set_idx a_row col v) es (replicate k 0) }) [0..<k]"

definition mat_vec_mul :: "gf_env \<Rightarrow> mat \<Rightarrow> bytes \<Rightarrow> bytes option" where
  "mat_vec_mul g a x =
     (let n = length x
      in omap (\<lambda>r. ofold (\<lambda>c acc. do {
               row \<leftarrow> idx a r;
               v \<leftarrow> idx row c;
               if v \<noteq> 0 then do { y \<leftarrow> idx x c; Some (acc XOR gf_mul g v y) } else Some acc })
             [0..<n] 0) [0..<n])"

definition dot_product :: "gf_env \<Rightarrow> nat \<Rightarrow> bytes \<Rightarrow> bytes \<Rightarrow> u8 option" where
  "dot_product g k u v =
     ofold (\<lambda>i acc. do { x \<leftarrow> idx u i; y \<leftarrow> idx v i; Some (acc XOR gf_mul g x y) }) [0..<k] 0"

text \<open>The sequence of one start vector: after each entry the vector is multiplied by the matrix.\<close>

primrec lanczos_seq :: "gf_env \<Rightarrow> nat \<Rightarrow> mat \<Rightarrow> bytes \<Rightarrow> nat \<Rightarrow> bytes \<Rightarrow> bytes option" where
  "lanczos_seq g k a u 0 v = Some []"
| "lanczos_seq g k a u (Suc t) v = do {
     d \<leftarrow> dot_product g k u v;
     v' \<leftarrow> mat_vec_mul g a v;
     rest \<leftarrow> lanczos_seq g k a u t v';
     Some (d # rest) }"

definition block_lanczos_iteration :: "gf_env \<Rightarrow> nat \<Rightarrow> CsrMatrix \<Rightarrow> bytes list \<Rightarrow> bytes list option" where
  "block_lanczos_iteration g k m init = do {
     a \<leftarrow> dense_matrix k m;
     omap (\<lambda>u. lanczos_seq g k a u (2 * k) u) init }"

subsection \<open>Berlekamp-Massey\<close>

record bm_state =
  bm_c :: bytes
  bm_bb :: bytes
  bm_l :: nat
  bm_m :: nat

definition bm_discrepancy :: "gf_env \<Rightarrow> bytes \<Rightarrow> bm_state \<Rightarrow> nat \<Rightarrow> u8 option" where
  "bm_discrepancy g s st i = do {
     d \<leftarrow> idx s i;
     ofold (\<lambda>j d. do {
         cj \<leftarrow> idx (bm_c st) j;
         ij \<leftarrow> checked_sub i j;
         sv \<leftarrow> idx s ij;
         Some (d XOR gf_mul g cj sv) }) [1..<bm_l st + 1] d }"

definition bm_step :: "gf_env \<Rightarrow> bytes \<Rightarrow> nat \<Rightarrow> bm_state \<Rightarrow> bm_state option" where
  "bm_step g s i st = do {
     d \<leftarrow> bm_discrepancy g s st i;
     if d \<noteq> 0 then do {
       let t = bm_c st;
       b0 \<leftarrow> idx (bm_bb st) 0;
       binv \<leftarrow> gf_inv g b0;
       let coef = gf_mul g d binv;
       shift \<leftarrow> checked_sub i (bm_m st);
       todo \<leftarrow> checked_sub (length s) shift;
       c \<leftarrow> ofold (\<lambda>j c. do {
              x \<leftarrow> idx c (j + shift);
              b \<leftarrow> idx (bm_bb st) j;
              set_idx c (j + shift) (x XOR gf_mul g coef b) }) [0..<todo] (bm_c st);
       if 2 * bm_l st \<le> i
       then Some \<lparr>bm_c = c, bm_bb = t, bm_l = i + 1 - bm_l st, bm_m = i\<rparr>
       else Some (st\<lparr>bm_c := c\<rparr>) }
     else Some st }"

definition bm_init :: "nat \<Rightarrow> bm_state" where
  "bm_init n = \<lparr>bm_c = (replicate (n + 1) 0)[0 := 1], bm_bb = (replicate (n + 1) 0)[0 := 1], bm_l = 0, bm_m = 0\<rparr>"

text \<open>The function always returns \<open>Some\<close> polynomial when it does not panic.\<close>

definition berlekamp_massey :: "gf_env \<Rightarrow> bytes \<Rightarrow> bytes option" where
  "berlekamp_massey g s = do {
     st \<leftarrow> ofold (bm_step g s) [0..<length s] (bm_init (length s));
     Some (take (bm_l st + 1) (bm_c st)) }"

subsection \<open>Inverse by a polynomial\<close>

definition payload_max_len :: "CsrMatrix \<Rightarrow> nat" where
  "payload_max_len m = fold max (map length (List.map_filter id (payloads m))) 0"

definition payload_matrix :: "nat \<Rightarrow> CsrMatrix \<Rightarrow> mat option" where
  "payload_matrix k m =
     ofold (\<lambda>(r, payload) b_mat. case payload of
              None \<Rightarrow> Some b_mat
            | Some p \<Rightarrow> ofold (\<lambda>(i, v) b_mat. do {
                  row \<leftarrow> idx b_mat r;
                  row \<leftarrow> set_idx row i v;
                  set_idx b_mat r row }) (List.enumerate 0 p) b_mat)
       (List.enumerate 0 (payloads m)) (replicate k (replicate (payload_max_len m) 0))"

text \<open>\<open>powers[t]\<close> is the \<open>t\<close>-th power of the matrix, for \<open>t < n\<close>.\<close>

primrec matrix_powers :: "gf_env \<Rightarrow> mat \<Rightarrow> nat \<Rightarrow> mat \<Rightarrow> mat list option" where
  "matrix_powers g a 0 cur = Some [cur]"
| "matrix_powers g a (Suc n) cur = do {
     nxt \<leftarrow> mat_mul g cur a;
     rest \<leftarrow> matrix_powers g a n nxt;
     Some (cur # rest) }"

definition poly_inverse :: "gf_env \<Rightarrow> nat \<Rightarrow> bytes \<Rightarrow> mat list \<Rightarrow> mat option" where
  "poly_inverse g k poly powers = do {
     c0 \<leftarrow> idx poly 0;
     c0_inv \<leftarrow> gf_inv g c0;
     ofold (\<lambda>t a_inv. do {
         coef \<leftarrow> idx poly t;
         let coef = gf_mul g coef c0_inv;
         mm \<leftarrow> idx powers (t - 1);
         omap (\<lambda>(r, row). do {
             mrow \<leftarrow> idx mm r;
             omap (\<lambda>(c, v). do { x \<leftarrow> idx mrow c; Some (v XOR gf_mul g coef x) }) (List.enumerate 0 row) })
           (List.enumerate 0 a_inv) })
       [1..<length poly] (replicate k (replicate k 0)) }"

subsection \<open>The constant term\<close>

lemma bm_shift_keeps_head:
  assumes "0 < shift"
    "ofold (\<lambda>j c. do {
              x \<leftarrow> idx c (j + shift);
              b \<leftarrow> idx bb j;
              set_idx c (j + shift) (x XOR gf_mul g coef b) }) js c = Some c'"
  shows "c' ! 0 = c ! 0"
  using assms by (induction js arbitrary: c) (auto simp: set_idx_def split: Option.bind_splits if_splits)

text \<open>After the first round the head of the polynomial is fixed, because every later shift is positive.\<close>

lemma bm_step_later:
  assumes "bm_step g s i st = Some st'" "bm_m st < i"
  shows "bm_c st' ! 0 = bm_c st ! 0 \<and> bm_m st' < Suc i"
  using assms bm_shift_keeps_head[of "i - bm_m st"]
  by (auto simp: bm_step_def checked_sub_def Let_def split: Option.bind_splits if_splits)

lemma bm_steps_later:
  "ofold (bm_step g s) [i..<n] st = Some st' \<Longrightarrow> bm_m st < i \<Longrightarrow> bm_c st' ! 0 = bm_c st ! 0"
proof (induction "n - i" arbitrary: i st)
  case (Suc d)
  then have "[i..<n] = i # [Suc i..<n]" by (simp add: upt_conv_Cons)
  with Suc.prems obtain st1 where st1: "bm_step g s i st = Some st1"
    "ofold (bm_step g s) [Suc i..<n] st1 = Some st'"
    by (auto split: Option.bind_splits)
  with Suc.hyps(1)[of "Suc i" st1] Suc.hyps(2) bm_step_later[OF st1(1) Suc.prems(2)] show ?case by simp
qed simp

lemma bm_step_first:
  assumes "gf_scalar g" "s \<noteq> []" "bm_step g s 0 (bm_init (length s)) = Some st"
  shows "bm_c st ! 0 = 1 XOR s ! 0 \<and> bm_m st = 0 \<and> bm_c st \<noteq> []"
proof -
  have d: "bm_discrepancy g s (bm_init (length s)) 0 = Some (s ! 0)"
    using assms(2) by (simp add: bm_discrepancy_def bm_init_def idx_def)
  define c where "c = ((replicate (length s + 1) 0)[0 := 1] :: bytes)"
  have c: "length c = Suc (length s)" "c ! 0 = 1" "idx c 0 = Some 1" by (simp_all add: c_def idx_def)
  have init: "bm_init (length s) = \<lparr>bm_c = c, bm_bb = c, bm_l = 0, bm_m = 0\<rparr>"
    by (simp add: bm_init_def c_def)
  note mul1 = gf_mul_one_right[OF assms(1)]
  have upd: "ofold (\<lambda>j c'. do { x \<leftarrow> idx c' (j + 0); b \<leftarrow> idx c j; set_idx c' (j + 0) (x XOR gf_mul g coef b) })
      [0..<length s] c = Some (map (\<lambda>j. c ! j XOR gf_mul g coef (c ! j)) [0..<length s] @ drop (length s) c)" for coef
    using c by (intro ofold_pointwise) (simp_all add: idx_def set_idx_def)
  show ?thesis
  proof (cases "s ! 0 = 0")
    case True
    with assms(3) d have "st = bm_init (length s)" by (simp add: bm_step_def)
    with True show ?thesis by (simp add: bm_init_def)
  next
    case False
    have "st = \<lparr>bm_c = map (\<lambda>j. c ! j XOR gf_mul g (s ! 0) (c ! j)) [0..<length s] @ drop (length s) c,
        bm_bb = c, bm_l = 1, bm_m = 0\<rparr>"
      using assms(3) d False c(3) upd[of "s ! 0"] gf_inv_1[OF gf_scalar_ready[OF assms(1)]] mul1
      unfolding init by (simp add: bm_step_def checked_sub_def)
    then show ?thesis using assms(2) c mul1 by (simp add: nth_append)
  qed
qed

subsection \<open>Properties\<close>

text \<open>The polynomial that the Berlekamp-Massey routine returns has constant term \<open>1 XOR s[0]\<close>. The
  connection polynomial of the algorithm has constant term 1; because the routine starts with the shift
  \<open>i - m\<close> at 0 instead of 1, the first non-zero sequence element is added to the constant term, which
  vanishes when that element is 1 (and then \<open>wiedemann_algorithm\<close> gives up).\<close>

lemma berlekamp_massey_constant_term:
  assumes "gf_scalar g" "s \<noteq> []" "berlekamp_massey g s = Some c"
  shows "c ! 0 = 1 XOR s ! 0"
proof -
  obtain st where st: "ofold (bm_step g s) [0..<length s] (bm_init (length s)) = Some st"
    "c = take (bm_l st + 1) (bm_c st)"
    using assms(3) by (auto simp: berlekamp_massey_def split: Option.bind_splits)
  have "[0..<length s] = 0 # [1..<length s]" using assms(2) by (simp add: upt_conv_Cons)
  with st(1) obtain st1 where st1: "bm_step g s 0 (bm_init (length s)) = Some st1"
    "ofold (bm_step g s) [1..<length s] st1 = Some st"
    by (auto split: Option.bind_splits)
  from bm_step_first[OF assms(1,2) st1(1)] bm_steps_later[OF st1(2)] st(2) show ?thesis by simp
qed

end
