(* ===== verification/Fec_Decoder.thy ===== *)
theory Fec_Decoder
  imports Fec_Encoder Wiedemann
begin

text \<open>
  The erasure decoder over GF(2^8) (\<open>Decoder\<close> of \<open>src/src/fec/decoder.rs\<close>).

  A decoder collects rows (unit rows for source packets, coefficient rows for repair packets) until it
  has \<open>k\<close> of them and then solves the system, by Gauss-Jordan elimination on the CSR matrix for
  \<open>k \<le> 256\<close> and by the Wiedemann variant above that. A packet handed to \<open>add_packet\<close> is consumed: one
  that is ignored goes back to the pool through its destructor; of a repair packet the data block moves
  into the matrix and the coefficient block is released without returning to the pool.
\<close>

datatype DecodingStrategy = GaussianElimination | Wiedemann

record Decoder =
  dec_k :: nat
  decoding_matrix :: CsrMatrix
  systematic_packets :: "Packet option list"
  is_decoded :: bool
  strategy :: DecodingStrategy

definition Decoder_new :: "nat \<Rightarrow> Decoder" where
  "Decoder_new k =
     \<lparr>dec_k = k, decoding_matrix = csr_new k, systematic_packets = replicate k None, is_decoded = False,
      strategy = (if k > 256 then Wiedemann else GaussianElimination)\<rparr>"

text \<open>A reconstructed packet; its length is that of the whole block.\<close>

definition recovered :: "nat \<Rightarrow> block \<Rightarrow> nat \<Rightarrow> Packet" where
  "recovered i d n = \<lparr>pid = of_nat i, data = Some d, len = n, is_systematic = True,
                      coefficients = None, coeff_len = 0\<rparr>"

primrec find_pivot :: "CsrMatrix \<Rightarrow> nat \<Rightarrow> nat list \<Rightarrow> nat option option" where
  "find_pivot m i [] = Some None"
| "find_pivot m i (r # rs) = do {
     v \<leftarrow> get_val m r i;
     if v \<noteq> 0 then Some (Some r) else find_pivot m i rs }"

definition eliminate_column :: "gf_env \<Rightarrow> nat \<Rightarrow> CsrMatrix \<Rightarrow> CsrMatrix option" where
  "eliminate_column g i m =
     ofold (\<lambda>row_idx m.
         if i = row_idx then Some m
         else do {
           factor \<leftarrow> get_val m row_idx i;
           if factor \<noteq> 0 then add_scaled_row g row_idx i factor m else Some m })
       [0..<num_rows m] m"

text \<open>One round of the elimination loop; nothing happens once the rank is \<open>k\<close> (the \<open>break\<close>).\<close>

definition gauss_step :: "gf_env \<Rightarrow> nat \<Rightarrow> nat \<Rightarrow> CsrMatrix \<times> nat \<Rightarrow> (CsrMatrix \<times> nat) option" where
  "gauss_step g k i s =
     (case s of (m, rank) \<Rightarrow>
        if rank = k then Some (m, rank)
        else do {
          pivot_row_opt \<leftarrow> find_pivot m i [i..<num_rows m];
          case pivot_row_opt of
            None \<Rightarrow> Some (m, rank)
          | Some pivot_row \<Rightarrow> do {
              m \<leftarrow> swap_rows i pivot_row m;
              pivot_val \<leftarrow> get_val m i i;
              pivot_inv \<leftarrow> gf_inv g pivot_val;
              m \<leftarrow> scale_row g i pivot_inv m;
              m \<leftarrow> eliminate_column g i m;
              Some (m, rank + 1) } })"

definition reconstruct ::
  "nat \<Rightarrow> CsrMatrix \<Rightarrow> nat \<Rightarrow> Packet option list \<times> MemoryPool \<Rightarrow> (Packet option list \<times> MemoryPool) option" where
  "reconstruct nd m i s =
     (case s of (sps, p) \<Rightarrow> do {
        sp \<leftarrow> idx sps i;
        case sp of
          Some pk \<Rightarrow> Some (sps, p)
        | None \<Rightarrow> do {
            payload \<leftarrow> get_payload m i;
            case payload of
              None \<Rightarrow> Some (sps, p)
            | Some data_slice \<Rightarrow> do {
                (packet_data, p) \<leftarrow> alloc_filled (alloc nd) (length data_slice) data_slice p;
                sps \<leftarrow> set_idx sps i (Some (recovered i packet_data (length data_slice)));
                Some (sps, p) } } })"

definition gaussian_elimination ::
  "gf_env \<Rightarrow> nat \<Rightarrow> Decoder \<Rightarrow> MemoryPool \<Rightarrow> (bool \<times> Decoder \<times> MemoryPool) option" where
  "gaussian_elimination g nd d p = do {
     (m, rank) \<leftarrow> ofold (gauss_step g (dec_k d)) [0..<dec_k d] (decoding_matrix d, 0);
     let d = d\<lparr>decoding_matrix := m\<rparr>;
     if rank < dec_k d then Some (False, d, p)
     else do {
       (sps, p) \<leftarrow> ofold (reconstruct nd m) [0..<dec_k d] (systematic_packets d, p);
       Some (True, d\<lparr>is_decoded := True, systematic_packets := sps\<rparr>, p) } }"

definition wiedemann_reconstruct ::
  "nat \<Rightarrow> nat \<Rightarrow> nat \<times> bytes \<Rightarrow> Packet option list \<times> MemoryPool \<Rightarrow> (Packet option list \<times> MemoryPool) option" where
  "wiedemann_reconstruct nd max_len ir s =
     (case (ir, s) of ((i, data_row), (sps, p)) \<Rightarrow> do {
        sp \<leftarrow> idx sps i;
        case sp of
          Some pk \<Rightarrow> Some (sps, p)
        | None \<Rightarrow> do {
            (packet_data, p) \<leftarrow> alloc nd p;
            packet_data \<leftarrow> ofold (\<lambda>(j, v) pd. set_idx pd j v) (List.enumerate 0 data_row) packet_data;
            sps \<leftarrow> set_idx sps i (Some (recovered i packet_data max_len));
            Some (sps, p) } })"

definition wiedemann_algorithm ::
  "gf_env \<Rightarrow> nat \<Rightarrow> Decoder \<Rightarrow> MemoryPool \<Rightarrow> (bool \<times> Decoder \<times> MemoryPool) option" where
  "wiedemann_algorithm g nd d p = do {
     let k = dec_k d;
     let m = decoding_matrix d;
     seq \<leftarrow> block_lanczos_iteration g k m (lanczos_init k);
     a \<leftarrow> dense_matrix k m;
     let max_len = payload_max_len m;
     b_mat \<leftarrow> payload_matrix k m;
     seq0 \<leftarrow> idx seq 0;
     poly \<leftarrow> berlekamp_massey g seq0;
     if length poly \<le> 1 then Some (False, d, p)
     else do {
       poly0 \<leftarrow> idx poly 0;
       if poly0 = 0 then Some (False, d, p)
       else do {
         powers \<leftarrow> matrix_powers g a (length poly - 1) (mat_one k);
         a_inv \<leftarrow> poly_inverse g k poly powers;
         result \<leftarrow> mat_mul g a_inv b_mat;
         (sps, p) \<leftarrow> ofold (wiedemann_reconstruct nd max_len) (List.enumerate 0 result) (systematic_packets d, p);
         Some (True, d\<lparr>systematic_packets := sps, is_decoded := True\<rparr>, p) } } }"

definition try_decode :: "gf_env \<Rightarrow> nat \<Rightarrow> Decoder \<Rightarrow> MemoryPool \<Rightarrow> (bool \<times> Decoder \<times> MemoryPool) option" where
  "try_decode g nd d p =
     (if is_decoded d then Some (True, d, p)
      else if num_rows (decoding_matrix d) < dec_k d then Some (False, d, p)
      else (case strategy d of
              GaussianElimination \<Rightarrow> gaussian_elimination g nd d p
            | Wiedemann \<Rightarrow> wiedemann_algorithm g nd d p))"

definition Decoder_add_packet ::
  "gf_env \<Rightarrow> nat \<Rightarrow> Packet \<Rightarrow> Decoder \<Rightarrow> MemoryPool \<Rightarrow> ((string + bool) \<times> Decoder \<times> MemoryPool) option" where
  "Decoder_add_packet g nd pk d p =
     (if is_decoded d \<or> num_rows (decoding_matrix d) \<ge> dec_k d
      then Some (Inr (is_decoded d), d, drop_packet nd pk p)
      else if is_systematic pk then do {
        let index = unat (pid pk) mod dec_k d;
        identity_row \<leftarrow> set_idx (replicate (dec_k d) 0) index 1;
        sp \<leftarrow> idx (systematic_packets d) index;
        case sp of
          Some _ \<Rightarrow> Some (Inr (is_decoded d), d, drop_packet nd pk p)
        | None \<Rightarrow> do {
            sps \<leftarrow> set_idx (systematic_packets d) index (Some pk);
            (b, d, p) \<leftarrow> try_decode g nd
               (d\<lparr>systematic_packets := sps,
                  decoding_matrix := append_row identity_row None (decoding_matrix d)\<rparr>) p;
            Some (Inr b, d, p) } }
      else case coefficients pk of
        Some coeffs \<Rightarrow> do {
          row \<leftarrow> slice coeffs 0 (coeff_len pk);
          (b, d, p) \<leftarrow> try_decode g nd
             (d\<lparr>decoding_matrix := append_row row (data pk) (decoding_matrix d)\<rparr>) p;
          Some (Inr b, d, p) }
      | None \<Rightarrow> Some (Inl ''Repair packet missing coefficients.'', d, drop_packet nd pk p))"

definition Decoder_get_decoded_packets :: "Decoder \<Rightarrow> Packet list \<times> Decoder" where
  "Decoder_get_decoded_packets d =
     (List.map_filter id (systematic_packets d),
      d\<lparr>systematic_packets := map (\<lambda>_. None) (systematic_packets d)\<rparr>)"

subsection \<open>Row operations on decoding matrices\<close>

text \<open>The structure that the elimination needs: \<open>k\<close> well-formed rows and payloads of one length.\<close>

definition rows_ok :: "nat \<Rightarrow> nat \<Rightarrow> srow list \<Rightarrow> block option list \<Rightarrow> bool" where
  "rows_ok k bs rs ps \<longleftrightarrow> length rs = k \<and> length ps = k \<and> list_all (wf_row k) rs \<and>
     list_all (\<lambda>p. case p of None \<Rightarrow> True | Some d \<Rightarrow> length d = bs) ps"

definition scaled :: "gf_env \<Rightarrow> u8 \<Rightarrow> srow \<Rightarrow> srow" where
  "scaled g f row = map (\<lambda>(c, v). (c, gf_mul g v f)) row"

definition scaled_pay :: "gf_env \<Rightarrow> u8 \<Rightarrow> block option \<Rightarrow> block option" where
  "scaled_pay g f pay = map_option (map (\<lambda>b. gf_mul g b f)) pay"

definition swapl :: "nat \<Rightarrow> nat \<Rightarrow> 'a list \<Rightarrow> 'a list" where
  "swapl i j xs = xs[i := xs ! j, j := xs ! i]"

lemma length_swapl [simp]: "length (swapl i j xs) = length xs"
  by (simp add: swapl_def)

lemma nth_swapl:
  "i < length xs \<Longrightarrow> j < length xs \<Longrightarrow> r < length xs \<Longrightarrow>
   swapl i j xs ! r = xs ! (if r = i then j else if r = j then i else r)"
  by (simp add: swapl_def nth_list_update)

lemma list_all_swapl: "list_all P xs \<Longrightarrow> i < length xs \<Longrightarrow> j < length xs \<Longrightarrow> list_all P (swapl i j xs)"
  by (simp add: list_all_length nth_swapl)

lemma wf_row_scaled: "wf_row k row \<Longrightarrow> wf_row k (scaled g f row)"
  by (auto simp: wf_row_def scaled_def list_all_iff comp_def case_prod_beta)

lemma rows_ok_swap: "rows_ok k bs rs ps \<Longrightarrow> i < k \<Longrightarrow> j < k \<Longrightarrow> rows_ok k bs (swapl i j rs) (swapl i j ps)"
  by (simp add: rows_ok_def list_all_swapl)

lemma rows_ok_scale:
  "rows_ok k bs rs ps \<Longrightarrow> i < k \<Longrightarrow> rows_ok k bs (rs[i := scaled g f (rs ! i)]) (ps[i := scaled_pay g f (ps ! i)])"
  by (auto simp: rows_ok_def list_all_length nth_list_update wf_row_scaled scaled_pay_def split: option.splits)

lemma rows_ok_add:
  "rows_ok k bs rs ps \<Longrightarrow> t < k \<Longrightarrow> s < k \<Longrightarrow>
   rows_ok k bs (rs[t := added_row g k f (rs ! s) (rs ! t)]) (ps[t := added_payload g f (ps ! s) (ps ! t)])"
  by (force simp: rows_ok_def list_all_length nth_list_update added_row_wf added_payload_def split: option.splits)

lemma rows_okD:
  assumes "rows_ok k bs rs ps"
  shows "length rs = k" "length ps = k" "\<And>r. r < k \<Longrightarrow> wf_row k (rs ! r)"
    "\<And>r d. r < k \<Longrightarrow> ps ! r = Some d \<Longrightarrow> length d = bs"
  using assms by (auto simp: rows_ok_def list_all_length split: option.splits)

lemma find_pivot_csr_of:
  "list_all (\<lambda>r. r < length rs) js \<Longrightarrow>
   find_pivot (csr_of rs ps nc) i js = Some (List.find (\<lambda>r. row_val (rs ! r) i \<noteq> 0) js)"
  by (induction js) (simp_all add: exec_simps)

text \<open>What the elimination of column \<open>i\<close> does to row \<open>r\<close>: it only reads that row and the pivot row.\<close>

definition elim_row :: "gf_env \<Rightarrow> nat \<Rightarrow> nat \<Rightarrow> srow list \<Rightarrow> nat \<Rightarrow> srow" where
  "elim_row g k i rs r = (if r = i \<or> row_val (rs ! r) i = 0 then rs ! r
                          else added_row g k (row_val (rs ! r) i) (rs ! i) (rs ! r))"

definition elim_pay :: "gf_env \<Rightarrow> nat \<Rightarrow> srow list \<Rightarrow> block option list \<Rightarrow> nat \<Rightarrow> block option" where
  "elim_pay g i rs ps r = (if r = i \<or> row_val (rs ! r) i = 0 then ps ! r
                           else added_payload g (row_val (rs ! r) i) (ps ! i) (ps ! r))"

definition norm_rows :: "gf_env \<Rightarrow> nat \<Rightarrow> nat \<Rightarrow> srow list \<Rightarrow> srow list" where
  "norm_rows g i j rs =
     (let rs = swapl i j rs in rs[i := scaled g (the (gf_inv g (row_val (rs ! i) i))) (rs ! i)])"

definition norm_pays :: "gf_env \<Rightarrow> nat \<Rightarrow> nat \<Rightarrow> srow list \<Rightarrow> block option list \<Rightarrow> block option list" where
  "norm_pays g i j rs ps =
     (let rs = swapl i j rs; ps = swapl i j ps
      in ps[i := scaled_pay g (the (gf_inv g (row_val (rs ! i) i))) (ps ! i)])"

text \<open>Statements about a system of rows that every row operation keeps.\<close>

locale row_operations =
  fixes g :: gf_env and k bs :: nat and Q :: "srow list \<Rightarrow> block option list \<Rightarrow> bool"
  assumes Q_swap: "rows_ok k bs rs ps \<Longrightarrow> Q rs ps \<Longrightarrow> i < k \<Longrightarrow> j < k \<Longrightarrow> Q (swapl i j rs) (swapl i j ps)"
    and Q_scale: "rows_ok k bs rs ps \<Longrightarrow> Q rs ps \<Longrightarrow> i < k \<Longrightarrow> a \<noteq> 0 \<Longrightarrow> gf_inv g a = Some f \<Longrightarrow>
      Q (rs[i := scaled g f (rs ! i)]) (ps[i := scaled_pay g f (ps ! i)])"
    and Q_add: "rows_ok k bs rs ps \<Longrightarrow> Q rs ps \<Longrightarrow> t < k \<Longrightarrow> s < k \<Longrightarrow> t \<noteq> s \<Longrightarrow>
      Q (rs[t := added_row g k f (rs ! s) (rs ! t)]) (ps[t := added_payload g f (ps ! s) (ps ! t)])"
begin

abbreviation good :: "srow list \<Rightarrow> block option list \<Rightarrow> bool" where
  "good rs ps \<equiv> rows_ok k bs rs ps \<and> Q rs ps"

lemma eliminate_loop:
  assumes "good rs ps" "i < k" "n \<le> k"
  defines "rn \<equiv> \<lambda>n. map (elim_row g k i rs) [0..<n] @ drop n rs"
    and "pn \<equiv> \<lambda>n. map (elim_pay g i rs ps) [0..<n] @ drop n ps"
  shows "ofold (\<lambda>row_idx m.
         if i = row_idx then Some m
         else do {
           factor \<leftarrow> get_val m row_idx i;
           if factor \<noteq> 0 then add_scaled_row g row_idx i factor m else Some m })
       [0..<n] (csr_of rs ps k) = Some (csr_of (rn n) (pn n) k) \<and> good (rn n) (pn n)"
  using assms(3)
proof (induction n)
  case 0
  then show ?case using assms(1) by (simp add: rn_def pn_def)
next
  case (Suc n)
  note ok = rows_okD[OF conjunct1[OF assms(1)]]
  have IH: "good (rn n) (pn n)" using Suc by simp
  note okn = rows_okD[OF conjunct1[OF IH]]
  have at: "rn n ! n = rs ! n" "pn n ! n = ps ! n" "rn n ! i = rs ! i" "pn n ! i = ps ! i"
    using Suc.prems ok assms(2)
    by (auto simp: rn_def pn_def nth_append elim_row_def elim_pay_def)
  have upd: "rn (Suc n) = (rn n)[n := elim_row g k i rs n]" "pn (Suc n) = (pn n)[n := elim_pay g i rs ps n]"
    using Suc.prems ok by (simp_all add: rn_def pn_def list_update_append flip: Cons_nth_drop_Suc)
  show ?case
  proof (cases "i = n \<or> row_val (rs ! n) i = 0")
    case True
    then have "rn (Suc n) = (rn n)[n := rn n ! n]" "pn (Suc n) = (pn n)[n := pn n ! n]"
      unfolding upd at by (auto simp: elim_row_def elim_pay_def)
    then have "rn (Suc n) = rn n" "pn (Suc n) = pn n" by simp_all
    with True Suc okn at show ?thesis by (auto simp: ofold_append exec_simps)
  next
    case False
    have "add_scaled_row g n i (row_val (rs ! n) i) (csr_of (rn n) (pn n) k) = Some (csr_of (rn (Suc n)) (pn (Suc n)) k)"
      using add_scaled_row_csr_of[of n "rn n" i "pn n" k g "row_val (rs ! n) i"] False Suc.prems assms(2) at
        okn(1,2) okn(3)[of n] okn(3)[of i] okn(4)[of n] okn(4)[of i]
      by (simp add: upd elim_row_def elim_pay_def)
    moreover have "good (rn (Suc n)) (pn (Suc n))"
      using rows_ok_add[of k bs "rn n" "pn n" n i g "row_val (rs ! n) i"] Q_add[of "rn n" "pn n" n i "row_val (rs ! n) i"]
        IH False Suc.prems assms(2) at by (auto simp: upd elim_row_def elim_pay_def)
    ultimately show ?thesis using False Suc okn at by (simp add: ofold_append exec_simps)
  qed
qed

lemma eliminate_column_run:
  assumes "good rs ps" "i < k"
  shows "eliminate_column g i (csr_of rs ps k) =
      Some (csr_of (map (elim_row g k i rs) [0..<k]) (map (elim_pay g i rs ps) [0..<k]) k)"
    and "good (map (elim_row g k i rs) [0..<k]) (map (elim_pay g i rs ps) [0..<k])"
  using eliminate_loop[OF assms, of k] rows_okD[OF conjunct1[OF assms(1)]]
  by (simp_all add: eliminate_column_def)

lemma gauss_step_run:
  assumes good: "good rs ps" and i: "i < k" and rank: "rank \<noteq> k"
  shows "case List.find (\<lambda>r. row_val (rs ! r) i \<noteq> 0) [i..<k] of
      None \<Rightarrow> gauss_step g k i (csr_of rs ps k, rank) = Some (csr_of rs ps k, rank)
    | Some j \<Rightarrow> i \<le> j \<and> j < k \<and> row_val (rs ! j) i \<noteq> 0 \<and>
        good (norm_rows g i j rs) (norm_pays g i j rs ps) \<and>
        (let rs' = map (elim_row g k i (norm_rows g i j rs)) [0..<k];
             ps' = map (elim_pay g i (norm_rows g i j rs) (norm_pays g i j rs ps)) [0..<k]
         in gauss_step g k i (csr_of rs ps k, rank) = Some (csr_of rs' ps' k, Suc rank) \<and> good rs' ps')"
proof (cases "List.find (\<lambda>r. row_val (rs ! r) i \<noteq> 0) [i..<k]")
  case None
  then show ?thesis
    using rows_okD[OF conjunct1[OF good]] rank
    by (simp add: gauss_step_def find_pivot_csr_of list_all_iff)
next
  case (Some j)
  then have j: "i \<le> j" "j < k" "row_val (rs ! j) i \<noteq> 0" by (auto simp: find_Some_iff)
  note ok = rows_okD[OF conjunct1[OF good]]
  define rs1 ps1 where "rs1 = swapl i j rs" and "ps1 = swapl i j ps"
  have good1: "good rs1 ps1"
    unfolding rs1_def ps1_def using good i j rows_ok_swap Q_swap by blast
  note ok1 = rows_okD[OF conjunct1[OF good1]]
  have v: "row_val (rs1 ! i) i = row_val (rs ! j) i" using i j ok by (simp add: rs1_def nth_swapl)
  then obtain f where f: "gf_inv g (row_val (rs1 ! i) i) = Some f" using j by (simp add: gf_inv_def)
  define rs2 ps2 where "rs2 = rs1[i := scaled g f (rs1 ! i)]" and "ps2 = ps1[i := scaled_pay g f (ps1 ! i)]"
  have good2: "good rs2 ps2"
    unfolding rs2_def ps2_def using good1 i j f v rows_ok_scale Q_scale by metis
  have norm: "norm_rows g i j rs = rs2" "norm_pays g i j rs ps = ps2"
    using f by (simp_all add: norm_rows_def norm_pays_def Let_def rs2_def ps2_def flip: rs1_def ps1_def)
  have "scale_row g i f (csr_of rs1 ps1 k) = Some (csr_of rs2 ps2 k)"
    using i ok1 by (simp add: scale_row_csr_of rs2_def ps2_def scaled_def scaled_pay_def)
  then have "gauss_step g k i (csr_of rs ps k, rank) =
      Some (csr_of (map (elim_row g k i rs2) [0..<k]) (map (elim_pay g i rs2 ps2) [0..<k]) k, Suc rank)"
    using rank i j ok ok1 f Some eliminate_column_run(1)[OF good2 i]
    by (simp add: gauss_step_def find_pivot_csr_of list_all_iff swap_rows_csr_of get_val_csr_of
        flip: swapl_def rs1_def ps1_def)
  with Some j good2 norm eliminate_column_run(2)[OF good2 i] show ?thesis by (simp add: Let_def)
qed

end

subsection \<open>Elimination runs to the end\<close>

context row_operations
begin

text \<open>The loop never panics, whatever the rank of the matrix.\<close>

lemma gauss_loop:
  assumes "good rs ps"
  shows "\<exists>rs' ps' rank. ofold (gauss_step g k) [0..<k] (csr_of rs ps k, 0) = Some (csr_of rs' ps' k, rank) \<and>
           good rs' ps' \<and> rank \<le> k"
proof -
  let ?P = "\<lambda>(i :: nat) s. \<exists>rs ps rank. s = (csr_of rs ps k, rank) \<and> good rs ps \<and> rank \<le> i"
  have "\<exists>s. ofold (gauss_step g k) [0..<k] (csr_of rs ps k, 0) = Some s \<and> ?P (length [0..<k]) s"
  proof (rule ofold_invariant[where P = ?P])
    show "?P 0 (csr_of rs ps k, 0)" using assms by (intro exI[of _ rs] exI[of _ ps]) simp
  next
    fix i s
    assume "i < length [0..<k]" "?P i s"
    then obtain rs ps rank where s: "s = (csr_of rs ps k, rank)" "good rs ps" "rank \<le> i" and i: "i < k" "[0..<k] ! i = i"
      by auto
    from s(3) i have "rank \<noteq> k" by simp
    from gauss_step_run[OF s(2) i(1) this] s i show "\<exists>s'. gauss_step g k ([0..<k] ! i) s = Some s' \<and> ?P (Suc i) s'"
      by (fastforce simp: Let_def split: option.splits)
  qed
  then show ?thesis by auto
qed

end

interpretation any_rows: row_operations g k bs "\<lambda>rs ps. True" for g k bs
  by unfold_locales simp_all

text \<open>The matrix of a list of rows, over the field.\<close>

definition mx :: "srow list \<Rightarrow> nat \<Rightarrow> nat \<Rightarrow> gf8" where
  "mx rs r c = GF8 (row_val (rs ! r) c)"

lemma row_val_scaled:
  assumes "gf_scalar g"
  shows "GF8 (row_val (scaled g f row) c) = GF8 (row_val row c) * GF8 f"
proof -
  have "map_of (scaled g f row) c = map_option (\<lambda>v. gf_mul g v f) (map_of row c)"
    by (simp add: scaled_def map_of_map)
  then show ?thesis using assms by (simp add: row_val_def gf_simps split: option.split)
qed

lemma row_val_added:
  assumes "gf_scalar g" "c < k"
  shows "GF8 (row_val (added_row g k f src tgt) c) = GF8 (row_val tgt c) + GF8 f * GF8 (row_val src c)"
proof -
  have "row_val (added_row g k f src tgt) c =
      row_val tgt c XOR (case map_of src c of None \<Rightarrow> 0 | Some v \<Rightarrow> gf_mul g v f)"
    using assms(2) by (simp add: added_row_def row_val_sparse)
  moreover have "GF8 (case map_of src c of None \<Rightarrow> 0 | Some v \<Rightarrow> gf_mul g v f) = GF8 f * GF8 (row_val src c)"
    using assms(1) by (simp add: row_val_def gf_simps mult.commute split: option.split)
  ultimately show ?thesis by (simp add: GF8_xor)
qed

lemma mx_norm:
  assumes g: "gf_scalar g" and ij: "i < length rs" "j < length rs" "r < length rs" and v: "mx rs j i \<noteq> 0"
  shows "mx (norm_rows g i j rs) r c =
      (if r = i then mx rs j c * inverse (mx rs j i) else if r = j then mx rs i c else mx rs r c)"
proof -
  have "gf_inv g (row_val (rs ! j) i) = Some (raw (inverse (mx rs j i)))"
    using gf_inv_field[OF gf_scalar_ready[OF g], of "row_val (rs ! j) i"] v by (simp add: mx_def)
  then show ?thesis
    using ij by (simp add: mx_def norm_rows_def Let_def nth_swapl nth_list_update row_val_scaled[OF g] raw_GF8_eq)
qed

lemma mx_elim:
  assumes "gf_scalar g" "r < k" "c < k"
  shows "mx (map (elim_row g k i rs) [0..<k]) r c =
      (if r = i then mx rs r c else mx rs r c + mx rs r i * mx rs i c)"
  using assms by (simp add: mx_def elim_row_def row_val_added)

text \<open>A system with trivial kernel: every column has its pivot and the loop ends with the unit matrix.\<close>

locale solvable_rows = row_operations +
  assumes Q_solvable: "rows_ok k bs rs ps \<Longrightarrow> Q rs ps \<Longrightarrow> gf_scalar g \<and> trivial_kernel k (mx rs)"
begin

lemma solvable_step:
  assumes good: "good rs ps" and i: "i < k" and uc: "unit_cols k i (mx rs)"
  shows "\<exists>rs' ps'. gauss_step g k i (csr_of rs ps k, i) = Some (csr_of rs' ps' k, Suc i) \<and> good rs' ps' \<and>
           unit_cols k (Suc i) (mx rs')"
proof -
  have g: "gf_scalar g" and tk: "trivial_kernel k (mx rs)" using Q_solvable good by blast+
  have len: "length rs = k" using rows_okD(1) good by blast
  obtain r where "i \<le> r" "r < k" "mx rs r i \<noteq> 0" using pivot_exists[OF tk uc i] by blast
  then have "List.find (\<lambda>r. row_val (rs ! r) i \<noteq> 0) [i..<k] \<noteq> None"
    by (auto simp: find_None_iff mx_def)
  then obtain j where j: "List.find (\<lambda>r. row_val (rs ! r) i \<noteq> 0) [i..<k] = Some j" by blast
  define rs1 where "rs1 = norm_rows g i j rs"
  define rs' where "rs' = map (elim_row g k i rs1) [0..<k]"
  have run: "i \<le> j" "j < k" "mx rs j i \<noteq> 0"
    "\<exists>ps'. gauss_step g k i (csr_of rs ps k, i) = Some (csr_of rs' ps' k, Suc i) \<and> good rs' ps'"
    using gauss_step_run[OF good i, of i] i j by (auto simp: Let_def rs'_def rs1_def mx_def)
  have n: "mx rs1 r c = (if r = i then mx rs j c * inverse (mx rs j i) else if r = j then mx rs i c else mx rs r c)"
    if "r < k" for r c
    unfolding rs1_def using mx_norm[OF g _ _ _ run(3)] that i run(2) len by simp
  have "mx rs' r c = (if r = c then 1 else 0)" if "r < k" "c < Suc i" for r c
  proof (cases "c = i")
    case True
    with that i run(3) show ?thesis
      by (simp add: rs'_def mx_elim[OF g] n gf8_add_self)
  next
    case False
    then have c: "c < i" using that by simp
    then have "mx rs1 r c = (if r = c then 1 else 0)" "mx rs1 i c = 0"
      using that(1) run(1,2) i uc by (auto simp: n unit_cols_def)
    then show ?thesis using that c i by (cases "r = c") (simp_all add: rs'_def mx_elim[OF g])
  qed
  then have "unit_cols k (Suc i) (mx rs')" by (simp add: unit_cols_def)
  with run(4) show ?thesis by blast
qed

lemma gauss_solves:
  assumes "good rs ps"
  shows "\<exists>rs' ps'. ofold (gauss_step g k) [0..<k] (csr_of rs ps k, 0) = Some (csr_of rs' ps' k, k) \<and>
           good rs' ps' \<and> unit_cols k k (mx rs')"
proof -
  let ?P = "\<lambda>i s. \<exists>rs ps. s = (csr_of rs ps k, i) \<and> good rs ps \<and> unit_cols k i (mx rs)"
  have "\<exists>s. ofold (gauss_step g k) [0..<k] (csr_of rs ps k, 0) = Some s \<and> ?P (length [0..<k]) s"
  proof (rule ofold_invariant[where P = ?P])
    have "unit_cols k 0 (mx rs)" by (simp add: unit_cols_def)
    with assms show "?P 0 (csr_of rs ps k, 0)" by blast
  next
    fix i s
    assume "i < length [0..<k]" "?P i s"
    then show "\<exists>s'. gauss_step g k ([0..<k] ! i) s = Some s' \<and> ?P (Suc i) s'"
      using solvable_step[of _ _ i] by fastforce
  qed
  then show ?thesis by auto
qed

end

subsection \<open>Rows of one code word\<close>

text \<open>Payload of a row against the unknowns: \<open>X c j\<close> is byte \<open>j\<close> of source packet \<open>c\<close>. Rows of repair
  packets carry their combination in the first \<open>N\<close> bytes (what follows in a block may be stale), rows of source
  packets carry no payload.\<close>

definition pay_ok :: "nat \<Rightarrow> nat \<Rightarrow> bool \<Rightarrow> (nat \<Rightarrow> nat \<Rightarrow> gf8) \<Rightarrow> (nat \<Rightarrow> gf8) \<Rightarrow> block option \<Rightarrow> bool" where
  "pay_ok k N rep X row pay =
     (if rep then \<exists>d. pay = Some d \<and> (\<forall>j < N. j < length d \<longrightarrow> GF8 (d ! j) = dot k row (\<lambda>c. X c j)) else pay = None)"

definition coded :: "gf_env \<Rightarrow> nat \<Rightarrow> nat \<Rightarrow> bool \<Rightarrow> (nat \<Rightarrow> nat \<Rightarrow> gf8) \<Rightarrow> srow list \<Rightarrow> block option list \<Rightarrow> bool" where
  "coded g k N rep X rs ps \<longleftrightarrow>
     gf_scalar g \<and> trivial_kernel k (mx rs) \<and> (\<forall>r < k. pay_ok k N rep X (mx rs r) (ps ! r))"

lemma pay_ok_cong: "(\<And>c. c < k \<Longrightarrow> row c = row' c) \<Longrightarrow> pay_ok k N rep X row pay = pay_ok k N rep X row' pay"
  using dot_cong[of k row row'] by (simp add: pay_ok_def)

lemma coded_swap:
  assumes "rows_ok k bs rs ps" "coded g k N rep X rs ps" "i < k" "j < k"
  shows "coded g k N rep X (swapl i j rs) (swapl i j ps)"
proof -
  note len = rows_okD(1,2)[OF assms(1)]
  let ?p = "\<lambda>r. if r = i then j else if r = j then i else r"
  have row: "mx (swapl i j rs) r = mx rs (?p r)" "swapl i j ps ! r = ps ! ?p r" if "r < k" for r
    using that assms(3,4) len by (auto simp: mx_def nth_swapl fun_eq_iff)
  have "trivial_kernel k (mx (swapl i j rs))"
    using trivial_kernel_swap[of k "mx rs" i j "mx (swapl i j rs)"] assms row by (simp add: coded_def)
  moreover have "pay_ok k N rep X (mx (swapl i j rs) r) (swapl i j ps ! r)" if "r < k" for r
  proof -
    have "?p r < k" using that assms(3,4) by auto
    then have "pay_ok k N rep X (mx rs (?p r)) (ps ! ?p r)" using assms(2) unfolding coded_def by blast
    then show ?thesis using row[OF that] by simp
  qed
  ultimately show ?thesis using assms(2) by (simp add: coded_def)
qed

lemma coded_scale:
  assumes ok: "rows_ok k bs rs ps" and c: "coded g k N rep X rs ps" and i: "i < k"
    and f: "a \<noteq> 0" "gf_inv g a = Some f"
  shows "coded g k N rep X (rs[i := scaled g f (rs ! i)]) (ps[i := scaled_pay g f (ps ! i)])"
proof -
  let ?rs = "rs[i := scaled g f (rs ! i)]" and ?ps = "ps[i := scaled_pay g f (ps ! i)]"
  note len = rows_okD(1,2)[OF ok]
  have g: "gf_scalar g" using c by (simp add: coded_def)
  have f0: "GF8 f \<noteq> 0"
    using gf_inv_field[OF gf_scalar_ready[OF g] f(1)] f by (metis GF8_eq_0_iff inverse_nonzero_iff_nonzero option.inject raw_GF8_eq)
  have row: "mx ?rs r c = (if r = i then mx rs r c * GF8 f else mx rs r c)" if "r < k" for r c
    using that len i by (simp add: mx_def nth_list_update row_val_scaled[OF g])
  have "trivial_kernel k (mx ?rs)"
    using trivial_kernel_scale[of k "mx rs" "GF8 f" "mx ?rs" i] c f0 row by (simp add: coded_def)
  moreover have "pay_ok k N rep X (mx ?rs r) (?ps ! r)" if "r < k" for r
  proof -
    have p: "pay_ok k N rep X (mx rs r) (ps ! r)" using c that by (simp add: coded_def)
    have "pay_ok k N rep X (mx ?rs r) (?ps ! r) =
        pay_ok k N rep X (\<lambda>c. if r = i then mx rs r c * GF8 f else mx rs r c) (?ps ! r)"
      by (rule pay_ok_cong) (simp add: row that)
    also have "\<dots>"
      using p that len rows_okD(4)[OF ok that] g
      by (cases "r = i") (auto simp: pay_ok_def scaled_pay_def dot_scale gf_simps split: if_splits)
    finally show ?thesis .
  qed
  ultimately show ?thesis using g by (simp add: coded_def)
qed

lemma coded_add:
  assumes ok: "rows_ok k bs rs ps" and c: "coded g k N rep X rs ps" and ts: "t < k" "s < k" "t \<noteq> s"
  shows "coded g k N rep X (rs[t := added_row g k f (rs ! s) (rs ! t)]) (ps[t := added_payload g f (ps ! s) (ps ! t)])"
proof -
  let ?rs = "rs[t := added_row g k f (rs ! s) (rs ! t)]" and ?ps = "ps[t := added_payload g f (ps ! s) (ps ! t)]"
  note len = rows_okD(1,2)[OF ok]
  have g: "gf_scalar g" using c by (simp add: coded_def)
  have row: "mx ?rs r c = (if r = t then mx rs t c + GF8 f * mx rs s c else mx rs r c)" if "r < k" "c < k" for r c
    using that len ts by (simp add: mx_def nth_list_update row_val_added[OF g])
  have "trivial_kernel k (mx ?rs)"
    using trivial_kernel_add_scaled[of k "mx rs" t s "mx ?rs" "GF8 f"] c ts row by (simp add: coded_def)
  moreover have "pay_ok k N rep X (mx ?rs r) (?ps ! r)" if "r < k" for r
  proof -
    have p: "pay_ok k N rep X (mx rs r) (ps ! r)" "pay_ok k N rep X (mx rs s) (ps ! s)"
      using c that ts by (simp_all add: coded_def)
    have "pay_ok k N rep X (mx ?rs r) (?ps ! r) =
        pay_ok k N rep X (\<lambda>c. if r = t then mx rs t c + GF8 f * mx rs s c else mx rs r c) (?ps ! r)"
      by (rule pay_ok_cong) (simp add: row that)
    also have "\<dots>"
      using p that len rows_okD(4)[OF ok that] rows_okD(4)[OF ok ts(2)] g ts
      by (cases "r = t") (auto simp: pay_ok_def added_payload_def dot_add_scaled gf_simps add.commute split: if_splits)
    finally show ?thesis .
  qed
  ultimately show ?thesis using g by (simp add: coded_def)
qed

interpretation code_word: solvable_rows g k bs "coded g k N rep X" for g k bs N rep X
  by (unfold_locales, blast intro: coded_swap, blast intro: coded_scale, blast intro: coded_add,
      simp add: coded_def)

subsection \<open>Reconstruction\<close>

lemma coded_unit_payload:
  assumes "coded g k N True X rs ps" "unit_cols k k (mx rs)" "r < k"
  shows "\<exists>d. ps ! r = Some d \<and> (\<forall>j < N. j < length d \<longrightarrow> GF8 (d ! j) = X r j)"
proof -
  from assms obtain d where d: "ps ! r = Some d" "\<And>j. j < N \<Longrightarrow> j < length d \<Longrightarrow> GF8 (d ! j) = dot k (mx rs r) (\<lambda>c. X c j)"
    by (auto simp: coded_def pay_ok_def)
  have "dot k (mx rs r) (\<lambda>c. X c j) = X r j" for j
    using assms(2,3) by (intro dot_unit) (auto simp: unit_cols_def)
  with d show ?thesis by simp
qed

lemma reconstruct_loop:
  assumes "pool_ok p" "block_size p = bs" "length ps = k"
    "\<And>i. i < k \<Longrightarrow> ps ! i = Some (B i) \<and> length (B i) = bs"
  shows "\<exists>p'. ofold (reconstruct nd (csr_of rs ps nc)) [0..<k] (replicate k None, p) =
           Some (map (\<lambda>i. Some (recovered i (B i) bs)) [0..<k], p') \<and> pool_ok p' \<and> block_size p' = bs"
proof -
  let ?P = "\<lambda>n s. \<exists>p. s = (map (\<lambda>i. Some (recovered i (B i) bs)) [0..<n] @ replicate (k - n) None, p) \<and>
      pool_ok p \<and> block_size p = bs"
  have "\<exists>s. ofold (reconstruct nd (csr_of rs ps nc)) [0..<k] (replicate k None, p) = Some s \<and> ?P (length [0..<k]) s"
  proof (rule ofold_invariant[where P = ?P])
    show "?P 0 (replicate k None, p)" using assms by simp
  next
    fix n s
    assume "n < length [0..<k]" "?P n s"
    then obtain p where s: "s = (map (\<lambda>i. Some (recovered i (B i) bs)) [0..<n] @ replicate (k - n) None, p)"
      "pool_ok p" "block_size p = bs" and n: "n < k" "[0..<k] ! n = n" by auto
    obtain p' where "alloc_filled (alloc nd) bs (B n) p = Some (B n, p')" "pool_ok p'" "block_size p' = bs"
      using pool.alloc_filled_ok[OF s(2), of "B n" bs nd] assms(4)[OF n(1)] s(3) by auto
    moreover have "replicate (k - n) None = None # replicate (k - Suc n) (None :: Packet option)"
      using n(1) by (metis Suc_diff_Suc replicate_Suc)
    ultimately show "\<exists>s'. reconstruct nd (csr_of rs ps nc) ([0..<k] ! n) s = Some s' \<and> ?P (Suc n) s'"
      using n assms(3) assms(4)[OF n(1)]
      by (simp add: s reconstruct_def get_payload_def idx_def set_idx_def nth_append list_update_append)
  qed
  then show ?thesis by auto
qed

lemma gaussian_repair:
  assumes p: "pool_ok p" "block_size p = bs"
    and d: "dec_k d = k" "decoding_matrix d = csr_of rs ps k" "systematic_packets d = replicate k None"
    and rows: "rows_ok k bs rs ps" "coded g k N True X rs ps"
  shows "\<exists>m B p'. gaussian_elimination g nd d p = Some (True, d\<lparr>decoding_matrix := m, is_decoded := True,
             systematic_packets := map (\<lambda>i. Some (recovered i (B i) bs)) [0..<k]\<rparr>, p') \<and>
           pool_ok p' \<and> block_size p' = bs \<and>
           (\<forall>i < k. length (B i) = bs \<and> (\<forall>j < min N bs. GF8 (B i ! j) = X i j))"
proof -
  from code_word.gauss_solves[of k bs rs ps g N True X] rows obtain rs' ps' where
    run: "ofold (gauss_step g k) [0..<k] (csr_of rs ps k, 0) = Some (csr_of rs' ps' k, k)"
    and ok: "rows_ok k bs rs' ps'" "coded g k N True X rs' ps'" "unit_cols k k (mx rs')" by blast
  define B where "B i = the (ps' ! i)" for i
  have B: "ps' ! i = Some (B i) \<and> length (B i) = bs" "j < N \<Longrightarrow> j < bs \<Longrightarrow> GF8 (B i ! j) = X i j" if "i < k" for i j
    using coded_unit_payload[OF ok(2,3) that] rows_okD(4)[OF ok(1) that] by (auto simp: B_def)
  from reconstruct_loop[OF p rows_okD(2)[OF ok(1)] B(1), of nd rs' k] obtain p' where
    "ofold (reconstruct nd (csr_of rs' ps' k)) [0..<k] (replicate k None, p) =
       Some (map (\<lambda>i. Some (recovered i (B i) bs)) [0..<k], p')" "pool_ok p'" "block_size p' = bs" by blast
  with run d B show ?thesis
    by (intro exI[of _ "csr_of rs' ps' k"] exI[of _ B] exI[of _ p']) (simp add: gaussian_elimination_def)
qed

lemma reconstruct_present:
  "list_all (\<lambda>sp. sp \<noteq> None) sps \<Longrightarrow> n \<le> length sps \<Longrightarrow> ofold (reconstruct nd m) [0..<n] (sps, p) = Some (sps, p)"
proof (induction n)
  case (Suc n)
  then have "sps ! n \<noteq> None" by (simp add: list_all_length Suc_le_eq)
  then obtain pk where "sps ! n = Some pk" by blast
  with Suc show ?case by (simp add: ofold_append reconstruct_def idx_def)
qed simp

lemma gaussian_systematic:
  assumes d: "dec_k d = k" "decoding_matrix d = csr_of rs ps k" "list_all (\<lambda>sp. sp \<noteq> None) (systematic_packets d)"
      "length (systematic_packets d) = k"
    and rows: "rows_ok k bs rs ps" "coded g k N False X rs ps"
  shows "\<exists>m. gaussian_elimination g nd d p = Some (True, d\<lparr>decoding_matrix := m, is_decoded := True\<rparr>, p)"
proof -
  from code_word.gauss_solves[of k bs rs ps g N False X] rows obtain rs' ps' where
    run: "ofold (gauss_step g k) [0..<k] (csr_of rs ps k, 0) = Some (csr_of rs' ps' k, k)" by blast
  with d reconstruct_present[OF d(3), of k nd "csr_of rs' ps' k" p] show ?thesis
    by (intro exI[of _ "csr_of rs' ps' k"]) (simp add: gaussian_elimination_def)
qed

subsection \<open>Feeding packets\<close>

definition add_packets :: "gf_env \<Rightarrow> nat \<Rightarrow> Packet list \<Rightarrow> Decoder \<times> MemoryPool \<Rightarrow> (Decoder \<times> MemoryPool) option" where
  "add_packets g nd pks s =
     ofold (\<lambda>pk (d, p). do { (r, d, p) \<leftarrow> Decoder_add_packet g nd pk d p; Some (d, p) }) pks s"

lemma add_packets_snoc:
  "add_packets g nd pks s = Some (d, p) \<Longrightarrow> Decoder_add_packet g nd pk d p = Some (r, d', p') \<Longrightarrow>
   add_packets g nd (pks @ [pk]) s = Some (d', p')"
  by (simp add: add_packets_def ofold_append)

text \<open>A repair packet as the encoder builds it for a window of \<open>k\<close> packets.\<close>

definition repair_ok :: "nat \<Rightarrow> nat \<Rightarrow> Packet \<Rightarrow> bool" where
  "repair_ok k bs pk \<longleftrightarrow> \<not> is_systematic pk \<and> coeff_len pk = k \<and>
     (case coefficients pk of None \<Rightarrow> False | Some c \<Rightarrow> k \<le> length c) \<and>
     (case data pk of None \<Rightarrow> False | Some d \<Rightarrow> length d = bs)"

definition coeff_row :: "Packet \<Rightarrow> bytes" where
  "coeff_row pk = take (coeff_len pk) (case coefficients pk of None \<Rightarrow> [] | Some c \<Rightarrow> c)"

definition dec_state :: "nat \<Rightarrow> Packet list \<Rightarrow> Decoder" where
  "dec_state k pks = (Decoder_new k)\<lparr>decoding_matrix := csr_of (map (sparse \<circ> coeff_row) pks) (map data pks) k\<rparr>"

lemma dec_state_sel [simp]:
  "dec_k (dec_state k pks) = k" "is_decoded (dec_state k pks) = False"
  "decoding_matrix (dec_state k pks) = csr_of (map (sparse \<circ> coeff_row) pks) (map data pks) k"
  "systematic_packets (dec_state k pks) = replicate k None"
  "strategy (dec_state k pks) = (if k > 256 then Wiedemann else GaussianElimination)"
  by (simp_all add: dec_state_def Decoder_new_def)

lemma add_repair:
  assumes "length pks < k" "repair_ok k bs pk"
  shows "Decoder_add_packet g nd pk (dec_state k pks) p =
      do { (b, d, p) \<leftarrow> try_decode g nd (dec_state k (pks @ [pk])) p; Some (Inr b, d, p) }"
proof -
  obtain c where c: "coefficients pk = Some c" "k \<le> length c" "coeff_len pk = k" "\<not> is_systematic pk"
    using assms(2) by (auto simp: repair_ok_def split: option.splits)
  have "(dec_state k pks)\<lparr>decoding_matrix := append_row (coeff_row pk) (data pk) (decoding_matrix (dec_state k pks))\<rparr>
      = dec_state k (pks @ [pk])"
    by (simp add: dec_state_def append_row_csr_of)
  with c assms(1) show ?thesis
    by (simp add: Decoder_add_packet_def exec_simps coeff_row_def)
qed

lemma add_repairs_partial:
  "length pks < k \<Longrightarrow> list_all (repair_ok k bs) pks \<Longrightarrow>
   add_packets g nd pks (dec_state k [], p) = Some (dec_state k pks, p)"
proof (induction pks rule: rev_induct)
  case (snoc pk pks)
  then show ?case
    using add_repair[of pks k bs pk g nd p]
    by (simp add: add_packets_def ofold_append try_decode_def)
qed (simp add: add_packets_def)

lemma wf_row_coeff: "repair_ok k bs pk \<Longrightarrow> wf_row k (sparse (coeff_row pk)) \<and> length (coeff_row pk) = k"
  using wf_row_sparse[of "coeff_row pk"]
  by (auto simp: repair_ok_def coeff_row_def min_def split: option.splits)

lemma rows_ok_repairs:
  "length pks = k \<Longrightarrow> list_all (repair_ok k bs) pks \<Longrightarrow> rows_ok k bs (map (sparse \<circ> coeff_row) pks) (map data pks)"
proof -
  assume l: "length pks = k" and ok: "list_all (repair_ok k bs) pks"
  have "list_all (wf_row k) (map (sparse \<circ> coeff_row) pks)"
    using ok wf_row_coeff by (auto simp: list_all_iff)
  moreover have "list_all (\<lambda>p. case p of None \<Rightarrow> True | Some d \<Rightarrow> length d = bs) (map data pks)"
    using ok by (auto simp: list_all_iff repair_ok_def split: option.splits)
  ultimately show ?thesis using l by (simp add: rows_ok_def)
qed

lemma dec_state_Nil: "dec_state k [] = Decoder_new k"
  by (simp add: dec_state_def Decoder_new_def csr_new_of)

text \<open>With the last of \<open>k\<close> repair packets of one code word the decoder is done.\<close>

lemma add_last_repair:
  assumes "pool_ok p" "block_size p = bs" "length (qs @ [pk]) = k" "k \<le> 256" "list_all (repair_ok k bs) (qs @ [pk])"
    and "coded g k N True X (map (sparse \<circ> coeff_row) (qs @ [pk])) (map data (qs @ [pk]))"
  shows "\<exists>d B p'. Decoder_add_packet g nd pk (dec_state k qs) p = Some (Inr True, d, p') \<and> is_decoded d \<and> dec_k d = k \<and>
      systematic_packets d = map (\<lambda>i. Some (recovered i (B i) bs)) [0..<k] \<and> pool_ok p' \<and> block_size p' = bs \<and>
      (\<forall>i < k. length (B i) = bs \<and> (\<forall>j < min N bs. GF8 (B i ! j) = X i j))"
proof -
  let ?pks = "qs @ [pk]"
  obtain m B p' where ge: "gaussian_elimination g nd (dec_state k ?pks) p =
      Some (True, (dec_state k ?pks)\<lparr>decoding_matrix := m, is_decoded := True,
             systematic_packets := map (\<lambda>i. Some (recovered i (B i) bs)) [0..<k]\<rparr>, p')" "pool_ok p'" "block_size p' = bs"
      "\<forall>i < k. length (B i) = bs \<and> (\<forall>j < min N bs. GF8 (B i ! j) = X i j)"
    using gaussian_repair[OF assms(1,2) _ _ _ rows_ok_repairs[OF assms(3,5)] assms(6), of "dec_state k ?pks" nd]
    by auto
  have "Decoder_add_packet g nd pk (dec_state k qs) p =
      Some (Inr True, (dec_state k ?pks)\<lparr>decoding_matrix := m, is_decoded := True,
             systematic_packets := map (\<lambda>i. Some (recovered i (B i) bs)) [0..<k]\<rparr>, p')"
    using add_repair[of qs k bs pk g nd p] assms(3-5) ge(1) by (simp add: try_decode_def)
  then show ?thesis using ge(2-4) by (simp add: exI[of _ B])
qed

lemma add_repairs_decode:
  assumes "pool_ok p" "block_size p = bs" "length pks = k" "0 < k" "k \<le> 256" "list_all (repair_ok k bs) pks"
    and "coded g k N True X (map (sparse \<circ> coeff_row) pks) (map data pks)"
  shows "\<exists>d B p'. add_packets g nd pks (Decoder_new k, p) = Some (d, p') \<and> is_decoded d \<and> dec_k d = k \<and>
      systematic_packets d = map (\<lambda>i. Some (recovered i (B i) bs)) [0..<k] \<and> pool_ok p' \<and>
      (\<forall>i < k. length (B i) = bs \<and> (\<forall>j < min N bs. GF8 (B i ! j) = X i j))"
proof -
  obtain qs pk where pks: "pks = qs @ [pk]" using assms(3,4) by (cases pks rule: rev_exhaust) auto
  have "add_packets g nd qs (Decoder_new k, p) = Some (dec_state k qs, p)"
    using add_repairs_partial[of qs k bs g nd p] pks assms(3,6) by (simp add: dec_state_Nil)
  moreover obtain d B p' where "Decoder_add_packet g nd pk (dec_state k qs) p = Some (Inr True, d, p')" "is_decoded d"
    "dec_k d = k" "systematic_packets d = map (\<lambda>i. Some (recovered i (B i) bs)) [0..<k]" "pool_ok p'"
    "\<forall>i < k. length (B i) = bs \<and> (\<forall>j < min N bs. GF8 (B i ! j) = X i j)"
    using add_last_repair[OF assms(1,2) assms(3,5,6,7)[unfolded pks], of nd] by blast
  ultimately show ?thesis
    by (intro exI[of _ d] exI[of _ B] exI[of _ p']) (simp add: pks add_packets_snoc)
qed

end
