(* ===== verification/Gf16.thy ===== *)
theory Gf16
  imports Gf_Field
begin

text \<open>
  The 16-bit arithmetic of the extreme mode (\<open>gf16_mul\<close>, \<open>gf16_pow\<close>, \<open>gf16_inv\<close> and
  \<open>gf16_mul_add\<close> of \<open>src/src/fec/gf_tables.rs\<close>).

  The reduction test of \<open>gf16_mul\<close> masks the 16-bit factor with \<open>0x10000\<close>. In 16 bits that literal
  is zero (here as in Rust once the out-of-range lint is silenced), so no reduction takes place and
  the product is the carry-less product truncated to 16 bits: a commutative ring, not the field
  GF(2^16). The lemmas below make this precise; \<open>gf16_inv\<close> is an inverse at 1 only.
\<close>

definition GF16_POLY :: u32 where
  "GF16_POLY = 0x1100b"

function gf16_mul_loop :: "u16 \<Rightarrow> u16 \<Rightarrow> u16 \<Rightarrow> u16" where
  "gf16_mul_loop a b res =
     (if b \<noteq> 0
      then let res = (if b AND 1 \<noteq> 0 then res XOR a else res);
               b = drop_bit 1 b;
               a = push_bit 1 a;
               a = (if a AND 0x10000 \<noteq> 0 then a XOR ucast GF16_POLY else a)
           in gf16_mul_loop a b res
      else res)"
  by pat_completeness auto
termination
  by (relation "measure (\<lambda>(a, b, res). unat b)")
     (auto simp: drop_bit_eq_div unat_div unat_gt_0)

declare gf16_mul_loop.simps [simp del]

definition gf16_mul :: "u16 \<Rightarrow> u16 \<Rightarrow> u16" where
  "gf16_mul a b = gf16_mul_loop a b 0"

function gf16_pow_loop :: "u16 \<Rightarrow> nat \<Rightarrow> u16 \<Rightarrow> u16" where
  "gf16_pow_loop x pwr result =
     (if 0 < pwr
      then gf16_pow_loop (gf16_mul x x) (pwr div 2)
             (if odd pwr then gf16_mul result x else result)
      else result)"
  by pat_completeness auto
termination
  by (relation "measure (\<lambda>(x, pwr, result). pwr)") auto

declare gf16_pow_loop.simps [simp del]

definition gf16_pow :: "u16 \<Rightarrow> nat \<Rightarrow> u16" where
  "gf16_pow x pwr = gf16_pow_loop x pwr 1"

definition gf16_inv :: "u16 \<Rightarrow> u16 option" where
  "gf16_inv x = (if x = 0 then None else Some (gf16_pow x (0x10000 - 2)))"

definition gf16_mul_add :: "u16 \<Rightarrow> u16 \<Rightarrow> u16 \<Rightarrow> u16" where
  "gf16_mul_add a b c = gf16_mul a b XOR c"

subsection \<open>The product as a ring multiplication\<close>

lemma mask_0x10000: "(0x10000 :: u16) = 0"
  by simp

lemma and_1_iff_u16: "(b :: u16) AND 1 \<noteq> 0 \<longleftrightarrow> bit b 0"
  by (simp add: and_one_eq mod2_eq_if bit_0)

lemma gf16_mul_loop_shift:
  "gf16_mul_loop a b res =
     (if b = 0 then res
      else gf16_mul_loop (push_bit 1 a) (drop_bit 1 b) (if bit b 0 then res XOR a else res))"
  by (subst gf16_mul_loop.simps) (simp only: Let_def and_1_iff_u16 mask_0x10000, simp)

lemma funpow_push_bit: "(push_bit 1 ^^ i) a = push_bit i (a :: u16)"
  by (induction i arbitrary: a) (simp_all add: push_bit_push_bit)

interpretation gf16_shift: shift_product "push_bit 1 :: u16 \<Rightarrow> u16"
proof unfold_locales
  show "push_bit 1 (a XOR b) = push_bit 1 a XOR push_bit 1 b" for a b :: u16
    by (rule push_bit_xor)
  show "(push_bit 1 ^^ i) 1 = (2 :: u16) ^ i" for i
    by (simp only: funpow_push_bit push_bit_eq_mult mult_1)
qed

lemma gf16_mul_sum: "gf16_mul a b = shift_sum (push_bit 1) LENGTH(16) a b"
proof -
  have "unat b < 2 ^ 16" using unsigned_less[of b] by simp
  from shift_loop_sum[of gf16_mul_loop "push_bit 1", OF gf16_mul_loop_shift this, of a 0]
  show ?thesis by (simp add: gf16_mul_def)
qed

datatype ring16 = R16 (raw16: u16)

lemma ring16_eq_iff: "x = y \<longleftrightarrow> raw16 x = raw16 y"
  by (cases x; cases y) simp

lemmas gf16_mul_xor_right = shift_sum_xor_right[of "push_bit 1" "LENGTH(16)", folded gf16_mul_sum]
lemmas gf16_mul_xor_left = gf16_shift.prod_xor_left[folded gf16_mul_sum]
lemmas gf16_mul_one_left = gf16_shift.prod_one_left[folded gf16_mul_sum]
lemmas gf16_mul_commute = gf16_shift.prod_commute[folded gf16_mul_sum]
lemmas gf16_mul_assoc = gf16_shift.prod_assoc[folded gf16_mul_sum]
lemmas gf16_mul_pow2 = gf16_shift.prod_pow2[folded gf16_mul_sum]

instantiation ring16 :: comm_ring_1
begin

definition zero_ring16 :: ring16 where "0 = R16 0"
definition one_ring16 :: ring16 where "1 = R16 1"
definition plus_ring16 :: "ring16 \<Rightarrow> ring16 \<Rightarrow> ring16" where "x + y = R16 (raw16 x XOR raw16 y)"
definition minus_ring16 :: "ring16 \<Rightarrow> ring16 \<Rightarrow> ring16" where "x - y = R16 (raw16 x XOR raw16 y)"
definition uminus_ring16 :: "ring16 \<Rightarrow> ring16" where "- x = (x :: ring16)"
definition times_ring16 :: "ring16 \<Rightarrow> ring16 \<Rightarrow> ring16" where
  "x * y = R16 (gf16_mul (raw16 x) (raw16 y))"

instance
  by standard
     (simp_all add: ring16_eq_iff zero_ring16_def one_ring16_def plus_ring16_def minus_ring16_def
       uminus_ring16_def times_ring16_def gf16_mul_assoc gf16_mul_one_left gf16_mul_xor_left
       gf16_mul_commute[of "raw16 x" "raw16 y" for x y] ac_simps)

end

lemma R16_mul: "R16 (gf16_mul a b) = R16 a * R16 b"
  by (simp add: times_ring16_def)

lemma R16_pow_loop: "R16 (gf16_pow_loop x n r) = R16 r * R16 x ^ n"
proof (induction x n r rule: gf16_pow_loop.induct)
  case (1 x n r)
  show ?case
  proof (cases "0 < n")
    case True
    have "R16 x ^ n = (R16 x * R16 x) ^ (n div 2) * (if odd n then R16 x else 1)"
      by (cases "even n")
         (auto elim!: evenE oddE simp: power_mult power2_eq_square power_add)
    with "1.IH"[OF True] True show ?thesis
      by (subst gf16_pow_loop.simps) (simp add: R16_mul mult_ac)
  next
    case False
    then show ?thesis by (subst gf16_pow_loop.simps) simp
  qed
qed

lemma R16_pow: "R16 (gf16_pow x n) = R16 x ^ n"
  by (simp add: gf16_pow_def R16_pow_loop flip: one_ring16_def)

subsection \<open>Squaring four times\<close>

lemma ring16_add_self: "x + x = (0 :: ring16)"
  by (simp add: plus_ring16_def zero_ring16_def)

lemma ring16_square_add: "(x + y) ^ 2 = x ^ 2 + (y :: ring16) ^ 2"
proof -
  have "(x + y) ^ 2 = x ^ 2 + y ^ 2 + (x * y + x * y)"
    by (simp add: power2_eq_square algebra_simps)
  then show ?thesis by (simp add: ring16_add_self)
qed

lemma ring16_pow16_add: "(x + y) ^ 16 = x ^ 16 + (y :: ring16) ^ 16"
proof -
  have "z ^ 16 = (((z ^ 2) ^ 2) ^ 2) ^ 2" for z :: ring16
    by (simp flip: power_mult)
  then show ?thesis by (simp only: ring16_square_add)
qed

lemma R16_two_power: "R16 2 ^ n = R16 (push_bit n 1)"
proof (induction n)
  case 0
  then show ?case by (simp add: one_ring16_def)
next
  case (Suc n)
  have "gf16_mul (push_bit n 1) 2 = push_bit 1 (push_bit n 1)"
    using gf16_mul_pow2[of 1 "push_bit n 1"] by simp
  with Suc show ?case
    by (simp add: times_ring16_def gf16_mul_commute[of 2] push_bit_push_bit)
qed

lemma push_bit_16_u16: "push_bit (16 + n) (a :: u16) = 0"
  by (rule bit_word_eqI) (simp add: bit_simps)

lemma pow16_basis: "0 < i \<Longrightarrow> i < 16 \<Longrightarrow> R16 (2 ^ i) ^ 16 = 0"
proof -
  assume i: "0 < i" "i < 16"
  have "R16 (2 ^ i) = R16 2 ^ i" by (simp only: R16_two_power push_bit_eq_mult mult_1)
  then have "R16 (2 ^ i) ^ 16 = R16 2 ^ (i * 16)" by (simp flip: power_mult)
  also have "\<dots> = R16 2 ^ (16 + (i * 16 - 16))" using i by simp
  finally show ?thesis by (simp only: R16_two_power push_bit_16_u16 zero_ring16_def)
qed

lemma pow16_odd: "R16 a ^ 16 = (if bit a 0 then 1 else 0)"
proof (rule word_basis_induct[of "\<lambda>a. R16 a ^ 16 = (if bit a 0 then 1 else 0)"])
  show "R16 0 ^ 16 = (if bit (0 :: u16) 0 then 1 else 0)"
    by (simp flip: zero_ring16_def)
next
  fix i
  assume "i < LENGTH(16)"
  then show "R16 (2 ^ i) ^ 16 = (if bit ((2 :: u16) ^ i) 0 then 1 else 0)"
    by (cases "i = 0") (simp_all add: pow16_basis bit_0 flip: one_ring16_def)
next
  fix x y :: u16
  assume "R16 x ^ 16 = (if bit x 0 then 1 else 0)" "R16 y ^ 16 = (if bit y 0 then 1 else 0)"
  moreover have "R16 (x XOR y) = R16 x + R16 y" by (simp add: plus_ring16_def)
  ultimately show "R16 (x XOR y) ^ 16 = (if bit (x XOR y) 0 then 1 else 0)"
    by (auto simp: ring16_pow16_add bit_xor_iff ring16_add_self)
qed

lemma gf16_inv_times:
  assumes "x \<noteq> 0"
  shows "\<exists>y. gf16_inv x = Some y \<and> R16 y * R16 x = (if bit x 0 then R16 x ^ 15 else 0)"
proof -
  have "R16 x ^ 65534 * R16 x = (R16 x ^ 16) ^ 4095 * R16 x ^ 15"
    by (simp flip: power_mult power_add power_Suc2)
  then show ?thesis
    using assms by (auto simp: gf16_inv_def R16_pow pow16_odd)
qed

subsection \<open>Properties\<close>

text \<open>C25: the 16-bit product never reduces: multiplying by a power of two is a plain shift, so bits fall off
  the top, and the arithmetic is a commutative ring with zero divisors instead of the field GF(2^16).
  Its \<open>gf16_inv\<close> panics on 0 and is an inverse for the argument 1 only.\<close>

theorem gf16_not_a_field:
  "(case gf16_inv x of None \<Rightarrow> x = 0 | Some y \<Rightarrow> gf16_mul y x = 1 \<longleftrightarrow> x = 1) \<and>
   (i < 16 \<longrightarrow> gf16_mul x (2 ^ i) = push_bit i x) \<and> gf16_mul 2 0x8000 = 0"
proof (intro conjI impI)
  show pow: "gf16_mul a (2 ^ j) = push_bit j a" if "j < 16" for a j
    using gf16_mul_pow2[of j a] that unfolding funpow_push_bit by simp
  have "gf16_mul 2 (2 ^ 15) = push_bit 15 2" by (rule pow) simp
  then show "gf16_mul 2 0x8000 = 0" by simp
  show "case gf16_inv x of None \<Rightarrow> x = 0 | Some y \<Rightarrow> gf16_mul y x = 1 \<longleftrightarrow> x = 1"
  proof (cases "x = 0")
    case False
    then obtain y where y: "gf16_inv x = Some y" "R16 y * R16 x = (if bit x 0 then R16 x ^ 15 else 0)"
      using gf16_inv_times by blast
    have "gf16_mul y x = 1 \<longleftrightarrow> R16 y * R16 x = 1" by (simp add: times_ring16_def one_ring16_def)
    also have "\<dots> \<longleftrightarrow> x = 1"
    proof
      assume "R16 y * R16 x = 1"
      then have "bit x 0" "R16 x ^ 15 = 1" using y(2) by (auto split: if_splits)
      moreover have "R16 x ^ 15 * R16 x = R16 x ^ 16" by (simp flip: power_Suc2)
      ultimately have "R16 x = 1" using pow16_odd[of x] by simp
      with \<open>R16 x ^ 15 = 1\<close> show "x = 1" by (simp add: one_ring16_def)
    next
      assume "x = 1"
      then show "R16 y * R16 x = 1" using y(2) by (simp flip: one_ring16_def)
    qed
    finally show ?thesis using y(1) by simp
  qed (simp add: gf16_inv_def)
qed

theorem gf16_not_a_field_witness: "gf16_mul 3 (2 ^ 4) = push_bit 4 3"
  using gf16_not_a_field[of 1 4] gf16_not_a_field[of 3 4] by simp

end
