(* ===== verification/Fec16.thy ===== *)
theory Fec16
  imports Fec_Decoder Gf16
begin

text \<open>
  The codec of the extreme mode over 16-bit symbols (\<open>Encoder16\<close> and \<open>Decoder16\<close> of
  \<open>src/src/fec/decoder.rs\<close>) and the two sums that choose a codec by mode (\<open>EncoderVariant\<close>,
  \<open>DecoderVariant\<close>).

  Symbols are pairs of bytes in network order. The loops over a payload run while \<open>j + 1 < len\<close>, so
  the last byte of a payload of odd length takes no part in the code. As in the 8-bit decoder an ignored
  packet is dropped into the pool and the coefficient block of an accepted repair packet is released
  without returning to it.
\<close>

subsection \<open>Symbol loops\<close>

text \<open>\<open>while j + 1 < n { ...; j += 2 }\<close>\<close>

function loop2 :: "(nat \<Rightarrow> 's \<Rightarrow> 's option) \<Rightarrow> nat \<Rightarrow> nat \<Rightarrow> 's \<Rightarrow> 's option" where
  "loop2 upd j n s = (if j + 1 < n then do { s \<leftarrow> upd j s; loop2 upd (j + 2) n s } else Some s)"
  by pat_completeness auto
termination
  by (relation "measure (\<lambda>(upd, j, n, s). n - j)") auto

declare loop2.simps [simp del]

definition read16 :: "bytes \<Rightarrow> nat \<Rightarrow> u16 option" where
  "read16 b j = do { hi \<leftarrow> idx b j; lo \<leftarrow> idx b (j + 1); Some (u16_from_be_bytes hi lo) }"

definition write16 :: "bytes \<Rightarrow> nat \<Rightarrow> u16 \<Rightarrow> bytes option" where
  "write16 b j v = do { b \<leftarrow> set_idx b j (u16_to_be_bytes v ! 0); set_idx b (j + 1) (u16_to_be_bytes v ! 1) }"

subsection \<open>The encoder\<close>

record Encoder16 =
  enc16_k :: nat
  enc16_n :: nat
  source_window16 :: "Packet list"

definition Encoder16_new :: "nat \<Rightarrow> nat \<Rightarrow> Encoder16" where
  "Encoder16_new k n = \<lparr>enc16_k = k, enc16_n = n, source_window16 = []\<rparr>"

definition Encoder16_add_source_packet :: "nat \<Rightarrow> Packet \<Rightarrow> Encoder16 \<times> MemoryPool \<Rightarrow> Encoder16 \<times> MemoryPool" where
  "Encoder16_add_source_packet nd pk s =
     (case s of (e, p) \<Rightarrow>
        let (w, p) = (if length (source_window16 e) = enc16_k e
                      then (case source_window16 e of
                              [] \<Rightarrow> ([], p)
                            | old # w \<Rightarrow> (w, drop_packet nd old p))
                      else (source_window16 e, p))
        in (e\<lparr>source_window16 := w @ [pk]\<rparr>, p))"

definition generate_cauchy_coefficients16 :: "nat \<Rightarrow> nat \<Rightarrow> u16 list option" where
  "generate_cauchy_coefficients16 k repair_index =
     (let y = of_nat (k + repair_index) :: u16
      in omap (\<lambda>i. gf16_inv (of_nat i XOR y)) [0..<k])"

definition mul_add16 :: "u16 \<Rightarrow> bytes \<Rightarrow> nat \<Rightarrow> bytes \<Rightarrow> bytes option" where
  "mul_add16 coeff src n dst =
     loop2 (\<lambda>j dst. do {
         s \<leftarrow> read16 src j;
         r \<leftarrow> read16 dst j;
         write16 dst j (gf16_mul_add coeff s r) }) 0 n dst"

definition encode_window16 :: "u16 list \<Rightarrow> nat \<Rightarrow> Packet list \<Rightarrow> bytes \<Rightarrow> bytes option" where
  "encode_window16 coeffs packet_len ws repair_data =
     ofold (\<lambda>(i, src) rd. do {
         coeff \<leftarrow> idx coeffs i;
         if coeff = 0 then Some rd
         else do {
           d \<leftarrow> data src;
           source_data \<leftarrow> slice d 0 packet_len;
           mul_add16 coeff source_data packet_len rd } })
       (List.enumerate 0 ws) repair_data"

definition write_coeffs16 :: "u16 list \<Rightarrow> bytes \<Rightarrow> bytes option" where
  "write_coeffs16 coeffs b = ofold (\<lambda>(i, c) b. write16 b (2 * i) c) (List.enumerate 0 coeffs) b"

definition Encoder16_generate_repair_packet ::
  "nat \<Rightarrow> Encoder16 \<Rightarrow> nat \<Rightarrow> MemoryPool \<Rightarrow> (Packet option \<times> MemoryPool) option" where
  "Encoder16_generate_repair_packet nd e repair_packet_index p =
     (if length (source_window16 e) < enc16_k e then Some (None, p)
      else do {
        first \<leftarrow> idx (source_window16 e) 0;
        let packet_len = len first;
        (repair_data, p) \<leftarrow> alloc nd p;
        let repair_data = map (\<lambda>_. 0) repair_data;
        coeffs \<leftarrow> generate_cauchy_coefficients16 (enc16_k e) repair_packet_index;
        repair_data \<leftarrow> encode_window16 coeffs packet_len (source_window16 e) repair_data;
        (coeff_block, p) \<leftarrow> alloc nd p;
        coeff_block \<leftarrow> write_coeffs16 coeffs coeff_block;
        Some (Some \<lparr>pid = pid (last (source_window16 e)) + 1 + of_nat repair_packet_index,
                    data = Some repair_data, len = packet_len, is_systematic = False,
                    coefficients = Some coeff_block, coeff_len = length coeffs * 2\<rparr>, p) })"

subsection \<open>The decoder\<close>

record Decoder16 =
  dec16_k :: nat
  matrix16 :: "u16 list list"
  payloads16 :: "block option list"
  is_decoded16 :: bool

definition Decoder16_new :: "nat \<Rightarrow> Decoder16" where
  "Decoder16_new k = \<lparr>dec16_k = k, matrix16 = [], payloads16 = [], is_decoded16 = False\<rparr>"

text \<open>The pivot search: the first row from \<open>pivot\<close> on with a non-zero entry, or \<open>k\<close>.\<close>

function find_pivot16 :: "u16 list list \<Rightarrow> nat \<Rightarrow> nat \<Rightarrow> nat \<Rightarrow> nat option" where
  "find_pivot16 m k i pivot =
     (if pivot < k
      then do { row \<leftarrow> idx m pivot; v \<leftarrow> idx row i;
                if v = 0 then find_pivot16 m k i (pivot + 1) else Some pivot }
      else Some pivot)"
  by pat_completeness auto
termination
  by (relation "measure (\<lambda>(m, k, i, pivot). k - pivot)") auto

declare find_pivot16.simps [simp del]

definition scale_payload16 :: "u16 \<Rightarrow> block \<Rightarrow> block option" where
  "scale_payload16 pivot_inv b =
     loop2 (\<lambda>j b. do { v \<leftarrow> read16 b j; write16 b j (gf16_mul v pivot_inv) }) 0 (length b) b"

text \<open>The elimination of row \<open>r\<close> by the normalised row \<open>i\<close>.\<close>

definition eliminate_row16 ::
  "nat \<Rightarrow> nat \<Rightarrow> nat \<Rightarrow> u16 list list \<times> block option list \<Rightarrow> (u16 list list \<times> block option list) option" where
  "eliminate_row16 k i r s =
     (case s of (m, ps) \<Rightarrow>
        if r = i then Some (m, ps)
        else do {
          row \<leftarrow> idx m r;
          factor \<leftarrow> idx row i;
          if factor = 0 then Some (m, ps)
          else do {
            m \<leftarrow> ofold (\<lambda>c m. do {
                     pr \<leftarrow> idx m i; v \<leftarrow> idx pr c;
                     row \<leftarrow> idx m r; w \<leftarrow> idx row c;
                     set_idx m r (row[c := w XOR gf16_mul factor v]) }) [0..<k] m;
            src \<leftarrow> idx ps i;
            tgt \<leftarrow> idx ps r;
            case (src, tgt) of
              (Some s, Some t) \<Rightarrow> do {
                t \<leftarrow> mul_add16 factor s (length s) t;
                ps \<leftarrow> set_idx ps r (Some t);
                Some (m, ps) }
            | _ \<Rightarrow> Some (m, ps) } })"

text \<open>One round of the elimination; \<open>None\<close> inside is the early \<open>return false\<close>.\<close>

definition gauss_step16 ::
  "nat \<Rightarrow> nat \<Rightarrow> u16 list list \<times> block option list \<Rightarrow> (bool \<times> u16 list list \<times> block option list) option" where
  "gauss_step16 k i s =
     (case s of (m, ps) \<Rightarrow> do {
        pivot \<leftarrow> find_pivot16 m k i i;
        if pivot = k then Some (False, m, ps)
        else do {
          m \<leftarrow> vec_swap i pivot m;
          ps \<leftarrow> vec_swap i pivot ps;
          row \<leftarrow> idx m i;
          v \<leftarrow> idx row i;
          pivot_inv \<leftarrow> gf16_inv v;
          m \<leftarrow> set_idx m i (map (\<lambda>v. gf16_mul v pivot_inv) row);
          pay \<leftarrow> idx ps i;
          ps \<leftarrow> (case pay of None \<Rightarrow> Some ps
                 | Some b \<Rightarrow> do { b \<leftarrow> scale_payload16 pivot_inv b; set_idx ps i (Some b) });
          (m, ps) \<leftarrow> ofold (eliminate_row16 k i) [0..<k] (m, ps);
          Some (True, m, ps) } })"

primrec gauss_loop16 ::
  "nat \<Rightarrow> nat list \<Rightarrow> u16 list list \<times> block option list \<Rightarrow> (bool \<times> u16 list list \<times> block option list) option" where
  "gauss_loop16 k [] s = (case s of (m, ps) \<Rightarrow> Some (True, m, ps))"
| "gauss_loop16 k (i # is) s = do {
     (ok, m, ps) \<leftarrow> gauss_step16 k i s;
     if ok then gauss_loop16 k is (m, ps) else Some (False, m, ps) }"

definition Decoder16_try_decode :: "Decoder16 \<Rightarrow> (bool \<times> Decoder16) option" where
  "Decoder16_try_decode d =
     (if length (matrix16 d) < dec16_k d then Some (False, d)
      else do {
        (ok, m, ps) \<leftarrow> gauss_loop16 (dec16_k d) [0..<dec16_k d] (matrix16 d, payloads16 d);
        let d = d\<lparr>matrix16 := m, payloads16 := ps\<rparr>;
        if ok then Some (True, d\<lparr>is_decoded16 := True\<rparr>) else Some (False, d) })"

definition Decoder16_add_packet ::
  "nat \<Rightarrow> Packet \<Rightarrow> Decoder16 \<Rightarrow> MemoryPool \<Rightarrow> ((string + bool) \<times> Decoder16 \<times> MemoryPool) option" where
  "Decoder16_add_packet nd pk d p =
     (if is_decoded16 d \<or> length (matrix16 d) \<ge> dec16_k d
      then Some (Inr (is_decoded16 d), d, drop_packet nd pk p)
      else if is_systematic pk then do {
        row \<leftarrow> set_idx (replicate (dec16_k d) 0) (unat (pid pk) mod dec16_k d) 1;
        Some (Inr False,
              d\<lparr>matrix16 := matrix16 d @ [row], payloads16 := payloads16 d @ [None]\<rparr>,
              drop_packet nd pk p) }
      else case coefficients pk of
        Some c \<Rightarrow> do {
          row \<leftarrow> omap (\<lambda>i. read16 c (2 * i)) [0..<dec16_k d];
          (b, d) \<leftarrow> Decoder16_try_decode
             (d\<lparr>matrix16 := matrix16 d @ [row], payloads16 := payloads16 d @ [data pk]\<rparr>);
          Some (Inr b, d, p) }
      | None \<Rightarrow> Some (Inl ''missing coeffs'', d, drop_packet nd pk p))"

definition Decoder16_get_decoded_packets :: "Decoder16 \<Rightarrow> Packet list \<times> Decoder16" where
  "Decoder16_get_decoded_packets d =
     (List.map_filter (\<lambda>(i, pay). map_option (\<lambda>b. recovered i b (length b)) pay)
        (List.enumerate 0 (payloads16 d)),
      d\<lparr>payloads16 := map (\<lambda>_. None) (payloads16 d)\<rparr>)"

subsection \<open>The sums of the two codecs\<close>

text \<open>The operating modes (\<open>FecMode\<close> of \<open>src/src/fec/adaptive.rs\<close>); the extreme mode selects the
  16-bit codec.\<close>

datatype FecMode = Zero | Light | Normal | Medium | Strong | Extreme

datatype EncoderVariant = EncG8 Encoder | EncG16 Encoder16

datatype DecoderVariant = DecG8 Decoder | DecG16 Decoder16

definition EncoderVariant_new :: "FecMode \<Rightarrow> nat \<Rightarrow> nat \<Rightarrow> EncoderVariant" where
  "EncoderVariant_new mode k n =
     (if mode = Extreme then EncG16 (Encoder16_new k n) else EncG8 (Encoder_new k n))"

fun EncoderVariant_add_source_packet ::
  "nat \<Rightarrow> Packet \<Rightarrow> EncoderVariant \<times> MemoryPool \<Rightarrow> EncoderVariant \<times> MemoryPool" where
  "EncoderVariant_add_source_packet nd pk (EncG8 e, p) = apfst EncG8 (Encoder_add_source_packet nd pk (e, p))"
| "EncoderVariant_add_source_packet nd pk (EncG16 e, p) = apfst EncG16 (Encoder16_add_source_packet nd pk (e, p))"

fun EncoderVariant_generate_repair_packet ::
  "gf_env \<Rightarrow> nat \<Rightarrow> EncoderVariant \<Rightarrow> nat \<Rightarrow> MemoryPool \<Rightarrow> (Packet option \<times> MemoryPool) option" where
  "EncoderVariant_generate_repair_packet g nd (EncG8 e) i p = Encoder_generate_repair_packet g nd e i p"
| "EncoderVariant_generate_repair_packet g nd (EncG16 e) i p = Encoder16_generate_repair_packet nd e i p"

definition DecoderVariant_new :: "FecMode \<Rightarrow> nat \<Rightarrow> DecoderVariant" where
  "DecoderVariant_new mode k =
     (if mode = Extreme then DecG16 (Decoder16_new k) else DecG8 (Decoder_new k))"

fun DecoderVariant_add_packet ::
  "gf_env \<Rightarrow> nat \<Rightarrow> Packet \<Rightarrow> DecoderVariant \<Rightarrow> MemoryPool \<Rightarrow>
   ((string + bool) \<times> DecoderVariant \<times> MemoryPool) option" where
  "DecoderVariant_add_packet g nd pk (DecG8 d) p =
     map_option (\<lambda>(r, d, p). (r, DecG8 d, p)) (Decoder_add_packet g nd pk d p)"
| "DecoderVariant_add_packet g nd pk (DecG16 d) p =
     map_option (\<lambda>(r, d, p). (r, DecG16 d, p)) (Decoder16_add_packet nd pk d p)"

fun DecoderVariant_get_decoded_packets :: "DecoderVariant \<Rightarrow> Packet list \<times> DecoderVariant" where
  "DecoderVariant_get_decoded_packets (DecG8 d) = apsnd DecG8 (Decoder_get_decoded_packets d)"
| "DecoderVariant_get_decoded_packets (DecG16 d) = apsnd DecG16 (Decoder16_get_decoded_packets d)"

fun DecoderVariant_is_decoded :: "DecoderVariant \<Rightarrow> bool" where
  "DecoderVariant_is_decoded (DecG8 d) = is_decoded d"
| "DecoderVariant_is_decoded (DecG16 d) = is_decoded16 d"

subsection \<open>The window\<close>

interpretation enc16_window: sliding_window "Encoder16_add_source_packet nd" "\<lambda>s. source_window16 (fst s)"
  "\<lambda>s. enc16_k (fst s)" for nd
  by unfold_locales
     (auto simp: Encoder16_add_source_packet_def Let_def split: prod.splits list.splits if_splits)

text \<open>The sum of the two encoders is again a bounded window.\<close>

fun variant_window :: "EncoderVariant \<Rightarrow> Packet list" where
  "variant_window (EncG8 e) = source_window e"
| "variant_window (EncG16 e) = source_window16 e"

fun variant_k :: "EncoderVariant \<Rightarrow> nat" where
  "variant_k (EncG8 e) = enc_k e"
| "variant_k (EncG16 e) = enc16_k e"

interpretation variant_window: sliding_window "EncoderVariant_add_source_packet nd" "\<lambda>s. variant_window (fst s)"
  "\<lambda>s. variant_k (fst s)" for nd
proof
  fix x :: Packet and w :: "EncoderVariant \<times> MemoryPool"
  obtain v p where w: "w = (v, p)" by (cases w)
  show "variant_window (fst (EncoderVariant_add_source_packet nd x w)) =
        (if length (variant_window (fst w)) = variant_k (fst w) then tl (variant_window (fst w))
         else variant_window (fst w)) @ [x]"
    using enc_window.contents_add[of nd x "(_, p)"] enc16_window.contents_add[of nd x "(_, p)"]
    by (cases v) (simp_all add: w)
  show "variant_k (fst (EncoderVariant_add_source_packet nd x w)) = variant_k (fst w)"
    using enc_window.cap_add[of nd x "(_, p)"] enc16_window.cap_add[of nd x "(_, p)"]
    by (cases v) (simp_all add: w)
qed

subsection \<open>Coefficients\<close>

lemma R16_inv: "x \<noteq> 0 \<Longrightarrow> gf16_inv x = Some y \<Longrightarrow> R16 y = (if bit x 0 then R16 x ^ 14 else 0)"
proof -
  assume "x \<noteq> 0" "gf16_inv x = Some y"
  then have "R16 y = R16 x ^ 65534" by (auto simp: gf16_inv_def R16_pow)
  also have "\<dots> = (R16 x ^ 16) ^ 4095 * R16 x ^ 14" by (simp flip: power_mult power_add)
  finally show ?thesis by (simp add: pow16_odd)
qed

lemma gf16_inv_eq_0_iff: "gf16_inv x = Some y \<Longrightarrow> y = 0 \<longleftrightarrow> \<not> bit x 0"
proof -
  assume y: "gf16_inv x = Some y"
  then have "x \<noteq> 0" by (auto simp: gf16_inv_def)
  note r = R16_inv[OF this y]
  have "R16 x ^ 14 \<noteq> 0" if "bit x 0"
  proof
    assume "R16 x ^ 14 = 0"
    then have "R16 x ^ 14 * R16 x ^ 2 = 0" by simp
    then show False using that pow16_odd[of x] by (simp add: zero_neq_one flip: power_add)
  qed
  then show ?thesis using r by (auto simp: zero_ring16_def split: if_splits)
qed

lemma of_nat_u16_inj: "m < 65536 \<Longrightarrow> n < 65536 \<Longrightarrow> (of_nat m :: u16) = of_nat n \<longleftrightarrow> m = n"
  by (simp add: word_unat_eq_iff unsigned_of_nat take_bit_nat_eq_self)

lemma bit_0_of_nat_u16: "bit (of_nat n :: u16) 0 \<longleftrightarrow> odd n"
  by (simp add: bit_0)

lemma cauchy16_exists:
  assumes "k + r < 65536"
  shows "\<exists>cs. generate_cauchy_coefficients16 k r = Some cs \<and> length cs = k \<and>
           (\<forall>i < k. gf16_inv (of_nat i XOR of_nat (k + r)) = Some (cs ! i))"
proof -
  define f where "f i = gf16_inv (of_nat i XOR of_nat (k + r))" for i :: nat
  have "f i \<noteq> None" if "i < k" for i
    using that assms by (auto simp: f_def gf16_inv_def word_xor_eq_0_iff of_nat_u16_inj simp del: of_nat_add)
  then have "omap f [0..<k] = Some (map (\<lambda>i. the (f i)) [0..<k])"
    by (intro omap_Some) auto
  moreover have "generate_cauchy_coefficients16 k r = omap f [0..<k]"
    by (simp add: generate_cauchy_coefficients16_def f_def[abs_def] del: of_nat_add)
  ultimately have "generate_cauchy_coefficients16 k r = Some (map (\<lambda>i. the (f i)) [0..<k])" by simp
  then show ?thesis
    unfolding f_def[symmetric] using \<open>\<And>i. i < k \<Longrightarrow> f i \<noteq> None\<close>
    by (intro exI[of _ "map (\<lambda>i. the (f i)) [0..<k]"]) auto
qed

subsection \<open>Repair data\<close>

lemma loop2_eq_ofold: "loop2 upd j n s = ofold upd (map (\<lambda>i. j + 2 * i) [0..<(n - j) div 2]) s"
proof (induction upd j n s rule: loop2.induct)
  case (1 upd j n s)
  show ?case
  proof (cases "j + 1 < n")
    case True
    then have "(n - j) div 2 = Suc ((n - (j + 2)) div 2)" by simp
    then have "map (\<lambda>i. j + 2 * i) [0..<(n - j) div 2] = j # map (\<lambda>i. (j + 2) + 2 * i) [0..<(n - (j + 2)) div 2]"
      by (simp add: upt_conv_Cons o_def del: upt_Suc flip: map_Suc_upt)
    moreover have "Option.bind (upd j s) (loop2 upd (j + 2) n) =
        Option.bind (upd j s) (ofold upd (map (\<lambda>i. (j + 2) + 2 * i) [0..<(n - (j + 2)) div 2]))"
      using 1[OF True] by (cases "upd j s") (simp_all only: Option.bind.simps)
    ultimately show ?thesis
      using True by (subst loop2.simps) (simp only: if_True ofold.simps)
  next
    case False
    then have "(n - j) div 2 = 0" by simp
    with False show ?thesis by (subst loop2.simps) simp
  qed
qed

definition word16 :: "bytes \<Rightarrow> nat \<Rightarrow> u16" where
  "word16 b i = u16_from_be_bytes (b ! (2 * i)) (b ! (2 * i + 1))"

lemma read16_word16: "2 * i + 1 < length b \<Longrightarrow> read16 b (2 * i) = Some (word16 b i)"
  by (simp add: read16_def word16_def exec_simps)

lemma write16_spec:
  assumes "2 * i + 1 < length b"
  shows "\<exists>b'. write16 b (2 * i) v = Some b' \<and> length b' = length b \<and> word16 b' i = v \<and>
     (\<forall>l. l \<noteq> i \<longrightarrow> word16 b' l = word16 b l) \<and> (\<forall>j. j div 2 \<noteq> i \<longrightarrow> b' ! j = b ! j)"
proof -
  have "2 * l \<noteq> 2 * i + 1" "2 * l + 1 \<noteq> 2 * i" "Suc (2 * l) \<noteq> 2 * i" for l by presburger+
  with assms show ?thesis
    by (auto simp: write16_def word16_def exec_simps nth_list_update)
qed

lemma mul_add16_spec:
  assumes "n \<le> length s" "n \<le> length d"
  shows "\<exists>d'. mul_add16 c s n d = Some d' \<and> length d' = length d \<and>
     (\<forall>i < n div 2. word16 d' i = gf16_mul_add c (word16 s i) (word16 d i)) \<and>
     (\<forall>j. n div 2 \<le> j div 2 \<longrightarrow> d' ! j = d ! j)"
proof -
  let ?xs = "map (\<lambda>i. 0 + 2 * i) [0..<(n - 0) div 2]"
  let ?P = "\<lambda>m d'. length d' = length d \<and>
     (\<forall>i < n div 2. word16 d' i = (if i < m then gf16_mul_add c (word16 s i) (word16 d i) else word16 d i)) \<and>
     (\<forall>j. n div 2 \<le> j div 2 \<longrightarrow> d' ! j = d ! j)"
  have "\<exists>d'. mul_add16 c s n d = Some d' \<and> ?P (length ?xs) d'"
    unfolding mul_add16_def loop2_eq_ofold
  proof (rule ofold_invariant[where P = ?P])
    show "?P 0 d" by simp
  next
    fix i d'
    assume "i < length ?xs" and P: "?P i d'"
    then have i: "i < n div 2" "?xs ! i = 2 * i" "2 * i + 1 < n" by auto
    then have l: "2 * i + 1 < length s" "2 * i + 1 < length d'" using assms P by auto
    have w: "word16 d' i = word16 d i" using P i(1) by auto
    obtain d2 where d2: "write16 d' (2 * i) (gf16_mul_add c (word16 s i) (word16 d' i)) = Some d2"
      "length d2 = length d'" "word16 d2 i = gf16_mul_add c (word16 s i) (word16 d' i)"
      "\<forall>l. l \<noteq> i \<longrightarrow> word16 d2 l = word16 d' l" "\<forall>j. j div 2 \<noteq> i \<longrightarrow> d2 ! j = d' ! j"
      using write16_spec[OF l(2)] by blast
    have "?P (Suc i) d2"
      using P d2(2-5) i(1) w by (auto simp: less_Suc_eq)
    then show "\<exists>d''. (do { s \<leftarrow> read16 s (?xs ! i); r \<leftarrow> read16 d' (?xs ! i);
         write16 d' (?xs ! i) (gf16_mul_add c s r) }) = Some d'' \<and> ?P (Suc i) d''"
      unfolding i(2) using d2(1) l by (intro exI[of _ d2]) (simp only: read16_word16 Option.bind.simps simp_thms, blast)
  qed
  then show ?thesis by auto
qed

definition source16_ok :: "nat \<Rightarrow> nat \<Rightarrow> Packet \<Rightarrow> bool" where
  "source16_ok bs packet_len pk \<longleftrightarrow>
     (case data pk of None \<Rightarrow> False | Some d \<Rightarrow> length d = bs \<and> packet_len \<le> bs)"

definition src_word :: "Packet list \<Rightarrow> nat \<Rightarrow> nat \<Rightarrow> ring16" where
  "src_word ws i j = (case data (ws ! i) of None \<Rightarrow> 0 | Some d \<Rightarrow> R16 (word16 d j))"

lemma word16_take: "2 * i + 1 < n \<Longrightarrow> word16 (take n d) i = word16 d i"
  by (simp add: word16_def)

lemma R16_mul_add: "R16 (gf16_mul_add a b c) = R16 a * R16 b + R16 c"
  by (simp add: gf16_mul_add_def plus_ring16_def times_ring16_def)

lemma encode_window16_spec:
  assumes len: "length coeffs = length ws" and src: "list_all (source16_ok bs packet_len) ws"
    and pl: "packet_len \<le> bs"
  shows "\<exists>rd. encode_window16 coeffs packet_len ws (replicate bs 0) = Some rd \<and> length rd = bs \<and>
    (\<forall>j < packet_len div 2. R16 (word16 rd j) = (\<Sum>i<length ws. R16 (coeffs ! i) * src_word ws i j)) \<and>
    (\<forall>j < bs. packet_len div 2 \<le> j div 2 \<longrightarrow> rd ! j = 0)"
proof -
  let ?P = "\<lambda>n rd. length rd = bs \<and>
    (\<forall>j < packet_len div 2. R16 (word16 rd j) = (\<Sum>i<n. R16 (coeffs ! i) * src_word ws i j)) \<and>
    (\<forall>j < bs. packet_len div 2 \<le> j div 2 \<longrightarrow> rd ! j = 0)"
  have "\<exists>rd. encode_window16 coeffs packet_len ws (replicate bs 0) = Some rd \<and> ?P (length (List.enumerate 0 ws)) rd"
    unfolding encode_window16_def
  proof (rule ofold_invariant[where P = ?P])
    show "?P 0 (replicate bs 0)"
      using pl by (simp add: word16_def zero_ring16_def u16_from_be_bytes_def)
  next
    fix i rd
    assume i: "i < length (List.enumerate 0 ws)" and P: "?P i rd"
    then have e: "List.enumerate 0 ws ! i = (i, ws ! i)" "i < length ws" by (simp_all add: nth_enumerate_eq)
    obtain d where d: "data (ws ! i) = Some d" "length d = bs"
      using src e(2) by (auto simp: list_all_length source16_ok_def split: option.splits)
    obtain rd2 where rd2: "mul_add16 (coeffs ! i) (take packet_len d) packet_len rd = Some rd2" "length rd2 = length rd"
      "\<forall>j < packet_len div 2. word16 rd2 j = gf16_mul_add (coeffs ! i) (word16 (take packet_len d) j) (word16 rd j)"
      "\<forall>j. packet_len div 2 \<le> j div 2 \<longrightarrow> rd2 ! j = rd ! j"
      using mul_add16_spec[of packet_len "take packet_len d" rd "coeffs ! i"] d(2) pl P by auto
    have w: "R16 (word16 rd2 j) = R16 (coeffs ! i) * src_word ws i j + R16 (word16 rd j)"
      if "j < packet_len div 2" for j
      using that rd2(3) by (simp add: R16_mul_add word16_take src_word_def d(1))
    show "\<exists>rd'. (case List.enumerate 0 ws ! i of (i, src) \<Rightarrow> \<lambda>rd. do {
         coeff \<leftarrow> idx coeffs i;
         if coeff = 0 then Some rd
         else do {
           d \<leftarrow> data src;
           source_data \<leftarrow> slice d 0 packet_len;
           mul_add16 coeff source_data packet_len rd } }) rd = Some rd' \<and> ?P (Suc i) rd'"
    proof (cases "coeffs ! i = 0")
      case True
      with e len P show ?thesis by (simp add: exec_simps flip: zero_ring16_def)
    next
      case False
      have "?P (Suc i) rd2" using P rd2(2,4) w by (simp add: add.commute)
      with False e len d pl rd2(1) show ?thesis by (simp add: exec_simps)
    qed
  qed
  then show ?thesis by (simp only: length_enumerate)
qed

lemma write_coeffs16_spec:
  assumes "2 * length cs \<le> length b"
  shows "\<exists>b'. write_coeffs16 cs b = Some b' \<and> length b' = length b \<and> (\<forall>i < length cs. word16 b' i = cs ! i)"
proof -
  let ?P = "\<lambda>n b'. length b' = length b \<and> (\<forall>i < n. word16 b' i = cs ! i)"
  have "\<exists>b'. write_coeffs16 cs b = Some b' \<and> ?P (length (List.enumerate 0 cs)) b'"
    unfolding write_coeffs16_def
  proof (rule ofold_invariant[where P = ?P])
    fix i b'
    assume i: "i < length (List.enumerate 0 cs)" and P: "?P i b'"
    then have e: "List.enumerate 0 cs ! i = (i, cs ! i)" "2 * i + 1 < length b'"
      using assms by (simp_all add: nth_enumerate_eq)
    from write16_spec[OF e(2), of "cs ! i"] P
    show "\<exists>b''. (case List.enumerate 0 cs ! i of (i, c) \<Rightarrow> \<lambda>b. write16 b (2 * i) c) b' = Some b'' \<and> ?P (Suc i) b''"
      by (auto simp: e(1) less_Suc_eq)
  qed simp
  then show ?thesis by simp
qed

definition window16_ok :: "nat \<Rightarrow> Packet list \<Rightarrow> bool" where
  "window16_ok bs ws \<longleftrightarrow> ws \<noteq> [] \<and> list_all (source16_ok bs (len (hd ws))) ws"

lemma generate_repair_packet16_spec:
  assumes p: "pool_ok p" "block_size p = bs"
    and w: "window16_ok bs ws" "length ws = k" "2 * k \<le> bs"
    and cs: "generate_cauchy_coefficients16 k r = Some cs" "length cs = k"
  shows "\<exists>rd cb p'. Encoder16_generate_repair_packet nd \<lparr>enc16_k = k, enc16_n = n, source_window16 = ws\<rparr> r p =
      Some (Some \<lparr>pid = pid (last ws) + 1 + of_nat r, data = Some rd, len = len (hd ws), is_systematic = False,
         coefficients = Some cb, coeff_len = 2 * k\<rparr>, p') \<and> pool_ok p' \<and> length rd = bs \<and> length cb = bs \<and>
      (\<forall>i < k. word16 cb i = cs ! i) \<and>
      (\<forall>j < len (hd ws) div 2. R16 (word16 rd j) = (\<Sum>i<k. R16 (cs ! i) * src_word ws i j)) \<and>
      (\<forall>j < bs. len (hd ws) div 2 \<le> j div 2 \<longrightarrow> rd ! j = 0)"
proof -
  have w1: "ws \<noteq> []" "list_all (source16_ok bs (len (hd ws))) ws" using w(1) by (simp_all add: window16_ok_def)
  then have pl: "len (hd ws) \<le> bs" by (cases ws) (auto simp: source16_ok_def split: option.splits)
  obtain p1 where p1: "alloc nd p = Some (replicate bs 0, p1)" "pool_ok p1" "block_size p1 = bs"
    using pool.al_ok[OF p(1), of nd] p(2) by auto
  obtain p2 where p2: "alloc nd p1 = Some (replicate bs 0, p2)" "pool_ok p2"
    using pool.al_ok[OF p1(2), of nd] p1(3) by auto
  obtain rd where rd: "encode_window16 cs (len (hd ws)) ws (replicate bs 0) = Some rd" "length rd = bs"
    "\<forall>j < len (hd ws) div 2. R16 (word16 rd j) = (\<Sum>i<k. R16 (cs ! i) * src_word ws i j)"
    "\<forall>j < bs. len (hd ws) div 2 \<le> j div 2 \<longrightarrow> rd ! j = 0"
    using encode_window16_spec[OF _ w1(2) pl, of cs] cs(2) w(2) by auto
  obtain cb where cb: "write_coeffs16 cs (replicate bs 0) = Some cb" "length cb = bs" "\<forall>i < k. word16 cb i = cs ! i"
    using write_coeffs16_spec[of cs "replicate bs 0"] cs(2) w(3) by auto
  have "Encoder16_generate_repair_packet nd \<lparr>enc16_k = k, enc16_n = n, source_window16 = ws\<rparr> r p =
      Some (Some \<lparr>pid = pid (last ws) + 1 + of_nat r, data = Some rd, len = len (hd ws), is_systematic = False,
         coefficients = Some cb, coeff_len = 2 * k\<rparr>, p2)"
    using w1(1) w1(1)[folded length_greater_0_conv] w(2) p1(1) p2(1) rd(1) cb(1) cs
    by (simp add: Encoder16_generate_repair_packet_def idx_def Let_def mult.commute map_replicate_const
        hd_conv_nth[OF w1(1), symmetric])
  with p2(2) rd(2-4) cb(2,3) show ?thesis by blast
qed

subsection \<open>Decoder runs\<close>

definition add_packets16 :: "nat \<Rightarrow> Packet list \<Rightarrow> Decoder16 \<times> MemoryPool \<Rightarrow> (Decoder16 \<times> MemoryPool) option" where
  "add_packets16 nd pks s =
     ofold (\<lambda>pk (d, p). do { (r, d, p) \<leftarrow> Decoder16_add_packet nd pk d p; Some (d, p) }) pks s"

lemma add_packets16_full:
  assumes "dec16_k d \<le> length (matrix16 d)"
  shows "\<exists>p'. add_packets16 nd pks (d, p) = Some (d, p')"
  using assms
  by (induction pks arbitrary: p) (simp_all add: add_packets16_def Decoder16_add_packet_def)

lemma add_packets16_systematic:
  assumes "list_all is_systematic pks" "length (matrix16 d) + length pks \<le> dec16_k d" "\<not> is_decoded16 d"
  shows "\<exists>d' p'. add_packets16 nd pks (d, p) = Some (d', p') \<and> \<not> is_decoded16 d' \<and> dec16_k d' = dec16_k d \<and>
     length (matrix16 d') = length (matrix16 d) + length pks \<and>
     payloads16 d' = payloads16 d @ replicate (length pks) None"
  using assms
proof (induction pks arbitrary: d p)
  case Nil
  then show ?case by (simp add: add_packets16_def)
next
  case (Cons pk pks)
  let ?row = "(replicate (dec16_k d) 0)[unat (pid pk) mod dec16_k d := 1]"
  let ?d = "d\<lparr>matrix16 := matrix16 d @ [?row], payloads16 := payloads16 d @ [None]\<rparr>"
  have "0 < dec16_k d" using Cons.prems(2) by simp
  then have step: "Decoder16_add_packet nd pk d p = Some (Inr False, ?d, drop_packet nd pk p)"
    using Cons.prems by (simp add: Decoder16_add_packet_def exec_simps)
  from Cons.IH[of ?d "drop_packet nd pk p"] Cons.prems step
  show ?case by (simp add: add_packets16_def)
qed

subsection \<open>Properties\<close>

text \<open>The coefficients of the extreme mode. Because the 16-bit arithmetic is not a field, the
  coefficient of packet \<open>i\<close> in repair packet \<open>r\<close> is zero exactly when \<open>i\<close> and \<open>k + r\<close> have the same
  parity: every repair packet covers only half of the window, although the row exists for
  \<open>k + r < 65536\<close>.\<close>

lemma repair16_covers_half:
  assumes "k + r < 65536"
  shows "\<exists>cs. generate_cauchy_coefficients16 k r = Some cs \<and> length cs = k \<and>
           (\<forall>i < k. cs ! i = 0 \<longleftrightarrow> even (i + k + r))"
proof -
  obtain cs where cs: "generate_cauchy_coefficients16 k r = Some cs" "length cs = k"
    "\<forall>i < k. gf16_inv (of_nat i XOR of_nat (k + r)) = Some (cs ! i)"
    using cauchy16_exists[OF assms] by blast
  have "cs ! i = 0 \<longleftrightarrow> even (i + k + r)" if "i < k" for i
    using gf16_inv_eq_0_iff[of "of_nat i XOR of_nat (k + r)" "cs ! i"] cs(3) that
    by (auto simp: bit_xor_iff bit_0_of_nat_u16 simp del: of_nat_add)
  with cs show ?thesis by blast
qed

text \<open>C32: the repair packet of the extreme mode over a full window of pooled blocks: it exists, its
  coefficient block holds the row as big-endian words, every 16-bit word of its data up to the length of
  the first packet is the combination of the window's words, and all bytes after the last full word are
  zero: of packets of odd length the last byte is not protected.\<close>

theorem repair16_packet_combination:
  assumes "pool_ok p" "window16_ok (block_size p) (source_window16 e)"
    "length (source_window16 e) = enc16_k e" "enc16_k e + r < 65536" "2 * enc16_k e \<le> block_size p"
  shows "\<exists>pk p' rd cb cs. Encoder16_generate_repair_packet nd e r p = Some (Some pk, p') \<and> pool_ok p' \<and>
           generate_cauchy_coefficients16 (enc16_k e) r = Some cs \<and> coefficients pk = Some cb \<and>
           coeff_len pk = 2 * enc16_k e \<and> (\<forall>i < enc16_k e. word16 cb i = cs ! i) \<and>
           data pk = Some rd \<and> len pk = len (hd (source_window16 e)) \<and> length rd = block_size p \<and>
           (\<forall>j < len pk div 2. R16 (word16 rd j) =
              (\<Sum>i<enc16_k e. R16 (cs ! i) * src_word (source_window16 e) i j)) \<and>
           (\<forall>j < block_size p. len pk div 2 \<le> j div 2 \<longrightarrow> rd ! j = 0)"
proof -
  obtain k n ws where e: "e = \<lparr>enc16_k = k, enc16_n = n, source_window16 = ws\<rparr>" by (cases e)
  obtain cs where cs: "generate_cauchy_coefficients16 k r = Some cs" "length cs = k"
    using cauchy16_exists[of k r] assms(4) e by auto
  from generate_repair_packet16_spec[OF assms(1) refl _ _ _ cs, of ws nd n] assms(2-5) cs
  show ?thesis by (fastforce simp: e)
qed

theorem repair16_packet_combination_witness:
  "\<exists>pk p' rd. Encoder16_generate_repair_packet 0
      \<lparr>enc16_k = 1, enc16_n = 2, source_window16 = [sample_source 7 [1, 2, 3, 0, 0, 0, 0, 0] 3]\<rparr> 0 (pool_new 1 4 8) = Some (Some pk, p') \<and>
      data pk = Some rd \<and> rd ! 2 = 0"
proof -
  let ?e = "\<lparr>enc16_k = 1, enc16_n = 2, source_window16 = [sample_source 7 [1, 2, 3, 0, 0, 0, 0, 0] 3]\<rparr>"
  have "pool_ok (pool_new 1 4 8)" by (simp add: pool_ok_new)
  moreover have "block_size (pool_new 1 4 8) = 8" by (simp add: pool_new_def)
  ultimately show ?thesis
    using repair16_packet_combination[of "pool_new 1 4 8" ?e 0 0]
    by (fastforce simp: window16_ok_def source16_ok_def sample_source_def)
qed

text \<open>Source packets alone never complete the 16-bit decoder: after the \<open>k\<close> source packets of a window, whatever
  packets follow, it is not decoded and hands out nothing. (The 8-bit decoder completes and returns
  them.)\<close>

lemma decoder16_source_only_stuck:
  assumes "list_all is_systematic pks" "length pks = k"
  shows "\<exists>d p'. add_packets16 nd (pks @ later) (Decoder16_new k, p) = Some (d, p') \<and> \<not> is_decoded16 d \<and>
           fst (Decoder16_get_decoded_packets d) = []"
proof -
  obtain d p1 where d: "add_packets16 nd pks (Decoder16_new k, p) = Some (d, p1)" "\<not> is_decoded16 d"
    "dec16_k d = k" "length (matrix16 d) = k" "payloads16 d = replicate k None"
    using add_packets16_systematic[OF assms(1), of "Decoder16_new k" nd p] assms(2)
    by (auto simp: Decoder16_new_def)
  obtain p2 where "add_packets16 nd later (d, p1) = Some (d, p2)"
    using add_packets16_full[of d nd later p1] d by auto
  moreover have "fst (Decoder16_get_decoded_packets d) = []"
    using d(5) by (auto simp: Decoder16_get_decoded_packets_def List.map_filter_def in_set_enumerate_eq
        filter_empty_conv)
  ultimately show ?thesis
    using d by (auto simp: add_packets16_def ofold_append)
qed

end
