(* ===== verification/Mode_Manager.thy ===== *)
theory Mode_Manager
  imports F32 Fec16
begin

text \<open>
  The configuration of the adaptive FEC and the choice of the operating mode (\<open>FecMode\<close>, \<open>FecConfig\<close>,
  \<open>PidController\<close> and \<open>ModeManager\<close> of \<open>src/src/fec/adaptive.rs\<close>).

  An \<open>Instant\<close> is a number of nanoseconds; the readings of the clock that an operation makes are its
  arguments. Hash maps are partial functions. The TOML parser is a parameter of \<open>from_toml\<close>; strings are
  ASCII. \<open>ModeManager\<close> indexes its table of thresholds, which panics for a missing key.
\<close>

subsection \<open>Modes\<close>

definition FecMode_from_str :: "string \<Rightarrow> FecMode option" where
  "FecMode_from_str s =
     (let t = map ascii_lower s
      in if t = ''0'' \<or> t = ''zero'' then Some Zero
         else if t = ''1'' \<or> t = ''light'' \<or> t = ''leicht'' then Some Light
         else if t = ''2'' \<or> t = ''normal'' then Some Normal
         else if t = ''3'' \<or> t = ''medium'' \<or> t = ''mittel'' then Some Medium
         else if t = ''4'' \<or> t = ''strong'' \<or> t = ''stark'' then Some Strong
         else if t = ''5'' \<or> t = ''extreme'' then Some Extreme
         else None)"

fun window_range :: "FecMode \<Rightarrow> nat \<times> nat" where
  "window_range Zero = (0, 0)"
| "window_range Light = (8, 32)"
| "window_range Normal = (32, 128)"
| "window_range Medium = (64, 256)"
| "window_range Strong = (256, 1024)"
| "window_range Extreme = (1024, 4096)"

fun overhead_ratio :: "FecMode \<Rightarrow> real" where
  "overhead_ratio Zero = f32 1"
| "overhead_ratio Light = f32 (105 / 100)"
| "overhead_ratio Normal = f32 (115 / 100)"
| "overhead_ratio Medium = f32 (130 / 100)"
| "overhead_ratio Strong = f32 (150 / 100)"
| "overhead_ratio Extreme = f32 2"

definition params_for :: "FecMode \<Rightarrow> nat \<Rightarrow> nat \<times> nat" where
  "params_for mode window = (window, f32_as_usize (of_int \<lceil>f32 (usize_as_f32 window * overhead_ratio mode)\<rceil>))"

fun next_mode :: "FecMode \<Rightarrow> FecMode" where
  "next_mode Zero = Light"
| "next_mode Light = Normal"
| "next_mode Normal = Medium"
| "next_mode Medium = Strong"
| "next_mode Strong = Extreme"
| "next_mode Extreme = Extreme"

fun prev_mode :: "FecMode \<Rightarrow> FecMode" where
  "prev_mode Extreme = Strong"
| "prev_mode Strong = Medium"
| "prev_mode Medium = Normal"
| "prev_mode Normal = Light"
| "prev_mode Light = Zero"
| "prev_mode Zero = Zero"

subsection \<open>The PID controller\<close>

record PidConfig =
  kp :: real
  ki :: real
  kd :: real

record PidController =
  pid_config :: PidConfig
  integral :: real
  previous_error :: real
  last_time :: nat

definition PidController_new :: "PidConfig \<Rightarrow> nat \<Rightarrow> PidController" where
  "PidController_new c now = \<lparr>pid_config = c, integral = 0, previous_error = 0, last_time = now\<rparr>"

text \<open>\<open>Duration::as_secs_f32\<close> on a duration in nanoseconds.\<close>

definition as_secs_f32 :: "nat \<Rightarrow> real" where
  "as_secs_f32 d = f32 (usize_as_f32 (d div 10 ^ 9) + f32 (usize_as_f32 (d mod 10 ^ 9) / usize_as_f32 (10 ^ 9)))"

definition PidController_update :: "nat \<Rightarrow> real \<Rightarrow> real \<Rightarrow> PidController \<Rightarrow> real \<times> PidController" where
  "PidController_update now current_value setpoint c =
     (let dt = as_secs_f32 (now - last_time c);
          c = c\<lparr>last_time := now\<rparr>
      in if dt \<le> 0 then (0, c)
         else let error = f32 (setpoint - current_value);
                  i = f32 (integral c + f32 (error * dt));
                  derivative = f32 (f32 (error - previous_error c) / dt);
                  g = pid_config c
              in (f32 (f32 (f32 (kp g * error) + f32 (ki g * i)) + f32 (kd g * derivative)),
                  c\<lparr>integral := i, previous_error := error\<rparr>))"

subsection \<open>Configuration\<close>

record FecConfig =
  cfg_lambda :: real
  cfg_burst_window :: nat
  cfg_hysteresis :: real
  cfg_pid :: PidConfig
  initial_mode :: FecMode
  kalman_enabled :: bool
  kalman_q :: real
  kalman_r :: real
  cfg_window_sizes :: "FecMode \<rightharpoonup> nat"

definition default_windows :: "FecMode \<rightharpoonup> nat" where
  "default_windows = [Zero \<mapsto> 0, Light \<mapsto> 16, Normal \<mapsto> 64, Medium \<mapsto> 128, Strong \<mapsto> 512, Extreme \<mapsto> 1024]"

text \<open>The table \<open>adaptive_fec\<close> of the file as the parser returns it.\<close>

record ModeSection =
  ms_name :: string
  ms_w0 :: nat

record Adaptive =
  a_lambda :: "real option"
  a_burst_window :: "nat option"
  a_hysteresis :: "real option"
  a_pid :: "PidConfig option"
  a_kalman_enabled :: "bool option"
  a_kalman_q :: "real option"
  a_kalman_r :: "real option"
  a_modes :: "ModeSection list option"

definition default_pid :: PidConfig where
  "default_pid = \<lparr>kp = f32 (12 / 10), ki = f32 (5 / 10), kd = f32 (1 / 10)\<rparr>"

definition apply_mode_section :: "ModeSection \<Rightarrow> (FecMode \<rightharpoonup> nat) \<Rightarrow> (FecMode \<rightharpoonup> nat)" where
  "apply_mode_section ms windows =
     (case FecMode_from_str (ms_name ms) of None \<Rightarrow> windows | Some mode \<Rightarrow> windows(mode \<mapsto> ms_w0 ms))"

definition FecConfig_from_toml :: "(string \<Rightarrow> 'e + Adaptive) \<Rightarrow> string \<Rightarrow> 'e + FecConfig" where
  "FecConfig_from_toml parse s =
     (case parse s of
        Inl e \<Rightarrow> Inl e
      | Inr af \<Rightarrow>
          Inr \<lparr>cfg_lambda = unwrap_or (a_lambda af) (f32 (1 / 10)),
               cfg_burst_window = unwrap_or (a_burst_window af) 20,
               cfg_hysteresis = unwrap_or (a_hysteresis af) (f32 (2 / 100)),
               cfg_pid = unwrap_or (a_pid af) default_pid,
               initial_mode = Zero,
               kalman_enabled = unwrap_or (a_kalman_enabled af) False,
               kalman_q = unwrap_or (a_kalman_q af) (f32 (1 / 1000)),
               kalman_r = unwrap_or (a_kalman_r af) (f32 (1 / 100)),
               cfg_window_sizes = fold apply_mode_section (unwrap_or (a_modes af) []) default_windows\<rparr>)"

definition FecConfig_default :: FecConfig where
  "FecConfig_default =
     \<lparr>cfg_lambda = f32 (1 / 10), cfg_burst_window = 20, cfg_hysteresis = f32 (2 / 100), cfg_pid = default_pid,
      initial_mode = Zero, kalman_enabled = False, kalman_q = f32 (1 / 1000), kalman_r = f32 (1 / 100),
      cfg_window_sizes = default_windows\<rparr>"

definition FecConfig_validate :: "FecConfig \<Rightarrow> string + unit" where
  "FecConfig_validate c =
     (if \<not> (0 \<le> cfg_lambda c \<and> cfg_lambda c \<le> 1) then Inl ''lambda must be between 0 and 1''
      else if cfg_burst_window c = 0 then Inl ''burst_window must be > 0''
      else if \<not> (0 \<le> cfg_hysteresis c \<and> cfg_hysteresis c < 1) then Inl ''hysteresis must be between 0 and 1''
      else if kalman_enabled c \<and> (kalman_q c \<le> 0 \<or> kalman_r c \<le> 0)
      then Inl ''kalman_q and kalman_r must be positive''
      else Inr ())"

subsection \<open>The mode manager\<close>

record ModeManager =
  current_mode :: FecMode
  mgr_pid :: PidController
  mode_thresholds :: "FecMode \<rightharpoonup> real"
  window_sizes :: "FecMode \<rightharpoonup> nat"
  last_mode_change :: nat
  min_dwell_time :: nat
  hysteresis :: real
  current_window :: nat

definition CROSS_FADE_LEN :: nat where
  "CROSS_FADE_LEN = 32"

definition ALPHA_K :: real where
  "ALPHA_K = 1 / 2"

definition window_or_default :: "(FecMode \<rightharpoonup> nat) \<Rightarrow> FecMode \<Rightarrow> nat" where
  "window_or_default sizes mode =
     (case sizes mode of Some w \<Rightarrow> w | None \<Rightarrow> unwrap_or (default_windows mode) 0)"

definition initial_window :: "ModeManager \<Rightarrow> FecMode \<Rightarrow> nat" where
  "initial_window m mode = window_or_default (window_sizes m) mode"

definition thresholds :: "FecMode \<rightharpoonup> real" where
  "thresholds = [Zero \<mapsto> f32 (1 / 100), Light \<mapsto> f32 (5 / 100), Normal \<mapsto> f32 (15 / 100),
                 Medium \<mapsto> f32 (30 / 100), Strong \<mapsto> f32 (50 / 100), Extreme \<mapsto> f32 1]"

definition ModeManager_new :: "nat \<Rightarrow> PidConfig \<Rightarrow> real \<Rightarrow> FecMode \<Rightarrow> (FecMode \<rightharpoonup> nat) \<Rightarrow> ModeManager" where
  "ModeManager_new now c hyst mode sizes =
     \<lparr>current_mode = mode, mgr_pid = PidController_new c now, mode_thresholds = thresholds,
      window_sizes = sizes, last_mode_change = now, min_dwell_time = 500 * 10 ^ 6, hysteresis = hyst,
      current_window = window_or_default sizes mode\<rparr>"

text \<open>The clock readings of \<open>update\<close>: for \<open>elapsed\<close>, for the controller and for a mode change.\<close>

record clock =
  t_elapsed :: nat
  t_pid :: nat
  t_change :: nat

definition clamp :: "nat \<Rightarrow> nat \<times> nat \<Rightarrow> nat" where
  "clamp n r = (if n < fst r then fst r else if snd r < n then snd r else n)"

definition ModeManager_update ::
  "clock \<Rightarrow> real \<Rightarrow> ModeManager \<Rightarrow> ((FecMode \<times> nat \<times> (FecMode \<times> nat) option) \<times> ModeManager) option" where
  "ModeManager_update clk estimated_loss m = do {
     strong \<leftarrow> mode_thresholds m Strong;
     let prev = (current_mode m, current_window m);
     if estimated_loss > f32 (strong + hysteresis m)
     then let m = m\<lparr>current_mode := Extreme, current_window := initial_window m Extreme,
                    last_mode_change := t_change clk\<rparr>
          in Some ((current_mode m, current_window m, Some prev), m)
     else if t_elapsed clk - last_mode_change m < min_dwell_time m
     then Some ((current_mode m, current_window m, None), m)
     else do {
       target_loss \<leftarrow> mode_thresholds m (current_mode m);
       let (output, c) = PidController_update (t_pid clk) estimated_loss target_loss (mgr_pid m);
       let new_mode = (if output > f32 (1 / 10) then next_mode (current_mode m)
                       else if output < - f32 (1 / 10) then prev_mode (current_mode m)
                       else current_mode m);
       let m = m\<lparr>mgr_pid := c\<rparr>;
       let m = (if new_mode \<noteq> current_mode m
                then m\<lparr>current_mode := new_mode, last_mode_change := t_change clk,
                       current_window := initial_window m new_mode\<rparr>
                else m);
       target_loss_for_mode \<leftarrow> mode_thresholds m (current_mode m);
       let alpha = f32 (1 + f32 (ALPHA_K * f32 (estimated_loss - target_loss_for_mode)));
       let new_window = f32_as_usize (f32_round (f32 (usize_as_f32 (current_window m) * alpha)));
       let m = m\<lparr>current_window := clamp new_window (window_range (current_mode m))\<rparr>;
       Some ((current_mode m, current_window m,
              if prev \<noteq> (current_mode m, current_window m) then Some prev else None), m) } }"

subsection \<open>Configuration\<close>

lemma default_windows_total: "\<exists>w. default_windows m = Some w"
  by (cases m) (simp_all add: default_windows_def)

text \<open>The last section that names a mode decides its window.\<close>

lemma fold_mode_sections:
  "fold apply_mode_section ms windows mode =
     (case find (\<lambda>s. FecMode_from_str (ms_name s) = Some mode) (rev ms) of
        Some s \<Rightarrow> Some (ms_w0 s) | None \<Rightarrow> windows mode)"
proof (induction ms rule: rev_induct)
  case (snoc s ms)
  then show ?case by (auto simp: apply_mode_section_def split: option.split)
qed simp

subsection \<open>Modes and windows\<close>

definition mgr_ok :: "ModeManager \<Rightarrow> bool" where
  "mgr_ok m \<longleftrightarrow> mode_thresholds m = thresholds"

lemma mgr_new_ok: "mgr_ok (ModeManager_new now c hyst mode sizes)"
  by (simp add: mgr_ok_def ModeManager_new_def)

definition threshold :: "FecMode \<Rightarrow> real" where
  "threshold mode = the (thresholds mode)"

lemma thresholds_total [simp]: "thresholds mode = Some (threshold mode)"
  by (cases mode) (simp_all add: thresholds_def threshold_def)

lemma threshold_Strong [simp]: "threshold Strong = 1 / 2"
  by (simp add: threshold_def thresholds_def)

lemma ModeManager_new_sel [simp]:
  "current_mode (ModeManager_new now c hyst mode sizes) = mode"
  "mgr_pid (ModeManager_new now c hyst mode sizes) = PidController_new c now"
  "window_sizes (ModeManager_new now c hyst mode sizes) = sizes"
  "last_mode_change (ModeManager_new now c hyst mode sizes) = now"
  "min_dwell_time (ModeManager_new now c hyst mode sizes) = 500 * 10 ^ 6"
  "hysteresis (ModeManager_new now c hyst mode sizes) = hyst"
  by (simp_all add: ModeManager_new_def)

lemma clamp_range: "fst r \<le> snd r \<Longrightarrow> fst r \<le> clamp n r \<and> clamp n r \<le> snd r"
  by (simp add: clamp_def)

lemma window_range_ordered: "fst (window_range mode) \<le> snd (window_range mode)"
  by (cases mode) simp_all

text \<open>The mode the controller's output asks for.\<close>

definition step_mode :: "real \<Rightarrow> FecMode \<Rightarrow> FecMode" where
  "step_mode output mode = (if output > f32 (1 / 10) then next_mode mode
     else if output < - f32 (1 / 10) then prev_mode mode else mode)"

lemma update_controlled:
  assumes "mgr_ok m" "\<not> estimated_loss > f32 (threshold Strong + hysteresis m)"
    "min_dwell_time m \<le> t_elapsed clk - last_mode_change m"
  defines "mode \<equiv> step_mode (fst (PidController_update (t_pid clk) estimated_loss
                    (threshold (current_mode m)) (mgr_pid m))) (current_mode m)"
  shows "\<exists>w m'. ModeManager_update clk estimated_loss m =
      Some ((mode, w, if (current_mode m, current_window m) \<noteq> (mode, w)
                      then Some (current_mode m, current_window m) else None), m') \<and>
      current_mode m' = mode \<and> current_window m' = w \<and> mgr_ok m' \<and>
      w = clamp (f32_as_usize (f32_round (f32 (usize_as_f32 (if mode = current_mode m then current_window m else initial_window m mode) *
            f32 (1 + f32 (ALPHA_K * f32 (estimated_loss - threshold mode))))))) (window_range mode) \<and>
      fst (window_range mode) \<le> w \<and> w \<le> snd (window_range mode) \<and>
      last_mode_change m' = (if mode = current_mode m then last_mode_change m else t_change clk)"
proof -
  obtain out c where c: "PidController_update (t_pid clk) estimated_loss
      (threshold (current_mode m)) (mgr_pid m) = (out, c)" by fastforce
  have mode: "mode = step_mode out (current_mode m)" by (simp add: mode_def c)
  define m1 where "m1 = (let m = m\<lparr>mgr_pid := c\<rparr> in if mode \<noteq> current_mode m
      then m\<lparr>current_mode := mode, last_mode_change := t_change clk, current_window := initial_window m mode\<rparr>
      else m)"
  define w where "w = clamp (f32_as_usize (f32_round (f32 (usize_as_f32 (current_window m1) *
      f32 (1 + f32 (ALPHA_K * f32 (estimated_loss - threshold mode))))))) (window_range mode)"
  have m1: "current_mode m1 = mode" "mode_thresholds m1 = thresholds"
    "last_mode_change m1 = (if mode = current_mode m then last_mode_change m else t_change clk)"
    "current_window m1 = (if mode = current_mode m then current_window m else initial_window m mode)"
    using assms(1) by (simp_all add: m1_def Let_def mgr_ok_def initial_window_def)
  have "ModeManager_update clk estimated_loss m =
      Some ((mode, w, if (current_mode m, current_window m) \<noteq> (mode, w)
                      then Some (current_mode m, current_window m) else None), m1\<lparr>current_window := w\<rparr>)"
    using assms(1-3)
    by (cases "mode = current_mode m")
       (simp_all add: ModeManager_update_def mgr_ok_def c Let_def step_mode_def[symmetric] mode[symmetric] w_def m1_def)
  moreover have "fst (window_range mode) \<le> w \<and> w \<le> snd (window_range mode)"
    unfolding w_def by (intro clamp_range window_range_ordered)
  moreover note w_def[unfolded m1(4)]
  ultimately show ?thesis using m1(1-3)
    by (intro exI[of _ w] exI[of _ "m1\<lparr>current_window := w\<rparr>"]) (simp add: mgr_ok_def)
qed

text \<open>The modes from the least redundancy to the most.\<close>

fun mode_rank :: "FecMode \<Rightarrow> nat" where
  "mode_rank Zero = 0"
| "mode_rank Light = 1"
| "mode_rank Normal = 2"
| "mode_rank Medium = 3"
| "mode_rank Strong = 4"
| "mode_rank Extreme = 5"

lemma mode_rank_next: "mode_rank (next_mode mode) = min 5 (mode_rank mode + 1)"
  by (cases mode) simp_all

lemma mode_rank_prev: "mode_rank (prev_mode mode) = mode_rank mode - 1"
  by (cases mode) simp_all

subsection \<open>The sign of the controller\<close>

lemma f32_billion: "usize_as_f32 (10 ^ 9) = 10 ^ 9"
proof -
  have "f32 (10 ^ 9) = 10 ^ 9" by (rule f32_exact[of _ 1953125 9]) (simp_all add: power_int_def)
  then show ?thesis by (simp only: usize_as_f32_def of_nat_power of_nat_numeral)
qed

lemma f32_nonneg_usize: "0 \<le> usize_as_f32 n"
  by (simp add: usize_as_f32_def f32_nonneg)

lemma f32_dyadic: "f32 (1 / 2 ^ n) = 1 / 2 ^ n" if "n \<le> 149"
  using that by (intro f32_exact[of _ 1 "- int n"]) (simp_all add: power_int_minus divide_inverse)

lemma as_secs_pos:
  assumes "0 < d"
  shows "0 < as_secs_f32 d"
proof -
  define a b where "a = usize_as_f32 (d div 10 ^ 9)" and "b = f32 (usize_as_f32 (d mod 10 ^ 9) / 10 ^ 9)"
  have ab: "0 \<le> a" "0 \<le> b" by (simp_all add: a_def b_def f32_nonneg_usize f32_nonneg)
  have "1 / 2 ^ 30 \<le> a + b"
  proof (cases "d mod 10 ^ 9 = 0")
    case True
    then have "0 < d div 10 ^ 9" using assms div_mult_mod_eq[of d "10 ^ 9"] by (metis add_0_right gr0I mult_0)
    then have "1 \<le> a" unfolding a_def by (rule usize_as_f32_pos)
    with ab(2) show ?thesis by simp
  next
    case False
    then have "1 \<le> usize_as_f32 (d mod 10 ^ 9)" by (intro usize_as_f32_pos) simp
    then have "f32 (1 / 2 ^ 30) \<le> b" unfolding b_def by (intro f32_mono) (simp add: field_simps)
    with ab(1) show ?thesis using f32_dyadic[of 30] by simp
  qed
  then have "f32 (1 / 2 ^ 30) \<le> f32 (a + b)" by (rule f32_mono)
  moreover have "0 < f32 (1 / 2 ^ 30)" using f32_dyadic[of 30] by simp
  moreover have "as_secs_f32 d = f32 (a + b)" unfolding as_secs_f32_def f32_billion a_def b_def ..
  ultimately show ?thesis by linarith
qed

lemma f32_nonpos: "x \<le> 0 \<Longrightarrow> f32 x \<le> 0"
  using f32_mono[of x 0] by simp

text \<open>On its first update the controller's output is at most its (negated) error.\<close>

lemma pid_first_output:
  assumes "0 \<le> ki c" "0 \<le> kd c" "1 \<le> kp c" "now < t" "setpoint \<le> v"
  shows "fst (PidController_update t v setpoint (PidController_new c now)) \<le> f32 (setpoint - v)"
proof -
  define dt where "dt = as_secs_f32 (t - now)"
  define e where "e = f32 (setpoint - v)"
  have dt: "0 < dt" using assms(4) by (simp add: dt_def as_secs_pos)
  have e: "e \<le> 0" "f32 e = e" using assms(5) by (simp_all add: e_def f32_nonpos)
  have "f32 (0 + f32 (e * dt)) \<le> 0" using e dt by (intro f32_nonpos) (simp add: f32_nonpos mult_nonpos_nonneg)
  then have i: "f32 (ki c * f32 (0 + f32 (e * dt))) \<le> 0" by (rule f32_nonpos[OF mult_nonneg_nonpos[OF assms(1)]])
  have "f32 (f32 (e - 0) / dt) \<le> 0" using e dt by (intro f32_nonpos) (simp add: divide_nonpos_pos)
  then have d: "f32 (kd c * f32 (f32 (e - 0) / dt)) \<le> 0" by (rule f32_nonpos[OF mult_nonneg_nonpos[OF assms(2)]])
  have "kp c * e \<le> e" using assms(3) e(1) mult_right_mono_neg[of 1 "kp c" e] by simp
  then have p: "f32 (kp c * e) \<le> e" using f32_mono e(2) by metis
  have "f32 (f32 (kp c * e) + f32 (ki c * f32 (0 + f32 (e * dt)))) \<le> f32 e"
    using p i by (intro f32_mono) linarith
  then have "f32 (f32 (f32 (kp c * e) + f32 (ki c * f32 (0 + f32 (e * dt)))) + f32 (kd c * f32 (f32 (e - 0) / dt))) \<le> f32 e"
    using d e(2) by (intro f32_mono) linarith
  then show ?thesis
    using dt e(2) by (simp add: PidController_update_def PidController_new_def Let_def dt_def e_def)
qed

lemma f32_tenth: "0 \<le> f32 (1 / 10)" "f32 (1 / 10) < 1 / 4"
proof -
  have "f32 (1 / 10) \<le> f32 (1 / 2 ^ 3)" by (rule f32_mono) simp
  then show "f32 (1 / 10) < 1 / 4" using f32_dyadic[of 3] by simp
qed (simp add: f32_nonneg)

lemma step_mode_nonpos: "out \<le> 0 \<Longrightarrow> step_mode out mode \<in> {mode, prev_mode mode}"
  using f32_tenth(1) by (auto simp: step_mode_def)

lemma step_mode_negative: "out \<le> - (1 / 4) \<Longrightarrow> step_mode out mode = prev_mode mode"
  using f32_tenth by (auto simp: step_mode_def)

subsection \<open>The branches of an update\<close>

lemma update_cases:
  assumes "mgr_ok m"
  shows "\<exists>mode w prev m'. ModeManager_update clk loss m = Some ((mode, w, prev), m') \<and>
      current_mode m' = mode \<and> current_window m' = w \<and> mgr_ok m' \<and>
      (if loss > f32 (threshold Strong + hysteresis m)
       then mode = Extreme \<and> w = initial_window m Extreme \<and> prev = Some (current_mode m, current_window m) \<and>
            last_mode_change m' = t_change clk
       else if t_elapsed clk - last_mode_change m < min_dwell_time m
       then m' = m \<and> prev = None
       else (let out = fst (PidController_update (t_pid clk) loss (threshold (current_mode m)) (mgr_pid m)) in
              if out > f32 (1 / 10) then mode = next_mode (current_mode m) \<and> mode_rank mode = min 5 (mode_rank (current_mode m) + 1)
              else if out < - f32 (1 / 10) then mode = prev_mode (current_mode m) \<and> mode_rank mode = mode_rank (current_mode m) - 1
              else mode = current_mode m) \<and>
            w = clamp (f32_as_usize (f32_round (f32 (usize_as_f32 (if mode = current_mode m then current_window m else initial_window m mode) *
                  f32 (1 + f32 (ALPHA_K * f32 (loss - threshold mode))))))) (window_range mode) \<and>
            fst (window_range mode) \<le> w \<and> w \<le> snd (window_range mode) \<and>
            prev = (if (current_mode m, current_window m) \<noteq> (mode, w)
                    then Some (current_mode m, current_window m) else None) \<and>
            last_mode_change m' = (if mode = current_mode m then last_mode_change m else t_change clk))"
proof -
  consider (emergency) "loss > f32 (threshold Strong + hysteresis m)"
    | (dwell) "\<not> loss > f32 (threshold Strong + hysteresis m)" "t_elapsed clk - last_mode_change m < min_dwell_time m"
    | (controlled) "\<not> loss > f32 (threshold Strong + hysteresis m)" "min_dwell_time m \<le> t_elapsed clk - last_mode_change m"
    by linarith
  then show ?thesis
  proof cases
    case emergency
    with assms show ?thesis by (simp add: ModeManager_update_def mgr_ok_def Let_def)
  next
    case dwell
    with assms show ?thesis by (simp add: ModeManager_update_def mgr_ok_def Let_def)
  next
    case controlled
    then have 2: "\<not> t_elapsed clk - last_mode_change m < min_dwell_time m" by simp
    show ?thesis
      unfolding if_not_P[OF controlled(1)] if_not_P[OF 2]
      using update_controlled[OF assms controlled] unfolding step_mode_def Let_def
      by (elim exE conjE, intro exI conjI) (assumption | simp add: mode_rank_next mode_rank_prev)+
  qed
qed

lemma mode_update_total:
  "mgr_ok m \<Longrightarrow> \<exists>mode w prev m'. ModeManager_update clk loss m = Some ((mode, w, prev), m') \<and>
     current_mode m' = mode \<and> current_window m' = w \<and> mgr_ok m'"
  using update_cases[of m clk loss] by blast

text \<open>The first update of a new manager with a loss at or above the target.\<close>

lemma first_update_falls:
  assumes "0 \<le> ki c" "0 \<le> kd c" "1 \<le> kp c" "now < t_pid clk" "now + 500 * 10 ^ 6 \<le> t_elapsed clk"
    "threshold mode \<le> loss" "loss \<le> f32 (threshold Strong + hyst)"
  shows "\<exists>mode' w prev m'. ModeManager_update clk loss (ModeManager_new now c hyst mode sizes) =
             Some ((mode', w, prev), m') \<and> mode' \<in> {mode, prev_mode mode} \<and>
           (threshold mode + 1 / 4 \<le> loss \<longrightarrow> mode' = prev_mode mode)"
proof -
  let ?m = "ModeManager_new now c hyst mode sizes"
  define out where "out = fst (PidController_update (t_pid clk) loss (threshold mode) (PidController_new c now))"
  have out: "out \<le> f32 (threshold mode - loss)"
    unfolding out_def by (rule pid_first_output[OF assms(1-4,6)])
  have 1: "out \<le> 0" using out f32_nonpos[of "threshold mode - loss"] assms(6) by linarith
  have 2: "out \<le> - (1 / 4)" if "threshold mode + 1 / 4 \<le> loss"
  proof -
    have "f32 (threshold mode - loss) \<le> f32 (- (1 / 2 ^ 2))" using that by (intro f32_mono) simp
    then show ?thesis using out f32_dyadic[of 2] by simp
  qed
  have nl: "\<not> loss > f32 (threshold Strong + hysteresis ?m)"
    and dw: "min_dwell_time ?m \<le> t_elapsed clk - last_mode_change ?m"
    using assms(5,7) by simp_all
  have "\<exists>w prev m'. ModeManager_update clk loss ?m = Some ((step_mode out mode, w, prev), m')"
    using update_controlled[OF mgr_new_ok nl dw] by (simp only: ModeManager_new_sel out_def[symmetric]) blast
  then show ?thesis using step_mode_nonpos[OF 1] step_mode_negative[OF 2] by blast
qed

subsection \<open>Properties\<close>

text \<open>C27: what \<open>update\<close> does on every branch, for a manager with the thresholds of \<open>new\<close>; it never panics. A loss above
  the threshold of the strong mode plus the hysteresis selects the extreme mode with its initial window and
  reports the previous pair (also when the mode was extreme already). Within the dwell time nothing
  changes. Otherwise the mode moves one step towards more redundancy when the controller's output is above 0.1, one step
  towards less when it is below -0.1, and stays in between; the window (the new mode's initial one after a step) is scaled with
  the distance of the loss from the mode's threshold and brought into the mode's range; the
  previous pair is reported exactly when mode or window changed, and the dwell time restarts exactly
  when the mode changed.\<close>

theorem mode_update_outcome:
  assumes "mgr_ok m"
  shows "\<exists>mode w prev m'. ModeManager_update clk loss m = Some ((mode, w, prev), m') \<and>
      current_mode m' = mode \<and> current_window m' = w \<and> mgr_ok m' \<and>
      (if loss > f32 (threshold Strong + hysteresis m)
       then mode = Extreme \<and> w = initial_window m Extreme \<and> prev = Some (current_mode m, current_window m) \<and>
            last_mode_change m' = t_change clk
       else if t_elapsed clk - last_mode_change m < min_dwell_time m
       then m' = m \<and> prev = None
       else (let out = fst (PidController_update (t_pid clk) loss (threshold (current_mode m)) (mgr_pid m)) in
              if out > f32 (1 / 10) then mode = next_mode (current_mode m) \<and> mode_rank mode = min 5 (mode_rank (current_mode m) + 1)
              else if out < - f32 (1 / 10) then mode = prev_mode (current_mode m) \<and> mode_rank mode = mode_rank (current_mode m) - 1
              else mode = current_mode m) \<and>
            w = clamp (f32_as_usize (f32_round (f32 (usize_as_f32 (if mode = current_mode m then current_window m else initial_window m mode) *
                  f32 (1 + f32 (ALPHA_K * f32 (loss - threshold mode))))))) (window_range mode) \<and>
            fst (window_range mode) \<le> w \<and> w \<le> snd (window_range mode) \<and>
            prev = (if (current_mode m, current_window m) \<noteq> (mode, w)
                    then Some (current_mode m, current_window m) else None) \<and>
            last_mode_change m' = (if mode = current_mode m then last_mode_change m else t_change clk))"
  using assms by (rule update_cases)

theorem mode_update_outcome_witness:
  "\<exists>w prev m'. ModeManager_update \<lparr>t_elapsed = 10 ^ 9, t_pid = 10 ^ 9, t_change = 10 ^ 9\<rparr> 1
      (ModeManager_new 0 default_pid 0 Light default_windows) = Some ((Extreme, w, prev), m') \<and> w = 1024"
proof -
  let ?m = "ModeManager_new 0 default_pid 0 Light default_windows"
  have "f32 (threshold Strong + hysteresis ?m) < 1" by simp
  moreover have "initial_window ?m Extreme = 1024"
    by (simp add: initial_window_def window_or_default_def default_windows_def)
  ultimately show ?thesis
    using mode_update_outcome[OF mgr_new_ok[of 0 default_pid 0 Light default_windows],
        of "\<lparr>t_elapsed = 10 ^ 9, t_pid = 10 ^ 9, t_change = 10 ^ 9\<rparr>" 1]
    by auto
qed

text \<open>C29: the controller works against its purpose. On the first update of a new manager with the
  controller gains \<open>kp \<ge> 1\<close>, \<open>ki, kd \<ge> 0\<close>, a loss at or above the target of the current mode
  never raises the redundancy, and a loss that exceeds the target by 0.25 lowers the mode by one step (down to no
  FEC at all).\<close>

theorem redundancy_falls_with_loss:
  assumes "0 \<le> ki c" "0 \<le> kd c" "1 \<le> kp c" "now < t_pid clk" "now + 500 * 10 ^ 6 \<le> t_elapsed clk"
    "threshold mode \<le> loss" "loss \<le> f32 (threshold Strong + hyst)"
  shows "\<exists>mode' w prev m'. ModeManager_update clk loss (ModeManager_new now c hyst mode sizes) =
             Some ((mode', w, prev), m') \<and> mode' \<in> {mode, prev_mode mode} \<and>
           (threshold mode + 1 / 4 \<le> loss \<longrightarrow> mode' = prev_mode mode)"
  using assms by (rule first_update_falls)

theorem redundancy_falls_with_loss_witness:
  "\<exists>w prev m'. ModeManager_update \<lparr>t_elapsed = 10 ^ 9, t_pid = 10 ^ 9, t_change = 10 ^ 9\<rparr> (1 / 2)
      (ModeManager_new 0 default_pid 0 Light default_windows) = Some ((Zero, w, prev), m')"
proof -
  have "1 \<le> f32 (12 / 10)" using f32_mono[of 1 "12 / 10"] by simp
  moreover have "f32 (5 / 100) \<le> f32 (1 / 2 ^ 2)" by (rule f32_mono) simp
  then have "threshold Light + 1 / 4 \<le> 1 / 2" using f32_dyadic[of 2] by (simp add: threshold_def thresholds_def)
  ultimately show ?thesis
    using redundancy_falls_with_loss[of default_pid 0
        "\<lparr>t_elapsed = 10 ^ 9, t_pid = 10 ^ 9, t_change = 10 ^ 9\<rparr>" Light "1 / 2" 0 default_windows]
    by (auto simp: default_pid_def f32_nonneg)
qed

text \<open>The window table that a configuration file yields: for every mode the \<open>w0\<close> of the last section whose
  name parses to it (in any letter case, English or German), and the default otherwise; sections with
  other names are ignored, and every mode has an entry.\<close>

lemma toml_windows:
  assumes "parse s = Inr af"
  shows "\<exists>c. FecConfig_from_toml parse s = Inr c \<and> initial_mode c = Zero \<and>
           (\<forall>mode. cfg_window_sizes c mode =
              (case find (\<lambda>ms. FecMode_from_str (ms_name ms) = Some mode) (rev (unwrap_or (a_modes af) [])) of
                 Some ms \<Rightarrow> Some (ms_w0 ms) | None \<Rightarrow> default_windows mode) \<and> cfg_window_sizes c mode \<noteq> None)"
  using assms default_windows_total
  by (auto simp: FecConfig_from_toml_def fold_mode_sections split: option.split)

end
