(* ===== verification/Loss_Estimator.thy ===== *)
theory Loss_Estimator
  imports F32 Fec_Encoder
begin

text \<open>
  The packet loss estimator (\<open>LossEstimator\<close> of \<open>src/src/fec/adaptive.rs\<close> and \<open>KalmanFilter\<close> of
  \<open>src/src/fec/mod.rs\<close>): an exponential average of the reported loss rates, optionally smoothed by a
  scalar Kalman filter, and the share of losses in a window of recent packets.

  Every floating-point operation of the source is rounded by \<open>f32\<close>. The subtraction \<open>total - lost\<close> panics
  when it underflows.
\<close>

subsection \<open>The Kalman filter\<close>

record KalmanFilter =
  kf_estimate :: real
  error_cov :: real
  kf_q :: real
  kf_r :: real

definition KalmanFilter_new :: "real \<Rightarrow> real \<Rightarrow> KalmanFilter" where
  "KalmanFilter_new q r = \<lparr>kf_estimate = 0, error_cov = 1, kf_q = q, kf_r = r\<rparr>"

definition KalmanFilter_update :: "real \<Rightarrow> KalmanFilter \<Rightarrow> real \<times> KalmanFilter" where
  "KalmanFilter_update measurement kf =
     (let cov = f32 (error_cov kf + kf_q kf);
          k = f32 (cov / f32 (cov + kf_r kf));
          est = f32 (kf_estimate kf + f32 (k * f32 (measurement - kf_estimate kf)));
          cov = f32 (cov * f32 (1 - k))
      in (est, kf\<lparr>kf_estimate := est, error_cov := cov\<rparr>))"

subsection \<open>The estimator\<close>

record LossEstimator =
  ema_loss_rate :: real
  est_lambda :: real
  burst_window :: "bool list"
  burst_capacity :: nat
  kalman :: "KalmanFilter option"

definition LossEstimator_new :: "real \<Rightarrow> nat \<Rightarrow> KalmanFilter option \<Rightarrow> LossEstimator" where
  "LossEstimator_new l cap kf =
     \<lparr>ema_loss_rate = 0, est_lambda = l, burst_window = [], burst_capacity = cap, kalman = kf\<rparr>"

definition push_outcome :: "bool \<Rightarrow> LossEstimator \<Rightarrow> LossEstimator" where
  "push_outcome b e =
     (let w = (if length (burst_window e) = burst_capacity e then tl (burst_window e) else burst_window e)
      in e\<lparr>burst_window := w @ [b]\<rparr>)"

definition LossEstimator_report_loss :: "nat \<Rightarrow> nat \<Rightarrow> LossEstimator \<Rightarrow> LossEstimator option" where
  "LossEstimator_report_loss lost tot e =
     (let rate = (if tot > 0 then f32 (usize_as_f32 lost / usize_as_f32 tot) else 0);
          (rate, kf) = (case kalman e of
                          None \<Rightarrow> (rate, None)
                        | Some kf \<Rightarrow> apsnd Some (KalmanFilter_update rate kf));
          ema = f32 (f32 (est_lambda e * rate) + f32 (f32 (1 - est_lambda e) * ema_loss_rate e));
          e = fold (\<lambda>_. push_outcome True) [0..<lost] (e\<lparr>kalman := kf, ema_loss_rate := ema\<rparr>)
      in if tot < lost then None
         else Some (fold (\<lambda>_. push_outcome False) [0..<tot - lost] e))"

definition get_estimated_loss :: "LossEstimator \<Rightarrow> real" where
  "get_estimated_loss e =
     (let burst_loss = (if burst_window e = [] then 0
                        else f32 (usize_as_f32 (length (filter (\<lambda>l. l) (burst_window e)))
                                  / usize_as_f32 (length (burst_window e))))
      in max (ema_loss_rate e) burst_loss)"

subsection \<open>The burst window\<close>

interpretation burst: sliding_window push_outcome burst_window burst_capacity
  by unfold_locales (simp_all add: push_outcome_def Let_def)

definition outcomes :: "nat \<times> nat \<Rightarrow> bool list" where
  "outcomes r = replicate (fst r) True @ replicate (snd r - fst r) False"

lemma push_outcome_fields [simp]:
  "ema_loss_rate (push_outcome b e) = ema_loss_rate e" "est_lambda (push_outcome b e) = est_lambda e"
  "kalman (push_outcome b e) = kalman e" "burst_capacity (push_outcome b e) = burst_capacity e"
  by (simp_all add: push_outcome_def Let_def)

lemma fold_ignore: "fold (\<lambda>_. f) [0..<n] = f ^^ n"
  by (induction n) simp_all

lemma push_more:
  "push_outcome b (e\<lparr>kalman := kf, ema_loss_rate := r\<rparr>) = (push_outcome b e)\<lparr>kalman := kf, ema_loss_rate := r\<rparr>"
  by (cases e) (simp add: push_outcome_def Let_def)

lemma funpow_push_more:
  "(push_outcome b ^^ n) (e\<lparr>kalman := kf, ema_loss_rate := r\<rparr>) =
   ((push_outcome b ^^ n) e)\<lparr>kalman := kf, ema_loss_rate := r\<rparr>"
  by (induction n) (simp_all add: push_more)

lemma funpow_push_fields [simp]:
  "est_lambda ((push_outcome b ^^ n) e) = est_lambda e" "burst_capacity ((push_outcome b ^^ n) e) = burst_capacity e"
  by (induction n) simp_all

subsection \<open>The unit interval\<close>

definition kf_ok :: "KalmanFilter \<Rightarrow> bool" where
  "kf_ok kf \<longleftrightarrow> 0 \<le> kf_estimate kf \<and> kf_estimate kf \<le> 1 \<and> f32 (kf_estimate kf) = kf_estimate kf \<and>
     0 \<le> error_cov kf \<and> 0 \<le> kf_q kf \<and> 0 < kf_r kf \<and> f32 (kf_r kf) = kf_r kf"

lemma kf_new_ok: "0 \<le> q \<Longrightarrow> 0 < r \<Longrightarrow> f32 r = r \<Longrightarrow> kf_ok (KalmanFilter_new q r)"
  by (simp add: kf_ok_def KalmanFilter_new_def)

text \<open>The gain of the filter lies in the unit interval.\<close>

lemma kalman_gain:
  assumes "0 \<le> c" "f32 c = c" "0 < r" "f32 r = r"
  shows "0 \<le> f32 (c / f32 (c + r)) \<and> f32 (c / f32 (c + r)) \<le> 1"
proof -
  have "c \<le> f32 (c + r)" "r \<le> f32 (c + r)"
    using f32_mono[of c "c + r"] f32_mono[of r "c + r"] assms by simp_all
  then show ?thesis using assms by (intro f32_unit) simp_all
qed

lemma kalman_step_unit:
  assumes k: "0 \<le> k" "k \<le> 1" and e: "0 \<le> e" "e \<le> 1" "f32 e = e" and m: "0 \<le> m" "m \<le> 1"
  shows "0 \<le> f32 (e + f32 (k * f32 (m - e))) \<and> f32 (e + f32 (k * f32 (m - e))) \<le> 1"
proof
  define d where "d = f32 (m - e)"
  have "- e \<le> d" using f32_mono[of "- e" "m - e"] e m by (simp add: d_def)
  then have "- e \<le> k * d"
    using k e mult_left_mono[of "- e" d k] mult_right_mono[of k 1 e] by linarith
  then have "- e \<le> f32 (k * d)" using f32_mono[of "- e" "k * d"] e by simp
  then show "0 \<le> f32 (e + f32 (k * f32 (m - e)))" by (intro f32_nonneg) (simp add: d_def)
  have "\<bar>m - e\<bar> \<le> 1" using e m by (simp add: abs_if)
  then have "d \<le> (m - e) + 1 / 2 ^ 25"
    using f32_error_unit[of "m - e"] by (simp add: d_def abs_if split: if_splits)
  moreover have "f32 (k * d) \<le> max 0 d"
  proof (cases "0 \<le> d")
    case True
    then have "k * d \<le> d" using k by (simp add: mult_left_le_one_le)
    then have "f32 (k * d) \<le> f32 d" by (rule f32_mono)
    then show ?thesis by (simp add: d_def)
  next
    case False
    then have "k * d \<le> 0" using k by (simp add: mult_nonneg_nonpos)
    then have "f32 (k * d) \<le> f32 0" by (rule f32_mono)
    then show ?thesis by simp
  qed
  ultimately show "f32 (e + f32 (k * f32 (m - e))) \<le> 1"
    using e m by (intro f32_le_1) (simp add: d_def)
qed

lemma kalman_update_ok:
  assumes "kf_ok kf" "0 \<le> m" "m \<le> 1"
  shows "\<exists>v kf'. KalmanFilter_update m kf = (v, kf') \<and> kf_ok kf' \<and> 0 \<le> v \<and> v \<le> 1"
proof -
  define c k where "c = f32 (error_cov kf + kf_q kf)" and "k = f32 (c / f32 (c + kf_r kf))"
  have c: "0 \<le> c" "f32 c = c" using assms(1) by (simp_all add: c_def kf_ok_def f32_nonneg)
  have k: "0 \<le> k" "k \<le> 1" using kalman_gain[OF c] assms(1) by (simp_all add: k_def kf_ok_def)
  have v: "0 \<le> f32 (kf_estimate kf + f32 (k * f32 (m - kf_estimate kf)))"
    "f32 (kf_estimate kf + f32 (k * f32 (m - kf_estimate kf))) \<le> 1"
    using kalman_step_unit[OF k _ _ _ assms(2,3)] assms(1) by (simp_all add: kf_ok_def)
  have "0 \<le> f32 (c * f32 (1 - k))" using c k by (intro f32_nonneg mult_nonneg_nonneg) simp_all
  with v assms(1) show ?thesis
    by (simp add: KalmanFilter_update_def Let_def kf_ok_def flip: c_def k_def)
qed

definition est_ok :: "LossEstimator \<Rightarrow> bool" where
  "est_ok e \<longleftrightarrow> 0 \<le> est_lambda e \<and> est_lambda e \<le> 1 \<and> f32 (est_lambda e) = est_lambda e \<and>
     0 \<le> ema_loss_rate e \<and> ema_loss_rate e \<le> 1 \<and> pred_option kf_ok (kalman e)"

lemma est_new_ok:
  "0 \<le> l \<Longrightarrow> l \<le> 1 \<Longrightarrow> f32 l = l \<Longrightarrow> pred_option kf_ok kf \<Longrightarrow> est_ok (LossEstimator_new l cap kf)"
  by (simp add: est_ok_def LossEstimator_new_def)

text \<open>A report keeps the invariant, appends its outcomes to the window and panics only on \<open>lost > total\<close>.\<close>

lemma report_loss_panic: "LossEstimator_report_loss lost tot e = None \<longleftrightarrow> tot < lost"
  by (simp add: LossEstimator_report_loss_def Let_def split: prod.split)

lemma report_loss_ok:
  assumes "est_ok e" "lost \<le> tot"
  shows "\<exists>e'. LossEstimator_report_loss lost tot e = Some e' \<and> est_ok e' \<and>
     burst_window e' = burst_window (fold push_outcome (outcomes (lost, tot)) e) \<and>
     burst_capacity e' = burst_capacity e"
proof -
  define rate where "rate = (if tot > 0 then f32 (usize_as_f32 lost / usize_as_f32 tot) else 0)"
  have rate: "0 \<le> rate" "rate \<le> 1" using f32_ratio_unit[OF assms(2)] by (simp_all add: rate_def)
  obtain v kf where v: "(case kalman e of None \<Rightarrow> (rate, None)
      | Some kf \<Rightarrow> apsnd Some (KalmanFilter_update rate kf)) = (v, kf)" "0 \<le> v" "v \<le> 1" "pred_option kf_ok kf"
  proof (cases "kalman e")
    case None
    then show ?thesis using that[of rate None] rate by simp
  next
    case (Some kf)
    then obtain v kf' where "KalmanFilter_update rate kf = (v, kf')" "kf_ok kf'" "0 \<le> v" "v \<le> 1"
      using kalman_update_ok[of kf rate] assms(1) rate by (auto simp: est_ok_def)
    then show ?thesis using that[of v "Some kf'"] Some by simp
  qed
  define ema where "ema = f32 (f32 (est_lambda e * v) + f32 (f32 (1 - est_lambda e) * ema_loss_rate e))"
  have ema: "0 \<le> ema" "ema \<le> 1"
    using f32_average_unit[of "est_lambda e" v "ema_loss_rate e"] assms(1) v by (simp_all add: est_ok_def ema_def)
  have "LossEstimator_report_loss lost tot e =
      Some ((fold push_outcome (outcomes (lost, tot)) e)\<lparr>kalman := kf, ema_loss_rate := ema\<rparr>)"
    using assms(2) v(1)
    by (simp add: LossEstimator_report_loss_def Let_def rate_def[symmetric] ema_def[symmetric]
        outcomes_def funpow_push_more fold_ignore)
  with ema v(4) assms(1) show ?thesis by (simp add: est_ok_def outcomes_def)
qed

definition report_all :: "(nat \<times> nat) list \<Rightarrow> LossEstimator \<Rightarrow> LossEstimator option" where
  "report_all rs e = ofold (\<lambda>(lost, tot). LossEstimator_report_loss lost tot) rs e"

lemma burst_window_congr:
  assumes "burst_window e = burst_window e'" "burst_capacity e = burst_capacity e'"
  shows "burst_window (fold push_outcome bs e) = burst_window (fold push_outcome bs e')"
  using assms
proof (induction bs arbitrary: e e')
  case (Cons b bs)
  then show ?case using Cons.IH[of "push_outcome b e" "push_outcome b e'"] by (simp add: burst.contents_add)
qed simp

lemma report_all_ok:
  assumes "est_ok e" "list_all (\<lambda>(lost, tot). lost \<le> tot) rs"
  shows "\<exists>e'. report_all rs e = Some e' \<and> est_ok e' \<and> burst_capacity e' = burst_capacity e \<and>
     burst_window e' = burst_window (fold push_outcome (concat (map outcomes rs)) e)"
  using assms
proof (induction rs arbitrary: e)
  case Nil
  then show ?case by (simp add: report_all_def)
next
  case (Cons r rs)
  obtain lost tot where r: "r = (lost, tot)" by (cases r)
  then obtain e1 where e1: "LossEstimator_report_loss lost tot e = Some e1" "est_ok e1"
    "burst_window e1 = burst_window (fold push_outcome (outcomes r) e)" "burst_capacity e1 = burst_capacity e"
    using report_loss_ok[of e lost tot] Cons.prems by auto
  moreover have "burst_window (fold push_outcome bs e1) = burst_window (fold push_outcome (outcomes r @ bs) e)" for bs
    using burst_window_congr[of e1 "fold push_outcome (outcomes r) e" bs] e1(3,4) by (simp add: burst.cap_fold)
  ultimately show ?case
    using Cons.IH[of e1] Cons.prems by (auto simp: r report_all_def)
qed

lemma get_estimated_loss_unit:
  assumes "est_ok e"
  shows "0 \<le> get_estimated_loss e \<and> get_estimated_loss e \<le> 1"
  using assms f32_ratio_unit[of "length (filter (\<lambda>l. l) (burst_window e))" "length (burst_window e)"]
  by (auto simp: get_estimated_loss_def est_ok_def Let_def)

subsection \<open>Properties\<close>

text \<open>C28: with a smoothing factor in the unit interval and, if a Kalman filter is used, \<open>q \<ge> 0\<close> and
  \<open>r > 0\<close> (what \<open>FecConfig::validate\<close> asks for), any sequence of reports with \<open>lost \<le> total\<close> is processed
  without a panic, the estimate stays within 0 and 1 in spite of the rounding of every operation, and
  the burst window holds exactly the outcomes of the last \<open>burst_capacity\<close> packets.\<close>

theorem loss_estimate_in_unit_interval:
  assumes "0 \<le> l" "l \<le> 1" "f32 l = l" "0 < cap"
    and "pred_option (\<lambda>(q, r). 0 \<le> q \<and> 0 < r \<and> f32 r = r) kq"
    and "list_all (\<lambda>(lost, tot). lost \<le> tot) rs"
  shows "\<exists>e. report_all rs (LossEstimator_new l cap (map_option (\<lambda>(q, r). KalmanFilter_new q r) kq)) = Some e \<and>
           0 \<le> get_estimated_loss e \<and> get_estimated_loss e \<le> 1 \<and>
           burst_window e = drop (length (concat (map outcomes rs)) - cap) (concat (map outcomes rs))"
proof -
  let ?kf = "map_option (\<lambda>(q, r). KalmanFilter_new q r) kq"
  let ?e = "LossEstimator_new l cap ?kf"
  have "pred_option kf_ok ?kf" using assms(5) by (cases kq) (auto intro: kf_new_ok)
  then have "est_ok ?e" using assms by (intro est_new_ok) simp_all
  from report_all_ok[OF this assms(6)] obtain e where e: "report_all rs ?e = Some e" "est_ok e"
    "burst_window e = burst_window (fold push_outcome (concat (map outcomes rs)) ?e)" by blast
  moreover have "burst_window (fold push_outcome (concat (map outcomes rs)) ?e) =
      drop (length (concat (map outcomes rs)) - cap) (concat (map outcomes rs))"
    using burst.contents_fold[of ?e "concat (map outcomes rs)"] assms(4) by (simp add: LossEstimator_new_def)
  ultimately show ?thesis using get_estimated_loss_unit[of e] by auto
qed

theorem loss_estimate_in_unit_interval_witness:
  "\<exists>e. report_all [(1, 4), (2, 2)] (LossEstimator_new (1 / 2) 3 (Some (KalmanFilter_new 0 (1 / 2)))) = Some e \<and>
     0 \<le> get_estimated_loss e \<and> get_estimated_loss e \<le> 1 \<and> burst_window e = [False, True, True]"
  using loss_estimate_in_unit_interval[of "1 / 2" 3 "Some (0, 1 / 2)" "[(1, 4), (2, 2)]"]
  by (simp add: outcomes_def numeral_eq_Suc)

end
