(* ===== verification/Adaptive_Fec.thy ===== *)
theory Adaptive_Fec
  imports Mode_Manager Loss_Estimator
begin

text \<open>
  The adaptive FEC layer (\<open>AdaptiveFec\<close> of \<open>src/src/fec/adaptive.rs\<close>): loss estimator, mode manager, the current
  encoder and decoder and, for a cross-fade after a mode or window change, the previous pair.

  The pool is a field of the state. A codec that is replaced or released drops the packets it holds,
  which go back to the pool. \<open>nd\<close> is the NUMA node of the calling thread and \<open>g\<close> the global
  arithmetic tables.
\<close>

record AdaptiveFec =
  estimator :: LossEstimator
  mode_mgr :: ModeManager
  encoder :: EncoderVariant
  decoder :: DecoderVariant
  transition_encoder :: "EncoderVariant option"
  transition_decoder :: "DecoderVariant option"
  transition_left :: nat
  mem_pool :: MemoryPool
  fec_config :: FecConfig

definition AdaptiveFec_new :: "nat \<Rightarrow> FecConfig \<Rightarrow> MemoryPool \<Rightarrow> gf_env \<Rightarrow> AdaptiveFec \<times> gf_env" where
  "AdaptiveFec_new now cfg p g =
     (let mgr = ModeManager_new now (cfg_pid cfg) (cfg_hysteresis cfg) (initial_mode cfg) (cfg_window_sizes cfg);
          (k, n) = params_for (current_mode mgr) (current_window mgr)
      in (\<lparr>estimator = LossEstimator_new (cfg_lambda cfg) (cfg_burst_window cfg)
             (if kalman_enabled cfg then Some (KalmanFilter_new (kalman_q cfg) (kalman_r cfg)) else None),
           mode_mgr = mgr,
           encoder = EncoderVariant_new (current_mode mgr) k n,
           decoder = DecoderVariant_new (current_mode mgr) k,
           transition_encoder = None, transition_decoder = None, transition_left = 0,
           mem_pool = p, fec_config = cfg\<rparr>, init_gf_tables g))"

definition AdaptiveFec_current_mode :: "AdaptiveFec \<Rightarrow> FecMode" where
  "AdaptiveFec_current_mode f = current_mode (mode_mgr f)"

definition is_transitioning :: "AdaptiveFec \<Rightarrow> bool" where
  "is_transitioning f \<longleftrightarrow> transition_left f > 0"

text \<open>Releasing a codec.\<close>

definition drop_packets :: "nat \<Rightarrow> Packet list \<Rightarrow> MemoryPool \<Rightarrow> MemoryPool" where
  "drop_packets nd pks p = fold (drop_packet nd) pks p"

fun drop_encoder :: "nat \<Rightarrow> EncoderVariant option \<Rightarrow> MemoryPool \<Rightarrow> MemoryPool" where
  "drop_encoder nd None p = p"
| "drop_encoder nd (Some (EncG8 e)) p = drop_packets nd (source_window e) p"
| "drop_encoder nd (Some (EncG16 e)) p = drop_packets nd (source_window16 e) p"

fun drop_decoder :: "nat \<Rightarrow> DecoderVariant option \<Rightarrow> MemoryPool \<Rightarrow> MemoryPool" where
  "drop_decoder nd None p = p"
| "drop_decoder nd (Some (DecG8 d)) p = drop_packets nd (List.map_filter id (systematic_packets d)) p"
| "drop_decoder nd (Some (DecG16 d)) p = p"

fun encoder_params :: "EncoderVariant \<Rightarrow> nat \<times> nat" where
  "encoder_params (EncG8 e) = (enc_k e, enc_n e)"
| "encoder_params (EncG16 e) = (enc16_k e, enc16_n e)"

definition emit_repairs ::
  "gf_env \<Rightarrow> nat \<Rightarrow> EncoderVariant \<Rightarrow> MemoryPool \<times> Packet list \<Rightarrow> (MemoryPool \<times> Packet list) option" where
  "emit_repairs g nd enc s =
     (let (k, n) = encoder_params enc;
          num_repair = n - k
      in ofold (\<lambda>i (p, q). do {
           (r, p) \<leftarrow> EncoderVariant_generate_repair_packet g nd enc i p;
           Some (p, q @ (case r of None \<Rightarrow> [] | Some pk \<Rightarrow> [pk])) }) [0..<num_repair] s)"

text \<open>A clone of the packet is added to an encoder.\<close>

definition feed :: "nat \<Rightarrow> Packet \<Rightarrow> EncoderVariant \<Rightarrow> MemoryPool \<Rightarrow> (EncoderVariant \<times> MemoryPool) option" where
  "feed nd pkt enc p = do {
     (c, p) \<leftarrow> clone_for_encoder nd pkt p;
     Some (EncoderVariant_add_source_packet nd c (enc, p)) }"

text \<open>The end of \<open>on_send\<close>: one step of the cross-fade.\<close>

definition fade_step :: "nat \<Rightarrow> MemoryPool \<Rightarrow> AdaptiveFec \<Rightarrow> AdaptiveFec" where
  "fade_step nd p f =
     (if transition_left f > 0
      then let f = f\<lparr>transition_left := transition_left f - 1\<rparr>
           in if transition_left f = CROSS_FADE_LEN div 2
              then f\<lparr>transition_encoder := None, transition_decoder := None,
                     mem_pool := drop_decoder nd (transition_decoder f) (drop_encoder nd (transition_encoder f) p)\<rparr>
              else f\<lparr>mem_pool := p\<rparr>
      else f\<lparr>mem_pool := p\<rparr>)"

definition on_send ::
  "gf_env \<Rightarrow> nat \<Rightarrow> Packet \<Rightarrow> AdaptiveFec \<Rightarrow> Packet list \<Rightarrow> (AdaptiveFec \<times> Packet list) option" where
  "on_send g nd pkt f q = do {
     let p = mem_pool f;
     (te, p) \<leftarrow> (case transition_encoder f of
                  None \<Rightarrow> Some (None, p)
                | Some enc \<Rightarrow> do { (enc, p) \<leftarrow> feed nd pkt enc p; Some (Some enc, p) });
     (enc, p) \<leftarrow> feed nd pkt (encoder f) p;
     let q = q @ [pkt];
     (p, q) \<leftarrow> (if transition_left f > CROSS_FADE_LEN div 2
                then (case te of None \<Rightarrow> Some (p, q) | Some tenc \<Rightarrow> emit_repairs g nd tenc (p, q))
                else Some (p, q));
     (p, q) \<leftarrow> emit_repairs g nd enc (p, q);
     Some (fade_step nd p (f\<lparr>transition_encoder := te, encoder := enc\<rparr>), q) }"

text \<open>A packet goes to a decoder; what it hands out when it just became decoded.\<close>

definition receive_with ::
  "gf_env \<Rightarrow> nat \<Rightarrow> Packet \<Rightarrow> DecoderVariant \<Rightarrow> MemoryPool \<Rightarrow>
   ((string + Packet list) \<times> DecoderVariant \<times> MemoryPool) option" where
  "receive_with g nd pkt d p = do {
     let was_decoded = DecoderVariant_is_decoded d;
     (r, d, p) \<leftarrow> DecoderVariant_add_packet g nd pkt d p;
     Some (case r of
             Inl e \<Rightarrow> (Inl e, d, p)
           | Inr is_now_decoded \<Rightarrow>
               if \<not> was_decoded \<and> is_now_decoded
               then let (pks, d) = DecoderVariant_get_decoded_packets d in (Inr pks, d, p)
               else (Inr [], d, p)) }"

text \<open>The clone goes to the decoder of the fading codec, if both exist; otherwise it is dropped.\<close>

definition receive_transition ::
  "gf_env \<Rightarrow> nat \<Rightarrow> Packet option \<Rightarrow> DecoderVariant option \<Rightarrow> Packet list \<Rightarrow> MemoryPool \<Rightarrow>
   ((string + Packet list) \<times> DecoderVariant option \<times> MemoryPool) option" where
  "receive_transition g nd pkt_clone trans_dec rec p =
     (case (trans_dec, pkt_clone) of
        (Some td, Some c) \<Rightarrow> do {
          (r, td, p) \<leftarrow> receive_with g nd c td p;
          Some (case r of
                  Inl e \<Rightarrow> (Inl e, Some td, drop_packets nd rec p)
                | Inr rec2 \<Rightarrow> (Inr (rec @ rec2), Some td, p)) }
      | (td, c) \<Rightarrow> Some (Inr rec, td, drop_packets nd (case c of None \<Rightarrow> [] | Some c \<Rightarrow> [c]) p))"

definition on_receive ::
  "gf_env \<Rightarrow> nat \<Rightarrow> Packet \<Rightarrow> AdaptiveFec \<Rightarrow> ((string + Packet list) \<times> AdaptiveFec) option" where
  "on_receive g nd pkt f = do {
     (pkt_clone, p) \<leftarrow> (if transition_left f > CROSS_FADE_LEN div 2
                         then do { (c, p) \<leftarrow> clone_for_encoder nd pkt (mem_pool f); Some (Some c, p) }
                         else Some (None, mem_pool f));
     (r, d, p) \<leftarrow> receive_with g nd pkt (decoder f) p;
     let f = f\<lparr>decoder := d\<rparr>;
     case r of
       Inl e \<Rightarrow> Some (Inl e, f\<lparr>mem_pool := drop_packets nd (case pkt_clone of None \<Rightarrow> [] | Some c \<Rightarrow> [c]) p\<rparr>)
     | Inr rec \<Rightarrow> do {
         (r, td, p) \<leftarrow> receive_transition g nd pkt_clone (transition_decoder f) rec p;
         Some (r, f\<lparr>transition_decoder := td, mem_pool := p\<rparr>) } }"

definition AdaptiveFec_report_loss :: "nat \<Rightarrow> clock \<Rightarrow> nat \<Rightarrow> nat \<Rightarrow> AdaptiveFec \<Rightarrow> AdaptiveFec option" where
  "AdaptiveFec_report_loss nd clk lost tot f = do {
     est \<leftarrow> LossEstimator_report_loss lost tot (estimator f);
     let estimated_loss = get_estimated_loss est;
     ((new_mode, new_window, prev), mgr) \<leftarrow> ModeManager_update clk estimated_loss (mode_mgr f);
     let (k, n) = params_for new_mode new_window;
     let f = f\<lparr>estimator := est, mode_mgr := mgr\<rparr>;
     Some (case prev of
             Some (old_mode, old_window) \<Rightarrow>
               f\<lparr>transition_encoder := Some (encoder f), encoder := EncoderVariant_new new_mode k n,
                 transition_decoder := Some (decoder f), decoder := DecoderVariant_new new_mode k,
                 transition_left := CROSS_FADE_LEN,
                 mem_pool := drop_decoder nd (transition_decoder f)
                               (drop_encoder nd (transition_encoder f) (mem_pool f))\<rparr>
           | None \<Rightarrow>
               f\<lparr>encoder := EncoderVariant_new new_mode k n, decoder := DecoderVariant_new new_mode k,
                 mem_pool := drop_decoder nd (Some (decoder f)) (drop_encoder nd (Some (encoder f)) (mem_pool f))\<rparr>) }"

subsection \<open>What the codecs keep\<close>

fun dvariant_k :: "DecoderVariant \<Rightarrow> nat" where
  "dvariant_k (DecG8 d) = dec_k d"
| "dvariant_k (DecG16 d) = dec16_k d"

fun dvariant_is_16 :: "DecoderVariant \<Rightarrow> bool" where
  "dvariant_is_16 (DecG8 d) = False"
| "dvariant_is_16 (DecG16 d) = True"

fun variant_is_16 :: "EncoderVariant \<Rightarrow> bool" where
  "variant_is_16 (EncG8 e) = False"
| "variant_is_16 (EncG16 e) = True"

lemma try_decode_k: "try_decode g nd d p = Some (b, d', p') \<Longrightarrow> dec_k d' = dec_k d"
  by (auto simp: try_decode_def gaussian_elimination_def wiedemann_algorithm_def Let_def
      split: if_splits DecodingStrategy.splits Option.bind_splits)

lemma add_packet_k: "Decoder_add_packet g nd pk d p = Some (r, d', p') \<Longrightarrow> dec_k d' = dec_k d"
  by (auto simp: Decoder_add_packet_def Let_def dest!: try_decode_k split: if_splits option.splits Option.bind_splits)

lemma try_decode16_k: "Decoder16_try_decode d = Some (b, d') \<Longrightarrow> dec16_k d' = dec16_k d"
  by (auto simp: Decoder16_try_decode_def Let_def split: if_splits Option.bind_splits)

lemma add_packet16_k: "Decoder16_add_packet nd pk d p = Some (r, d', p') \<Longrightarrow> dec16_k d' = dec16_k d"
  by (auto simp: Decoder16_add_packet_def Let_def dest!: try_decode16_k split: if_splits option.splits Option.bind_splits)

lemma dvariant_add_keeps:
  "DecoderVariant_add_packet g nd pk d p = Some (r, d', p') \<Longrightarrow>
   dvariant_k d' = dvariant_k d \<and> dvariant_is_16 d' = dvariant_is_16 d"
  by (cases d) (auto dest: add_packet_k add_packet16_k)

lemma dvariant_get_keeps [simp]:
  "dvariant_k (snd (DecoderVariant_get_decoded_packets d)) = dvariant_k d"
  "dvariant_is_16 (snd (DecoderVariant_get_decoded_packets d)) = dvariant_is_16 d"
  by (cases d; simp add: Decoder_get_decoded_packets_def Decoder16_get_decoded_packets_def)+

lemma receive_with_keeps:
  "receive_with g nd pk d p = Some (r, d', p') \<Longrightarrow>
   dvariant_k d' = dvariant_k d \<and> dvariant_is_16 d' = dvariant_is_16 d"
proof -
  assume r: "receive_with g nd pk d p = Some (r, d', p')"
  then obtain r1 d1 p1 where a: "DecoderVariant_add_packet g nd pk d p = Some (r1, d1, p1)"
    by (auto simp: receive_with_def Option.bind_eq_Some_conv)
  with r have "d' = d1 \<or> d' = snd (DecoderVariant_get_decoded_packets d1)"
    by (cases r1) (auto simp: receive_with_def case_prod_beta split: if_splits)
  then show ?thesis using dvariant_add_keeps[OF a] by auto
qed

lemma variant_add_keeps:
  "EncoderVariant_add_source_packet nd pk (e, p) = (e', p') \<Longrightarrow>
   variant_k e' = variant_k e \<and> variant_is_16 e' = variant_is_16 e"
  using variant_window.cap_add[of nd pk "(e, p)"] by (cases e) (auto simp: apfst_def map_prod_def split: prod.splits)

lemma feed_keeps:
  "feed nd pk e p = Some (e', p') \<Longrightarrow> variant_k e' = variant_k e \<and> variant_is_16 e' = variant_is_16 e"
  by (auto simp: feed_def dest: variant_add_keeps split: Option.bind_splits)

lemma variant_add_params: "encoder_params (fst (EncoderVariant_add_source_packet nd pk (e, p))) = encoder_params e"
  by (cases e) (simp_all add: Encoder_add_source_packet_def Encoder16_add_source_packet_def Let_def split: list.split)

lemma feed_params: "feed nd pk e p = Some (e', p') \<Longrightarrow> encoder_params e' = encoder_params e"
  using variant_add_params[of nd _ e] by (auto simp: feed_def Option.bind_eq_Some_conv) (metis fst_conv)

definition same_rate :: "EncoderVariant \<Rightarrow> EncoderVariant \<Rightarrow> bool" where
  "same_rate e e' \<longleftrightarrow> encoder_params e' = encoder_params e \<and> variant_is_16 e' = variant_is_16 e"

lemma feed_rate: "feed nd pk e p = Some (e', p') \<Longrightarrow> same_rate e e'"
  using feed_params feed_keeps by (simp add: same_rate_def)

lemma variant_new_simps [simp]:
  "variant_k (EncoderVariant_new mode k n) = k" "variant_is_16 (EncoderVariant_new mode k n) \<longleftrightarrow> mode = Extreme"
  "dvariant_k (DecoderVariant_new mode k) = k" "dvariant_is_16 (DecoderVariant_new mode k) \<longleftrightarrow> mode = Extreme"
  "encoder_params (EncoderVariant_new mode k n) = (k, n)"
  by (simp_all add: EncoderVariant_new_def DecoderVariant_new_def Encoder_new_def Encoder16_new_def
      Decoder_new_def Decoder16_new_def)

lemma params_for_fst [simp]: "fst (params_for mode w) = w"
  by (simp add: params_for_def)

subsection \<open>Reachable states\<close>

text \<open>A configuration the constructor may be called with: accepted by \<open>validate\<close>, its numbers
  single-precision.\<close>

definition config_ok :: "FecConfig \<Rightarrow> bool" where
  "config_ok cfg \<longleftrightarrow> FecConfig_validate cfg = Inr () \<and> f32 (cfg_lambda cfg) = cfg_lambda cfg \<and>
     f32 (kalman_r cfg) = kalman_r cfg"

inductive fec_reach :: "AdaptiveFec \<Rightarrow> bool" where
  fec_new: "config_ok cfg \<Longrightarrow> fec_reach (fst (AdaptiveFec_new now cfg p g))"
| fec_send: "fec_reach f \<Longrightarrow> on_send g nd pkt f q = Some (f', q') \<Longrightarrow> fec_reach f'"
| fec_receive: "fec_reach f \<Longrightarrow> on_receive g nd pkt f = Some (r, f') \<Longrightarrow> fec_reach f'"
| fec_report: "fec_reach f \<Longrightarrow> AdaptiveFec_report_loss nd clk lost tot f = Some f' \<Longrightarrow> fec_reach f'"
| fec_pool: "fec_reach f \<Longrightarrow> fec_reach (f\<lparr>mem_pool := p\<rparr>)"

text \<open>The last rule stands for what the other owners of the shared pool do with it.\<close>

text \<open>The old codec exists exactly in the first half of a cross-fade, and the current codec is the one
  the mode manager asks for.\<close>

definition fade_ok :: "AdaptiveFec \<Rightarrow> bool" where
  "fade_ok f \<longleftrightarrow> transition_left f \<le> CROSS_FADE_LEN \<and>
     (transition_encoder f \<noteq> None \<longleftrightarrow> CROSS_FADE_LEN div 2 < transition_left f) \<and>
     (transition_decoder f \<noteq> None \<longleftrightarrow> CROSS_FADE_LEN div 2 < transition_left f)"

definition codec_ok :: "AdaptiveFec \<Rightarrow> bool" where
  "codec_ok f \<longleftrightarrow> variant_k (encoder f) = current_window (mode_mgr f) \<and>
     dvariant_k (decoder f) = current_window (mode_mgr f) \<and>
     (variant_is_16 (encoder f) \<longleftrightarrow> current_mode (mode_mgr f) = Extreme) \<and>
     (dvariant_is_16 (decoder f) \<longleftrightarrow> current_mode (mode_mgr f) = Extreme)"

definition fec_inv :: "AdaptiveFec \<Rightarrow> bool" where
  "fec_inv f \<longleftrightarrow> fade_ok f \<and> codec_ok f \<and> est_ok (estimator f) \<and> mgr_ok (mode_mgr f)"

lemma config_est_ok:
  "config_ok cfg \<Longrightarrow> est_ok (LossEstimator_new (cfg_lambda cfg) (cfg_burst_window cfg)
     (if kalman_enabled cfg then Some (KalmanFilter_new (kalman_q cfg) (kalman_r cfg)) else None))"
  by (rule est_new_ok)
     (auto simp: config_ok_def FecConfig_validate_def intro!: kf_new_ok split: if_splits)

lemma new_inv: "config_ok cfg \<Longrightarrow> fec_inv (fst (AdaptiveFec_new now cfg p g))"
  by (simp add: fec_inv_def fade_ok_def codec_ok_def AdaptiveFec_new_def Let_def config_est_ok mgr_new_ok
      CROSS_FADE_LEN_def case_prod_beta)

text \<open>What a send changes.\<close>

lemma on_send_effect:
  assumes "on_send g nd pkt f q = Some (f', q')"
  shows "\<exists>te p1 enc p2 p. (te = None \<longleftrightarrow> transition_encoder f = None) \<and>
           rel_option same_rate (transition_encoder f) te \<and> feed nd pkt (encoder f) p1 = Some (enc, p2) \<and>
           f' = fade_step nd p (f\<lparr>transition_encoder := te, encoder := enc\<rparr>)"
proof (cases "transition_encoder f")
  case None
  with assms obtain enc p2 p where
    "feed nd pkt (encoder f) (mem_pool f) = Some (enc, p2)" "f' = fade_step nd p (f\<lparr>transition_encoder := None, encoder := enc\<rparr>)"
    unfolding on_send_def Let_def by (auto simp: Option.bind_eq_Some_conv split: if_splits)
  with None show ?thesis
    by (intro exI[of _ None] exI[of _ "mem_pool f"] exI[of _ enc] exI[of _ p2] exI[of _ p]) simp
next
  case (Some tenc)
  with assms obtain te p0 p1 enc p2 p where "feed nd pkt tenc p0 = Some (te, p1)"
    "feed nd pkt (encoder f) p1 = Some (enc, p2)" "f' = fade_step nd p (f\<lparr>transition_encoder := Some te, encoder := enc\<rparr>)"
    unfolding on_send_def Let_def by (auto simp: Option.bind_eq_Some_conv split: if_splits)
  with Some feed_rate show ?thesis
    by (intro exI[of _ "Some te"] exI[of _ p1] exI[of _ enc] exI[of _ p2] exI[of _ p]) simp
qed

lemma fade_step_keeps [simp]:
  "estimator (fade_step nd p f) = estimator f" "mode_mgr (fade_step nd p f) = mode_mgr f"
  "encoder (fade_step nd p f) = encoder f" "decoder (fade_step nd p f) = decoder f"
  "transition_left (fade_step nd p f) = transition_left f - 1"
  by (simp_all add: fade_step_def Let_def)

lemma fade_step_ok: "fade_ok f \<Longrightarrow> fade_ok (fade_step nd p f)"
  by (auto simp: fade_ok_def fade_step_def Let_def CROSS_FADE_LEN_def)

lemma on_send_inv:
  assumes "fec_inv f" "on_send g nd pkt f q = Some (f', q')"
  shows "fec_inv f'"
proof -
  obtain te p1 enc p2 p where e: "te = None \<longleftrightarrow> transition_encoder f = None" "rel_option same_rate (transition_encoder f) te"
    "feed nd pkt (encoder f) p1 = Some (enc, p2)" "f' = fade_step nd p (f\<lparr>transition_encoder := te, encoder := enc\<rparr>)"
    using on_send_effect[OF assms(2)] by (elim exE conjE) (rule that)
  have "fade_ok (f\<lparr>transition_encoder := te, encoder := enc\<rparr>)"
    using assms(1) e(1) by (auto simp: fec_inv_def fade_ok_def)
  then show ?thesis
    using assms(1) feed_keeps[OF e(3)] by (simp add: e(4) fec_inv_def codec_ok_def fade_step_ok)
qed

lemma receive_transition_None:
  "receive_transition g nd c td rec p = Some (r, td', p') \<Longrightarrow> td' = None \<longleftrightarrow> td = None"
  by (cases td; cases c; clarsimp simp: receive_transition_def Option.bind_eq_Some_conv) (auto split: sum.split_asm)

lemma on_receive_effect:
  assumes "on_receive g nd pkt f = Some (r, f')"
  shows "\<exists>p1 r1 d p2 td p. receive_with g nd pkt (decoder f) p1 = Some (r1, d, p2) \<and>
           (td = None \<longleftrightarrow> transition_decoder f = None) \<and>
           f' = f\<lparr>decoder := d, transition_decoder := td, mem_pool := p\<rparr>"
proof -
  from assms obtain pc p1 where pc: "(if transition_left f > CROSS_FADE_LEN div 2
      then do { (c, p) \<leftarrow> clone_for_encoder nd pkt (mem_pool f); Some (Some c, p) }
      else Some (None, mem_pool f)) = Some (pc, p1)"
    unfolding on_receive_def by (auto simp: Option.bind_eq_Some_conv)
  with assms obtain r1 d p2 where r1: "receive_with g nd pkt (decoder f) p1 = Some (r1, d, p2)"
    unfolding on_receive_def by (auto simp: Option.bind_eq_Some_conv)
  have f': "(case r1 of
       Inl e \<Rightarrow> Some (Inl e, f\<lparr>decoder := d, mem_pool := drop_packets nd (case pc of None \<Rightarrow> [] | Some c \<Rightarrow> [c]) p2\<rparr>)
     | Inr rec \<Rightarrow> do {
         (r, td, p) \<leftarrow> receive_transition g nd pc (transition_decoder f) rec p2;
         Some (r, f\<lparr>decoder := d, transition_decoder := td, mem_pool := p\<rparr>) }) = Some (r, f')"
    using assms unfolding on_receive_def pc Let_def by (cases r1) (auto simp: r1)
  show ?thesis
  proof (cases r1)
    case (Inl e)
    then have "f' = f\<lparr>decoder := d, transition_decoder := transition_decoder f,
        mem_pool := drop_packets nd (case pc of None \<Rightarrow> [] | Some c \<Rightarrow> [c]) p2\<rparr>"
      using f' by simp
    with r1 show ?thesis
      by (intro exI[of _ p1] exI[of _ r1] exI[of _ d] exI[of _ p2] exI[of _ "transition_decoder f"] exI) simp
  next
    case (Inr rec)
    then obtain td p where "receive_transition g nd pc (transition_decoder f) rec p2 = Some (r, td, p)"
      "f' = f\<lparr>decoder := d, transition_decoder := td, mem_pool := p\<rparr>"
      using f' by (auto simp: Option.bind_eq_Some_conv)
    with r1 receive_transition_None show ?thesis
      by (intro exI[of _ p1] exI[of _ r1] exI[of _ d] exI[of _ p2] exI[of _ td] exI[of _ p]) simp
  qed
qed

lemma on_receive_inv:
  assumes "fec_inv f" "on_receive g nd pkt f = Some (r, f')"
  shows "fec_inv f'"
proof -
  obtain p1 r1 d p2 td p where e: "receive_with g nd pkt (decoder f) p1 = Some (r1, d, p2)"
    "td = None \<longleftrightarrow> transition_decoder f = None" "f' = f\<lparr>decoder := d, transition_decoder := td, mem_pool := p\<rparr>"
    using on_receive_effect[OF assms(2)] by (elim exE conjE) (rule that)
  then show ?thesis
    using assms(1) receive_with_keeps[OF e(1)] by (simp add: fec_inv_def codec_ok_def fade_ok_def)
qed

lemma report_loss_inv:
  assumes f: "fec_inv f" and l: "lost \<le> tot"
  shows "\<exists>f'. AdaptiveFec_report_loss nd clk lost tot f = Some f' \<and> fec_inv f'"
proof -
  obtain est where est: "LossEstimator_report_loss lost tot (estimator f) = Some est" "est_ok est"
    using report_loss_ok[OF _ l, of "estimator f"] f by (auto simp: fec_inv_def)
  obtain mode w prev mgr where u: "ModeManager_update clk (get_estimated_loss est) (mode_mgr f) = Some ((mode, w, prev), mgr)"
    "current_mode mgr = mode" "current_window mgr = w" "mgr_ok mgr"
    using mode_update_total[of "mode_mgr f" clk "get_estimated_loss est"] f by (auto simp: fec_inv_def)
  show ?thesis
    using est u f
    by (cases prev)
       (simp_all add: AdaptiveFec_report_loss_def case_prod_beta fec_inv_def fade_ok_def codec_ok_def CROSS_FADE_LEN_def)
qed

lemma report_loss_panics: "tot < lost \<Longrightarrow> AdaptiveFec_report_loss nd clk lost tot f = None"
  using report_loss_panic[of lost tot "estimator f"] by (simp add: AdaptiveFec_report_loss_def)

lemma fec_reach_inv: "fec_reach f \<Longrightarrow> fec_inv f"
proof (induction rule: fec_reach.induct)
  case (fec_new cfg now p g)
  then show ?case by (rule new_inv)
next
  case (fec_send f g nd pkt q f' q')
  then show ?case using on_send_inv by blast
next
  case (fec_receive f g nd pkt r f')
  then show ?case using on_receive_inv by blast
next
  case (fec_report f nd clk lost tot f')
  then have "lost \<le> tot" using report_loss_panics[of tot lost nd clk f] by (cases "tot < lost") auto
  with fec_report show ?case using report_loss_inv[of f lost tot nd clk] by auto
next
  case (fec_pool f p)
  then show ?case by (simp add: fec_inv_def fade_ok_def codec_ok_def)
qed

subsection \<open>What a send emits\<close>

lemma variant_repair_not_systematic:
  "EncoderVariant_generate_repair_packet g nd enc i p = Some (Some pk, p') \<Longrightarrow> \<not> is_systematic pk"
  by (cases enc)
     (auto simp: Encoder_generate_repair_packet_def Encoder16_generate_repair_packet_def Let_def
       Option.bind_eq_Some_conv split: if_splits)

lemma emit_loop:
  assumes "ofold (\<lambda>i (p, q). do {
      (r, p) \<leftarrow> EncoderVariant_generate_repair_packet g nd enc i p;
      Some (p, q @ (case r of None \<Rightarrow> [] | Some pk \<Rightarrow> [pk])) }) is (p, q) = Some (p', q')"
  shows "\<exists>rs. q' = q @ rs \<and> list_all (\<lambda>pk. \<not> is_systematic pk) rs \<and> length rs \<le> length is"
  using assms
proof (induction "is" arbitrary: p q)
  case (Cons i "is")
  then obtain r p1 where r: "EncoderVariant_generate_repair_packet g nd enc i p = Some (r, p1)"
    by (auto simp: Option.bind_eq_Some_conv)
  define new where "new = (case r of None \<Rightarrow> [] | Some pk \<Rightarrow> [pk])"
  have "list_all (\<lambda>pk. \<not> is_systematic pk) new" "length new \<le> 1"
    using variant_repair_not_systematic[of g nd enc i p] r by (auto simp: new_def split: option.split)
  moreover obtain rs where "q' = (q @ new) @ rs" "list_all (\<lambda>pk. \<not> is_systematic pk) rs" "length rs \<le> length is"
    using Cons.IH[of p1 "q @ new"] Cons.prems r by (auto simp: new_def)
  ultimately show ?case by (intro exI[of _ "new @ rs"]) simp
qed simp

lemma emit_repairs_queue:
  assumes "emit_repairs g nd enc (p, q) = Some (p', q')"
  shows "\<exists>rs. q' = q @ rs \<and> list_all (\<lambda>pk. \<not> is_systematic pk) rs \<and>
           length rs \<le> snd (encoder_params enc) - fst (encoder_params enc)"
  using emit_loop[of g nd enc "[0..<snd (encoder_params enc) - fst (encoder_params enc)]" p q p' q'] assms
  by (auto simp: emit_repairs_def Let_def case_prod_beta)

definition num_repair :: "EncoderVariant \<Rightarrow> nat" where
  "num_repair e = snd (encoder_params e) - fst (encoder_params e)"

lemma on_send_queue:
  assumes "on_send g nd pkt f q = Some (f', q')"
  shows "\<exists>old new. q' = q @ pkt # old @ new \<and> list_all (\<lambda>pk. \<not> is_systematic pk) (old @ new) \<and>
     length new \<le> num_repair (encoder f) \<and>
     length old \<le> (if CROSS_FADE_LEN div 2 < transition_left f
                     then case transition_encoder f of None \<Rightarrow> 0 | Some e \<Rightarrow> num_repair e else 0)"
proof -
  obtain te p0 where te: "(case transition_encoder f of None \<Rightarrow> Some (None, mem_pool f)
      | Some enc \<Rightarrow> do { (enc, p) \<leftarrow> feed nd pkt enc (mem_pool f); Some (Some enc, p) }) = Some (te, p0)"
    using assms unfolding on_send_def Let_def by (auto simp: Option.bind_eq_Some_conv)
  obtain enc p1 where enc: "feed nd pkt (encoder f) p0 = Some (enc, p1)"
    using assms unfolding on_send_def Let_def te by (auto simp: Option.bind_eq_Some_conv)
  obtain p2 q2 where q2: "(if transition_left f > CROSS_FADE_LEN div 2
      then (case te of None \<Rightarrow> Some (p1, q @ [pkt]) | Some tenc \<Rightarrow> emit_repairs g nd tenc (p1, q @ [pkt]))
      else Some (p1, q @ [pkt])) = Some (p2, q2)"
    and "\<exists>p3. emit_repairs g nd enc (p2, q2) = Some (p3, q')"
    using assms unfolding on_send_def Let_def te by (auto simp: enc Option.bind_eq_Some_conv)
  then obtain p3 new where new: "q' = q2 @ new" "list_all (\<lambda>pk. \<not> is_systematic pk) new"
    "length new \<le> num_repair enc"
    using emit_repairs_queue[of g nd enc p2 q2] by (auto simp: num_repair_def)
  have "num_repair enc = num_repair (encoder f)" using feed_params[OF enc] by (simp add: num_repair_def)
  moreover have "\<exists>old. q2 = (q @ [pkt]) @ old \<and> list_all (\<lambda>pk. \<not> is_systematic pk) old \<and>
     length old \<le> (if CROSS_FADE_LEN div 2 < transition_left f
                     then case transition_encoder f of None \<Rightarrow> 0 | Some e \<Rightarrow> num_repair e else 0)"
  proof (cases "CROSS_FADE_LEN div 2 < transition_left f")
    case True
    show ?thesis
    proof (cases "transition_encoder f")
      case None
      then show ?thesis using te q2 by (auto split: if_splits)
    next
      case (Some e)
      then obtain tenc where "feed nd pkt e (mem_pool f) = Some (tenc, p0)" "te = Some tenc"
        using te by (auto simp: Option.bind_eq_Some_conv)
      then show ?thesis
        using q2 True Some emit_repairs_queue[of g nd tenc p1 "q @ [pkt]" p2 q2] feed_params[of nd pkt e _ tenc p0]
        by (simp add: num_repair_def)
    qed
  qed (use q2 in simp)
  then obtain old where "q2 = (q @ [pkt]) @ old" "list_all (\<lambda>pk. \<not> is_systematic pk) old"
     "length old \<le> (if CROSS_FADE_LEN div 2 < transition_left f
                     then case transition_encoder f of None \<Rightarrow> 0 | Some e \<Rightarrow> num_repair e else 0)" by blast
  ultimately show ?thesis using new by (intro exI[of _ old] exI[of _ new]) simp
qed

subsection \<open>The number of repair packets\<close>

text \<open>Every encoder of the layer has the rate of some mode.\<close>

definition rate_ok :: "EncoderVariant \<Rightarrow> bool" where
  "rate_ok e \<longleftrightarrow> (\<exists>mode w. encoder_params e = params_for mode w \<and> (variant_is_16 e \<longleftrightarrow> mode = Extreme))"

lemma rate_ok_new: "rate_ok (EncoderVariant_new mode k (snd (params_for mode k)))"
  by (auto simp: rate_ok_def intro!: exI[of _ mode] exI[of _ k] prod_eqI)

lemma rate_ok_same: "same_rate e e' \<Longrightarrow> rate_ok e \<Longrightarrow> rate_ok e'"
  by (simp add: rate_ok_def same_rate_def)

lemma fec_reach_rate:
  "fec_reach f \<Longrightarrow> rate_ok (encoder f) \<and> pred_option rate_ok (transition_encoder f)"
proof (induction rule: fec_reach.induct)
  case (fec_new cfg now p g)
  show ?case by (simp add: AdaptiveFec_new_def Let_def case_prod_beta rate_ok_new)
next
  case (fec_send f g nd pkt q f' q')
  obtain te p1 enc p2 p where e: "rel_option same_rate (transition_encoder f) te"
    "feed nd pkt (encoder f) p1 = Some (enc, p2)" "f' = fade_step nd p (f\<lparr>transition_encoder := te, encoder := enc\<rparr>)"
    using on_send_effect[OF fec_send.hyps(2)] by (elim exE conjE) (rule that)
  have "pred_option rate_ok te"
    using e(1) fec_send.IH rate_ok_same by (cases te; cases "transition_encoder f") auto
  with fec_send.IH rate_ok_same[OF feed_rate[OF e(2)]] show ?case
    by (auto simp: e(3)) (simp add: fade_step_def Let_def)
next
  case (fec_receive f g nd pkt r f')
  then show ?case using on_receive_effect[OF fec_receive.hyps(2)] by auto
next
  case (fec_report f nd clk lost tot f')
  then show ?case
    by (auto simp: AdaptiveFec_report_loss_def Option.bind_eq_Some_conv case_prod_beta Let_def rate_ok_new split: option.splits)
qed simp

text \<open>Outside the extreme mode a window of \<open>k \<ge> 2\<close> packets gets fewer than \<open>k\<close> repair packets.\<close>

lemma overhead_ratio_bound: "mode \<noteq> Extreme \<Longrightarrow> 0 \<le> overhead_ratio mode \<and> overhead_ratio mode \<le> 3 / 2"
proof -
  have "f32 (3 / 2) = 3 / 2" using f32_exact[of "3 / 2" 3 "- 1"] by (simp add: power_int_minus)
  then have "f32 x \<le> 3 / 2" if "x \<le> 3 / 2" for x using f32_mono[OF that] by simp
  then show "mode \<noteq> Extreme \<Longrightarrow> 0 \<le> overhead_ratio mode \<and> overhead_ratio mode \<le> 3 / 2"
    by (cases mode) (simp_all add: f32_nonneg)
qed

lemma params_below_twice:
  assumes "mode \<noteq> Extreme" "2 \<le> k" "k \<le> 2 ^ 23"
  shows "snd (params_for mode k) < 2 * k"
proof -
  let ?x = "usize_as_f32 k * overhead_ratio mode"
  have k: "usize_as_f32 k = real k" using assms(3) by (intro usize_as_f32_exact) simp
  have "?x \<le> real k * (3 / 2)"
    unfolding k using overhead_ratio_bound[OF assms(1)] by (intro mult_left_mono) simp_all
  also have "\<dots> \<le> of_int (2 * int k - 1)" using assms(2) by simp
  finally have "f32 ?x \<le> f32 (of_int (2 * int k - 1))" by (rule f32_mono)
  also have "\<dots> = of_int (2 * int k - 1)" using assms(2,3) by (intro f32_of_int) simp
  finally have "\<lceil>f32 ?x\<rceil> \<le> 2 * int k - 1" by (rule ceiling_le)
  then have "nat \<lceil>f32 ?x\<rceil> < 2 * k" using assms(2) by linarith
  then show ?thesis by (simp add: params_for_def f32_as_usize_def min_less_iff_disj)
qed

lemma few_repairs:
  assumes "rate_ok e" "\<not> variant_is_16 e" "2 \<le> variant_k e" "variant_k e \<le> 2 ^ 23"
  shows "num_repair e < variant_k e"
proof -
  obtain mode w where e: "encoder_params e = params_for mode w" "mode \<noteq> Extreme" using assms(1,2) by (auto simp: rate_ok_def)
  have "variant_k e = fst (encoder_params e)" by (cases e) simp_all
  with e assms(3,4) params_below_twice[OF e(2), of w] show ?thesis by (simp add: num_repair_def)
qed

subsection \<open>The zero mode\<close>

lemma num_repair_Zero: "num_repair (EncoderVariant_new Zero 0 (snd (params_for Zero 0))) = 0"
  by (simp add: num_repair_def EncoderVariant_new_def Encoder_new_def params_for_def usize_as_f32_def f32_as_usize_def)

lemma receive_with_k_0:
  "receive_with g nd pkt (DecG8 d) p = Some (Inr [], DecG8 d, drop_packet nd pkt p)" if "dec_k d = 0"
  using that by (simp add: receive_with_def Decoder_add_packet_def Let_def)

lemma on_receive_k_0:
  assumes "fec_reach f" "AdaptiveFec_current_mode f \<noteq> Extreme" "current_window (mode_mgr f) = 0" "transition_left f \<le> 16"
  shows "on_receive g nd pkt f = Some (Inr [], f\<lparr>mem_pool := drop_packet nd pkt (mem_pool f)\<rparr>)"
proof -
  have inv: "fade_ok f" "codec_ok f" using fec_reach_inv[OF assms(1)] by (simp_all add: fec_inv_def)
  then obtain d where d: "decoder f = DecG8 d" "dec_k d = 0"
    using assms(2,3) by (cases "decoder f") (auto simp: codec_ok_def AdaptiveFec_current_mode_def)
  moreover have "transition_decoder f = None" using inv(1) assms(4) by (auto simp: fade_ok_def CROSS_FADE_LEN_def)
  ultimately have "f\<lparr>decoder := DecG8 d, transition_decoder := None, mem_pool := p\<rparr> = f\<lparr>mem_pool := p\<rparr>" for p
    by (cases f) simp
  with \<open>transition_decoder f = None\<close> show ?thesis
    using d assms(4) by (simp add: on_receive_def receive_with_k_0 receive_transition_def drop_packets_def CROSS_FADE_LEN_def Let_def)
qed

text \<open>Without repair packets and outside a cross-fade a send only queues the packet.\<close>

lemma on_send_plain:
  assumes "pool_ok (mem_pool f)" "packet_ok (block_size (mem_pool f)) pkt" "data pkt \<noteq> None"
    "transition_encoder f = None" "num_repair (encoder f) = 0"
  shows "\<exists>f'. on_send g nd pkt f q = Some (f', q @ [pkt])"
proof -
  obtain c p1 where c: "clone_for_encoder nd pkt (mem_pool f) = Some (c, p1)"
    using clone_for_encoder_ok[OF assms(1,2)] assms(3) by blast
  obtain enc p2 where e: "EncoderVariant_add_source_packet nd c (encoder f, p1) = (enc, p2)" by fastforce
  then have feed: "feed nd pkt (encoder f) (mem_pool f) = Some (enc, p2)" using c by (simp add: feed_def)
  then have "emit_repairs g nd enc s = Some s" for s
    using feed_params[OF feed] assms(5) by (simp add: emit_repairs_def num_repair_def case_prod_beta Let_def)
  with feed assms(4) show ?thesis by (simp add: on_send_def Let_def)
qed

subsection \<open>Properties\<close>

text \<open>C26: in every state reachable from a validated configuration by sends, receptions, loss
  reports and any other use of the shared pool, the codec of the previous mode exists exactly during the first half of a cross-fade (more
  than 16 of at most 32 sends left); the current encoder and decoder have the window size of the mode
  manager and are 16-bit codecs exactly in the extreme mode; the loss estimate lies between 0 and 1; and a loss report with
  \<open>lost \<le> total\<close> does not panic.\<close>

theorem adaptive_fec_invariant:
  assumes "fec_reach f"
  shows "transition_left f \<le> 32 \<and>
         (transition_encoder f \<noteq> None \<longleftrightarrow> 16 < transition_left f) \<and>
         (transition_decoder f \<noteq> None \<longleftrightarrow> 16 < transition_left f) \<and>
         variant_k (encoder f) = current_window (mode_mgr f) \<and>
         dvariant_k (decoder f) = current_window (mode_mgr f) \<and>
         (variant_is_16 (encoder f) \<longleftrightarrow> AdaptiveFec_current_mode f = Extreme) \<and>
         (dvariant_is_16 (decoder f) \<longleftrightarrow> AdaptiveFec_current_mode f = Extreme) \<and>
         0 \<le> get_estimated_loss (estimator f) \<and> get_estimated_loss (estimator f) \<le> 1 \<and>
         (lost \<le> tot \<longrightarrow> AdaptiveFec_report_loss nd clk lost tot f \<noteq> None)"
proof -
  have inv: "fec_inv f" using fec_reach_inv[OF assms] .
  then have "fade_ok f" "codec_ok f" "est_ok (estimator f)" by (simp_all add: fec_inv_def)
  moreover have "lost \<le> tot \<longrightarrow> AdaptiveFec_report_loss nd clk lost tot f \<noteq> None"
    using report_loss_inv[OF inv, of lost tot nd clk] by auto
  ultimately show ?thesis
    using get_estimated_loss_unit[of "estimator f"]
    by (simp add: fade_ok_def codec_ok_def CROSS_FADE_LEN_def AdaptiveFec_current_mode_def)
qed

text \<open>The default configuration passes \<open>validate\<close>.\<close>

lemma config_ok_default: "config_ok FecConfig_default"
proof -
  have "f32 (2 / 100) \<le> f32 (1 / 2)" by (rule f32_mono) simp
  moreover have "0 \<le> f32 (1 / 10) \<and> f32 (1 / 10) \<le> 1" by (rule f32_unit) simp_all
  moreover have "0 \<le> f32 (2 / 100)" by (rule f32_nonneg) simp
  ultimately show ?thesis by (simp add: config_ok_def FecConfig_default_def FecConfig_validate_def)
qed

theorem adaptive_fec_invariant_witness:
  "variant_k (encoder (fst (AdaptiveFec_new 0 FecConfig_default (pool_new 1 4 8) std_env))) = 0 \<and>
   AdaptiveFec_report_loss 0 \<lparr>t_elapsed = 1, t_pid = 1, t_change = 1\<rparr> 1 2
     (fst (AdaptiveFec_new 0 FecConfig_default (pool_new 1 4 8) std_env)) \<noteq> None"
proof -
  let ?f = "fst (AdaptiveFec_new 0 FecConfig_default (pool_new 1 4 8) std_env)"
  have "current_window (mode_mgr ?f) = 0"
    by (simp add: AdaptiveFec_new_def Let_def case_prod_beta ModeManager_new_def FecConfig_default_def
        window_or_default_def default_windows_def)
  then show ?thesis
    using adaptive_fec_invariant[OF fec_new[OF config_ok_default, of 0 "pool_new 1 4 8" std_env], of 1 2 0
        "\<lparr>t_elapsed = 1, t_pid = 1, t_change = 1\<rparr>"]
    by simp
qed

text \<open>A layer with a window of 8 packets and no repair packets.\<close>

definition sample_fec :: AdaptiveFec where
  "sample_fec = fst (AdaptiveFec_new 0 (FecConfig_default\<lparr>cfg_window_sizes := [Zero \<mapsto> 8]\<rparr>) (pool_new 1 4 4) std_env)"

lemma sample_fec_simps:
  "encoder sample_fec = EncoderVariant_new Zero 8 (snd (params_for Zero 8))" "mem_pool sample_fec = pool_new 1 4 4"
  "transition_encoder sample_fec = None"
  by (simp_all add: sample_fec_def AdaptiveFec_new_def Let_def case_prod_beta ModeManager_new_def FecConfig_default_def
      window_or_default_def)

lemma sample_fec_reach: "fec_reach sample_fec"
  unfolding sample_fec_def using config_ok_default
  by (intro fec_new) (auto simp: config_ok_def FecConfig_validate_def split: if_splits)

lemma sample_on_send:
  "\<exists>f'. on_send std_env 0 (sample_source 7 [1, 2, 0, 0] 2) sample_fec [] = Some (f', [sample_source 7 [1, 2, 0, 0] 2])"
proof -
  let ?pkt = "sample_source 7 [1, 2, 0, 0] 2"
  have "usize_as_f32 8 = 8" using usize_as_f32_exact[of 8] by simp
  then have "num_repair (encoder sample_fec) = 0"
    using f32_of_int[of 8]
    by (simp only: sample_fec_simps(1) num_repair_def) (simp add: params_for_def f32_as_usize_def)
  moreover have "pool_ok (pool_new 1 4 4)" by (simp add: pool_ok_new)
  moreover have "packet_ok (block_size (pool_new 1 4 4)) ?pkt"
    by (simp add: packet_ok_def blk_ok_def sample_source_def pool_new_def)
  ultimately show ?thesis
    using on_send_plain[of sample_fec ?pkt std_env 0 "[]"] sample_fec_simps by (auto simp: sample_source_def)
qed

text \<open>C31: what a send of a reachable layer emits. \<open>on_send\<close>, when it returns, appends to the queue the packet itself, then
  at most \<open>n - k\<close> repair packets of the fading encoder (only in the first half of a cross-fade) and at most \<open>n - k\<close> of the
  current one; nothing it appends after the packet is a source packet. Outside the extreme mode \<open>n - k\<close> is less than
  \<open>k\<close> for every encoder with a window of two or more packets, so the repair packets of a window never suffice to
  reconstruct it by themselves.\<close>

theorem on_send_emits:
  assumes "fec_reach f" "on_send g nd pkt f q = Some (f', q')"
  shows "\<exists>old new. q' = q @ pkt # old @ new \<and> list_all (\<lambda>pk. \<not> is_systematic pk) (old @ new) \<and>
     length new \<le> num_repair (encoder f) \<and>
     length old \<le> (if CROSS_FADE_LEN div 2 < transition_left f
                     then case transition_encoder f of None \<Rightarrow> 0 | Some e \<Rightarrow> num_repair e else 0) \<and>
     (\<forall>e. (e = encoder f \<or> transition_encoder f = Some e) \<and> \<not> variant_is_16 e \<and> 2 \<le> variant_k e \<and>
        variant_k e \<le> 2 ^ 23 \<longrightarrow> num_repair e < variant_k e)"
proof -
  have "num_repair e < variant_k e" if "e = encoder f \<or> transition_encoder f = Some e" "\<not> variant_is_16 e"
    "2 \<le> variant_k e" "variant_k e \<le> 2 ^ 23" for e
    using that fec_reach_rate[OF assms(1)] by (intro few_repairs) auto
  with on_send_queue[OF assms(2)] show ?thesis by blast
qed

theorem on_send_emits_witness:
  "\<exists>f f' old new. on_send std_env 0 (sample_source 7 [1, 2, 0, 0] 2) f [] =
     Some (f', sample_source 7 [1, 2, 0, 0] 2 # old @ new) \<and> length new < variant_k (encoder f) \<and> variant_k (encoder f) = 8"
proof -
  let ?pkt = "sample_source 7 [1, 2, 0, 0] 2"
  obtain f' where send: "on_send std_env 0 ?pkt sample_fec [] = Some (f', [] @ [?pkt])"
    using sample_on_send by auto
  from on_send_emits[OF sample_fec_reach send] obtain old new where q: "[] @ [?pkt] = [] @ ?pkt # old @ new"
    "length new \<le> num_repair (encoder sample_fec)"
    "\<forall>e. (e = encoder sample_fec \<or> transition_encoder sample_fec = Some e) \<and> \<not> variant_is_16 e \<and> 2 \<le> variant_k e \<and>
        variant_k e \<le> 2 ^ 23 \<longrightarrow> num_repair e < variant_k e" by blast
  from spec[OF q(3), of "encoder sample_fec"] have "num_repair (encoder sample_fec) < variant_k (encoder sample_fec)"
    by (simp add: sample_fec_simps(1))
  with send q(1,2) show ?thesis
    by (intro exI[of _ sample_fec] exI[of _ f'] exI[of _ old] exI[of _ new]) (simp add: sample_fec_simps(1))
qed

text \<open>With an empty window (the default of the zero mode) and outside the first half of a cross-fade,
  the receiver delivers nothing: \<open>on_receive\<close> accepts every packet, also source packets, returns
  no packets and leaves the decoder as it is.\<close>

lemma zero_window_delivers_nothing:
  assumes "fec_reach f" "AdaptiveFec_current_mode f \<noteq> Extreme" "current_window (mode_mgr f) = 0" "transition_left f \<le> 16"
  shows "\<exists>f'. on_receive g nd pkt f = Some (Inr [], f') \<and> decoder f' = decoder f"
  using on_receive_k_0[OF assms, of g nd pkt] by auto

text \<open>A loss report that changes nothing still discards the running codec: in a reachable state, within
  the dwell time and below the emergency threshold, the report replaces the encoder and the decoder by
  empty ones, so that the packets collected so far can no longer be repaired.\<close>

lemma quiet_report_discards_window:
  assumes "fec_reach f" "t_elapsed clk - last_mode_change (mode_mgr f) < min_dwell_time (mode_mgr f)"
    and est: "LossEstimator_report_loss lost tot (estimator f) = Some est"
      "get_estimated_loss est \<le> f32 (threshold Strong + hysteresis (mode_mgr f))"
  shows "\<exists>f'. AdaptiveFec_report_loss nd clk lost tot f = Some f' \<and> mode_mgr f' = mode_mgr f \<and>
           encoder f' = EncoderVariant_new (AdaptiveFec_current_mode f) (variant_k (encoder f))
             (snd (params_for (AdaptiveFec_current_mode f) (variant_k (encoder f)))) \<and>
           variant_window (encoder f') = [] \<and>
           decoder f' = DecoderVariant_new (AdaptiveFec_current_mode f) (variant_k (encoder f))"
proof -
  have inv: "codec_ok f" "mgr_ok (mode_mgr f)" using fec_reach_inv[OF assms(1)] by (simp_all add: fec_inv_def)
  have u: "ModeManager_update clk (get_estimated_loss est) (mode_mgr f) =
      Some ((current_mode (mode_mgr f), current_window (mode_mgr f), None), mode_mgr f)"
    using inv(2) assms(2) est(2) by (simp add: ModeManager_update_def mgr_ok_def Let_def)
  have k: "variant_k (encoder f) = current_window (mode_mgr f)" using inv(1) by (simp add: codec_ok_def)
  have "variant_window (EncoderVariant_new mode k n) = []" for mode k n
    by (simp add: EncoderVariant_new_def Encoder_new_def Encoder16_new_def)
  then show ?thesis
    using est(1) u k by (simp add: AdaptiveFec_report_loss_def AdaptiveFec_current_mode_def case_prod_beta)
qed

end
