(* ===== verification/Crypto.thy ===== *)
theory Crypto
  imports Cpu_Dispatch
begin

text \<open>
  Cipher suites and their selection (\<open>src/src/crypto.rs\<close>).

  The ciphers come from the crates \<open>aegis\<close> and \<open>morus\<close>. They are parameters of the model: a
  record \<open>aead\<close> has the key and nonce sizes of a cipher and its two detached operations, and
  \<open>crypto_lib\<close> collects the four AEGIS variants and MORUS. What the code relies on is \<open>lib_ok\<close>: sealing
  succeeds for keys and nonces of the right size, gives a ciphertext with a 16-byte tag, and opening
  with the same key, nonce, associated data and tag returns the plaintext.

  An operation returns \<open>None\<close> for a panic (\<open>Nonce::from_slice\<close> on a nonce of the wrong size) and otherwise an
  error message or the bytes. The detector of CPU features is an argument.
\<close>

datatype CipherSuite = Aegis128X | Aegis128L | Aegis256 | Morus1280_128 | Morus1280_256 | SoftwareFallback

subsection \<open>The cipher crates\<close>

record aead =
  key_size :: nat
  nonce_size :: nat
  seal :: "bytes \<Rightarrow> bytes \<Rightarrow> bytes \<Rightarrow> bytes \<Rightarrow> (bytes \<times> bytes) option"
  unseal :: "bytes \<Rightarrow> bytes \<Rightarrow> bytes \<Rightarrow> bytes \<Rightarrow> bytes \<Rightarrow> bytes option"

record crypto_lib =
  aegis128x2 :: aead
  aegis128l :: aead
  aegis256x2 :: aead
  aegis256x4 :: aead
  morus_encrypt :: "bytes \<Rightarrow> bytes \<Rightarrow> bytes \<Rightarrow> bytes \<Rightarrow> bytes \<times> bytes"
  morus_decrypt :: "bytes \<Rightarrow> bytes \<Rightarrow> bytes \<Rightarrow> bytes \<Rightarrow> bytes \<Rightarrow> bytes option"

subsection \<open>The cipher implementations\<close>

text \<open>The common body of the AEGIS implementations.\<close>

definition aead_encrypt ::
  "aead \<Rightarrow> string \<Rightarrow> bytes \<Rightarrow> bytes \<Rightarrow> bytes \<Rightarrow> bytes \<Rightarrow> (string + bytes) option" where
  "aead_encrypt a key_err key nonce ad plaintext =
     (if length key \<noteq> key_size a then Some (Inl key_err)
      else if length nonce \<noteq> nonce_size a then None
      else Some (case seal a key nonce ad plaintext of
                   None \<Rightarrow> Inl ''Encryption failed''
                 | Some (buffer, tag) \<Rightarrow> Inr (buffer @ tag)))"

definition aead_decrypt ::
  "aead \<Rightarrow> string \<Rightarrow> bytes \<Rightarrow> bytes \<Rightarrow> bytes \<Rightarrow> bytes \<Rightarrow> (string + bytes) option" where
  "aead_decrypt a key_err key nonce ad ciphertext =
     (if length key \<noteq> key_size a then Some (Inl key_err)
      else if length nonce \<noteq> nonce_size a then None
      else let n = length ciphertext - 16
           in Some (case unseal a key nonce ad (take n ciphertext) (drop n ciphertext) of
                      None \<Rightarrow> Inl ''Decryption failed''
                    | Some buffer \<Rightarrow> Inr buffer))"

definition Aegis128X_encrypt :: "crypto_lib \<Rightarrow> bytes \<Rightarrow> bytes \<Rightarrow> bytes \<Rightarrow> bytes \<Rightarrow> (string + bytes) option" where
  "Aegis128X_encrypt lib = aead_encrypt (aegis128x2 lib) ''Invalid key length for Aegis128X''"

definition Aegis128X_decrypt :: "crypto_lib \<Rightarrow> bytes \<Rightarrow> bytes \<Rightarrow> bytes \<Rightarrow> bytes \<Rightarrow> (string + bytes) option" where
  "Aegis128X_decrypt lib key nonce ad ciphertext =
     (if length ciphertext < 16 then Some (Inl ''Ciphertext too short for Aegis128X'')
      else aead_decrypt (aegis128x2 lib) ''Invalid key length for Aegis128X'' key nonce ad ciphertext)"

definition Aegis128L_encrypt :: "crypto_lib \<Rightarrow> bytes \<Rightarrow> bytes \<Rightarrow> bytes \<Rightarrow> bytes \<Rightarrow> (string + bytes) option" where
  "Aegis128L_encrypt lib = aead_encrypt (aegis128l lib) ''Invalid key length''"

definition Aegis128L_decrypt :: "crypto_lib \<Rightarrow> bytes \<Rightarrow> bytes \<Rightarrow> bytes \<Rightarrow> bytes \<Rightarrow> (string + bytes) option" where
  "Aegis128L_decrypt lib key nonce ad ciphertext =
     (if length ciphertext < 16 then Some (Inl ''Ciphertext too short'')
      else aead_decrypt (aegis128l lib) ''Invalid key length'' key nonce ad ciphertext)"

text \<open>AEGIS-256 uses four lanes with VAES and AVX-512 and two lanes otherwise.\<close>

definition wide_aegis :: "FeatureDetector \<Rightarrow> bool" where
  "wide_aegis det \<longleftrightarrow> has_feature det VAES \<and> has_feature det AVX512F"

definition Aegis256_encrypt ::
  "crypto_lib \<Rightarrow> FeatureDetector \<Rightarrow> bytes \<Rightarrow> bytes \<Rightarrow> bytes \<Rightarrow> bytes \<Rightarrow> (string + bytes) option" where
  "Aegis256_encrypt lib det key nonce ad plaintext =
     (if wide_aegis det
      then aead_encrypt (aegis256x4 lib) ''Invalid key length for Aegis256'' key nonce ad plaintext
      else aead_encrypt (aegis256x2 lib) ''Invalid key length for Aegis256'' key nonce ad plaintext)"

definition Aegis256_decrypt ::
  "crypto_lib \<Rightarrow> FeatureDetector \<Rightarrow> bytes \<Rightarrow> bytes \<Rightarrow> bytes \<Rightarrow> bytes \<Rightarrow> (string + bytes) option" where
  "Aegis256_decrypt lib det key nonce ad ciphertext =
     (if length ciphertext < 16 then Some (Inl ''Ciphertext too short for Aegis256'')
      else if wide_aegis det
      then aead_decrypt (aegis256x4 lib) ''Invalid key length for Aegis256'' key nonce ad ciphertext
      else aead_decrypt (aegis256x2 lib) ''Invalid key length for Aegis256'' key nonce ad ciphertext)"

definition Morus256_encrypt :: "crypto_lib \<Rightarrow> bytes \<Rightarrow> bytes \<Rightarrow> bytes \<Rightarrow> bytes \<Rightarrow> (string + bytes) option" where
  "Morus256_encrypt lib key nonce ad plaintext =
     (if length key \<noteq> 32 then Some (Inl ''Invalid key length for Morus256'')
      else if length nonce \<noteq> 16 then Some (Inl ''Invalid nonce length for Morus256'')
      else let (ciphertext, tag) = morus_encrypt lib (take 16 key) nonce plaintext ad
           in Some (Inr (ciphertext @ tag)))"

definition Morus256_decrypt :: "crypto_lib \<Rightarrow> bytes \<Rightarrow> bytes \<Rightarrow> bytes \<Rightarrow> bytes \<Rightarrow> (string + bytes) option" where
  "Morus256_decrypt lib key nonce ad ciphertext =
     (if length ciphertext < 16 then Some (Inl ''Ciphertext too short for Morus256'')
      else if length key \<noteq> 32 then Some (Inl ''Invalid key length for Morus256'')
      else if length nonce \<noteq> 16 then Some (Inl ''Invalid nonce length for Morus256'')
      else let n = length ciphertext - 16
           in Some (case morus_decrypt lib (take 16 key) nonce (take n ciphertext) (drop n ciphertext) ad of
                      None \<Rightarrow> Inl ''Decryption failed''
                    | Some msg \<Rightarrow> Inr msg))"

definition Morus_encrypt :: "crypto_lib \<Rightarrow> bytes \<Rightarrow> bytes \<Rightarrow> bytes \<Rightarrow> bytes \<Rightarrow> (string + bytes) option" where
  "Morus_encrypt lib key nonce ad plaintext =
     (if length key \<noteq> 16 then Some (Inl ''Invalid key length for Morus'')
      else if length nonce \<noteq> 16 then Some (Inl ''Invalid nonce length for Morus'')
      else let (ciphertext, tag) = morus_encrypt lib key nonce plaintext ad
           in Some (Inr (ciphertext @ tag)))"

definition Morus_decrypt :: "crypto_lib \<Rightarrow> bytes \<Rightarrow> bytes \<Rightarrow> bytes \<Rightarrow> bytes \<Rightarrow> (string + bytes) option" where
  "Morus_decrypt lib key nonce ad ciphertext =
     (if length ciphertext < 16 then Some (Inl ''Ciphertext too short for Morus'')
      else if length key \<noteq> 16 then Some (Inl ''Invalid key length for Morus'')
      else if length nonce \<noteq> 16 then Some (Inl ''Invalid nonce length for Morus'')
      else let n = length ciphertext - 16
           in Some (case morus_decrypt lib key nonce (take n ciphertext) (drop n ciphertext) ad of
                      None \<Rightarrow> Inl ''Decryption failed''
                    | Some msg \<Rightarrow> Inr msg))"

definition SoftwareFallback_encrypt :: "bytes \<Rightarrow> bytes \<Rightarrow> bytes \<Rightarrow> bytes \<Rightarrow> (string + bytes) option" where
  "SoftwareFallback_encrypt key nonce ad plaintext = Some (Inr plaintext)"

definition SoftwareFallback_decrypt :: "bytes \<Rightarrow> bytes \<Rightarrow> bytes \<Rightarrow> bytes \<Rightarrow> (string + bytes) option" where
  "SoftwareFallback_decrypt key nonce ad ciphertext = Some (Inr ciphertext)"

subsection \<open>The selector\<close>

text \<open>The boxed cipher is determined by the suite, so a selector is its suite. \<open>x86\<close> is the compile-time
  test of the target architecture.\<close>

definition select_suite :: "bool \<Rightarrow> FeatureDetector \<Rightarrow> CipherSuite" where
  "select_suite x86 det =
     (if has_feature det VAES then Aegis256
      else if has_feature det AESNI then (if x86 then Aegis128X else Aegis128L)
      else if has_any det [NEON, SSE2] then Morus1280_256
      else SoftwareFallback)"

primrec selector_encrypt ::
  "crypto_lib \<Rightarrow> FeatureDetector \<Rightarrow> CipherSuite \<Rightarrow> bytes \<Rightarrow> bytes \<Rightarrow> bytes \<Rightarrow> bytes \<Rightarrow> (string + bytes) option" where
  "selector_encrypt lib det Aegis128X = Aegis128X_encrypt lib"
| "selector_encrypt lib det Aegis128L = Aegis128L_encrypt lib"
| "selector_encrypt lib det Aegis256 = Aegis256_encrypt lib det"
| "selector_encrypt lib det Morus1280_128 = Morus_encrypt lib"
| "selector_encrypt lib det Morus1280_256 = Morus256_encrypt lib"
| "selector_encrypt lib det SoftwareFallback = SoftwareFallback_encrypt"

primrec selector_decrypt ::
  "crypto_lib \<Rightarrow> FeatureDetector \<Rightarrow> CipherSuite \<Rightarrow> bytes \<Rightarrow> bytes \<Rightarrow> bytes \<Rightarrow> bytes \<Rightarrow> (string + bytes) option" where
  "selector_decrypt lib det Aegis128X = Aegis128X_decrypt lib"
| "selector_decrypt lib det Aegis128L = Aegis128L_decrypt lib"
| "selector_decrypt lib det Aegis256 = Aegis256_decrypt lib det"
| "selector_decrypt lib det Morus1280_128 = Morus_decrypt lib"
| "selector_decrypt lib det Morus1280_256 = Morus256_decrypt lib"
| "selector_decrypt lib det SoftwareFallback = SoftwareFallback_decrypt"

primrec tls_cipher :: "CipherSuite \<Rightarrow> u16" where
  "tls_cipher Aegis128X = 0x1302"
| "tls_cipher Aegis128L = 0x1301"
| "tls_cipher Aegis256 = 0x1303"
| "tls_cipher Morus1280_128 = 0x1304"
| "tls_cipher Morus1280_256 = 0x1305"
| "tls_cipher SoftwareFallback = 0x1306"

text \<open>Random bytes come from the operating system: \<open>rng i\<close> is byte \<open>i\<close> of one call of \<open>fill_bytes\<close>.\<close>

definition get_obfuscation_key :: "(nat \<Rightarrow> u8) \<Rightarrow> nat \<Rightarrow> bytes" where
  "get_obfuscation_key rng len = map rng [0..<len]"

definition generate_session_key :: "(nat \<Rightarrow> u8) \<Rightarrow> nat \<Rightarrow> bytes" where
  "generate_session_key rng len = get_obfuscation_key rng len"

subsection \<open>What the code relies on\<close>

definition aead_ok :: "aead \<Rightarrow> bool" where
  "aead_ok a \<longleftrightarrow> (\<forall>k n ad pt. length k = key_size a \<longrightarrow> length n = nonce_size a \<longrightarrow>
     (\<exists>ct tag. seal a k n ad pt = Some (ct, tag) \<and> length ct = length pt \<and> length tag = 16 \<and>
        unseal a k n ad ct tag = Some pt))"

definition lib_ok :: "crypto_lib \<Rightarrow> bool" where
  "lib_ok lib \<longleftrightarrow> aead_ok (aegis128x2 lib) \<and> aead_ok (aegis128l lib) \<and>
     aead_ok (aegis256x2 lib) \<and> aead_ok (aegis256x4 lib) \<and>
     key_size (aegis256x2 lib) = key_size (aegis256x4 lib) \<and> nonce_size (aegis256x2 lib) = nonce_size (aegis256x4 lib) \<and>
     (\<forall>k n ad pt. length k = 16 \<longrightarrow> length n = 16 \<longrightarrow>
        (\<exists>ct tag. morus_encrypt lib k n pt ad = (ct, tag) \<and> length ct = length pt \<and> length tag = 16 \<and>
           morus_decrypt lib k n ct tag ad = Some pt))"

primrec suite_key_size :: "crypto_lib \<Rightarrow> CipherSuite \<Rightarrow> nat option" where
  "suite_key_size lib Aegis128X = Some (key_size (aegis128x2 lib))"
| "suite_key_size lib Aegis128L = Some (key_size (aegis128l lib))"
| "suite_key_size lib Aegis256 = Some (key_size (aegis256x2 lib))"
| "suite_key_size lib Morus1280_128 = Some 16"
| "suite_key_size lib Morus1280_256 = Some 32"
| "suite_key_size lib SoftwareFallback = None"

primrec suite_nonce_size :: "crypto_lib \<Rightarrow> CipherSuite \<Rightarrow> nat option" where
  "suite_nonce_size lib Aegis128X = Some (nonce_size (aegis128x2 lib))"
| "suite_nonce_size lib Aegis128L = Some (nonce_size (aegis128l lib))"
| "suite_nonce_size lib Aegis256 = Some (nonce_size (aegis256x2 lib))"
| "suite_nonce_size lib Morus1280_128 = Some 16"
| "suite_nonce_size lib Morus1280_256 = Some 16"
| "suite_nonce_size lib SoftwareFallback = None"

text \<open>Key and nonce fit the suite; the fallback takes any.\<close>

definition material_ok :: "crypto_lib \<Rightarrow> CipherSuite \<Rightarrow> bytes \<Rightarrow> bytes \<Rightarrow> bool" where
  "material_ok lib s key nonce \<longleftrightarrow>
     pred_option (\<lambda>n. length key = n) (suite_key_size lib s) \<and> pred_option (\<lambda>n. length nonce = n) (suite_nonce_size lib s)"

lemma aead_roundtrip:
  assumes "aead_ok a" "length key = key_size a" "length nonce = nonce_size a"
  shows "\<exists>ct. aead_encrypt a e key nonce ad pt = Some (Inr ct) \<and>
           (if length ct < 16 then Some (Inl short) else aead_decrypt a e key nonce ad ct) = Some (Inr pt) \<and>
           length ct = length pt + 16"
proof -
  obtain c tag where c: "seal a key nonce ad pt = Some (c, tag)" "length c = length pt" "length tag = 16"
    "unseal a key nonce ad c tag = Some pt"
    using assms unfolding aead_ok_def by blast
  then show ?thesis
    using assms by (intro exI[of _ "c @ tag"]) (simp add: aead_encrypt_def aead_decrypt_def Let_def)
qed

lemma morus_roundtrip:
  assumes "lib_ok lib" "length k = 16" "length n = 16"
  shows "\<exists>ct tag. morus_encrypt lib k n pt ad = (ct, tag) \<and> length ct = length pt \<and> length tag = 16 \<and>
           morus_decrypt lib k n ct tag ad = Some pt"
  using assms unfolding lib_ok_def by blast

definition null_aead :: aead where
  "null_aead = \<lparr>key_size = 16, nonce_size = 16, seal = (\<lambda>k n ad pt. Some (pt, replicate 16 0)),
     unseal = (\<lambda>k n ad ct tag. Some ct)\<rparr>"

text \<open>A library that satisfies the contract, for concrete instances.\<close>

definition null_lib :: crypto_lib where
  "null_lib = \<lparr>aegis128x2 = null_aead, aegis128l = null_aead, aegis256x2 = null_aead, aegis256x4 = null_aead,
     morus_encrypt = (\<lambda>k n pt ad. (pt, replicate 16 0)), morus_decrypt = (\<lambda>k n ct tag ad. Some ct)\<rparr>"

lemma null_lib_ok: "lib_ok null_lib"
  by (simp add: lib_ok_def aead_ok_def null_lib_def null_aead_def)

subsection \<open>The contract of a suite\<close>

text \<open>What the rest of the program relies on: with key and nonce that fit, encryption succeeds, decryption inverts it and
  the ciphertext is longer by a constant.\<close>

locale cipher =
  fixes encrypt decrypt :: "bytes \<Rightarrow> bytes \<Rightarrow> bytes \<Rightarrow> bytes \<Rightarrow> (string + bytes) option"
    and fits :: "bytes \<Rightarrow> bytes \<Rightarrow> bool"
    and overhead :: nat
  assumes decrypt_encrypt: "fits key nonce \<Longrightarrow>
    \<exists>ct. encrypt key nonce ad pt = Some (Inr ct) \<and> decrypt key nonce ad ct = Some (Inr pt) \<and> length ct = length pt + overhead"
begin

lemma encrypt_injective: "fits key nonce \<Longrightarrow> encrypt key nonce ad pt = encrypt key nonce ad pt' \<Longrightarrow> pt = pt'"
  using decrypt_encrypt[of key nonce ad pt] decrypt_encrypt[of key nonce ad pt'] by auto

lemma lengths_agree:
  "fits key nonce \<Longrightarrow> encrypt key nonce ad pt = Some (Inr ct) \<Longrightarrow> decrypt key nonce ad ct = Some (Inr pt') \<Longrightarrow>
   length pt' + overhead = length ct"
  using decrypt_encrypt[of key nonce ad pt] by auto

end

definition fits :: "crypto_lib \<Rightarrow> CipherSuite \<Rightarrow> bytes \<Rightarrow> bytes \<Rightarrow> bool" where
  "fits lib s key nonce \<longleftrightarrow> lib_ok lib \<and> material_ok lib s key nonce"

lemma fits_aead:
  "fits lib Aegis128X key nonce \<Longrightarrow>
     aead_ok (aegis128x2 lib) \<and> length key = key_size (aegis128x2 lib) \<and> length nonce = nonce_size (aegis128x2 lib)"
  "fits lib Aegis128L key nonce \<Longrightarrow>
     aead_ok (aegis128l lib) \<and> length key = key_size (aegis128l lib) \<and> length nonce = nonce_size (aegis128l lib)"
  "fits lib Aegis256 key nonce \<Longrightarrow>
     aead_ok (aegis256x2 lib) \<and> length key = key_size (aegis256x2 lib) \<and> length nonce = nonce_size (aegis256x2 lib) \<and>
     aead_ok (aegis256x4 lib) \<and> length key = key_size (aegis256x4 lib) \<and> length nonce = nonce_size (aegis256x4 lib)"
  by (simp_all add: fits_def lib_ok_def material_ok_def)

interpretation aegis128x: cipher "Aegis128X_encrypt lib" "Aegis128X_decrypt lib" "fits lib Aegis128X" 16 for lib
  by unfold_locales (simp only: Aegis128X_encrypt_def Aegis128X_decrypt_def, rule aead_roundtrip, simp_all add: fits_aead)

interpretation aegis128l: cipher "Aegis128L_encrypt lib" "Aegis128L_decrypt lib" "fits lib Aegis128L" 16 for lib
  by unfold_locales (simp only: Aegis128L_encrypt_def Aegis128L_decrypt_def, rule aead_roundtrip, simp_all add: fits_aead)

interpretation aegis256: cipher "Aegis256_encrypt lib det" "Aegis256_decrypt lib det" "fits lib Aegis256" 16 for lib det
  by unfold_locales
     (cases "wide_aegis det"; simp only: Aegis256_encrypt_def Aegis256_decrypt_def if_True if_False; rule aead_roundtrip;
      drule fits_aead(3), elim conjE, assumption)

interpretation morus: cipher "Morus_encrypt lib" "Morus_decrypt lib" "fits lib Morus1280_128" 16 for lib
proof
  fix key nonce ad pt
  assume f: "fits lib Morus1280_128 key nonce"
  then obtain c tag where "morus_encrypt lib key nonce pt ad = (c, tag)" "length c = length pt" "length tag = 16"
    "morus_decrypt lib key nonce c tag ad = Some pt"
    using morus_roundtrip[of lib key nonce pt ad] by (auto simp: fits_def material_ok_def)
  with f show "\<exists>ct. Morus_encrypt lib key nonce ad pt = Some (Inr ct) \<and> Morus_decrypt lib key nonce ad ct = Some (Inr pt) \<and>
      length ct = length pt + 16"
    by (simp add: fits_def material_ok_def Morus_encrypt_def Morus_decrypt_def Let_def)
qed

text \<open>The 256-bit suite runs the 128-bit cipher on the first half of its key.\<close>

lemma Morus256_half_key:
  assumes "length key = 32"
  shows "length nonce = 16 \<Longrightarrow> Morus256_encrypt lib key nonce ad pt = Morus_encrypt lib (take 16 key) nonce ad pt"
    "length nonce = 16 \<Longrightarrow> 16 \<le> length ct \<Longrightarrow> Morus256_decrypt lib key nonce ad ct = Morus_decrypt lib (take 16 key) nonce ad ct"
  using assms by (simp_all add: Morus256_encrypt_def Morus_encrypt_def Morus256_decrypt_def Morus_decrypt_def)

interpretation morus256: cipher "Morus256_encrypt lib" "Morus256_decrypt lib" "fits lib Morus1280_256" 16 for lib
proof
  fix key nonce ad pt
  assume f: "fits lib Morus1280_256 key nonce"
  then have k: "length key = 32" "length nonce = 16" "fits lib Morus1280_128 (take 16 key) nonce"
    by (simp_all add: fits_def material_ok_def)
  with morus.decrypt_encrypt[OF k(3), of ad pt] Morus256_half_key[OF k(1,2)]
  show "\<exists>ct. Morus256_encrypt lib key nonce ad pt = Some (Inr ct) \<and> Morus256_decrypt lib key nonce ad ct = Some (Inr pt) \<and>
      length ct = length pt + 16"
    by (metis le_add2)
qed

interpretation fallback: cipher SoftwareFallback_encrypt SoftwareFallback_decrypt "fits lib SoftwareFallback" 0 for lib
  by unfold_locales (simp add: SoftwareFallback_encrypt_def SoftwareFallback_decrypt_def)

definition tag_len :: "CipherSuite \<Rightarrow> nat" where
  "tag_len s = (if s = SoftwareFallback then 0 else 16)"

interpretation suite: cipher "selector_encrypt lib det s" "selector_decrypt lib det s" "fits lib s" "tag_len s" for lib det s
  by unfold_locales
     (cases s; simp add: tag_len_def aegis128x.decrypt_encrypt aegis128l.decrypt_encrypt aegis256.decrypt_encrypt
       morus.decrypt_encrypt morus256.decrypt_encrypt fallback.decrypt_encrypt[simplified])

subsection \<open>Properties\<close>

text \<open>C36: messages between two machines. With the contract of the cipher crates and key and nonce of the suite's sizes, what the
  selector of one machine encrypts the selector of another decrypts again, for every message and associated data and
  whatever features either CPU has, with one exception: for AEGIS-256 the number of lanes depends on the CPU, and when it
  differs the receiver opens the text of the one cipher with the other cipher, so that (when that does not accept the
  foreign tag) decryption fails. The ciphertext is 16 bytes longer than the message, except for the fallback, which does
  not encrypt. Different messages have different ciphertexts.\<close>

theorem cipher_roundtrip:
  assumes "lib_ok lib" "material_ok lib s key nonce"
  shows "(\<exists>ct. selector_encrypt lib det s key nonce ad pt = Some (Inr ct) \<and>
           length ct = (if s = SoftwareFallback then length pt else length pt + 16) \<and>
           selector_decrypt lib det' s key nonce ad ct =
             (if s = Aegis256 \<and> wide_aegis det \<noteq> wide_aegis det'
              then Some (case unseal (if wide_aegis det' then aegis256x4 lib else aegis256x2 lib) key nonce ad
                              (take (length pt) ct) (drop (length pt) ct) of
                           None \<Rightarrow> Inl ''Decryption failed'' | Some m \<Rightarrow> Inr m)
              else Some (Inr pt))) \<and>
         (selector_encrypt lib det s key nonce ad pt = selector_encrypt lib det s key nonce ad pt' \<longleftrightarrow> pt = pt')"
proof -
  have f: "fits lib s key nonce" using assms by (simp add: fits_def)
  obtain ct where ct: "selector_encrypt lib det s key nonce ad pt = Some (Inr ct)"
    "selector_decrypt lib det s key nonce ad ct = Some (Inr pt)" "length ct = length pt + tag_len s"
    using suite.decrypt_encrypt[OF f, of det ad pt] by blast
  have "selector_decrypt lib det' s key nonce ad ct = selector_decrypt lib det s key nonce ad ct"
    if "\<not> (s = Aegis256 \<and> wide_aegis det \<noteq> wide_aegis det')"
    using that by (cases s) (simp_all add: Aegis256_decrypt_def)
  moreover have "selector_decrypt lib det' s key nonce ad ct =
      Some (case unseal (if wide_aegis det' then aegis256x4 lib else aegis256x2 lib) key nonce ad
              (take (length pt) ct) (drop (length pt) ct) of
           None \<Rightarrow> Inl ''Decryption failed'' | Some m \<Rightarrow> Inr m)" if "s = Aegis256"
    using that ct(3) fits_aead(3)[of lib key nonce] f
    by (auto simp: Aegis256_decrypt_def aead_decrypt_def tag_len_def Let_def)
  moreover have "length ct = (if s = SoftwareFallback then length pt else length pt + 16)"
    using ct(3) by (simp add: tag_len_def)
  ultimately show ?thesis
    using ct(1,2) suite.encrypt_injective[OF f, of det ad pt pt'] by (intro conjI exI[of _ ct]) auto
qed

text \<open>A library whose AEGIS-256 variants have different tags, and two machines of which one has AVX-512.\<close>

definition two_lane_lib :: crypto_lib where
  "two_lane_lib = null_lib\<lparr>aegis256x2 := null_aead\<lparr>seal := (\<lambda>k n ad pt. Some (pt, replicate 16 1)),
     unseal := (\<lambda>k n ad ct tag. if tag = replicate 16 1 then Some ct else None)\<rparr>\<rparr>"

theorem cipher_roundtrip_witness:
  "\<exists>ct. selector_encrypt two_lane_lib [VAES \<mapsto> True, AVX512F \<mapsto> True] Aegis256 (replicate 16 7) (replicate 16 1) [] [1, 2, 3] = Some (Inr ct) \<and>
     selector_decrypt two_lane_lib [VAES \<mapsto> True, AVX512F \<mapsto> True] Aegis256 (replicate 16 7) (replicate 16 1) [] ct = Some (Inr [1, 2, 3]) \<and>
     selector_decrypt two_lane_lib [VAES \<mapsto> True] Aegis256 (replicate 16 7) (replicate 16 1) [] ct = Some (Inl ''Decryption failed'')"
proof -
  let ?w = "[VAES \<mapsto> True, AVX512F \<mapsto> True]" and ?n = "[VAES \<mapsto> True]"
  have lib: "lib_ok two_lane_lib" "material_ok two_lane_lib Aegis256 (replicate 16 7) (replicate 16 1)"
    by (simp_all add: two_lane_lib_def lib_ok_def aead_ok_def material_ok_def null_lib_def null_aead_def)
  have w: "wide_aegis ?w" "\<not> wide_aegis ?n" by (simp_all add: wide_aegis_def has_feature_def)
  have enc: "selector_encrypt two_lane_lib ?w Aegis256 (replicate 16 7) (replicate 16 1) [] [1, 2, 3] = Some (Inr ([1, 2, 3] @ replicate 16 0))"
    using w(1) by (simp add: Aegis256_encrypt_def aead_encrypt_def two_lane_lib_def null_lib_def null_aead_def)
  from cipher_roundtrip[OF lib, of ?w "[]" "[1, 2, 3]" ?w] cipher_roundtrip[OF lib, of ?w "[]" "[1, 2, 3]" ?n] w enc
  show ?thesis by (intro exI[of _ "[1, 2, 3] @ replicate 16 0"]) (simp add: two_lane_lib_def null_lib_def null_aead_def)
qed

text \<open>The error behaviour of the selector: encryption panics exactly for an AEGIS suite with a key of the right
  size and a nonce of the wrong size; and a ciphertext shorter than the tag is an error, never a panic,
  for every suite that encrypts.\<close>

lemma cipher_errors:
  assumes "lib_ok lib"
  shows "(selector_encrypt lib det s key nonce ad pt = None \<longleftrightarrow>
            s \<in> {Aegis128X, Aegis128L, Aegis256} \<and> suite_key_size lib s = Some (length key) \<and>
            suite_nonce_size lib s \<noteq> Some (length nonce)) \<and>
         (length ct < 16 \<longrightarrow> s \<noteq> SoftwareFallback \<longrightarrow> (\<exists>e. selector_decrypt lib det s key nonce ad ct = Some (Inl e)))"
  using assms
  by (cases s)
     (auto simp: lib_ok_def aead_encrypt_def Aegis128X_encrypt_def Aegis128L_encrypt_def Aegis256_encrypt_def
       Morus_encrypt_def Morus256_encrypt_def SoftwareFallback_encrypt_def Aegis128X_decrypt_def Aegis128L_decrypt_def
       Aegis256_decrypt_def Morus_decrypt_def Morus256_decrypt_def Let_def split: prod.split)

text \<open>The weak suites. A machine is given the fallback exactly when it has none of VAES, AES-NI, NEON
  and SSE2, and the fallback's ciphertext is the plaintext; the suite named MORUS-1280-256
  ignores the second half of its 32-byte key.\<close>

lemma weak_suites:
  assumes "length key = length key'" "take 16 key = take 16 key'"
  shows "(select_suite x86 det = SoftwareFallback \<longleftrightarrow>
            \<not> (has_feature det VAES \<or> has_feature det AESNI \<or> has_feature det NEON \<or> has_feature det SSE2)) \<and>
         selector_encrypt lib det SoftwareFallback key nonce ad pt = Some (Inr pt) \<and>
         selector_encrypt lib det Morus1280_256 key nonce ad pt = selector_encrypt lib det Morus1280_256 key' nonce ad pt"
  using assms by (simp add: select_suite_def has_any_def SoftwareFallback_encrypt_def Morus256_encrypt_def)

end
