(* ===== verification/Obfuscation.thy ===== *)
theory Obfuscation
  imports Cpu_Dispatch Crypto
begin

text \<open>
  XOR obfuscation of payloads and rotation of fronting domains (\<open>XorObfuscator\<close>, \<open>CdnProvider\<close> and
  \<open>DomainFrontingManager\<close> of \<open>src/src/stealth.rs\<close>).

  The SHA-256 crate is the parameter \<open>sha\<close>, the random generator the parameter \<open>rng\<close>. The target
  architecture, a compile-time constant, is an argument; the vector instructions of a chunk are a byte-wise XOR.
  The atomic index of the fronting manager is a 64-bit word that wraps around.
\<close>

subsection \<open>The obfuscator\<close>

datatype arch = X86 | Aarch64 | OtherArch

record XorObfuscator =
  xkey :: bytes
  position :: nat

definition XorObfuscator_new :: "(nat \<Rightarrow> u8) \<Rightarrow> XorObfuscator" where
  "XorObfuscator_new rng = \<lparr>xkey = generate_session_key rng 32, position = 0\<rparr>"

text \<open>The pattern of the key from a position on, and one vector step on the chunk at \<open>processed\<close>.\<close>

definition key_pattern :: "bytes \<Rightarrow> nat \<Rightarrow> nat \<Rightarrow> bytes" where
  "key_pattern key from n = map (\<lambda>i. key ! ((from + i) mod length key)) [0..<n]"

definition xor_chunk :: "nat \<Rightarrow> bytes \<Rightarrow> nat \<Rightarrow> nat \<Rightarrow> bytes \<Rightarrow> bytes" where
  "xor_chunk n key start processed payload =
     take processed payload @
     map2 (\<lambda>a b. a XOR b) (take n (drop processed payload)) (key_pattern key (start + processed) n) @
     drop (processed + n) payload"

function xor_chunks :: "nat \<Rightarrow> bytes \<Rightarrow> nat \<Rightarrow> nat \<Rightarrow> bytes \<Rightarrow> nat \<times> bytes" where
  "xor_chunks n key start processed payload =
     (if 0 < n \<and> processed + n \<le> length payload
      then xor_chunks n key start (processed + n) (xor_chunk n key start processed payload)
      else (processed, payload))"
  by pat_completeness auto
termination
  by (relation "measure (\<lambda>(n, key, start, processed, payload). length payload - processed)")
     (auto simp: xor_chunk_def key_pattern_def)

declare xor_chunks.simps [simp del]

text \<open>The byte loop from \<open>from\<close> to the end of the payload.\<close>

definition xor_tail :: "bytes \<Rightarrow> nat \<Rightarrow> nat \<Rightarrow> bytes \<Rightarrow> bytes" where
  "xor_tail key start from payload =
     fold (\<lambda>i p. p[i := p ! i XOR key ! ((start + i) mod length key)]) [from..<length payload] payload"

definition xor_payload :: "arch \<Rightarrow> SimdPolicy \<Rightarrow> bytes \<Rightarrow> nat \<Rightarrow> bytes \<Rightarrow> bytes" where
  "xor_payload a policy key start payload =
     (if a = X86 \<and> (policy = Avx2 \<or> policy = Avx512)
      then let (processed, p) = (if 32 \<le> length payload then xor_chunks 32 key start 0 payload else (0, payload))
           in xor_tail key start processed p
      else if a = Aarch64 \<and> policy = Neon
      then let (processed, p) = (if 16 \<le> length payload then xor_chunks 16 key start 0 payload else (0, payload))
           in xor_tail key start processed p
      else xor_tail key start 0 payload)"

definition obfuscate ::
  "arch \<Rightarrow> FeatureDetector \<Rightarrow> (bytes \<Rightarrow> bytes) \<Rightarrow> bytes \<Rightarrow> XorObfuscator \<Rightarrow> bytes \<times> XorObfuscator" where
  "obfuscate a det sha payload x =
     (if xkey x = [] then (payload, x)
      else (xor_payload a (dispatch det) (xkey x) (position x) payload,
            x\<lparr>xkey := sha (xkey x), position := 0\<rparr>))"

definition deobfuscate ::
  "arch \<Rightarrow> FeatureDetector \<Rightarrow> (bytes \<Rightarrow> bytes) \<Rightarrow> bytes \<Rightarrow> XorObfuscator \<Rightarrow> bytes \<times> XorObfuscator" where
  "deobfuscate a det sha payload x = obfuscate a det sha payload x"

definition rekey :: "(nat \<Rightarrow> u8) \<Rightarrow> XorObfuscator \<Rightarrow> XorObfuscator" where
  "rekey rng x = x\<lparr>xkey := generate_session_key rng 32, position := 0\<rparr>"

subsection \<open>Domain fronting\<close>

datatype CdnProvider = Cloudflare | Google | MicrosoftAzure | Akamai | Fastly

primrec get_domain :: "CdnProvider \<Rightarrow> string" where
  "get_domain Cloudflare = ''www.cloudflare.com''"
| "get_domain Google = ''www.google.com''"
| "get_domain MicrosoftAzure = ''azure.microsoft.com''"
| "get_domain Akamai = ''www.akamai.com''"
| "get_domain Fastly = ''www.fastly.com''"

record DomainFrontingManager =
  domains :: "string list"
  index :: u64

definition DomainFrontingManager_new :: "string list \<Rightarrow> DomainFrontingManager" where
  "DomainFrontingManager_new ds = \<lparr>domains = ds, index = 0\<rparr>"

definition from_providers :: "CdnProvider list \<Rightarrow> DomainFrontingManager" where
  "from_providers ps = DomainFrontingManager_new (map get_domain ps)"

text \<open>The remainder by the length of an empty list panics.\<close>

definition get_fronted_domain :: "DomainFrontingManager \<Rightarrow> (string \<times> DomainFrontingManager) option" where
  "get_fronted_domain m =
     (let current = index m;
          m = m\<lparr>index := index m + 1\<rparr>
      in if domains m = [] then None
         else do { d \<leftarrow> idx (domains m) (unat current mod length (domains m)); Some (d, m) })"

text \<open>\<open>choose\<close> picks the element at a random position below the length.\<close>

definition random_domain :: "(nat \<Rightarrow> nat) \<Rightarrow> DomainFrontingManager \<Rightarrow> string" where
  "random_domain pick m =
     (if domains m = [] then ''cdn.example.com''
      else domains m ! (pick (length (domains m)) mod length (domains m)))"

definition set_domains :: "string list \<Rightarrow> DomainFrontingManager \<Rightarrow> DomainFrontingManager" where
  "set_domains ds m = m\<lparr>domains := ds, index := 0\<rparr>"

subsection \<open>The key stream\<close>

definition key_byte :: "bytes \<Rightarrow> nat \<Rightarrow> u8" where
  "key_byte key i = key ! (i mod length key)"

lemma xor_tail_eq:
  "from \<le> length payload \<Longrightarrow> xor_tail key start from payload =
     take from payload @ map (\<lambda>i. payload ! i XOR key_byte key (start + i)) [from..<length payload]"
proof -
  define upd where "upd = (\<lambda>i (p :: bytes). p[i := p ! i XOR key ! ((start + i) mod length key)])"
  assume fr: "from \<le> length payload"
  have "fold upd [from..<from + n] payload =
      take from payload @ map (\<lambda>i. payload ! i XOR key_byte key (start + i)) [from..<from + n] @ drop (from + n) payload"
    if "from + n \<le> length payload" for n
    using that
  proof (induction n)
    case (Suc n)
    define q where "q = take from payload @ map (\<lambda>i. payload ! i XOR key_byte key (start + i)) [from..<from + n] @ drop (from + n) payload"
    have "fold upd [from..<from + Suc n] payload = upd (from + n) q" using Suc by (simp add: q_def)
    moreover have "q ! (from + n) = payload ! (from + n)" using Suc.prems by (simp add: q_def nth_append)
    moreover have "drop (from + n) payload = payload ! (from + n) # drop (from + Suc n) payload"
      using Suc.prems by (simp add: Cons_nth_drop_Suc)
    ultimately show ?case
      using Suc.prems fr by (simp add: upd_def q_def list_update_append key_byte_def)
  qed simp
  from this[of "length payload - from"] fr show ?thesis by (simp add: xor_tail_def upd_def)
qed

lemma length_xor_chunk: "processed + n \<le> length payload \<Longrightarrow> length (xor_chunk n key start processed payload) = length payload"
  by (simp add: xor_chunk_def key_pattern_def)

lemma nth_xor_chunk:
  assumes "processed + n \<le> length payload" "j < length payload"
  shows "xor_chunk n key start processed payload ! j =
     (if processed \<le> j \<and> j < processed + n then payload ! j XOR key_byte key (start + j) else payload ! j)"
  using assms by (simp add: xor_chunk_def key_pattern_def nth_append key_byte_def add.assoc) linarith

lemma xor_chunks_spec:
  "xor_chunks n key start processed payload = (pr, p) \<Longrightarrow> processed \<le> length payload \<Longrightarrow>
   processed \<le> pr \<and> pr \<le> length payload \<and> length p = length payload \<and>
   (\<forall>j < length payload. p ! j = (if processed \<le> j \<and> j < pr then payload ! j XOR key_byte key (start + j) else payload ! j))"
proof (induction n key start processed payload rule: xor_chunks.induct)
  case (1 n key start processed payload)
  show ?case
  proof (cases "0 < n \<and> processed + n \<le> length payload")
    case True
    define q where "q = xor_chunk n key start processed payload"
    have q: "length q = length payload" using True by (simp add: q_def length_xor_chunk)
    have "xor_chunks n key start (processed + n) q = (pr, p)"
      using "1.prems"(1) True by (subst (asm) xor_chunks.simps) (simp add: q_def)
    with "1.IH"[OF True, folded q_def] q True have IH: "processed + n \<le> pr" "pr \<le> length payload" "length p = length payload"
      "\<forall>j < length payload. p ! j = (if processed + n \<le> j \<and> j < pr then q ! j XOR key_byte key (start + j) else q ! j)"
      by simp_all
    moreover have "q ! j = (if processed \<le> j \<and> j < processed + n then payload ! j XOR key_byte key (start + j) else payload ! j)"
      if "j < length payload" for j
      using True that by (simp add: q_def nth_xor_chunk)
    ultimately show ?thesis by auto
  next
    case False
    then have "xor_chunks n key start processed payload = (processed, payload)" by (subst xor_chunks.simps) auto
    with "1.prems" show ?thesis by auto
  qed
qed

text \<open>Vector chunks followed by the byte loop are the byte-wise XOR with the key stream.\<close>

lemma xor_chunks_tail:
  "(let (processed, p) = (if n \<le> length payload then xor_chunks n key start 0 payload else (0, payload))
    in xor_tail key start processed p) = map (\<lambda>i. payload ! i XOR key_byte key (start + i)) [0..<length payload]"
proof (cases "n \<le> length payload")
  case True
  obtain pr p where p: "xor_chunks n key start 0 payload = (pr, p)" by fastforce
  from xor_chunks_spec[OF p] have s: "pr \<le> length payload" "length p = length payload"
    "\<forall>j < length payload. p ! j = (if j < pr then payload ! j XOR key_byte key (start + j) else payload ! j)"
    by simp_all
  then have "xor_tail key start pr p = map (\<lambda>i. payload ! i XOR key_byte key (start + i)) [0..<length payload]"
    by (intro nth_equalityI) (auto simp: xor_tail_eq nth_append)
  with True p show ?thesis by simp
qed (simp add: xor_tail_eq)

lemma xor_payload_eq:
  "xor_payload a policy key start payload = map (\<lambda>i. payload ! i XOR key_byte key (start + i)) [0..<length payload]"
  using xor_chunks_tail[of 32 payload key start] xor_chunks_tail[of 16 payload key start]
  by (auto simp: xor_payload_def xor_tail_eq)

lemma length_obfuscate [simp]: "length (fst (obfuscate a det sha payload x)) = length payload"
  by (simp add: obfuscate_def xor_payload_eq)

lemma obfuscate_state [simp]:
  "snd (obfuscate a det sha payload x) = (if xkey x = [] then x else x\<lparr>xkey := sha (xkey x), position := 0\<rparr>)"
  by (simp add: obfuscate_def)

text \<open>The byte \<open>i\<close> of the key stream of a state.\<close>

definition stream_byte :: "XorObfuscator \<Rightarrow> nat \<Rightarrow> u8" where
  "stream_byte x i = (if xkey x = [] then 0 else key_byte (xkey x) (position x + i))"

lemma obfuscate_bytes: "fst (obfuscate a det sha payload x) = map (\<lambda>i. payload ! i XOR stream_byte x i) [0..<length payload]"
  by (auto simp: obfuscate_def xor_payload_eq stream_byte_def map_nth)

lemma xor_twice_iff: "(p XOR a) XOR b = p \<longleftrightarrow> (a :: u8) = b"
  by (metis (no_types, opaque_lifting) word_xor_eq_0_iff xor.assoc xor.left_commute xor.right_neutral xor_self_eq)

text \<open>A run of packets through an obfuscator.\<close>

primrec obfuscate_all ::
  "arch \<Rightarrow> FeatureDetector \<Rightarrow> (bytes \<Rightarrow> bytes) \<Rightarrow> bytes list \<Rightarrow> XorObfuscator \<Rightarrow> bytes list \<times> XorObfuscator" where
  "obfuscate_all a det sha [] x = ([], x)"
| "obfuscate_all a det sha (p # ps) x =
     (let (c, x) = obfuscate a det sha p x; (cs, x) = obfuscate_all a det sha ps x in (c # cs, x))"

lemma obfuscate_self_inverse: "fst (deobfuscate a' det' sha (fst (obfuscate a det sha p x)) x) = p"
  by (intro nth_equalityI) (simp_all add: deobfuscate_def obfuscate_bytes xor.assoc)

lemma obfuscate_all_inverse:
  "obfuscate_all a' det' sha (fst (obfuscate_all a det sha ps x)) x = (ps, snd (obfuscate_all a det sha ps x))"
proof (induction ps arbitrary: x)
  case (Cons p ps)
  define x1 where "x1 = snd (obfuscate a det sha p x)"
  have 2: "obfuscate a' det' sha (fst (obfuscate a det sha p x)) x = (p, x1)"
    using obfuscate_self_inverse[of a' det' sha a det p x] by (simp add: deobfuscate_def x1_def prod_eq_iff)
  show ?case
    using Cons[of x1] by (simp add: Let_def case_prod_beta 2 x1_def[symmetric] del: obfuscate_state)
qed simp

lemma obfuscate_all_key:
  assumes "\<And>k. sha k \<noteq> []"
  shows "xkey x \<noteq> [] \<Longrightarrow> xkey (snd (obfuscate_all a det sha ps x)) = (sha ^^ length ps) (xkey x)"
proof (induction ps arbitrary: x)
  case (Cons p ps)
  have "xkey (snd (obfuscate a det sha p x)) = sha (xkey x)" using Cons.prems by (simp add: obfuscate_def)
  with Cons.IH[of "snd (obfuscate a det sha p x)"] assms show ?case
    by (simp add: Let_def case_prod_beta funpow_swap1 del: obfuscate_state)
qed simp

subsection \<open>Rotation\<close>

primrec fronted :: "nat \<Rightarrow> DomainFrontingManager \<Rightarrow> (string list \<times> DomainFrontingManager) option" where
  "fronted 0 m = Some ([], m)"
| "fronted (Suc n) m = do { (ds, m) \<leftarrow> fronted n m; (d, m) \<leftarrow> get_fronted_domain m; Some (ds @ [d], m) }"

lemma get_fronted_domain_Some:
  "domains m \<noteq> [] \<Longrightarrow>
   get_fronted_domain m = Some (domains m ! (unat (index m) mod length (domains m)), m\<lparr>index := index m + 1\<rparr>)"
  by (simp add: get_fronted_domain_def Let_def idx_def)

lemma fronted_Some:
  "ds \<noteq> [] \<Longrightarrow> fronted n (DomainFrontingManager_new ds) =
     Some (map (\<lambda>i. ds ! (i mod 2 ^ 64 mod length ds)) [0..<n], \<lparr>domains = ds, index = of_nat n\<rparr>)"
proof (induction n)
  case (Suc n)
  have "unat (of_nat n :: u64) = n mod 2 ^ 64" by (simp add: unsigned_of_nat take_bit_eq_mod)
  moreover have "of_nat n + 1 = (of_nat (Suc n) :: u64)" by simp
  ultimately show ?case
    using Suc get_fronted_domain_Some[of "\<lparr>domains = ds, index = of_nat n\<rparr>"]
    by (simp del: of_nat_Suc)
qed (simp add: DomainFrontingManager_new_def)

subsection \<open>Properties\<close>

text \<open>The vector paths (32 bytes with AVX2 and AVX-512, 16 bytes with NEON) and the scalar path compute the
  same: on every architecture and CPU the payload is XORed byte by byte with the repeated key from the
  current position on, its length is kept, and the key becomes its digest.\<close>

lemma obfuscate_paths_agree:
  assumes "xkey x \<noteq> []"
  shows "obfuscate a det sha payload x =
     (map (\<lambda>i. payload ! i XOR xkey x ! ((position x + i) mod length (xkey x))) [0..<length payload],
      \<lparr>xkey = sha (xkey x), position = 0\<rparr>)"
  using assms by (cases x) (simp add: obfuscate_def xor_payload_eq key_byte_def)

text \<open>C37: two obfuscators in the same state stay in step: whatever packets one of them processes in order, the
  other one restores, also when the two machines use different vector paths, and both end in the same
  state. With a digest that is never empty the key has then been replaced by its digest once per packet.\<close>

theorem obfuscation_roundtrip:
  "obfuscate_all a' det' sha (fst (obfuscate_all a det sha ps x)) x = (ps, snd (obfuscate_all a det sha ps x)) \<and>
   (xkey x \<noteq> [] \<and> (\<forall>k. sha k \<noteq> []) \<longrightarrow> xkey (snd (obfuscate_all a det sha ps x)) = (sha ^^ length ps) (xkey x))"
  using obfuscate_all_inverse obfuscate_all_key by auto

theorem obfuscation_roundtrip_witness:
  "fst (obfuscate_all Aarch64 [NEON \<mapsto> True] (\<lambda>k. 1 # k)
        (fst (obfuscate_all X86 [AVX2 \<mapsto> True] (\<lambda>k. 1 # k) [[1, 2], [3]] \<lparr>xkey = [7], position = 0\<rparr>)) \<lparr>xkey = [7], position = 0\<rparr>) = [[1, 2], [3]] \<and>
   xkey (snd (obfuscate_all X86 [AVX2 \<mapsto> True] (\<lambda>k. 1 # k) [[1, 2], [3]] \<lparr>xkey = [7], position = 0\<rparr>)) = [1, 1, 7]"
  using obfuscation_roundtrip[of Aarch64 "[NEON \<mapsto> True]" "\<lambda>k. 1 # k" X86 "[AVX2 \<mapsto> True]" "[[1, 2], [3]]" "\<lparr>xkey = [7], position = 0\<rparr>"]
  by (simp add: numeral_2_eq_2 del: obfuscate_all.simps)

text \<open>Out of step nothing is restored: a receiver in state \<open>y\<close> restores a packet obfuscated in state \<open>x\<close> exactly
  when the two key streams agree on the length of the packet. In particular, a receiver that had the sender's
  key and has itself processed one packet in between (one obfuscator serves both directions) restores it
  exactly when the key and its digest give the same stream.\<close>

lemma obfuscation_out_of_step:
  "(fst (deobfuscate a' det' sha (fst (obfuscate a det sha p x)) y) = p \<longleftrightarrow>
      map (stream_byte x) [0..<length p] = map (stream_byte y) [0..<length p]) \<and>
   (fst (deobfuscate a' det' sha (fst (obfuscate a det sha p x)) (snd (obfuscate a' det' sha q x))) = p \<longleftrightarrow>
      map (stream_byte x) [0..<length p] =
      map (stream_byte (if xkey x = [] then x else \<lparr>xkey = sha (xkey x), position = 0\<rparr>)) [0..<length p])"
proof -
  have *: "fst (deobfuscate a' det' sha (fst (obfuscate a det sha p x)) y) = p \<longleftrightarrow>
      map (stream_byte x) [0..<length p] = map (stream_byte y) [0..<length p]" for y
  proof -
    have "fst (deobfuscate a' det' sha (fst (obfuscate a det sha p x)) y) =
        map (\<lambda>i. (p ! i XOR stream_byte x i) XOR stream_byte y i) [0..<length p]"
      by (simp add: deobfuscate_def obfuscate_bytes)
    also have "\<dots> = p \<longleftrightarrow> (\<forall>i \<in> set [0..<length p]. (p ! i XOR stream_byte x i) XOR stream_byte y i = p ! i)"
      using map_eq_conv[of _ "[0..<length p]" "\<lambda>i. p ! i"] by (simp only: map_nth)
    finally show ?thesis by (simp only: xor_twice_iff map_eq_conv)
  qed
  have "snd (obfuscate a' det' sha q x) = (if xkey x = [] then x else \<lparr>xkey = sha (xkey x), position = 0\<rparr>)"
    by (cases x) simp
  then show ?thesis using * by (simp only: simp_thms)
qed

text \<open>A fronting manager with at least one domain hands out its domains in turn (the counter wraps around after
  \<open>2 ^ 64\<close> calls); one without domains panics on the first request.\<close>

lemma fronting_round_robin:
  "fronted n (DomainFrontingManager_new ds) =
     (if n = 0 then Some ([], DomainFrontingManager_new ds)
      else if ds = [] then None
      else Some (map (\<lambda>i. ds ! (i mod 2 ^ 64 mod length ds)) [0..<n], \<lparr>domains = ds, index = of_nat n\<rparr>))"
proof (cases "ds = []")
  case True
  have "fronted (Suc n) (DomainFrontingManager_new []) = None" for n
    by (induction n) (simp_all add: get_fronted_domain_def DomainFrontingManager_new_def)
  with True show ?thesis by (cases n) simp_all
next
  case False
  then show ?thesis using fronted_Some[OF False, of n] by (cases n) simp_all
qed

end
