(* ===== verification/Fingerprint.thy ===== *)
theory Fingerprint
  imports Prelude
begin

text \<open>
  Browser fingerprints (\<open>BrowserProfile\<close>, \<open>OsProfile\<close>, \<open>FingerprintProfile\<close> and
  \<open>TlsClientHelloSpoofer\<close> of \<open>src/src/stealth.rs\<close>): the table of profiles, the names of the files with
  recorded ClientHello messages, and the HTTP headers derived from a profile.

  The file system and the base64 decoder are parameters: \<open>fs\<close> gives the contents of a file, if it can be read.
  Strings are ASCII. Handing the bytes to quiche through the foreign function interface is modelled in
  \<open>Stealth\<close>.
\<close>

subsection \<open>Browsers and operating systems\<close>

datatype BrowserProfile = Chrome | Firefox | Safari | Opera | Brave | Edge | Vivaldi

datatype OsProfile = Windows | MacOS | Linux | IOS | Android

definition BrowserProfile_from_str :: "string \<Rightarrow> BrowserProfile option" where
  "BrowserProfile_from_str s =
     map_of [(''chrome'', Chrome), (''firefox'', Firefox), (''safari'', Safari), (''opera'', Opera),
             (''brave'', Brave), (''edge'', Edge), (''vivaldi'', Vivaldi)] (map ascii_lower s)"

definition OsProfile_from_str :: "string \<Rightarrow> OsProfile option" where
  "OsProfile_from_str s =
     map_of [(''windows'', Windows), (''macos'', MacOS), (''mac'', MacOS), (''linux'', Linux), (''ios'', IOS),
             (''android'', Android)] (map ascii_lower s)"

subsection \<open>Profiles\<close>

record ServerHelloParams =
  sh_tls_version :: u16
  sh_cipher_suite :: u16
  sh_extensions :: bytes

record FingerprintProfile =
  browser :: BrowserProfile
  os :: OsProfile
  user_agent :: string
  tls_cipher_suites :: "u16 list"
  accept_language :: string
  initial_max_data :: u64
  initial_max_stream_data_bidi_local :: u64
  initial_max_stream_data_bidi_remote :: u64
  initial_max_streams_bidi :: u64
  max_idle_timeout :: u64
  client_hello :: "bytes option"
  server_hello :: "ServerHelloParams option"
  certificate :: "bytes option"

text \<open>One arm of the table; the last three fields are \<open>None\<close> in every arm.\<close>

definition profile_entry ::
  "BrowserProfile \<Rightarrow> OsProfile \<Rightarrow> string \<Rightarrow> u16 list \<Rightarrow> string \<Rightarrow> u64 \<Rightarrow> u64 \<Rightarrow> u64 \<Rightarrow> u64 \<Rightarrow> u64 \<Rightarrow> FingerprintProfile" where
  "profile_entry b o' ua suites lang d l r s t =
     \<lparr>browser = b, os = o', user_agent = ua, tls_cipher_suites = suites, accept_language = lang,
      initial_max_data = d, initial_max_stream_data_bidi_local = l, initial_max_stream_data_bidi_remote = r,
      initial_max_streams_bidi = s, max_idle_timeout = t, client_hello = None, server_hello = None, certificate = None\<rparr>"

definition windows_profiles :: "((BrowserProfile \<times> OsProfile) \<times> FingerprintProfile) list" where
  "windows_profiles = [
   ((Chrome, Windows), profile_entry Chrome Windows
      ''Mozilla/5.0 (Windows NT 10.0; Win64; x64) AppleWebKit/537.36 (KHTML, like Gecko) Chrome/126.0.0.0 Safari/537.36''
      [0x1301, 0x1302, 0x1303, 0xc02b, 0xc02f, 0xc02c, 0xc030, 0xcca9, 0xcca8, 0xc013, 0xc014]
      ''en-US,en;q=0.9'' 10000000 1000000 1000000 100 30000),
   ((Firefox, Windows), profile_entry Firefox Windows
      ''Mozilla/5.0 (Windows NT 10.0; Win64; x64; rv:127.0) Gecko/20100101 Firefox/127.0''
      [0x1301, 0x1302, 0x1303, 0xcca9, 0xcca8, 0xc02b, 0xc02f, 0xc02c, 0xc030, 0xc013, 0xc014]
      ''en-US,en;q=0.5'' 12582912 1048576 1048576 100 60000),
   ((Opera, Windows), profile_entry Opera Windows
      ''Mozilla/5.0 (Windows NT 10.0; Win64; x64) AppleWebKit/537.36 (KHTML, like Gecko) Chrome/126.0.0.0 Safari/537.36 OPR/112.0.0.0''
      [0x1301, 0x1302, 0x1303, 0xc02b, 0xc02f, 0xc02c, 0xc030, 0xcca9, 0xcca8, 0xc013, 0xc014]
      ''en-US,en;q=0.9'' 10000000 1000000 1000000 100 30000),
   ((Brave, Windows), profile_entry Brave Windows
      ''Mozilla/5.0 (Windows NT 10.0; Win64; x64) AppleWebKit/537.36 (KHTML, like Gecko) Chrome/126.0.0.0 Safari/537.36 Brave/1.67.0''
      [0x1301, 0x1302, 0x1303, 0xc02b, 0xc02f, 0xc02c, 0xc030, 0xcca9, 0xcca8, 0xc013, 0xc014]
      ''en-US,en;q=0.9'' 10000000 1000000 1000000 100 30000),
   ((Edge, Windows), profile_entry Edge Windows
      ''Mozilla/5.0 (Windows NT 10.0; Win64; x64) AppleWebKit/537.36 (KHTML, like Gecko) Chrome/126.0.0.0 Safari/537.36 Edg/126.0.0.0''
      [0x1301, 0x1302, 0x1303, 0xc02b, 0xc02f, 0xc02c, 0xc030, 0xcca9, 0xcca8, 0xc013, 0xc014]
      ''en-US,en;q=0.9'' 10000000 1000000 1000000 100 30000),
   ((Edge, MacOS), profile_entry Edge MacOS
      ''Mozilla/5.0 (Macintosh; Intel Mac OS X 13_6) AppleWebKit/537.36 (KHTML, like Gecko) Chrome/126.0.0.0 Safari/537.36 Edg/126.0.0.0''
      [0x1301, 0x1302, 0x1303, 0xc02b, 0xc02f, 0xc02c, 0xc030, 0xcca9, 0xcca8, 0xc013, 0xc014]
      ''en-US,en;q=0.9'' 10000000 1000000 1000000 100 30000),
   ((Edge, Linux), profile_entry Edge Linux
      ''Mozilla/5.0 (X11; Linux x86_64) AppleWebKit/537.36 (KHTML, like Gecko) Chrome/126.0.0.0 Safari/537.36 Edg/126.0.0.0''
      [0x1301, 0x1302, 0x1303, 0xc02b, 0xc02f, 0xc02c, 0xc030, 0xcca9, 0xcca8, 0xc013, 0xc014]
      ''en-US,en;q=0.9'' 10000000 1000000 1000000 100 30000),
   ((Vivaldi, Windows), profile_entry Vivaldi Windows
      ''Mozilla/5.0 (Windows NT 10.0; Win64; x64) AppleWebKit/537.36 (KHTML, like Gecko) Chrome/126.0.0.0 Safari/537.36 Vivaldi/6.7.999.31''
      [0x1301, 0x1302, 0x1303, 0xc02b, 0xc02f, 0xc02c, 0xc030, 0xcca9, 0xcca8, 0xc013, 0xc014]
      ''en-US,en;q=0.9'' 10000000 1000000 1000000 100 30000),
   ((Vivaldi, MacOS), profile_entry Vivaldi MacOS
      ''Mozilla/5.0 (Macintosh; Intel Mac OS X 13_6) AppleWebKit/537.36 (KHTML, like Gecko) Chrome/126.0.0.0 Safari/537.36 Vivaldi/6.7.999.31''
      [0x1301, 0x1302, 0x1303, 0xc02b, 0xc02f, 0xc02c, 0xc030, 0xcca9, 0xcca8, 0xc013, 0xc014]
      ''en-US,en;q=0.9'' 10000000 1000000 1000000 100 30000),
   ((Vivaldi, Linux), profile_entry Vivaldi Linux
      ''Mozilla/5.0 (X11; Linux x86_64) AppleWebKit/537.36 (KHTML, like Gecko) Chrome/126.0.0.0 Safari/537.36 Vivaldi/6.7.999.31''
      [0x1301, 0x1302, 0x1303, 0xc02b, 0xc02f, 0xc02c, 0xc030, 0xcca9, 0xcca8, 0xc013, 0xc014]
      ''en-US,en;q=0.9'' 10000000 1000000 1000000 100 30000)]"

definition macos_profiles :: "((BrowserProfile \<times> OsProfile) \<times> FingerprintProfile) list" where
  "macos_profiles = [
   ((Safari, MacOS), profile_entry Safari MacOS
      ''Mozilla/5.0 (Macintosh; Intel Mac OS X 10_15_7) AppleWebKit/605.1.15 (KHTML, like Gecko) Version/17.5 Safari/605.1.15''
      [0x1301, 0x1302, 0x1303, 0xc02b, 0xc02f, 0xc02c, 0xc030, 0xc009, 0xc013, 0xc00a, 0xc014]
      ''en-US,en;q=0.9'' 15728640 2097152 2097152 100 45000),
   ((Chrome, MacOS), profile_entry Chrome MacOS
      ''Mozilla/5.0 (Macintosh; Intel Mac OS X 13_6) AppleWebKit/537.36 (KHTML, like Gecko) Chrome/126.0.0.0 Safari/537.36''
      [0x1301, 0x1302, 0x1303, 0xc02b, 0xc02f, 0xc02c, 0xc030, 0xcca9, 0xcca8, 0xc013, 0xc014]
      ''en-US,en;q=0.9'' 10000000 1000000 1000000 100 30000),
   ((Opera, MacOS), profile_entry Opera MacOS
      ''Mozilla/5.0 (Macintosh; Intel Mac OS X 13_6) AppleWebKit/537.36 (KHTML, like Gecko) Chrome/126.0.0.0 Safari/537.36 OPR/112.0.0.0''
      [0x1301, 0x1302, 0x1303, 0xc02b, 0xc02f, 0xc02c, 0xc030, 0xcca9, 0xcca8, 0xc013, 0xc014]
      ''en-US,en;q=0.9'' 10000000 1000000 1000000 100 30000),
   ((Brave, MacOS), profile_entry Brave MacOS
      ''Mozilla/5.0 (Macintosh; Intel Mac OS X 13_6) AppleWebKit/537.36 (KHTML, like Gecko) Chrome/126.0.0.0 Safari/537.36 Brave/1.67.0''
      [0x1301, 0x1302, 0x1303, 0xc02b, 0xc02f, 0xc02c, 0xc030, 0xcca9, 0xcca8, 0xc013, 0xc014]
      ''en-US,en;q=0.9'' 10000000 1000000 1000000 100 30000),
   ((Firefox, MacOS), profile_entry Firefox MacOS
      ''Mozilla/5.0 (Macintosh; Intel Mac OS X 13_6; rv:127.0) Gecko/20100101 Firefox/127.0''
      [0x1301, 0x1302, 0x1303, 0xcca9, 0xcca8, 0xc02b, 0xc02f, 0xc02c, 0xc030, 0xc013, 0xc014]
      ''en-US,en;q=0.5'' 12582912 1048576 1048576 100 60000),
   ((Chrome, Linux), profile_entry Chrome Linux
      ''Mozilla/5.0 (X11; Linux x86_64) AppleWebKit/537.36 (KHTML, like Gecko) Chrome/126.0.0.0 Safari/537.36''
      [0x1301, 0x1302, 0x1303, 0xc02b, 0xc02f, 0xc02c, 0xc030, 0xcca9, 0xcca8, 0xc013, 0xc014]
      ''en-US,en;q=0.9'' 10000000 1000000 1000000 100 30000),
   ((Opera, Linux), profile_entry Opera Linux
      ''Mozilla/5.0 (X11; Linux x86_64) AppleWebKit/537.36 (KHTML, like Gecko) Chrome/126.0.0.0 Safari/537.36 OPR/112.0.0.0''
      [0x1301, 0x1302, 0x1303, 0xc02b, 0xc02f, 0xc02c, 0xc030, 0xcca9, 0xcca8, 0xc013, 0xc014]
      ''en-US,en;q=0.9'' 10000000 1000000 1000000 100 30000),
   ((Brave, Linux), profile_entry Brave Linux
      ''Mozilla/5.0 (X11; Linux x86_64) AppleWebKit/537.36 (KHTML, like Gecko) Chrome/126.0.0.0 Safari/537.36 Brave/1.67.0''
      [0x1301, 0x1302, 0x1303, 0xc02b, 0xc02f, 0xc02c, 0xc030, 0xcca9, 0xcca8, 0xc013, 0xc014]
      ''en-US,en;q=0.9'' 10000000 1000000 1000000 100 30000),
   ((Firefox, Linux), profile_entry Firefox Linux
      ''Mozilla/5.0 (X11; Ubuntu; Linux x86_64; rv:127.0) Gecko/20100101 Firefox/127.0''
      [0x1301, 0x1302, 0x1303, 0xcca9, 0xcca8, 0xc02b, 0xc02f, 0xc02c, 0xc030, 0xc013, 0xc014]
      ''en-US,en;q=0.5'' 12582912 1048576 1048576 100 60000),
   ((Chrome, Android), profile_entry Chrome Android
      ''Mozilla/5.0 (Linux; Android 14; Pixel 8) AppleWebKit/537.36 (KHTML, like Gecko) Chrome/126.0.0.0 Mobile Safari/537.36''
      [0x1301, 0x1302, 0x1303, 0xc02b, 0xc02f, 0xc02c, 0xc030, 0xcca9, 0xcca8, 0xc013, 0xc014]
      ''en-US,en;q=0.9'' 5000000 500000 500000 100 30000),
   ((Firefox, Android), profile_entry Firefox Android
      ''Mozilla/5.0 (Android 14; Mobile; rv:127.0) Gecko/127.0 Firefox/127.0''
      [0x1301, 0x1302, 0x1303, 0xcca9, 0xcca8, 0xc02b, 0xc02f, 0xc02c, 0xc030, 0xc013, 0xc014]
      ''en-US,en;q=0.9'' 5000000 500000 500000 100 30000),
   ((Opera, Android), profile_entry Opera Android
      ''Mozilla/5.0 (Linux; Android 14; Pixel 8) AppleWebKit/537.36 (KHTML, like Gecko) Chrome/126.0.0.0 Mobile Safari/537.36 OPR/112.0.0.0''
      [0x1301, 0x1302, 0x1303, 0xc02b, 0xc02f, 0xc02c, 0xc030, 0xcca9, 0xcca8, 0xc013, 0xc014]
      ''en-US,en;q=0.9'' 5000000 500000 500000 100 30000),
   ((Brave, Android), profile_entry Brave Android
      ''Mozilla/5.0 (Linux; Android 14; Pixel 8) AppleWebKit/537.36 (KHTML, like Gecko) Chrome/126.0.0.0 Mobile Safari/537.36 Brave/1.67.0''
      [0x1301, 0x1302, 0x1303, 0xc02b, 0xc02f, 0xc02c, 0xc030, 0xcca9, 0xcca8, 0xc013, 0xc014]
      ''en-US,en;q=0.9'' 5000000 500000 500000 100 30000),
   ((Edge, Android), profile_entry Edge Android
      ''Mozilla/5.0 (Linux; Android 14; Pixel 8) AppleWebKit/537.36 (KHTML, like Gecko) Chrome/126.0.0.0 Mobile Safari/537.36 EdgA/126.0.0.0''
      [0x1301, 0x1302, 0x1303, 0xc02b, 0xc02f, 0xc02c, 0xc030, 0xcca9, 0xcca8, 0xc013, 0xc014]
      ''en-US,en;q=0.9'' 5000000 500000 500000 100 30000),
   ((Vivaldi, Android), profile_entry Vivaldi Android
      ''Mozilla/5.0 (Linux; Android 14; Pixel 8) AppleWebKit/537.36 (KHTML, like Gecko) Chrome/126.0.0.0 Mobile Safari/537.36 Vivaldi/6.7.999.31''
      [0x1301, 0x1302, 0x1303, 0xc02b, 0xc02f, 0xc02c, 0xc030, 0xcca9, 0xcca8, 0xc013, 0xc014]
      ''en-US,en;q=0.9'' 5000000 500000 500000 100 30000),
   ((Safari, IOS), profile_entry Safari IOS
      ''Mozilla/5.0 (iPhone; CPU iPhone OS 17_5 like Mac OS X) AppleWebKit/605.1.15 (KHTML, like Gecko) Version/17.5 Mobile/15E148 Safari/604.1''
      [0x1301, 0x1302, 0x1303, 0xc02b, 0xc02f, 0xc02c, 0xc030, 0xc009, 0xc013, 0xc00a, 0xc014]
      ''en-US,en;q=0.9'' 5000000 500000 500000 100 30000)]"

definition base_profile :: "BrowserProfile \<Rightarrow> OsProfile \<Rightarrow> FingerprintProfile option" where
  "base_profile b o' = map_of (windows_profiles @ macos_profiles) (b, o')"

subsection \<open>Recorded ClientHello messages\<close>

primrec browser_name :: "BrowserProfile \<Rightarrow> string" where
  "browser_name Chrome = ''chrome''"
| "browser_name Firefox = ''firefox''"
| "browser_name Safari = ''safari''"
| "browser_name Opera = ''opera''"
| "browser_name Brave = ''brave''"
| "browser_name Edge = ''edge''"
| "browser_name Vivaldi = ''vivaldi''"

primrec os_name :: "OsProfile \<Rightarrow> string" where
  "os_name Windows = ''windows''"
| "os_name MacOS = ''macos''"
| "os_name Linux = ''linux''"
| "os_name IOS = ''ios''"
| "os_name Android = ''android''"

definition profile_file :: "BrowserProfile \<Rightarrow> OsProfile \<Rightarrow> string" where
  "profile_file b o' = browser_name b @ ''_'' @ os_name o' @ ''.chlo''"

definition profile_path :: "BrowserProfile \<Rightarrow> OsProfile \<Rightarrow> string" where
  "profile_path b o' = ''browser_profiles/'' @ profile_file b o'"

definition load_client_hello ::
  "(string \<Rightarrow> string option) \<Rightarrow> (string \<Rightarrow> bytes option) \<Rightarrow> BrowserProfile \<Rightarrow> OsProfile \<Rightarrow> bytes option" where
  "load_client_hello fs base64 b o' =
     (case fs (profile_path b o') of None \<Rightarrow> None | Some d \<Rightarrow> base64 (trim d))"

text \<open>\<open>trim_end_matches\<close> removes the suffix as often as it occurs.\<close>

function trim_end_matches :: "string \<Rightarrow> string \<Rightarrow> string" where
  "trim_end_matches suf s =
     (if suf \<noteq> [] \<and> length suf \<le> length s \<and> drop (length s - length suf) s = suf
      then trim_end_matches suf (take (length s - length suf) s) else s)"
  by pat_completeness auto
termination
  by (relation "measure (\<lambda>(suf, s). length s)") (auto intro!: diff_less)

declare trim_end_matches.simps [simp del]

definition parse_profile_name :: "string \<Rightarrow> (BrowserProfile \<times> OsProfile) option" where
  "parse_profile_name s =
     (if \<not> (5 \<le> length s \<and> drop (length s - 5) s = ''.chlo'') then None
      else case split_on (CHR ''_'') (trim_end_matches ''.chlo'' s) of
             [x, y] \<Rightarrow> (case (BrowserProfile_from_str x, OsProfile_from_str y) of
                         (Some b, Some o') \<Rightarrow> Some (b, o') | _ \<Rightarrow> None)
           | _ \<Rightarrow> None)"

text \<open>The entries of the directory \<open>browser_profiles\<close>, or \<open>None\<close> when it cannot be read.\<close>

definition available_profiles :: "string list option \<Rightarrow> (BrowserProfile \<times> OsProfile) list" where
  "available_profiles entries = (case entries of None \<Rightarrow> [] | Some names \<Rightarrow> List.map_filter parse_profile_name names)"

subsection \<open>Profile construction\<close>

text \<open>The fallback arm constructs the profile of Chrome on Windows, which exists in the table.\<close>

definition FingerprintProfile_new ::
  "(BrowserProfile \<Rightarrow> OsProfile \<Rightarrow> bytes option) \<Rightarrow> BrowserProfile \<Rightarrow> OsProfile \<Rightarrow> FingerprintProfile option" where
  "FingerprintProfile_new load b o' = do {
     profile \<leftarrow> (case base_profile b o' of
                   Some profile \<Rightarrow> Some profile
                 | None \<Rightarrow> map_option (\<lambda>profile. profile\<lparr>client_hello := load Chrome Windows, server_hello := None,
                                                       certificate := None\<rparr>) (base_profile Chrome Windows));
     Some (profile\<lparr>client_hello := load b o', server_hello := None, certificate := None\<rparr>) }"

definition generate_http_headers :: "FingerprintProfile \<Rightarrow> (string \<rightharpoonup> string)" where
  "generate_http_headers p =
     [''User-Agent'' \<mapsto> user_agent p,
      ''Accept'' \<mapsto> ''text/html,application/xhtml+xml,application/xml;q=0.9,image/webp,*/*;q=0.8'',
      ''Accept-Language'' \<mapsto> accept_language p,
      ''Accept-Encoding'' \<mapsto> ''gzip, deflate, br'',
      ''Connection'' \<mapsto> ''keep-alive'']"

subsection \<open>The table\<close>

definition entry_ok :: "(BrowserProfile \<times> OsProfile) \<times> FingerprintProfile \<Rightarrow> bool" where
  "entry_ok e \<longleftrightarrow> (browser (snd e), os (snd e)) = fst e \<and> 0x1301 \<in> set (tls_cipher_suites (snd e)) \<and>
     initial_max_stream_data_bidi_local (snd e) = initial_max_stream_data_bidi_remote (snd e) \<and>
     initial_max_stream_data_bidi_local (snd e) \<le> initial_max_data (snd e)"

lemma table_ok: "list_all entry_ok (windows_profiles @ macos_profiles)"
  by (simp add: entry_ok_def windows_profiles_def macos_profiles_def profile_entry_def)

lemma base_profile_ok: "base_profile b o' = Some p \<Longrightarrow> entry_ok ((b, o'), p)"
  using table_ok map_of_SomeD[of "windows_profiles @ macos_profiles" "(b, o')" p]
  by (auto simp: base_profile_def list_all_iff)

lemma base_profile_Chrome: "\<exists>p. base_profile Chrome Windows = Some p"
  by (simp add: base_profile_def windows_profiles_def)

text \<open>The constructor yields a profile for every pair of browser and system, with the recorded
  ClientHello of that pair, the mandatory TLS 1.3 suite and consistent transport limits. For a pair of the table
  the profile is that of the pair; for every other pair it is that of Chrome on Windows, but still with the
  ClientHello recorded for the requested pair.\<close>

lemma fingerprint_profile_spec:
  "\<exists>p. FingerprintProfile_new load b o' = Some p \<and> client_hello p = load b o' \<and> server_hello p = None \<and>
     certificate p = None \<and> 0x1301 \<in> set (tls_cipher_suites p) \<and>
     initial_max_stream_data_bidi_local p = initial_max_stream_data_bidi_remote p \<and>
     initial_max_stream_data_bidi_local p \<le> initial_max_data p \<and>
     (browser p, os p) = (if base_profile b o' = None then (Chrome, Windows) else (b, o'))"
proof (cases "base_profile b o'")
  case None
  obtain p where p: "base_profile Chrome Windows = Some p" using base_profile_Chrome by blast
  then show ?thesis using base_profile_ok[OF p] None by (auto simp: FingerprintProfile_new_def entry_ok_def)
next
  case (Some p)
  then show ?thesis using base_profile_ok[OF Some] by (auto simp: FingerprintProfile_new_def entry_ok_def)
qed

subsection \<open>Names of profile files\<close>

lemma concat_replicate_snoc: "concat (replicate (Suc n) suf) = concat (replicate n suf) @ suf"
  by (induction n) simp_all

lemma trim_end_matches_suffix: "\<exists>n. s = trim_end_matches suf s @ concat (replicate n suf)"
proof (induction suf s rule: trim_end_matches.induct)
  case (1 suf s)
  show ?case
  proof (cases "suf \<noteq> [] \<and> length suf \<le> length s \<and> drop (length s - length suf) s = suf")
    case True
    with 1 obtain n where n: "take (length s - length suf) s =
        trim_end_matches suf (take (length s - length suf) s) @ concat (replicate n suf)" by blast
    have "s = take (length s - length suf) s @ suf" using True by (metis append_take_drop_id)
    also have "\<dots> = trim_end_matches suf s @ concat (replicate (Suc n) suf)"
      using True by (subst n, subst (2) trim_end_matches.simps) (simp add: concat_replicate_snoc del: replicate.simps)
    finally show ?thesis by blast
  next
    case False
    then have "trim_end_matches suf s = s" by (subst trim_end_matches.simps) auto
    then show ?thesis by (intro exI[of _ 0]) simp
  qed
qed

lemma trim_end_matches_repeat:
  assumes "suf \<noteq> []" "last t \<noteq> last suf" "t \<noteq> []"
  shows "trim_end_matches suf (t @ concat (replicate n suf)) = t"
proof (induction n)
  case 0
  have "\<not> (length suf \<le> length t \<and> drop (length t - length suf) t = suf)"
    using assms by (metis append_take_drop_id last_appendR)
  then show ?case by (subst trim_end_matches.simps) auto
next
  case (Suc n)
  then show ?case
    using assms(1) by (subst trim_end_matches.simps) (simp add: concat_replicate_snoc del: replicate.simps)
qed

lemma split_on_two: "split_on d t = [x, y] \<longleftrightarrow> t = x @ d # y \<and> d \<notin> set x \<and> d \<notin> set y"
proof
  have one: "split_on d cs = [z] \<Longrightarrow> cs = z \<and> d \<notin> set z" for cs z
    by (induction cs arbitrary: z) (auto split: if_splits list.splits)
  show "split_on d t = [x, y] \<Longrightarrow> t = x @ d # y \<and> d \<notin> set x \<and> d \<notin> set y"
    by (induction t arbitrary: x) (auto split: if_splits list.splits dest: one)
qed (simp add: split_on_append split_on_no_delim)

lemma browser_from_str: "BrowserProfile_from_str x = Some b \<longleftrightarrow> map ascii_lower x = browser_name b"
  by (cases b) (auto simp: BrowserProfile_from_str_def)

lemma os_from_str: "OsProfile_from_str y = Some o' \<longleftrightarrow> map ascii_lower y = os_name o' \<or> o' = MacOS \<and> map ascii_lower y = ''mac''"
  by (cases o') (auto simp: OsProfile_from_str_def)

lemma profile_file_parses: "parse_profile_name (profile_file b o') = Some (b, o')"
  by (cases b; cases o'; hypsubst; code_simp)


lemma name_chars:
  "CHR ''_'' \<notin> set (browser_name b)" "CHR ''_'' \<notin> set (os_name o')" "last (os_name o') \<noteq> CHR ''o''" "os_name o' \<noteq> []"
  by (cases b; simp) (cases o'; simp)+

lemma ascii_lower_fixed: "ascii_lower (CHR ''_'') = CHR ''_''" "ascii_lower (CHR ''o'') = CHR ''o''"
  by code_simp+

lemma lower_notin: "ascii_lower c = c \<Longrightarrow> c \<notin> set (map ascii_lower x) \<Longrightarrow> c \<notin> set x"
  by (metis imageI list.set_map)

lemma os_chars:
  assumes "OsProfile_from_str y = Some o'"
  shows "CHR ''_'' \<notin> set y" "y \<noteq> []" "last y \<noteq> CHR ''o''"
proof -
  have "map ascii_lower y \<noteq> []" "CHR ''_'' \<notin> set (map ascii_lower y)" "last (map ascii_lower y) \<noteq> CHR ''o''"
    using assms name_chars(2-4)[of o'] unfolding os_from_str by (auto simp del: set_map list.set_map)
  then show "CHR ''_'' \<notin> set y" "y \<noteq> []" "last y \<noteq> CHR ''o''"
    using ascii_lower_fixed lower_notin by (auto simp: last_map)
qed

lemma browser_chars: "BrowserProfile_from_str x = Some b \<Longrightarrow> CHR ''_'' \<notin> set x"
  using name_chars(1)[of b] ascii_lower_fixed lower_notin unfolding browser_from_str by metis

lemma parse_profile_name_iff:
  "parse_profile_name s = Some (b, o') \<longleftrightarrow>
   (\<exists>x y n. s = x @ CHR ''_'' # y @ concat (replicate (Suc n) ''.chlo'') \<and>
      BrowserProfile_from_str x = Some b \<and> OsProfile_from_str y = Some o')"
proof
  assume p: "parse_profile_name s = Some (b, o')"
  then obtain x y where xy: "5 \<le> length s" "drop (length s - 5) s = ''.chlo''"
    "split_on (CHR ''_'') (trim_end_matches ''.chlo'' s) = [x, y]" "BrowserProfile_from_str x = Some b" "OsProfile_from_str y = Some o'"
    by (auto simp: parse_profile_name_def split: if_splits list.splits option.splits)
  obtain n where n: "s = trim_end_matches ''.chlo'' s @ concat (replicate n ''.chlo'')"
    using trim_end_matches_suffix[of s "''.chlo''"] by blast
  have t: "trim_end_matches ''.chlo'' s = x @ CHR ''_'' # y" using xy(3) by (simp only: split_on_two)
  have "n \<noteq> 0"
  proof
    assume "n = 0"
    then have "s = x @ CHR ''_'' # y" using n t by simp
    then have "last s = last y" "last s = last (drop (length s - 5) s)" using os_chars[OF xy(5)] xy(1) by (simp_all add: last_drop)
    with os_chars[OF xy(5)] xy(2) show False by simp
  qed
  then obtain m where "n = Suc m" by (cases n) auto
  with n t xy(4,5) show "\<exists>x y n. s = x @ CHR ''_'' # y @ concat (replicate (Suc n) ''.chlo'') \<and>
      BrowserProfile_from_str x = Some b \<and> OsProfile_from_str y = Some o'"
    by (intro exI[of _ x] exI[of _ y] exI[of _ m]) (simp del: replicate.simps)
next
  assume "\<exists>x y n. s = x @ CHR ''_'' # y @ concat (replicate (Suc n) ''.chlo'') \<and>
      BrowserProfile_from_str x = Some b \<and> OsProfile_from_str y = Some o'"
  then obtain x y n where s: "s = (x @ CHR ''_'' # y) @ concat (replicate (Suc n) ''.chlo'')"
    and b: "BrowserProfile_from_str x = Some b" and o: "OsProfile_from_str y = Some o'" by auto
  have "trim_end_matches ''.chlo'' s = x @ CHR ''_'' # y"
    unfolding s using os_chars[OF o] by (intro trim_end_matches_repeat) auto
  moreover have "5 \<le> length s \<and> drop (length s - 5) s = ''.chlo''" by (simp add: s concat_replicate_snoc del: replicate.simps)
  moreover have "split_on (CHR ''_'') (x @ CHR ''_'' # y) = [x, y]"
    using browser_chars[OF b] os_chars[OF o] by (simp add: split_on_two)
  ultimately show "parse_profile_name s = Some (b, o')" using b o by (simp add: parse_profile_name_def)
qed

subsection \<open>Properties\<close>

text \<open>C40: the names of profile files. A directory entry is taken for the profile of a browser and a system exactly when
  it consists of the browser's name, an underscore, the system's name (or \<open>mac\<close>) and the ending \<open>.chlo\<close> once or more,
  the names in any letter case. The file in which the ClientHello of a pair is looked up is one of these, files of different
  pairs are different, and \<open>available_profiles\<close> lists exactly the pairs with such an entry.\<close>

theorem profile_names:
  "(parse_profile_name s = Some (b, o') \<longleftrightarrow>
     (\<exists>x y n. s = x @ ''_'' @ y @ concat (replicate (Suc n) ''.chlo'') \<and> map ascii_lower x = browser_name b \<and>
        (map ascii_lower y = os_name o' \<or> o' = MacOS \<and> map ascii_lower y = ''mac''))) \<and>
   parse_profile_name (profile_file b o') = Some (b, o') \<and>
   (profile_file b o' = profile_file b2 o2 \<longleftrightarrow> b = b2 \<and> o' = o2) \<and>
   set (available_profiles (Some names)) = {(b, o'). \<exists>s. s \<in> set names \<and> parse_profile_name s = Some (b, o')}"
proof -
  have "profile_file b o' = profile_file b2 o2 \<longleftrightarrow> b = b2 \<and> o' = o2"
    by (metis Pair_inject option.inject profile_file_parses)
  moreover have "set (available_profiles (Some names)) = {(b, o'). \<exists>s. s \<in> set names \<and> parse_profile_name s = Some (b, o')}"
    by (force simp: available_profiles_def List.map_filter_def image_iff)
  ultimately show ?thesis
    using parse_profile_name_iff[of s b o'] by (simp add: profile_file_parses browser_from_str os_from_str del: replicate.simps)
qed

text \<open>A listed pair need not have the file in which its ClientHello is looked up.\<close>

lemma listed_not_loaded:
  "(Chrome, MacOS) \<in> set (available_profiles (Some [''Chrome_mac.chlo''])) \<and> profile_file Chrome MacOS \<notin> set [''Chrome_mac.chlo'']"
  by code_simp

end
