(* ===== verification/Fake_Tls.thy ===== *)
theory Fake_Tls
  imports Fingerprint
begin

text \<open>
  The FakeTLS record layer (\<open>src/src/fake_tls.rs\<close>): forged handshake records whose length fields are
  truncated to 16 and 24 bits.

  The specification side is \<open>parse_record\<close>, which reads a TLS handshake record the way a TLS peer does.
\<close>

record ClientHelloParams =
  ch_tls_version :: u16
  ch_cipher_suites :: "u16 list"
  ch_extensions :: bytes

definition DEFAULT_CLIENT_HELLO :: bytes where
  "DEFAULT_CLIENT_HELLO =
     [0x16, 0x03, 0x01, 0x00, 0x0f, 0x01, 0x00, 0x00, 0x0b,
      0x66, 0x61, 0x6b, 0x65, 0x2d, 0x63, 0x6c, 0x69, 0x65, 0x6e, 0x74]"

definition DEFAULT_SERVER_HELLO :: bytes where
  "DEFAULT_SERVER_HELLO =
     [0x16, 0x03, 0x03, 0x00, 0x0f, 0x02, 0x00, 0x00, 0x0b,
      0x66, 0x61, 0x6b, 0x65, 0x2d, 0x73, 0x65, 0x72, 0x76, 0x65, 0x72]"

definition DEFAULT_CERTIFICATE :: bytes where
  "DEFAULT_CERTIFICATE = [0x16, 0x03, 0x03, 0x00, 0x08, 0x0b, 0x00, 0x00, 0x04, 0x63, 0x65, 0x72, 0x74]"

definition FakeTls_client_hello :: "FingerprintProfile \<Rightarrow> bytes" where
  "FakeTls_client_hello p = (case client_hello p of Some ch \<Rightarrow> ch | None \<Rightarrow> DEFAULT_CLIENT_HELLO)"

definition u32_to_be_bytes :: "u32 \<Rightarrow> bytes" where
  "u32_to_be_bytes w = [ucast (drop_bit 24 w), ucast (drop_bit 16 w), ucast (drop_bit 8 w), ucast w]"

definition record_bytes :: "u8 \<Rightarrow> bytes \<Rightarrow> bytes" where
  "record_bytes htype payload =
     [0x16, 0x03, 0x03] @ u16_to_be_bytes (of_nat (length payload + 4)) @ [htype] @
     drop 1 (u32_to_be_bytes (of_nat (length payload))) @ payload"

definition client_hello_custom :: "ClientHelloParams \<Rightarrow> bytes" where
  "client_hello_custom params =
     record_bytes 0x01
       (u16_to_be_bytes (ch_tls_version params) @ replicate 32 0 @ [0] @
        u16_to_be_bytes (of_nat (length (ch_cipher_suites params) * 2)) @
        concat (map u16_to_be_bytes (ch_cipher_suites params)) @ [1] @ [0] @
        u16_to_be_bytes (of_nat (length (ch_extensions params))) @ ch_extensions params)"

definition server_hello_custom :: "ServerHelloParams \<Rightarrow> bytes" where
  "server_hello_custom params =
     record_bytes 0x02
       (u16_to_be_bytes (sh_tls_version params) @ replicate 32 0 @ [0] @
        u16_to_be_bytes (sh_cipher_suite params) @ [0] @
        u16_to_be_bytes (of_nat (length (sh_extensions params))) @ sh_extensions params)"

definition certificate_record :: "bytes \<Rightarrow> bytes" where
  "certificate_record cert = record_bytes 0x0b cert"

definition server_response_custom :: "ServerHelloParams \<Rightarrow> bytes \<Rightarrow> bytes" where
  "server_response_custom sh cert = server_hello_custom sh @ certificate_record cert"

definition handshake_custom :: "ClientHelloParams \<Rightarrow> ServerHelloParams \<Rightarrow> bytes" where
  "handshake_custom ch sh = client_hello_custom ch @ server_hello_custom sh"

definition handshake_custom_with_cert :: "ClientHelloParams \<Rightarrow> ServerHelloParams \<Rightarrow> bytes \<Rightarrow> bytes" where
  "handshake_custom_with_cert ch sh cert = client_hello_custom ch @ server_response_custom sh cert"

definition server_response :: bytes where
  "server_response = DEFAULT_SERVER_HELLO @ DEFAULT_CERTIFICATE"

definition first_suite :: "FingerprintProfile \<Rightarrow> u16" where
  "first_suite p = (case tls_cipher_suites p of [] \<Rightarrow> 0x1301 | s # _ \<Rightarrow> s)"

definition handshake :: "FingerprintProfile \<Rightarrow> bytes" where
  "handshake p =
     (let cert = (case certificate p of Some c \<Rightarrow> c | None \<Rightarrow> DEFAULT_CERTIFICATE)
      in if client_hello p = None \<and> server_hello p = None
         then let cipher_suite = first_suite p
              in handshake_custom_with_cert
                   \<lparr>ch_tls_version = 0x0303, ch_cipher_suites = [cipher_suite], ch_extensions = []\<rparr>
                   \<lparr>sh_tls_version = 0x0303, sh_cipher_suite = cipher_suite, sh_extensions = []\<rparr> cert
         else let sh_params = (case server_hello p of
                                 Some owned \<Rightarrow> owned
                               | None \<Rightarrow> \<lparr>sh_tls_version = 0x0303, sh_cipher_suite = first_suite p, sh_extensions = []\<rparr>)
              in FakeTls_client_hello p @ server_response_custom sh_params cert)"

subsection \<open>Reading records\<close>

text \<open>A handshake record: content type 22, a version, a 16-bit length, a handshake type and a 24-bit length that
  leaves no bytes over. The result is the type, the body and the bytes after the record.\<close>

definition parse_record :: "bytes \<Rightarrow> (u8 \<times> bytes \<times> bytes) option" where
  "parse_record b =
     (if length b < 9 \<or> b ! 0 \<noteq> 0x16 \<or> b ! 1 \<noteq> 3 then None
      else let len = unat (b ! 3) * 256 + unat (b ! 4);
               hlen = (unat (b ! 6) * 256 + unat (b ! 7)) * 256 + unat (b ! 8)
           in if len \<noteq> hlen + 4 \<or> length b < 5 + len then None
              else Some (b ! 5, take hlen (drop 9 b), drop (5 + len) b))"

lemma unat_byte: "n < 2 ^ LENGTH('a) \<Longrightarrow> unat (ucast (drop_bit k (of_nat n :: 'a::len word)) :: u8) = n div 2 ^ k mod 256"
  by (simp only: unsigned_ucast_eq unsigned_drop_bit_eq unsigned_of_nat take_bit_nat_eq_self)
     (simp add: drop_bit_eq_div take_bit_eq_mod)

lemma unat_low_byte: "unat (ucast (of_nat n :: 'a::len word) :: u8) = n mod 256" if "8 \<le> LENGTH('a)"
  using that by (simp add: unsigned_ucast_eq unsigned_of_nat take_bit_eq_mod mod_mod_cancel le_imp_power_dvd[of 8 "LENGTH('a)" 2, simplified])

lemma digits3: "(n div 65536 mod 256 * 256 + n div 256 mod 256) * 256 + n mod 256 = n" if "n < 2 ^ 24" for n :: nat
proof -
  have "n div 65536 < 256" using that by (simp add: less_mult_imp_div_less)
  then have "n div 65536 mod 256 = n div 256 div 256" by (simp add: div_mult2_eq[symmetric])
  then show ?thesis by (metis div_mult_mod_eq)
qed

lemma digits2: "m div 256 mod 256 * 256 + m mod 256 = m mod 65536" for m :: nat
  using mod_mult2_eq[of m 256 256] by (simp add: mult.commute)

text \<open>The two length fields of a record.\<close>

lemma length_field16: "unat (u16_to_be_bytes (of_nat n) ! 0) * 256 + unat (u16_to_be_bytes (of_nat n) ! 1) = n mod 65536"
proof -
  have "(of_nat n :: u16) = of_nat (n mod 65536)" by (simp add: word_unat_eq_iff unsigned_of_nat take_bit_eq_mod)
  then have "unat (ucast (drop_bit 8 (of_nat n :: u16)) :: u8) = n mod 65536 div 256 mod 256"
    using unat_byte[of "n mod 65536" 8, where 'a=16] by simp
  moreover have "unat (ucast (of_nat n :: u16) :: u8) = n mod 256" by (rule unat_low_byte) simp
  moreover have "n mod 65536 div 256 mod 256 = n mod 65536 div 256" by (simp add: less_mult_imp_div_less)
  moreover have "n mod 65536 div 256 * 256 + n mod 256 = n mod 65536"
    using div_mult_mod_eq[of "n mod 65536" 256] by (simp add: mod_mod_cancel)
  ultimately show ?thesis by (simp add: u16_to_be_bytes_def)
qed

lemma length_field24:
  "n < 2 ^ 24 \<Longrightarrow> (unat (drop 1 (u32_to_be_bytes (of_nat n)) ! 0) * 256 + unat (drop 1 (u32_to_be_bytes (of_nat n)) ! 1)) * 256 +
     unat (drop 1 (u32_to_be_bytes (of_nat n)) ! 2) = n"
  using unat_byte[of n 16, where 'a=32] unat_byte[of n 8, where 'a=32] unat_low_byte[of n, where 'a=32] digits3[of n]
  by (simp add: u32_to_be_bytes_def)

lemma u16_to_be_bytes_nths: "u16_to_be_bytes w = [u16_to_be_bytes w ! 0, u16_to_be_bytes w ! 1]"
  by (simp add: u16_to_be_bytes_def)

lemma u32_tail_nths: "drop 1 (u32_to_be_bytes w) =
  [drop 1 (u32_to_be_bytes w) ! 0, drop 1 (u32_to_be_bytes w) ! 1, drop 1 (u32_to_be_bytes w) ! 2]"
  by (simp add: u32_to_be_bytes_def)

text \<open>A TLS reader of a forged record gets back exactly its handshake type and payload when the payload has at most
  65531 bytes; for longer ones (below 16 MiB) the 16-bit length field has wrapped around and the record is
  malformed.\<close>

lemma parse_record_bytes:
  assumes "length payload < 2 ^ 24"
  shows "parse_record (record_bytes t payload @ rest) =
     (if length payload + 4 < 65536 then Some (t, payload, rest) else None)"
proof -
  define n where "n = length payload"
  obtain a b where ab: "u16_to_be_bytes (of_nat (n + 4)) = [a, b]" "unat a * 256 + unat b = (n + 4) mod 65536"
    using u16_to_be_bytes_nths[of "of_nat (n + 4)"] length_field16[of "n + 4"] by blast
  obtain c d e where cde: "drop 1 (u32_to_be_bytes (of_nat n)) = [c, d, e]" "(unat c * 256 + unat d) * 256 + unat e = n"
    using u32_tail_nths[of "of_nat n"] length_field24[of n] assms by (auto simp: n_def)
  have r: "record_bytes t payload @ rest = 0x16 # 3 # 3 # a # b # t # c # d # e # payload @ rest"
    using ab(1) cde(1) by (simp add: record_bytes_def n_def)
  show ?thesis
  proof (cases "n + 4 < 65536")
    case True
    have "drop (9 + n) (0x16 # 3 # 3 # a # b # t # c # d # e # payload @ rest) = rest"
      by (simp add: numeral_eq_Suc n_def)
    with True show ?thesis
      unfolding r using ab(2) cde(2) by (simp add: parse_record_def Let_def n_def)
  next
    case False
    then have "(n + 4) mod 65536 \<noteq> n + 4" using mod_less_divisor[of 65536 "n + 4"] by linarith
    with False show ?thesis
      unfolding r using ab(2) cde(2) by (simp add: parse_record_def Let_def n_def)
  qed
qed

text \<open>The parameters of the ServerHello and the certificate that a profile gives or lacks.\<close>

definition hello_params :: "FingerprintProfile \<Rightarrow> ServerHelloParams" where
  "hello_params p = (case server_hello p of
     Some owned \<Rightarrow> owned | None \<Rightarrow> \<lparr>sh_tls_version = 0x0303, sh_cipher_suite = first_suite p, sh_extensions = []\<rparr>)"

definition cert_of :: "FingerprintProfile \<Rightarrow> bytes" where
  "cert_of p = (case certificate p of Some c \<Rightarrow> c | None \<Rightarrow> DEFAULT_CERTIFICATE)"

lemma default_certificate_parses: "parse_record DEFAULT_CERTIFICATE = Some (0x0b, [0x63, 0x65, 0x72, 0x74], [])"
  by code_simp

lemma default_hello_parses: "parse_record DEFAULT_CLIENT_HELLO = Some (0x01, drop 9 DEFAULT_CLIENT_HELLO, [])"
  by code_simp

lemma small_u16: "u16_to_be_bytes 0x0303 = [3, 3]" "u16_to_be_bytes 2 = [0, 2]" "u16_to_be_bytes 0 = [0, 0]"
  by code_simp+

lemmas handshake_split = handshake_custom_with_cert_def server_response_custom_def client_hello_custom_def
  server_hello_custom_def certificate_record_def FakeTls_client_hello_def small_u16

subsection \<open>Properties\<close>

text \<open>C39: the forged handshake of every profile, as a TLS peer reads it. It starts with the profile's recorded ClientHello; a profile
  without one gets the default hello when it has a ServerHello, and otherwise a well-formed ClientHello record that offers the
  first suite of the profile and nothing else (not the default hello). Then come a well-formed ServerHello record with
  the parameters of the profile (or version 1.2 and the first suite), and a Certificate record, which is well-formed exactly
  when the certificate has at most 65531 bytes. A profile without a certificate gets the default one, which is a
  complete record of its own, so that it is wrapped twice.\<close>

theorem fake_handshake_records:
  assumes "length (sh_extensions (hello_params p)) < 65000" "length (cert_of p) < 2 ^ 24"
  shows "\<exists>ch r1 r2. handshake p = ch @ r1 \<and>
     (if client_hello p = None \<and> server_hello p = None
      then parse_record ch = Some (0x01, [3, 3] @ replicate 32 0 @ [0, 0, 2] @ u16_to_be_bytes (first_suite p) @ [1, 0, 0, 0], []) \<and>
           ch \<noteq> DEFAULT_CLIENT_HELLO
      else ch = (case client_hello p of Some c \<Rightarrow> c | None \<Rightarrow> DEFAULT_CLIENT_HELLO)) \<and>
     parse_record r1 = Some (0x02, u16_to_be_bytes (sh_tls_version (hello_params p)) @ replicate 32 0 @ [0] @
         u16_to_be_bytes (sh_cipher_suite (hello_params p)) @ [0] @
         u16_to_be_bytes (of_nat (length (sh_extensions (hello_params p)))) @ sh_extensions (hello_params p), r2) \<and>
     parse_record r2 = (if length (cert_of p) + 4 < 65536 then Some (0x0b, cert_of p, []) else None) \<and>
     (certificate p = None \<longrightarrow> parse_record (cert_of p) = Some (0x0b, [0x63, 0x65, 0x72, 0x74], []))"
proof -
  define ch where "ch = (if client_hello p = None \<and> server_hello p = None
     then record_bytes 0x01 ([3, 3] @ replicate 32 0 @ [0, 0, 2] @ u16_to_be_bytes (first_suite p) @ [1, 0, 0, 0])
     else FakeTls_client_hello p)"
  define sh where "sh = u16_to_be_bytes (sh_tls_version (hello_params p)) @ replicate 32 0 @ [0] @
     u16_to_be_bytes (sh_cipher_suite (hello_params p)) @ [0] @
     u16_to_be_bytes (of_nat (length (sh_extensions (hello_params p)))) @ sh_extensions (hello_params p)"
  have h: "handshake p = ch @ record_bytes 0x02 sh @ record_bytes 0x0b (cert_of p) @ []"
    by (simp add: handshake_def cert_of_def[symmetric] handshake_split ch_def sh_def hello_params_def Let_def split: option.split)
  have ch: "parse_record ch = Some (0x01, [3, 3] @ replicate 32 0 @ [0, 0, 2] @ u16_to_be_bytes (first_suite p) @ [1, 0, 0, 0], [])"
    if "client_hello p = None" "server_hello p = None"
    using parse_record_bytes[of "[3, 3] @ replicate 32 0 @ [0, 0, 2] @ u16_to_be_bytes (first_suite p) @ [1, 0, 0, 0]" 1 "[]"] that
    by (simp add: ch_def)
  moreover have "ch \<noteq> DEFAULT_CLIENT_HELLO" if "client_hello p = None" "server_hello p = None"
    using ch[OF that] default_hello_parses by (auto simp: DEFAULT_CLIENT_HELLO_def)
  moreover have "parse_record (record_bytes 0x02 sh @ record_bytes 0x0b (cert_of p) @ []) = Some (0x02, sh, record_bytes 0x0b (cert_of p) @ [])"
    using assms(1) by (subst parse_record_bytes) (simp_all add: sh_def)
  moreover have "parse_record (record_bytes 0x0b (cert_of p) @ []) = (if length (cert_of p) + 4 < 65536 then Some (0x0b, cert_of p, []) else None)"
    by (rule parse_record_bytes[OF assms(2)])
  moreover have "parse_record (cert_of p) = Some (0x0b, [0x63, 0x65, 0x72, 0x74], [])" if "certificate p = None"
    using that default_certificate_parses by (simp add: cert_of_def)
  ultimately show ?thesis
    unfolding h sh_def[symmetric]
    by (intro exI[of _ ch] exI[of _ "record_bytes 0x02 sh @ record_bytes 0x0b (cert_of p) @ []"] exI[of _ "record_bytes 0x0b (cert_of p) @ []"])
       (auto simp: ch_def FakeTls_client_hello_def split: option.splits)
qed

theorem fake_handshake_records_witness:
  "\<exists>ch r1 r2. handshake (profile_entry Chrome Windows [] [0x1302] [] 0 0 0 0 0) = ch @ r1 \<and>
     parse_record ch = Some (0x01, [3, 3] @ replicate 32 0 @ [0, 0, 2, 0x13, 2, 1, 0, 0, 0], []) \<and>
     parse_record r2 = Some (0x0b, DEFAULT_CERTIFICATE, [])"
proof -
  let ?p = "profile_entry Chrome Windows [] [0x1302] [] 0 0 0 0 0"
  have s: "u16_to_be_bytes (first_suite ?p) = [0x13, 2]" by code_simp
  have "length (sh_extensions (hello_params ?p)) < 65000" "length (cert_of ?p) < 2 ^ 24" "cert_of ?p = DEFAULT_CERTIFICATE"
    "length DEFAULT_CERTIFICATE = 13" "client_hello ?p = None" "server_hello ?p = None"
    by (simp_all add: hello_params_def cert_of_def profile_entry_def DEFAULT_CERTIFICATE_def)
  with fake_handshake_records[of ?p] s show ?thesis by auto
qed

end
