(* ===== verification/Tls_Ffi.thy ===== *)
theory Tls_Ffi
  imports Prelude
begin

text \<open>
  The hooks into a patched quiche library (\<open>src/src/tls_ffi.rs\<close>).

  Every hook looks up its function once, in a \<open>OnceLock\<close> of its own, and calls it when the lookup found
  one. The lookup loads the library named by \<open>QUICHE_PATH\<close> and stores all the symbols it exports. A lock is
  empty, being initialised, or holds its value; storing into a lock that is being initialised by the same
  thread does not return (documented for \<open>OnceLock::get_or_init\<close>), which is the value \<open>None\<close> here.

  The library is a parameter: \<open>None\<close> when \<open>QUICHE_PATH\<close> is unset or the library does not load, and
  otherwise the symbols it exports with the answer of its builder constructor. The calls that reach the library
  are recorded in order.
\<close>

datatype ffi_symbol = SetTls | EnableSimd | BuilderNew | BuilderAdd | BuilderUse | BuilderFree
  | DisableGrease | SetDeterministic

datatype ffi_call = CustomTls bytes | Simd | NewBuilder | AddToBuilder bytes | UseBuilder | FreeBuilder
  | TlsGreaseOff | DeterministicHello

record ffi_lib =
  exports :: "ffi_symbol \<Rightarrow> bool"
  builder_ok :: bool

datatype lock = Unset | Initialising | Set bool

text \<open>The statics, and the order in which \<open>load_real_symbols\<close> stores.\<close>

type_synonym ffi = "ffi_symbol \<Rightarrow> lock"

definition ffi_start :: ffi where
  "ffi_start = (\<lambda>_. Unset)"

definition load_order :: "ffi_symbol list" where
  "load_order = [SetTls, EnableSimd, BuilderNew, BuilderAdd, BuilderUse, BuilderFree, DisableGrease, SetDeterministic]"

text \<open>\<open>OnceLock::set\<close>: an occupied lock keeps its value.\<close>

definition lock_set :: "ffi_symbol \<Rightarrow> bool \<Rightarrow> ffi \<Rightarrow> ffi option" where
  "lock_set s v f =
     (case f s of Unset \<Rightarrow> Some (f(s := Set v)) | Initialising \<Rightarrow> None | Set _ \<Rightarrow> Some f)"

definition load_real_symbols :: "ffi_lib option \<Rightarrow> ffi \<Rightarrow> ffi option" where
  "load_real_symbols lib f =
     (case lib of
        None \<Rightarrow> Some f
      | Some l \<Rightarrow> ofold (\<lambda>s f. if exports l s then lock_set s True f else Some f) load_order f)"

text \<open>\<open>get_or_init\<close> with the closure all hooks pass: load, then read the own lock again, which is still
  empty.\<close>

definition lookup_symbol :: "ffi_lib option \<Rightarrow> ffi_symbol \<Rightarrow> ffi \<Rightarrow> (bool \<times> ffi) option" where
  "lookup_symbol lib s f =
     (case f s of
        Set v \<Rightarrow> Some (v, f)
      | Initialising \<Rightarrow> None
      | Unset \<Rightarrow> do {
          f \<leftarrow> load_real_symbols lib (f(s := Initialising));
          let v = (case f s of Set v \<Rightarrow> v | _ \<Rightarrow> False);
          Some (v, f(s := Set v)) })"

type_synonym ffi_step = "ffi \<Rightarrow> (ffi_call list \<times> ffi) option"

definition hook :: "ffi_lib option \<Rightarrow> ffi_symbol \<Rightarrow> ffi_call \<Rightarrow> ffi_step" where
  "hook lib s c f = do {
     (real, f) \<leftarrow> lookup_symbol lib s f;
     Some (if real then [c] else [], f) }"

definition quiche_config_set_custom_tls :: "ffi_lib option \<Rightarrow> bytes \<Rightarrow> ffi_step" where
  "quiche_config_set_custom_tls lib hello = hook lib SetTls (CustomTls hello)"

text \<open>The first component is whether the pointer is not null.\<close>

definition quiche_chlo_builder_new_wrapper :: "ffi_lib option \<Rightarrow> ffi \<Rightarrow> (bool \<times> ffi_call list \<times> ffi) option" where
  "quiche_chlo_builder_new_wrapper lib f = do {
     (real, f) \<leftarrow> lookup_symbol lib BuilderNew f;
     Some (if real then (case lib of None \<Rightarrow> False | Some l \<Rightarrow> builder_ok l, [NewBuilder], f) else (False, [], f)) }"

definition quiche_chlo_builder_add_wrapper :: "ffi_lib option \<Rightarrow> bytes \<Rightarrow> ffi_step" where
  "quiche_chlo_builder_add_wrapper lib d = hook lib BuilderAdd (AddToBuilder d)"

definition quiche_config_set_chlo_builder_wrapper :: "ffi_lib option \<Rightarrow> ffi_step" where
  "quiche_config_set_chlo_builder_wrapper lib = hook lib BuilderUse UseBuilder"

definition quiche_chlo_builder_free_wrapper :: "ffi_lib option \<Rightarrow> ffi_step" where
  "quiche_chlo_builder_free_wrapper lib = hook lib BuilderFree FreeBuilder"

definition quiche_ssl_disable_tls_grease :: "ffi_lib option \<Rightarrow> ffi_step" where
  "quiche_ssl_disable_tls_grease lib = hook lib DisableGrease TlsGreaseOff"

definition quiche_ssl_set_deterministic_hello :: "ffi_lib option \<Rightarrow> ffi_step" where
  "quiche_ssl_set_deterministic_hello lib = hook lib SetDeterministic DeterministicHello"

definition quiche_config_enable_simd :: "ffi_lib option \<Rightarrow> ffi_step" where
  "quiche_config_enable_simd lib = hook lib EnableSimd Simd"

text \<open>Hooks one after the other.\<close>

definition ffi_seq :: "ffi_step list \<Rightarrow> ffi_step" where
  "ffi_seq steps f = ofold (\<lambda>st (cs, f). do { (cs', f) \<leftarrow> st f; Some (cs @ cs', f) }) steps ([], f)"

text \<open>\<open>read\<close> is the file system and \<open>decode\<close> the base64 decoder.\<close>

definition load_client_hello_from_file ::
  "(string \<Rightarrow> string + string) \<Rightarrow> (string \<Rightarrow> string + bytes) \<Rightarrow> ffi_lib option \<Rightarrow> string \<Rightarrow> ffi \<Rightarrow>
   ((string + unit) \<times> ffi_call list \<times> ffi) option" where
  "load_client_hello_from_file read decode lib path f =
     (case read path of
        Inl e \<Rightarrow> Some (Inl e, [], f)
      | Inr d \<Rightarrow> (case decode (trim d) of
                   Inl e \<Rightarrow> Some (Inl e, [], f)
                 | Inr hello \<Rightarrow> do {
                     (cs, f) \<leftarrow> quiche_config_set_custom_tls lib hello f;
                     Some (Inr (), cs, f) }))"

subsection \<open>Lookup\<close>

text \<open>Between two hooks no lock is being initialised.\<close>

definition idle :: "ffi \<Rightarrow> bool" where
  "idle f \<longleftrightarrow> (\<forall>s. f s \<noteq> Initialising)"

lemma ffi_start_simps [simp]: "idle ffi_start" "ffi_start s = Unset"
  by (simp_all add: idle_def ffi_start_def)

lemma ffi_symbol_in_load_order: "s \<in> set load_order"
  by (cases s) (simp_all add: load_order_def)

abbreviation store_exported :: "ffi_lib \<Rightarrow> ffi_symbol \<Rightarrow> ffi \<Rightarrow> ffi option" where
  "store_exported l \<equiv> \<lambda>s f. if exports l s then lock_set s True f else Some f"

lemma store_own_symbol:
  "s \<in> set ss \<Longrightarrow> exports l s \<Longrightarrow> f s = Initialising \<Longrightarrow> ofold (store_exported l) ss f = None"
proof (induction ss arbitrary: f)
  case (Cons t ss)
  then show ?case by (cases "t = s") (auto simp: lock_set_def split: lock.split)
qed simp

lemma store_other_symbols:
  "\<not> exports l s \<Longrightarrow> f s = Initialising \<Longrightarrow> \<forall>t. t \<noteq> s \<longrightarrow> f t \<noteq> Initialising \<Longrightarrow>
   \<exists>f'. ofold (store_exported l) ss f = Some f' \<and> f' s = Initialising \<and> (\<forall>t. t \<noteq> s \<longrightarrow> f' t \<noteq> Initialising)"
proof (induction ss arbitrary: f)
  case (Cons t ss)
  show ?case
  proof (cases "exports l t")
    case True
    with Cons.prems have "t \<noteq> s" "f t \<noteq> Initialising" by auto
    then have "\<exists>f'. ofold (store_exported l) ss (f(t := Set True)) = Some f' \<and> f' s = Initialising \<and>
                 (\<forall>t. t \<noteq> s \<longrightarrow> f' t \<noteq> Initialising)"
      using Cons.prems by (intro Cons.IH) auto
    with True \<open>f t \<noteq> Initialising\<close> Cons.IH[OF Cons.prems] show ?thesis
      by (cases "f t") (simp_all add: lock_set_def)
  qed (use Cons in simp)
qed simp

text \<open>The first lookup of a symbol: it does not return when the library has the symbol.\<close>

lemma lookup_first:
  assumes "idle f" "f s = Unset"
  shows "(case lib of Some l \<Rightarrow> exports l s | None \<Rightarrow> False) \<Longrightarrow> lookup_symbol lib s f = None"
    and "\<not> (case lib of Some l \<Rightarrow> exports l s | None \<Rightarrow> False) \<Longrightarrow>
         \<exists>f'. lookup_symbol lib s f = Some (False, f') \<and> idle f' \<and> f' s = Set False"
proof -
  assume "case lib of Some l \<Rightarrow> exports l s | None \<Rightarrow> False"
  with assms show "lookup_symbol lib s f = None"
    by (auto simp: lookup_symbol_def load_real_symbols_def store_own_symbol ffi_symbol_in_load_order split: option.splits)
next
  assume a: "\<not> (case lib of Some l \<Rightarrow> exports l s | None \<Rightarrow> False)"
  have "\<exists>f'. load_real_symbols lib (f(s := Initialising)) = Some f' \<and> f' s = Initialising \<and>
             (\<forall>t. t \<noteq> s \<longrightarrow> f' t \<noteq> Initialising)"
    using a assms store_other_symbols[of _ s "f(s := Initialising)" load_order]
    by (cases lib) (auto simp: load_real_symbols_def idle_def)
  with assms show "\<exists>f'. lookup_symbol lib s f = Some (False, f') \<and> idle f' \<and> f' s = Set False"
    by (auto simp: lookup_symbol_def idle_def)
qed

lemma lookup_result:
  assumes "idle f" "lookup_symbol lib s f = Some (v, f')"
  shows "idle f' \<and> f' s = Set v"
proof (cases "f s")
  case Unset
  from lookup_first[OF assms(1) this, of lib] assms(2) show ?thesis by (cases "case lib of Some l \<Rightarrow> exports l s | None \<Rightarrow> False") auto
qed (use assms in \<open>auto simp: lookup_symbol_def\<close>)

lemma lookup_start:
  assumes "lookup_symbol lib s ffi_start = Some (v, f)"
  shows "\<not> v \<and> idle f"
proof (cases "case lib of Some l \<Rightarrow> exports l s | None \<Rightarrow> False")
  case True
  with lookup_first(1)[of ffi_start s lib] assms show ?thesis by simp
next
  case False
  with lookup_first(2)[of ffi_start s lib] assms show ?thesis by auto
qed

text \<open>A hook reaches the library only after an earlier lookup of a symbol that the library does not have.\<close>

lemma builder_new_first:
  assumes "quiche_chlo_builder_new_wrapper lib ffi_start = Some (ok, cs, f)"
  shows "\<not> ok \<and> cs = [] \<and> idle f"
proof -
  obtain v f1 where l: "lookup_symbol lib BuilderNew ffi_start = Some (v, f1)"
    using assms by (auto simp: quiche_chlo_builder_new_wrapper_def Option.bind_eq_Some_conv)
  with assms lookup_start[OF l] show ?thesis by (simp add: quiche_chlo_builder_new_wrapper_def)
qed

lemma hook_first_hangs:
  assumes "exports l s"
  shows "hook (Some l) s c ffi_start = None"
  using lookup_first(1)[of ffi_start s "Some l"] assms by (simp add: hook_def)

lemma hook_without_library:
  assumes "idle f" "\<forall>s. f s \<noteq> Set True"
  shows "\<exists>f'. hook None s c f = Some ([], f') \<and> idle f' \<and> (\<forall>s. f' s \<noteq> Set True)"
  using assms by (cases "f s") (auto simp: hook_def lookup_symbol_def load_real_symbols_def idle_def)

text \<open>The hooks as seen from a fresh process. Without a library every sequence of hooks returns and
  does nothing. With a library that has the symbol, the first hook to be called does not return: the lookup stores into
  the lock it is initialising. The first hook that returns has not called the library.\<close>

lemma hooks_from_start:
  "(\<exists>f. ffi_seq (map (\<lambda>(s, c). hook None s c) hs) ffi_start = Some ([], f)) \<and>
   (exports l s \<longrightarrow> hook (Some l) s c ffi_start = None) \<and>
   (hook lib s c ffi_start = Some (cs, f) \<longrightarrow> cs = [])"
proof -
  have run: "\<exists>f'. ofold (\<lambda>st (cs, f). do { (cs', f) \<leftarrow> st f; Some (cs @ cs', f) }) (map (\<lambda>(s, c). hook None s c) hs) (cs0, f) = Some (cs0, f')"
    if "idle f" "\<forall>s. f s \<noteq> Set True" for f and cs0 :: "ffi_call list"
    using that
  proof (induction hs arbitrary: f)
    case (Cons h hs)
    obtain s c where h: "h = (s, c)" by (cases h)
    show ?case using hook_without_library[OF Cons.prems, of s c] Cons.IH by (auto simp: h)
  qed simp
  have "cs = []" if h: "hook lib s c ffi_start = Some (cs, f)"
  proof -
    obtain v f1 where l: "lookup_symbol lib s ffi_start = Some (v, f1)" "cs = (if v then [c] else [])"
      using h by (auto simp: hook_def Option.bind_eq_Some_conv)
    with lookup_start[OF l(1)] show ?thesis by simp
  qed
  with run[of ffi_start "[]"] hook_first_hangs show ?thesis by (auto simp: ffi_seq_def)
qed

end
