(* ===== verification/Stealth.thy ===== *)
theory Stealth
  imports Obfuscation Fake_Tls Tls_Ffi
begin

text \<open>
  The stealth layer (\<open>Http3Masquerade\<close>, \<open>FakeHeaders\<close>, \<open>StealthConfig\<close>, \<open>resolve_doh\<close> and
  \<open>StealthManager\<close> of \<open>src/src/stealth.rs\<close>).

  Parameters stand for the code outside: the QPACK encoder of quiche, the loader of recorded ClientHello
  messages (\<open>load\<close>), the TOML parser, the HTTP client with its JSON decoder. What a call does to the
  \<open>quiche::Config\<close> it is given is the list of configuration calls it makes (\<open>config_call\<close>), those through the
  hooks of \<open>Tls_Ffi\<close> included; a hook that does not return makes the result \<open>None\<close>. Telemetry and logging are left out.
\<close>

subsection \<open>HTTP/3 headers\<close>

type_synonym header = "string \<times> string"

definition opt_header :: "string \<Rightarrow> string option \<Rightarrow> header list" where
  "opt_header name v = (case v of None \<Rightarrow> [] | Some v \<Rightarrow> [(name, v)])"

definition generate_headers :: "FingerprintProfile \<Rightarrow> string \<Rightarrow> string \<Rightarrow> header list" where
  "generate_headers p host path =
     (let http_headers = generate_http_headers p
      in [('':method'', ''GET''), ('':scheme'', ''https''), ('':authority'', host), ('':path'', path),
          (''user-agent'', user_agent p)] @
         opt_header ''accept-language'' (http_headers ''Accept-Language'') @
         opt_header ''accept'' (http_headers ''Accept'') @
         opt_header ''accept-encoding'' (http_headers ''Accept-Encoding''))"

definition generate_qpack_headers :: "(header list \<Rightarrow> bytes) \<Rightarrow> FingerprintProfile \<Rightarrow> string \<Rightarrow> string \<Rightarrow> bytes" where
  "generate_qpack_headers qpack p host path = qpack (generate_headers p host path)"

record FakeHeadersConfig =
  optimize_for_quic :: bool
  fh_use_qpack_headers :: bool

definition header_list :: "FakeHeadersConfig \<Rightarrow> FingerprintProfile \<Rightarrow> string \<Rightarrow> string \<Rightarrow> header list" where
  "header_list cfg p host path =
     (let headers = generate_headers p host path
      in if optimize_for_quic cfg then filter (\<lambda>h. fst h \<noteq> ''connection'') headers else headers)"

definition qpack_block ::
  "(header list \<Rightarrow> bytes) \<Rightarrow> FakeHeadersConfig \<Rightarrow> FingerprintProfile \<Rightarrow> string \<Rightarrow> string \<Rightarrow> bytes" where
  "qpack_block qpack cfg p host path = qpack (header_list cfg p host path)"

subsection \<open>Configuration\<close>

record StealthConfig =
  browser_profile :: BrowserProfile
  os_profile :: OsProfile
  use_fake_tls :: bool
  enable_doh :: bool
  doh_provider :: string
  enable_http3_masquerading :: bool
  use_qpack_headers :: bool
  enable_domain_fronting :: bool
  fronting_domains :: "string list"
  cdn_providers :: "CdnProvider list"
  enable_xor_obfuscation :: bool

definition StealthConfig_default :: StealthConfig where
  "StealthConfig_default =
     \<lparr>browser_profile = Chrome, os_profile = Windows, use_fake_tls = False, enable_doh = True,
      doh_provider = ''https://cloudflare-dns.com/dns-query'', enable_http3_masquerading = True,
      use_qpack_headers = True, enable_domain_fronting = True, fronting_domains = [],
      cdn_providers = [Cloudflare, Google, MicrosoftAzure, Akamai, Fastly], enable_xor_obfuscation = True\<rparr>"

record StealthSection =
  s_browser_profile :: "BrowserProfile option"
  s_os_profile :: "OsProfile option"
  s_use_fake_tls :: "bool option"
  s_enable_doh :: "bool option"
  s_doh_provider :: "string option"
  s_enable_http3_masquerading :: "bool option"
  s_use_qpack_headers :: "bool option"
  s_enable_domain_fronting :: "bool option"
  s_fronting_domains :: "string list option"
  s_enable_xor_obfuscation :: "bool option"

text \<open>\<open>if let Some(v) = o { cfg.field = v }\<close>\<close>

definition set_opt :: "'v option \<Rightarrow> (('v \<Rightarrow> 'v) \<Rightarrow> 'c \<Rightarrow> 'c) \<Rightarrow> 'c \<Rightarrow> 'c" where
  "set_opt v upd c = (case v of None \<Rightarrow> c | Some x \<Rightarrow> upd (\<lambda>_. x) c)"

definition apply_section :: "StealthSection \<Rightarrow> StealthConfig \<Rightarrow> StealthConfig" where
  "apply_section sec =
     set_opt (s_enable_xor_obfuscation sec) enable_xor_obfuscation_update \<circ>
     set_opt (s_fronting_domains sec) fronting_domains_update \<circ>
     set_opt (s_enable_domain_fronting sec) enable_domain_fronting_update \<circ>
     set_opt (s_use_qpack_headers sec) use_qpack_headers_update \<circ>
     set_opt (s_enable_http3_masquerading sec) enable_http3_masquerading_update \<circ>
     set_opt (s_doh_provider sec) doh_provider_update \<circ>
     set_opt (s_enable_doh sec) enable_doh_update \<circ>
     set_opt (s_use_fake_tls sec) use_fake_tls_update \<circ>
     set_opt (s_os_profile sec) os_profile_update \<circ>
     set_opt (s_browser_profile sec) browser_profile_update"

definition StealthConfig_from_toml :: "(string \<Rightarrow> 'e + StealthSection option) \<Rightarrow> string \<Rightarrow> 'e + StealthConfig" where
  "StealthConfig_from_toml parse s =
     (case parse s of
        Inl e \<Rightarrow> Inl e
      | Inr None \<Rightarrow> Inr StealthConfig_default
      | Inr (Some sec) \<Rightarrow> Inr (apply_section sec StealthConfig_default))"

definition StealthConfig_validate :: "StealthConfig \<Rightarrow> string + unit" where
  "StealthConfig_validate c =
     (if enable_doh c \<and> doh_provider c = [] then Inl ''doh_provider must not be empty when DoH is enabled''
      else if enable_domain_fronting c \<and> fronting_domains c = [] \<and> cdn_providers c = []
      then Inl ''fronting_domains required when domain fronting is enabled''
      else Inr ())"

subsection \<open>Name resolution\<close>

text \<open>The records of the JSON field \<open>Answer\<close>; \<open>None\<close> when it is missing or not an array.\<close>

record doh_record =
  rr_type :: nat
  rr_data :: "string option"

datatype IpAddr = IpV4 u8 u8 u8 u8 | IpV6 "u16 list"

fun first_address :: "(string \<Rightarrow> IpAddr option) \<Rightarrow> doh_record list \<Rightarrow> IpAddr option" where
  "first_address parse_ip [] = None"
| "first_address parse_ip (r # rs) =
     (if rr_type r = 1
      then (case Option.bind (rr_data r) parse_ip of Some ip \<Rightarrow> Some ip | None \<Rightarrow> first_address parse_ip rs)
      else first_address parse_ip rs)"

definition resolve_doh ::
  "(string \<Rightarrow> string \<Rightarrow> string + doh_record list option) \<Rightarrow> (string \<Rightarrow> IpAddr option) \<Rightarrow> string \<Rightarrow> string \<Rightarrow> string + IpAddr" where
  "resolve_doh query parse_ip domain provider =
     (case query provider domain of
        Inl e \<Rightarrow> Inl e
      | Inr answers \<Rightarrow>
          (case Option.bind answers (first_address parse_ip) of
             Some ip \<Rightarrow> Inr ip
           | None \<Rightarrow> Inl ''No A record returned''))"

subsection \<open>The manager\<close>

record StealthManager =
  sm_config :: StealthConfig
  fingerprint :: FingerprintProfile
  domain_fronter :: "DomainFrontingManager option"
  xor_obfuscator :: "XorObfuscator option"

definition StealthManager_new ::
  "(BrowserProfile \<Rightarrow> OsProfile \<Rightarrow> bytes option) \<Rightarrow> (nat \<Rightarrow> u8) \<Rightarrow> StealthConfig \<Rightarrow> StealthManager option" where
  "StealthManager_new load rng cfg = do {
     fp \<leftarrow> FingerprintProfile_new load (browser_profile cfg) (os_profile cfg);
     let fp = (if client_hello fp = None then fp\<lparr>client_hello := load (browser fp) (os fp)\<rparr> else fp);
     Some \<lparr>sm_config = cfg, fingerprint = fp,
           domain_fronter =
             (if enable_domain_fronting cfg
              then Some (if fronting_domains cfg \<noteq> [] then DomainFrontingManager_new (fronting_domains cfg)
                         else from_providers (cdn_providers cfg))
              else None),
           xor_obfuscator = (if enable_xor_obfuscation cfg then Some (XorObfuscator_new rng) else None)\<rparr> }"

definition available_fingerprints ::
  "(BrowserProfile \<Rightarrow> OsProfile \<Rightarrow> bytes option) \<Rightarrow> string list option \<Rightarrow> FingerprintProfile list option" where
  "available_fingerprints load entries = omap (\<lambda>(b, o'). FingerprintProfile_new load b o') (available_profiles entries)"

datatype quiche_cipher = TLS13_AES_128_GCM_SHA256 | TLS13_AES_256_GCM_SHA384 | TLS13_CHACHA20_POLY1305_SHA256
  | ECDHE_ECDSA_WITH_AES_128_GCM_SHA256 | ECDHE_RSA_WITH_AES_128_GCM_SHA256
  | ECDHE_ECDSA_WITH_AES_256_GCM_SHA384 | ECDHE_RSA_WITH_AES_256_GCM_SHA384
  | ECDHE_ECDSA_WITH_CHACHA20_POLY1305_SHA256 | ECDHE_RSA_WITH_CHACHA20_POLY1305_SHA256

definition map_iana_to_quiche_cipher :: "u16 \<Rightarrow> quiche_cipher option" where
  "map_iana_to_quiche_cipher =
     map_of [(0x1301, TLS13_AES_128_GCM_SHA256), (0x1302, TLS13_AES_256_GCM_SHA384),
             (0x1303, TLS13_CHACHA20_POLY1305_SHA256),
             (0xc02b, ECDHE_ECDSA_WITH_AES_128_GCM_SHA256), (0xc02f, ECDHE_RSA_WITH_AES_128_GCM_SHA256),
             (0xc02c, ECDHE_ECDSA_WITH_AES_256_GCM_SHA384), (0xc030, ECDHE_RSA_WITH_AES_256_GCM_SHA384),
             (0xcca9, ECDHE_ECDSA_WITH_CHACHA20_POLY1305_SHA256), (0xcca8, ECDHE_RSA_WITH_CHACHA20_POLY1305_SHA256)]"

datatype config_call = SetCiphers "quiche_cipher list" | SetApplicationProtos
  | SetInitialMaxData u64 | SetInitialMaxStreamDataBidiLocal u64 | SetInitialMaxStreamDataBidiRemote u64
  | SetInitialMaxStreamsBidi u64 | SetMaxIdleTimeout u64 | Ffi ffi_call
  | SetCcBbr2 | EnableMtuProbing
  | SetProtos bytes | SetMaxRecvUdpPayloadSize nat | SetMaxSendUdpPayloadSize nat | SetInitialMaxStreamsUni u64
  | VerifyPeer bool | LogKeys | LoadVerifyLocations string | LoadCertChain string | LoadPrivKey string

definition cipher_ids :: "FingerprintProfile \<Rightarrow> u16 option \<Rightarrow> u16 list" where
  "cipher_ids fp preferred =
     (case preferred of
        None \<Rightarrow> tls_cipher_suites fp
      | Some i \<Rightarrow> if i \<in> set (tls_cipher_suites fp) then tls_cipher_suites fp else i # tls_cipher_suites fp)"

text \<open>A builder is created, filled and installed; GREASE and randomisation are switched off. Without a builder
  nothing happens.\<close>

definition inject_bytes :: "ffi_lib option \<Rightarrow> bytes \<Rightarrow> ffi_step" where
  "inject_bytes lib hello f = do {
     (b, cs, f) \<leftarrow> quiche_chlo_builder_new_wrapper lib f;
     if b
     then do {
       (cs', f) \<leftarrow> ffi_seq [quiche_chlo_builder_add_wrapper lib hello, quiche_config_set_chlo_builder_wrapper lib,
                            quiche_chlo_builder_free_wrapper lib, quiche_ssl_disable_tls_grease lib,
                            quiche_ssl_set_deterministic_hello lib] f;
       Some (cs @ cs', f) }
     else Some (cs, f) }"

definition inject_profile ::
  "ffi_lib option \<Rightarrow> (BrowserProfile \<Rightarrow> OsProfile \<Rightarrow> bytes option) \<Rightarrow> BrowserProfile \<Rightarrow> OsProfile \<Rightarrow> ffi_step" where
  "inject_profile lib load b o' f =
     (case load b o' of Some hello \<Rightarrow> inject_bytes lib hello f | None \<Rightarrow> Some ([], f))"

definition apply_utls_profile ::
  "ffi_lib option \<Rightarrow> (BrowserProfile \<Rightarrow> OsProfile \<Rightarrow> bytes option) \<Rightarrow> u16 option \<Rightarrow> StealthManager \<Rightarrow> ffi \<Rightarrow>
   (config_call list \<times> StealthManager \<times> ffi) option" where
  "apply_utls_profile lib load preferred m f = do {
     let fp = fingerprint m;
     let quiche_ciphers = List.map_filter map_iana_to_quiche_cipher (cipher_ids fp preferred);
     (calls, fp, f) \<leftarrow>
       (if quiche_ciphers \<noteq> []
        then do {
          let fp = (if client_hello fp = None then fp\<lparr>client_hello := load (browser fp) (os fp)\<rparr> else fp);
          (cs, f) \<leftarrow> (case client_hello fp of None \<Rightarrow> Some ([], f) | Some hello \<Rightarrow> inject_bytes lib hello f);
          Some (SetCiphers quiche_ciphers # map Ffi cs, fp, f) }
        else Some ([], fp, f));
     Some (calls @ [SetApplicationProtos, SetInitialMaxData (initial_max_data fp),
                    SetInitialMaxStreamDataBidiLocal (initial_max_stream_data_bidi_local fp),
                    SetInitialMaxStreamDataBidiRemote (initial_max_stream_data_bidi_remote fp),
                    SetInitialMaxStreamsBidi (initial_max_streams_bidi fp), SetMaxIdleTimeout (max_idle_timeout fp)],
           m\<lparr>fingerprint := fp\<rparr>, f) }"

definition set_fingerprint_profile ::
  "ffi_lib option \<Rightarrow> (BrowserProfile \<Rightarrow> OsProfile \<Rightarrow> bytes option) \<Rightarrow> FingerprintProfile \<Rightarrow> bool \<Rightarrow>
   StealthManager \<Rightarrow> ffi \<Rightarrow> (ffi_call list \<times> StealthManager \<times> ffi) option" where
  "set_fingerprint_profile lib load profile with_cfg m f = do {
     let p = (if client_hello profile = None then profile\<lparr>client_hello := load (browser profile) (os profile)\<rparr> else profile);
     (cs, f) \<leftarrow> (case client_hello p of
                  Some hello \<Rightarrow> if with_cfg then inject_bytes lib hello f else Some ([], f)
                | None \<Rightarrow> Some ([], f));
     Some (cs, m\<lparr>fingerprint := p\<rparr>, f) }"

definition current_profile :: "StealthManager \<Rightarrow> FingerprintProfile" where
  "current_profile m = fingerprint m"

definition fake_tls_handshake :: "StealthManager \<Rightarrow> bytes" where
  "fake_tls_handshake m = handshake (fingerprint m)"

definition configure_tls ::
  "ffi_lib option \<Rightarrow> (BrowserProfile \<Rightarrow> OsProfile \<Rightarrow> bytes option) \<Rightarrow> bool \<Rightarrow> u16 option \<Rightarrow> StealthManager \<Rightarrow> ffi \<Rightarrow>
   (bytes option \<times> config_call list \<times> StealthManager \<times> ffi) option" where
  "configure_tls lib load enable_utls preferred m f =
     (if use_fake_tls (sm_config m) \<and> fake_tls_handshake m \<noteq> [] then Some (Some (fake_tls_handshake m), [], m, f)
      else if enable_utls
      then do {
        (calls, m, f) \<leftarrow> apply_utls_profile lib load preferred m f;
        (cs, f) \<leftarrow> ffi_seq [quiche_ssl_disable_tls_grease lib, quiche_ssl_set_deterministic_hello lib] f;
        Some (None, calls @ map Ffi cs, m, f) }
      else Some (None, [], m, f))"

text \<open>One tick of the rotation task; it is only started for a non-empty list.\<close>

definition rotate_profile ::
  "ffi_lib option \<Rightarrow> (BrowserProfile \<Rightarrow> OsProfile \<Rightarrow> bytes option) \<Rightarrow> FingerprintProfile list \<Rightarrow>
   nat \<times> StealthManager \<times> ffi \<Rightarrow> (nat \<times> StealthManager \<times> ffi) option" where
  "rotate_profile lib load profiles s =
     (case s of (i, m, f) \<Rightarrow> do {
        let i = (i + 1) mod length profiles;
        p \<leftarrow> idx profiles i;
        (_, m, f) \<leftarrow> set_fingerprint_profile lib load p False m f;
        Some (i, m, f) })"

definition resolve_domain ::
  "(string \<Rightarrow> string \<Rightarrow> string + doh_record list option) \<Rightarrow> (string \<Rightarrow> IpAddr option) \<Rightarrow> string \<Rightarrow> StealthManager \<Rightarrow> IpAddr" where
  "resolve_domain query parse_ip domain m =
     (if enable_doh (sm_config m)
      then (case resolve_doh query parse_ip domain (doh_provider (sm_config m)) of
              Inr ip \<Rightarrow> ip
            | Inl _ \<Rightarrow> IpV4 1 1 1 1)
      else IpV4 1 1 1 1)"

definition get_connection_headers :: "string \<Rightarrow> StealthManager \<Rightarrow> ((string \<times> string) \<times> StealthManager) option" where
  "get_connection_headers real_host m =
     (case (enable_domain_fronting (sm_config m), domain_fronter m) of
        (True, Some fronter) \<Rightarrow> do {
          (d, fronter) \<leftarrow> get_fronted_domain fronter;
          Some ((d, real_host), m\<lparr>domain_fronter := Some fronter\<rparr>) }
      | _ \<Rightarrow> Some ((real_host, real_host), m))"

text \<open>The payload operations call the obfuscator when there is one.\<close>

definition process_payload ::
  "arch \<Rightarrow> FeatureDetector \<Rightarrow> (bytes \<Rightarrow> bytes) \<Rightarrow> bytes \<Rightarrow> StealthManager \<Rightarrow> bytes \<times> StealthManager" where
  "process_payload a det sha payload m =
     (case (enable_xor_obfuscation (sm_config m), xor_obfuscator m) of
        (True, Some x) \<Rightarrow> (let (payload, x) = obfuscate a det sha payload x in (payload, m\<lparr>xor_obfuscator := Some x\<rparr>))
      | _ \<Rightarrow> (payload, m))"

definition process_outgoing_packet ::
  "arch \<Rightarrow> FeatureDetector \<Rightarrow> (bytes \<Rightarrow> bytes) \<Rightarrow> bytes \<Rightarrow> StealthManager \<Rightarrow> bytes \<times> StealthManager" where
  "process_outgoing_packet a det sha payload m = process_payload a det sha payload m"

definition process_incoming_packet ::
  "arch \<Rightarrow> FeatureDetector \<Rightarrow> (bytes \<Rightarrow> bytes) \<Rightarrow> bytes \<Rightarrow> StealthManager \<Rightarrow> bytes \<times> StealthManager" where
  "process_incoming_packet a det sha payload m =
     (case (enable_xor_obfuscation (sm_config m), xor_obfuscator m) of
        (True, Some x) \<Rightarrow> (let (payload, x) = deobfuscate a det sha payload x in (payload, m\<lparr>xor_obfuscator := Some x\<rparr>))
      | _ \<Rightarrow> (payload, m))"

definition process_client_hello ::
  "arch \<Rightarrow> FeatureDetector \<Rightarrow> (bytes \<Rightarrow> bytes) \<Rightarrow> bytes \<Rightarrow> StealthManager \<Rightarrow> bytes \<times> StealthManager" where
  "process_client_hello a det sha payload m = process_payload a det sha payload m"

definition obfuscate_payload ::
  "arch \<Rightarrow> FeatureDetector \<Rightarrow> (bytes \<Rightarrow> bytes) \<Rightarrow> bytes \<Rightarrow> u64 \<Rightarrow> StealthManager \<Rightarrow> bytes \<times> StealthManager" where
  "obfuscate_payload a det sha payload context_id m = process_payload a det sha payload m"

definition manager_headers_config :: "StealthManager \<Rightarrow> FakeHeadersConfig" where
  "manager_headers_config m = \<lparr>optimize_for_quic = True, fh_use_qpack_headers = use_qpack_headers (sm_config m)\<rparr>"

definition get_http3_masquerade_headers ::
  "(header list \<Rightarrow> bytes) \<Rightarrow> string \<Rightarrow> string \<Rightarrow> StealthManager \<Rightarrow> bytes option" where
  "get_http3_masquerade_headers qpack host path m =
     (if enable_http3_masquerading (sm_config m)
      then (if use_qpack_headers (sm_config m)
            then Some (qpack_block qpack (manager_headers_config m) (fingerprint m) host path)
            else Some (qpack (header_list (manager_headers_config m) (fingerprint m) host path)))
      else None)"

definition get_http3_header_list :: "string \<Rightarrow> string \<Rightarrow> StealthManager \<Rightarrow> header list option" where
  "get_http3_header_list host path m =
     (if enable_http3_masquerading (sm_config m)
      then Some (header_list (manager_headers_config m) (fingerprint m) host path) else None)"

subsection \<open>Connection headers\<close>

definition front_domains :: "StealthConfig \<Rightarrow> string list" where
  "front_domains cfg = (if fronting_domains cfg \<noteq> [] then fronting_domains cfg else map get_domain (cdn_providers cfg))"

text \<open>The headers of one connection after the other.\<close>

primrec connect_all :: "string list \<Rightarrow> StealthManager \<Rightarrow> ((string \<times> string) list \<times> StealthManager) option" where
  "connect_all [] m = Some ([], m)"
| "connect_all (h # hs) m = do {
     (r, m) \<leftarrow> get_connection_headers h m;
     (rs, m) \<leftarrow> connect_all hs m;
     Some (r # rs, m) }"

definition fronts :: "string list \<Rightarrow> StealthManager \<Rightarrow> bool" where
  "fronts ds m \<longleftrightarrow> ds \<noteq> [] \<and> enable_domain_fronting (sm_config m) \<and>
     (case domain_fronter m of None \<Rightarrow> False | Some f \<Rightarrow> domains f = ds)"

lemma get_connection_headers_fronted:
  assumes "fronts ds m"
  shows "\<exists>sni m'. get_connection_headers h m = Some ((sni, h), m') \<and> sni \<in> set ds \<and> fronts ds m'"
proof -
  obtain f where f: "domain_fronter m = Some f" "domains f = ds" "ds \<noteq> []" "enable_domain_fronting (sm_config m)"
    using assms by (auto simp: fronts_def split: option.splits)
  then show ?thesis
    using get_fronted_domain_Some[of f] by (simp add: get_connection_headers_def fronts_def)
qed

lemma connect_all_fronted:
  "fronts ds m \<Longrightarrow> \<exists>rs m'. connect_all hs m = Some (rs, m') \<and> map snd rs = hs \<and> set (map fst rs) \<subseteq> set ds"
proof (induction hs arbitrary: m)
  case (Cons h hs)
  obtain sni m1 where m1: "get_connection_headers h m = Some ((sni, h), m1)" "sni \<in> set ds" "fronts ds m1"
    using get_connection_headers_fronted[OF Cons.prems] by blast
  obtain rs m2 where "connect_all hs m1 = Some (rs, m2)" "map snd rs = hs" "set (map fst rs) \<subseteq> set ds"
    using Cons.IH[OF m1(3)] by blast
  with m1 show ?case by simp
qed simp

lemma connect_all_plain:
  "\<not> enable_domain_fronting (sm_config m) \<Longrightarrow> connect_all hs m = Some (map (\<lambda>h. (h, h)) hs, m)"
  by (induction hs) (simp_all add: get_connection_headers_def)

lemma StealthManager_new_Some:
  "\<exists>m. StealthManager_new load rng cfg = Some m \<and> sm_config m = cfg \<and>
     domain_fronter m = (if enable_domain_fronting cfg then Some (DomainFrontingManager_new (front_domains cfg)) else None) \<and>
     xor_obfuscator m = (if enable_xor_obfuscation cfg then Some (XorObfuscator_new rng) else None) \<and>
     (\<exists>p. FingerprintProfile_new load (browser_profile cfg) (os_profile cfg) = Some p \<and>
          tls_cipher_suites (fingerprint m) = tls_cipher_suites p)"
proof -
  obtain p where "FingerprintProfile_new load (browser_profile cfg) (os_profile cfg) = Some p"
    by (cases "base_profile (browser_profile cfg) (os_profile cfg)")
       (use base_profile_Chrome in \<open>auto simp: FingerprintProfile_new_def\<close>)
  then show ?thesis
    by (simp add: StealthManager_new_def front_domains_def from_providers_def Let_def)
qed

subsection \<open>Cipher preferences\<close>

lemma table_tls13_suites:
  "list_all (\<lambda>e. {0x1301, 0x1302, 0x1303} \<subseteq> set (tls_cipher_suites (snd e))) (windows_profiles @ macos_profiles)"
  by (simp add: windows_profiles_def macos_profiles_def profile_entry_def)

lemma base_tls13_suites:
  assumes "base_profile b o' = Some q"
  shows "{0x1301, 0x1302, 0x1303} \<subseteq> set (tls_cipher_suites q)"
proof -
  have "((b, o'), q) \<in> set (windows_profiles @ macos_profiles)"
    using assms unfolding base_profile_def by (rule map_of_SomeD)
  with table_tls13_suites show ?thesis unfolding list_all_iff by fastforce
qed

lemma profile_tls13_suites:
  assumes "FingerprintProfile_new load b o' = Some p"
  shows "{0x1301, 0x1302, 0x1303} \<subseteq> set (tls_cipher_suites p)"
  using assms base_tls13_suites
  by (fastforce simp: FingerprintProfile_new_def Option.bind_eq_Some_conv split: option.splits)

lemma tls_cipher_mapped: "map_iana_to_quiche_cipher (tls_cipher s) = None \<or> tls_cipher s \<in> {0x1301, 0x1302, 0x1303}"
  by (cases s) (simp_all add: map_iana_to_quiche_cipher_def)

lemma map_filter_ids:
  assumes "{0x1301, 0x1302, 0x1303} \<subseteq> set (tls_cipher_suites fp)"
  shows "List.map_filter map_iana_to_quiche_cipher (cipher_ids fp (Some (tls_cipher s))) =
         List.map_filter map_iana_to_quiche_cipher (cipher_ids fp None)"
  using tls_cipher_mapped[of s] assms by (auto simp: cipher_ids_def)

subsection \<open>Properties\<close>

text \<open>With a configuration that passes \<open>validate\<close>, the manager is constructed and gives headers for any number
  of connections without a panic: the Host header is always the real host, and the server name is one of the
  fronting domains when fronting is enabled and the real host otherwise.\<close>

lemma connection_headers_ok:
  assumes "StealthConfig_validate cfg = Inr ()"
  shows "\<exists>m rs m'. StealthManager_new load rng cfg = Some m \<and> connect_all hosts m = Some (rs, m') \<and>
           map snd rs = hosts \<and>
           (if enable_domain_fronting cfg then set (map fst rs) \<subseteq> set (front_domains cfg) else map fst rs = hosts)"
proof -
  obtain m where m: "StealthManager_new load rng cfg = Some m" "sm_config m = cfg"
    "domain_fronter m = (if enable_domain_fronting cfg then Some (DomainFrontingManager_new (front_domains cfg)) else None)"
    using StealthManager_new_Some by blast
  show ?thesis
  proof (cases "enable_domain_fronting cfg")
    case True
    then have "front_domains cfg \<noteq> []"
      using assms by (auto simp: StealthConfig_validate_def front_domains_def split: if_splits)
    then have "fronts (front_domains cfg) m"
      using m True by (simp add: fronts_def DomainFrontingManager_new_def)
    with connect_all_fronted[OF this, of hosts] m True show ?thesis by auto
  next
    case False
    then show ?thesis using m connect_all_plain[of m hosts] by (simp add: o_def)
  qed
qed

text \<open>The cipher suite selected at run time never influences the TLS configuration: for every manager
  created by \<open>new\<close>, applying the fingerprint with the preferred suite of any selector makes exactly the configuration
  calls it makes without a preference (the suites quiche knows are in every profile, the others are
  dropped).\<close>

lemma preferred_suite_ignored:
  assumes "StealthManager_new load rng cfg = Some m"
  shows "apply_utls_profile lib load' (Some (tls_cipher s)) m f = apply_utls_profile lib load' None m f"
proof -
  have "{0x1301, 0x1302, 0x1303} \<subseteq> set (tls_cipher_suites (fingerprint m))"
    using StealthManager_new_Some[of load rng cfg] assms profile_tls13_suites by force
  from map_filter_ids[OF this, of s] show ?thesis by (simp add: apply_utls_profile_def)
qed

text \<open>What the first injection of a process can do.\<close>

lemma inject_bytes_start:
  assumes "inject_bytes lib hello ffi_start = Some (cs, f)"
  shows "cs = []"
  using assms builder_new_first[of lib]
  by (auto simp: inject_bytes_def Option.bind_eq_Some_conv split: if_splits)

lemma grease_calls:
  assumes "ffi_seq [quiche_ssl_disable_tls_grease lib, quiche_ssl_set_deterministic_hello lib] f = Some (cs, f')"
  shows "set cs \<subseteq> {TlsGreaseOff, DeterministicHello}"
  using assms
  by (auto simp: ffi_seq_def quiche_ssl_disable_tls_grease_def quiche_ssl_set_deterministic_hello_def hook_def
      Option.bind_eq_Some_conv split: if_splits)

text \<open>C38: the recorded ClientHello is never handed to quiche by the first TLS configuration of a process. With a
  library that exports all hooks, FakeTLS off, uTLS on and a profile with a ClientHello and the three mandatory suites, configuring TLS
  does not return; whenever it returns, no call has added a ClientHello to a builder or installed a builder.\<close>

theorem client_hello_never_injected:
  "(\<not> use_fake_tls (sm_config m) \<and> client_hello (fingerprint m) \<noteq> None \<and>
      {0x1301, 0x1302, 0x1303} \<subseteq> set (tls_cipher_suites (fingerprint m)) \<longrightarrow>
    configure_tls (Some \<lparr>exports = \<lambda>_. True, builder_ok = True\<rparr>) load True preferred m ffi_start = None) \<and>
   (configure_tls lib load utls preferred m ffi_start = Some (fake, calls, m', f) \<longrightarrow>
    (\<forall>c \<in> set calls. c \<noteq> Ffi UseBuilder \<and> (\<forall>h. c \<noteq> Ffi (AddToBuilder h))))"
proof -
  let ?lib = "Some \<lparr>exports = \<lambda>_. True, builder_ok = True\<rparr>"
  have hang: "inject_bytes ?lib h ffi_start = None" for h
    using lookup_first(1)[of ffi_start BuilderNew ?lib]
    by (simp add: inject_bytes_def quiche_chlo_builder_new_wrapper_def)
  have "List.map_filter map_iana_to_quiche_cipher (cipher_ids (fingerprint m) preferred) \<noteq> []"
    if "{0x1301, 0x1302, 0x1303} \<subseteq> set (tls_cipher_suites (fingerprint m))"
  proof -
    have "0x1301 \<in> set (cipher_ids (fingerprint m) preferred)"
      using that by (auto simp: cipher_ids_def split: option.split)
    moreover have "map_iana_to_quiche_cipher 0x1301 = Some TLS13_AES_128_GCM_SHA256"
      by (simp add: map_iana_to_quiche_cipher_def)
    ultimately have "TLS13_AES_128_GCM_SHA256 \<in> set (List.map_filter map_iana_to_quiche_cipher (cipher_ids (fingerprint m) preferred))"
      by (force simp: List.map_filter_def)
    then show ?thesis by force
  qed
  then have 1: "configure_tls ?lib load True preferred m ffi_start = None"
    if "\<not> use_fake_tls (sm_config m)" "client_hello (fingerprint m) \<noteq> None"
       "{0x1301, 0x1302, 0x1303} \<subseteq> set (tls_cipher_suites (fingerprint m))"
    using that hang by (auto simp: configure_tls_def apply_utls_profile_def)
  have 2: "c \<noteq> Ffi UseBuilder \<and> (\<forall>h. c \<noteq> Ffi (AddToBuilder h))"
    if "configure_tls lib load utls preferred m ffi_start = Some (fake, calls, m', f)" "c \<in> set calls" for c
    using that
    by (auto simp: configure_tls_def apply_utls_profile_def Option.bind_eq_Some_conv Let_def
        dest!: inject_bytes_start grease_calls split: if_splits option.splits)
  show ?thesis using 1 2 by blast
qed

theorem client_hello_never_injected_witness:
  "\<exists>m. StealthManager_new (\<lambda>_ _. Some [1]) (\<lambda>i. of_nat i) StealthConfig_default = Some m \<and>
     client_hello (fingerprint m) = Some [1] \<and>
     configure_tls (Some \<lparr>exports = \<lambda>_. True, builder_ok = True\<rparr>) (\<lambda>_ _. Some [1]) True None m ffi_start = None"
proof -
  obtain m where m: "StealthManager_new (\<lambda>_ _. Some [1]) (\<lambda>i. of_nat i) StealthConfig_default = Some m"
    "sm_config m = StealthConfig_default" "{0x1301, 0x1302, 0x1303} \<subseteq> set (tls_cipher_suites (fingerprint m))"
    using StealthManager_new_Some[of "\<lambda>_ _. Some [1]" "\<lambda>i. of_nat i" StealthConfig_default] profile_tls13_suites by metis
  moreover from m(1) have "client_hello (fingerprint m) = Some [1]"
    by (auto simp: StealthManager_new_def FingerprintProfile_new_def Option.bind_eq_Some_conv)
  moreover have "\<not> use_fake_tls StealthConfig_default" by (simp add: StealthConfig_default_def)
  ultimately show ?thesis
    using client_hello_never_injected[of m "\<lambda>_ _. Some [1]" None] by auto
qed

text \<open>The masquerading headers: both settings of \<open>use_qpack_headers\<close> give the QPACK encoding of the header list, which
  starts with the pseudo headers and has no connection header.\<close>

lemma masquerade_headers:
  "get_http3_masquerade_headers qpack host path m = map_option qpack (get_http3_header_list host path m) \<and>
   (\<forall>hs. get_http3_header_list host path m = Some hs \<longrightarrow>
      map fst hs = ['':method'', '':scheme'', '':authority'', '':path'', ''user-agent'', ''accept-language'', ''accept'',
                    ''accept-encoding''] \<and> hs ! 2 = ('':authority'', host) \<and> hs ! 3 = ('':path'', path))"
  by (simp add: get_http3_masquerade_headers_def get_http3_header_list_def qpack_block_def header_list_def
      manager_headers_config_def generate_headers_def generate_http_headers_def opt_header_def Let_def)

text \<open>The handshake is never empty, so FakeTLS takes precedence whenever it is enabled, and leaves the configuration alone.\<close>

lemma configure_tls_fake:
  "use_fake_tls (sm_config m) \<Longrightarrow> configure_tls lib load utls preferred m f = Some (Some (fake_tls_handshake m), [], m, f)"
  by (simp add: configure_tls_def fake_tls_handshake_def handshake_def handshake_custom_with_cert_def
      server_response_custom_def certificate_record_def record_bytes_def Let_def)

end
