(* ===== verification/Connection.thy ===== *)
theory Connection
  imports Stealth Adaptive_Fec
begin

text \<open>
  A connection (\<open>src/src/core.rs\<close>): the composition of the QUIC state machine, the adaptive FEC layer, the stealth
  manager and the memory pool.

  quiche and the packet sockets are outside: \<open>api\<close> lists the operations the connection calls, over the types
  of a QUIC connection (\<open>'c\<close>), an HTTP/3 connection (\<open>'h\<close>) and a socket (\<open>'s\<close>). \<open>platform\<close> holds what the
  process finds on its machine. The pool is owned by the optimisation manager and the FEC layer alike: every operation
  that changes one copy writes the other (\<open>set_manager\<close>, \<open>set_fec\<close>). A loop over what quiche reports is
  a partial function; \<open>None\<close> is a panic or a loop that does not end.
\<close>

subsection \<open>Interfaces\<close>

type_synonym SocketAddr = "IpAddr \<times> u16"

datatype H3Error = H3Done | H3BufferTooShort | H3InternalError | H3ExcessiveLoad | H3IdError | H3StreamCreationError
  | H3ClosedCriticalStream | H3MissingSettings | H3FrameUnexpected | H3FrameError | H3QpackDecompressionFailed
  | H3TransportError QuicheError | H3StreamBlocked | H3SettingsError | H3RequestRejected | H3RequestCancelled
  | H3RequestIncomplete | H3MessageError | H3ConnectError | H3VersionFallback

datatype ConnectionError = Quiche QuicheError | H3 H3Error | Fec string

datatype PathEvent = PathNew SocketAddr SocketAddr | Validated SocketAddr SocketAddr
  | FailedValidation SocketAddr SocketAddr | PathClosed SocketAddr SocketAddr
  | ReusedSourceConnectionId u64 "SocketAddr \<times> SocketAddr" "SocketAddr \<times> SocketAddr"
  | PeerMigrated SocketAddr SocketAddr

datatype H3Event = H3Headers "header list" | H3Data | H3Finished

record quiche_stats =
  st_sent :: nat
  st_lost :: nat
  st_rtt_millis :: nat

text \<open>The calls into quiche and the sockets. A buffer that a call fills is part of its result.\<close>

record ('c, 'h, 's) api =
  q_connect :: "string \<Rightarrow> bytes \<Rightarrow> SocketAddr \<Rightarrow> SocketAddr \<Rightarrow> config_call list \<Rightarrow> QuicheError + 'c"
  q_accept :: "bytes \<Rightarrow> bytes option \<Rightarrow> SocketAddr \<Rightarrow> SocketAddr \<Rightarrow> config_call list \<Rightarrow> QuicheError + 'c"
  q_error_text :: "QuicheError \<Rightarrow> string"
  q_recv :: "bytes \<Rightarrow> SocketAddr \<Rightarrow> SocketAddr \<Rightarrow> 'c \<Rightarrow> (QuicheError + nat) \<times> 'c"
  q_send :: "bytes \<Rightarrow> 'c \<Rightarrow> (QuicheError + nat) \<times> bytes \<times> 'c"
  q_migrate :: "SocketAddr \<Rightarrow> SocketAddr \<Rightarrow> 'c \<Rightarrow> (QuicheError + u64) \<times> 'c"
  q_stats :: "'c \<Rightarrow> quiche_stats"
  q_path_event_next :: "'c \<Rightarrow> PathEvent option \<times> 'c"
  q_is_established :: "'c \<Rightarrow> bool"
  q_is_closed :: "'c \<Rightarrow> bool"
  q_on_timeout :: "'c \<Rightarrow> 'c"
  q_close :: "'c \<Rightarrow> 'c"
  h3_config_new :: "H3Error + unit"
  h3_with_transport :: "'c \<Rightarrow> (H3Error + 'h) \<times> 'c"
  h3_send_request :: "header list \<Rightarrow> 'h \<times> 'c \<Rightarrow> (H3Error + u64) \<times> 'h \<times> 'c"
  h3_poll :: "'h \<times> 'c \<Rightarrow> (H3Error + u64 \<times> H3Event) \<times> 'h \<times> 'c"
  h3_recv_body :: "u64 \<Rightarrow> nat \<Rightarrow> 'h \<times> 'c \<Rightarrow> (H3Error + bytes) \<times> 'h \<times> 'c"
  xdp_new :: "SocketAddr \<Rightarrow> SocketAddr \<Rightarrow> string + 's"
  xdp_new_udp :: "SocketAddr \<Rightarrow> SocketAddr \<Rightarrow> string + 's"
  xdp_recv :: "bytes \<Rightarrow> 's \<Rightarrow> (string + nat) \<times> bytes \<times> 's"
  xdp_send :: "bytes \<Rightarrow> 's \<Rightarrow> (string + nat) \<times> 's"
  xdp_update_remote :: "SocketAddr \<Rightarrow> 's \<Rightarrow> 's"
  xdp_reconfigure :: "SocketAddr \<Rightarrow> SocketAddr \<Rightarrow> 's \<Rightarrow> (string + unit) \<times> 's"

record platform =
  node :: nat
  numa_nodes :: nat
  cpu_arch :: arch
  cpu :: FeatureDetector
  gf :: gf_env
  sha256 :: "bytes \<Rightarrow> bytes"
  rng :: "nat \<Rightarrow> u8"
  chlo_files :: "BrowserProfile \<Rightarrow> OsProfile \<Rightarrow> bytes option"
  quiche_lib :: "ffi_lib option"
  xdp_supported :: bool

subsection \<open>State\<close>

record ConnectionStats =
  rtt :: real
  loss_rate :: real
  packets_sent :: u64
  packets_lost :: u64

definition ConnectionStats_default :: ConnectionStats where
  "ConnectionStats_default = \<lparr>rtt = 0, loss_rate = 0, packets_sent = 0, packets_lost = 0\<rparr>"

record ('c, 'h, 's) QuicFuscateConnection =
  conn :: 'c
  peer_addr :: SocketAddr
  local_addr :: SocketAddr
  host_header :: string
  crypto_selector :: CipherSuite
  fec :: AdaptiveFec
  stealth_manager :: StealthManager
  optimization_manager :: OptimizationManager
  stats :: ConnectionStats
  packet_id_counter :: u64
  outgoing_fec_packets :: "Packet list"
  xdp_socket :: "'s option"
  h3_conn :: "'h option"
  last_telemetry :: nat

definition set_manager ::
  "OptimizationManager \<Rightarrow> ('c, 'h, 's) QuicFuscateConnection \<Rightarrow> ('c, 'h, 's) QuicFuscateConnection" where
  "set_manager om c = c\<lparr>optimization_manager := om, fec := (fec c)\<lparr>mem_pool := memory_pool om\<rparr>\<rparr>"

definition set_pool :: "MemoryPool \<Rightarrow> ('c, 'h, 's) QuicFuscateConnection \<Rightarrow> ('c, 'h, 's) QuicFuscateConnection" where
  "set_pool p c = set_manager ((optimization_manager c)\<lparr>memory_pool := p\<rparr>) c"

definition set_fec :: "AdaptiveFec \<Rightarrow> ('c, 'h, 's) QuicFuscateConnection \<Rightarrow> ('c, 'h, 's) QuicFuscateConnection" where
  "set_fec f c = c\<lparr>fec := f, optimization_manager := (optimization_manager c)\<lparr>memory_pool := mem_pool f\<rparr>\<rparr>"

definition open_socket ::
  "('c, 'h, 's) api \<Rightarrow> SocketAddr \<Rightarrow> SocketAddr \<Rightarrow> OptimizationManager \<Rightarrow> 's option" where
  "open_socket api bnd remote om = create_xdp_socket (\<lambda>_. xdp_new api bnd remote) (\<lambda>_. xdp_new_udp api bnd remote) om"

subsection \<open>Construction\<close>

definition Connection_new ::
  "platform \<Rightarrow> nat \<Rightarrow> 'c \<Rightarrow> SocketAddr \<Rightarrow> SocketAddr \<Rightarrow> string \<Rightarrow> StealthManager \<Rightarrow> OptimizationManager \<Rightarrow> 's option \<Rightarrow>
   FecConfig \<Rightarrow> ('c, 'h, 's) QuicFuscateConnection \<times> gf_env" where
  "Connection_new pf now cn local peer host sm om xdp cfg =
     (let (f, g) = AdaptiveFec_new now cfg (memory_pool om) (gf pf)
      in (\<lparr>conn = cn, peer_addr = peer, local_addr = local, host_header = host,
           crypto_selector = select_suite (cpu_arch pf = X86) (cpu pf), fec = f, stealth_manager = sm,
           optimization_manager = om, stats = ConnectionStats_default, packet_id_counter = 0,
           outgoing_fec_packets = [], xdp_socket = xdp, h3_conn = None, last_telemetry = now\<rparr>, g))"

text \<open>The common end of both constructors: the error of quiche as text, or the connection.\<close>

definition finish ::
  "platform \<Rightarrow> ('c, 'h, 's) api \<Rightarrow> nat \<Rightarrow> string \<Rightarrow> SocketAddr \<Rightarrow> SocketAddr \<Rightarrow> string \<Rightarrow> StealthManager \<Rightarrow> OptimizationManager \<Rightarrow>
   FecConfig \<Rightarrow> QuicheError + 'c \<Rightarrow> string + ('c, 'h, 's) QuicFuscateConnection \<times> gf_env" where
  "finish pf api now failure local remote host sm om fec_cfg r =
     (case r of
        Inl e \<Rightarrow> Inl (failure @ q_error_text api e)
      | Inr cn \<Rightarrow> Inr (Connection_new pf now cn local remote host sm om (open_socket api local remote om) fec_cfg))"

text \<open>\<open>config\<close> is the sequence of calls that prepared the configuration so far. The result of
  \<open>configure_tls\<close> is discarded, also the FakeTLS handshake.\<close>

definition new_client ::
  "platform \<Rightarrow> ('c, 'h, 's) api \<Rightarrow> nat \<Rightarrow> string \<Rightarrow> SocketAddr \<Rightarrow> SocketAddr \<Rightarrow> config_call list \<Rightarrow> StealthConfig \<Rightarrow>
   FecConfig \<Rightarrow> OptimizeConfig \<Rightarrow> bool \<Rightarrow> ffi \<Rightarrow>
   ((string + ('c, 'h, 's) QuicFuscateConnection \<times> gf_env) \<times> ffi) option" where
  "new_client pf api now server_name local remote config stealth_config fec_cfg opt_cfg use_utls hooks = do {
     let config = config @ [SetCcBbr2, EnableMtuProbing];
     let om = manager_from_cfg (numa_nodes pf) (xdp_supported pf) opt_cfg;
     sm \<leftarrow> StealthManager_new (chlo_files pf) (rng pf) stealth_config;
     (_, calls, sm, hooks) \<leftarrow>
       configure_tls (quiche_lib pf) (chlo_files pf) use_utls
         (Some (tls_cipher (select_suite (cpu_arch pf = X86) (cpu pf)))) sm hooks;
     let scid = replicate 20 0;
     ((sni, host), sm) \<leftarrow> get_connection_headers server_name sm;
     Some (finish pf api now ''Failed to create QUIC connection: '' local remote host sm om fec_cfg
             (q_connect api sni scid local remote (config @ calls)), hooks) }"

definition new_server ::
  "platform \<Rightarrow> ('c, 'h, 's) api \<Rightarrow> nat \<Rightarrow> bytes \<Rightarrow> bytes option \<Rightarrow> SocketAddr \<Rightarrow> SocketAddr \<Rightarrow> config_call list \<Rightarrow>
   StealthConfig \<Rightarrow> FecConfig \<Rightarrow> OptimizeConfig \<Rightarrow> (string + ('c, 'h, 's) QuicFuscateConnection \<times> gf_env) option" where
  "new_server pf api now scid odcid local remote config stealth_config fec_cfg opt_cfg = do {
     let config = config @ [SetCcBbr2, EnableMtuProbing];
     let om = manager_from_cfg (numa_nodes pf) (xdp_supported pf) opt_cfg;
     sm \<leftarrow> StealthManager_new (chlo_files pf) (rng pf) stealth_config;
     Some (finish pf api now ''Failed to accept QUIC connection: '' local remote [] sm om fec_cfg
             (q_accept api scid odcid local remote config)) }"

subsection \<open>Receiving\<close>

text \<open>The body of the loop over the packets the FEC layer hands out; the packet is dropped at its end.\<close>

definition deliver ::
  "platform \<Rightarrow> ('c, 'h, 's) api \<Rightarrow> Packet \<Rightarrow> ('c, 'h, 's) QuicFuscateConnection \<Rightarrow> ('c, 'h, 's) QuicFuscateConnection" where
  "deliver pf api pk c =
     (case data pk of
        None \<Rightarrow> set_pool (drop_packet (node pf) pk (memory_pool (optimization_manager c))) c
      | Some d \<Rightarrow>
          (let (d, sm) = process_incoming_packet (cpu_arch pf) (cpu pf) (sha256 pf) d (stealth_manager c);
               (r, cn) = q_recv api d (peer_addr c) (local_addr c) (conn c)
           in set_pool (drop_packet (node pf) (pk\<lparr>data := Some d\<rparr>) (memory_pool (optimization_manager c)))
                (c\<lparr>stealth_manager := sm, conn := cn\<rparr>)))"

text \<open>Filling a block from the socket or from the caller's buffer.\<close>

definition fill_block ::
  "('c, 'h, 's) api \<Rightarrow> bytes \<Rightarrow> block \<Rightarrow> 's option \<Rightarrow> ((string + nat) \<times> block \<times> 's option) option" where
  "fill_block api dat b xdp =
     (case xdp of
        Some x \<Rightarrow> (let (r, b, x) = xdp_recv api b x in Some (r, b, Some x))
      | None \<Rightarrow> do {
          let copy_len = min (length dat) (length b);
          src \<leftarrow> slice dat 0 copy_len;
          b \<leftarrow> copy_at b 0 copy_len src;
          Some (Inr copy_len, b, None) })"

text \<open>A block with a frame of \<open>n\<close> bytes: it becomes a packet with the number of the next packet to be sent, goes
  through the FEC layer, and what that hands out goes to quiche.\<close>

definition accept_frame ::
  "platform \<Rightarrow> ('c, 'h, 's) api \<Rightarrow> block \<Rightarrow> nat \<Rightarrow> ('c, 'h, 's) QuicFuscateConnection \<Rightarrow>
   ((ConnectionError + nat) \<times> ('c, 'h, 's) QuicFuscateConnection) option" where
  "accept_frame pf api b n c = do {
     (r, p) \<leftarrow> from_block (node pf) (packet_id_counter c) b n (memory_pool (optimization_manager c));
     let c = set_pool p c;
     case r of
       Inl e \<Rightarrow> Some (Inl (Fec e), c)
     | Inr pkt \<Rightarrow> do {
         (r, f) \<leftarrow> on_receive (gf pf) (node pf) pkt (fec c);
         let c = set_fec f c;
         Some (case r of
                 Inl e \<Rightarrow> (Inl (Fec (''FEC decoding failed: '' @ e)), c)
               | Inr pks \<Rightarrow> (Inr n, fold (deliver pf api) pks c)) } }"

definition Connection_recv ::
  "platform \<Rightarrow> ('c, 'h, 's) api \<Rightarrow> bytes \<Rightarrow> ('c, 'h, 's) QuicFuscateConnection \<Rightarrow>
   ((ConnectionError + nat) \<times> ('c, 'h, 's) QuicFuscateConnection) option" where
  "Connection_recv pf api dat c = do {
     (b, om) \<leftarrow> alloc_block (node pf) (optimization_manager c);
     let c = set_manager om c;
     (r, b, xdp) \<leftarrow> fill_block api dat b (xdp_socket c);
     let c = c\<lparr>xdp_socket := xdp\<rparr>;
     case r of
       Inl e \<Rightarrow> Some (Inl (Fec e), set_manager (free_block (node pf) b (optimization_manager c)) c)
     | Inr n \<Rightarrow> accept_frame pf api b n c }"

subsection \<open>Sending\<close>

text \<open>A packet of the queue goes out, through the socket or framed into the caller's buffer; it is dropped on
  success and on error.\<close>

definition transmit ::
  "platform \<Rightarrow> ('c, 'h, 's) api \<Rightarrow> Packet \<Rightarrow> bytes \<Rightarrow> ('c, 'h, 's) QuicFuscateConnection \<Rightarrow>
   ((ConnectionError + nat) \<times> bytes \<times> ('c, 'h, 's) QuicFuscateConnection) option" where
  "transmit pf api pk buf c = do {
     (r, buf, xdp) \<leftarrow>
       (case xdp_socket c of
          Some x \<Rightarrow> do {
            d \<leftarrow> data pk;
            payload \<leftarrow> slice d 0 (len pk);
            let (r, x) = xdp_send api payload x;
            Some (case r of Inl e \<Rightarrow> Inl (Fec e) | Inr _ \<Rightarrow> Inr (len pk), buf, Some x) }
        | None \<Rightarrow> do {
            (r, buf) \<leftarrow> to_raw pk buf;
            Some (case r of Inl e \<Rightarrow> Inl (Quiche e) | Inr n \<Rightarrow> Inr n, buf, None) });
     Some (r, buf, set_pool (drop_packet (node pf) pk (memory_pool (optimization_manager c))) (c\<lparr>xdp_socket := xdp\<rparr>)) }"

definition checked_inc :: "u64 \<Rightarrow> u64 option" where
  "checked_inc n = (if n + 1 = 0 then None else Some (n + 1))"

text \<open>A fresh QUIC packet in the first \<open>n\<close> bytes of a block: it is obfuscated in place, numbered, and handed to the
  FEC layer.\<close>

definition queue_packet ::
  "platform \<Rightarrow> block \<Rightarrow> nat \<Rightarrow> ('c, 'h, 's) QuicFuscateConnection \<Rightarrow> ('c, 'h, 's) QuicFuscateConnection option" where
  "queue_packet pf b n c = do {
     payload \<leftarrow> slice b 0 n;
     let (payload, sm) = process_outgoing_packet (cpu_arch pf) (cpu pf) (sha256 pf) payload (stealth_manager c);
     b \<leftarrow> copy_at b 0 n payload;
     let pkt = \<lparr>pid = packet_id_counter c, data = Some b, len = n, is_systematic = True, coefficients = None, coeff_len = 0\<rparr>;
     i \<leftarrow> checked_inc (packet_id_counter c);
     (f, q) \<leftarrow> on_send (gf pf) (node pf) pkt (fec c) (outgoing_fec_packets c);
     Some (set_fec f (c\<lparr>stealth_manager := sm, packet_id_counter := i, outgoing_fec_packets := q\<rparr>)) }"

definition Connection_send ::
  "platform \<Rightarrow> ('c, 'h, 's) api \<Rightarrow> bytes \<Rightarrow> ('c, 'h, 's) QuicFuscateConnection \<Rightarrow>
   ((ConnectionError + nat) \<times> bytes \<times> ('c, 'h, 's) QuicFuscateConnection) option" where
  "Connection_send pf api buf c =
     (case outgoing_fec_packets c of
        pk # q \<Rightarrow> transmit pf api pk buf (c\<lparr>outgoing_fec_packets := q\<rparr>)
      | [] \<Rightarrow> do {
          (b, om) \<leftarrow> alloc_block (node pf) (optimization_manager c);
          let (r, b, cn) = q_send api b (conn c);
          let c = set_manager om (c\<lparr>conn := cn\<rparr>);
          let released = set_manager (free_block (node pf) b (optimization_manager c)) c;
          case r of
            Inl e \<Rightarrow> Some (Inl (Quiche e), buf, released)
          | Inr n \<Rightarrow>
              if n = 0 then Some (Inr 0, buf, released)
              else do {
                c \<leftarrow> queue_packet pf b n c;
                case outgoing_fec_packets c of
                  pk # q \<Rightarrow> transmit pf api pk buf (c\<lparr>outgoing_fec_packets := q\<rparr>)
                | [] \<Rightarrow> Some (Inr 0, buf, c) } })"

subsection \<open>Migration\<close>

definition migrate_connection ::
  "('c, 'h, 's) api \<Rightarrow> SocketAddr \<Rightarrow> ('c, 'h, 's) QuicFuscateConnection \<Rightarrow>
   (QuicheError + u64) \<times> ('c, 'h, 's) QuicFuscateConnection" where
  "migrate_connection api new_peer c =
     (let xdp = map_option (xdp_update_remote api new_peer)
                  (open_socket api (local_addr c) new_peer (optimization_manager c));
          (r, cn) = q_migrate api (local_addr c) new_peer (conn c)
      in (r, c\<lparr>xdp_socket := xdp, conn := cn\<rparr>))"

text \<open>A validated path, or a peer that migrated: the addresses and the socket follow.\<close>

definition switch_path ::
  "('c, 'h, 's) api \<Rightarrow> SocketAddr \<Rightarrow> SocketAddr \<Rightarrow> ('c, 'h, 's) QuicFuscateConnection \<Rightarrow> ('c, 'h, 's) QuicFuscateConnection" where
  "switch_path api local peer c =
     (let fresh = open_socket api local peer (optimization_manager c)
      in c\<lparr>peer_addr := peer, local_addr := local,
           xdp_socket := (case xdp_socket c of
                            Some x \<Rightarrow> (case xdp_reconfigure api local peer x of
                                         (Inr _, x) \<Rightarrow> Some x
                                       | (Inl _, x) \<Rightarrow> fresh)
                          | None \<Rightarrow> fresh)\<rparr>)"

primrec path_event ::
  "('c, 'h, 's) api \<Rightarrow> PathEvent \<Rightarrow> ('c, 'h, 's) QuicFuscateConnection \<Rightarrow> ('c, 'h, 's) QuicFuscateConnection" where
  "path_event api (PathNew l p) c = c"
| "path_event api (Validated l p) c = switch_path api l p c"
| "path_event api (FailedValidation l p) c = c"
| "path_event api (PathClosed l p) c = c"
| "path_event api (ReusedSourceConnectionId n old new) c = c"
| "path_event api (PeerMigrated l p) c = switch_path api l p c"

partial_function (option) path_events ::
  "('c, 'h, 's) api \<Rightarrow> ('c, 'h, 's) QuicFuscateConnection \<Rightarrow> ('c, 'h, 's) QuicFuscateConnection option" where
  "path_events api c =
     (case q_path_event_next api (conn c) of
        (None, cn) \<Rightarrow> Some (c\<lparr>conn := cn\<rparr>)
      | (Some e, cn) \<Rightarrow> path_events api (path_event api e (c\<lparr>conn := cn\<rparr>)))"

subsection \<open>HTTP/3\<close>

definition init_http3 ::
  "('c, 'h, 's) api \<Rightarrow> ('c, 'h, 's) QuicFuscateConnection \<Rightarrow> (H3Error + unit) \<times> ('c, 'h, 's) QuicFuscateConnection" where
  "init_http3 api c =
     (case h3_conn c of
        Some _ \<Rightarrow> (Inr (), c)
      | None \<Rightarrow>
          (case h3_config_new api of
             Inl e \<Rightarrow> (Inl e, c)
           | Inr _ \<Rightarrow> (case h3_with_transport api (conn c) of
                         (Inl e, cn) \<Rightarrow> (Inl e, c\<lparr>conn := cn\<rparr>)
                       | (Inr h, cn) \<Rightarrow> (Inr (), c\<lparr>conn := cn, h3_conn := Some h\<rparr>))))"

definition send_http3_request ::
  "('c, 'h, 's) api \<Rightarrow> string \<Rightarrow> ('c, 'h, 's) QuicFuscateConnection \<Rightarrow>
   (ConnectionError + unit) \<times> ('c, 'h, 's) QuicFuscateConnection" where
  "send_http3_request api path c =
     (case init_http3 api c of
        (Inl e, c) \<Rightarrow> (Inl (H3 e), c)
      | (Inr _, c) \<Rightarrow>
          (let host = host_header c;
               headers = (case get_http3_header_list host path (stealth_manager c) of
                            Some hs \<Rightarrow> hs
                          | None \<Rightarrow> [('':method'', ''GET''), ('':scheme'', ''https''), ('':authority'', host), ('':path'', path)])
           in case h3_conn c of
                None \<Rightarrow> (Inr (), c)
              | Some h \<Rightarrow> (case h3_send_request api headers (h, conn c) of
                             (Inl e, h, cn) \<Rightarrow> (Inl (H3 e), c\<lparr>conn := cn, h3_conn := Some h\<rparr>)
                           | (Inr _, h, cn) \<Rightarrow> (Inr (), c\<lparr>conn := cn, h3_conn := Some h\<rparr>))))"

partial_function (option) read_body :: "('c, 'h, 's) api \<Rightarrow> u64 \<Rightarrow> 'h \<times> 'c \<Rightarrow> ('h \<times> 'c) option" where
  "read_body api sid s =
     (case h3_recv_body api sid 4096 s of
        (Inl e, s) \<Rightarrow> Some s
      | (Inr d, s) \<Rightarrow> read_body api sid s)"

partial_function (option) poll_events ::
  "('c, 'h, 's) api \<Rightarrow> 'h \<times> 'c \<Rightarrow> ((ConnectionError + unit) \<times> 'h \<times> 'c) option" where
  "poll_events api s =
     (case h3_poll api s of
        (Inl e, s) \<Rightarrow> Some (if e = H3Done then Inr () else Inl (H3 e), s)
      | (Inr (sid, ev), s) \<Rightarrow>
          (case ev of
             H3Headers hs \<Rightarrow> poll_events api s
           | H3Data \<Rightarrow> do { s \<leftarrow> read_body api sid s; poll_events api s }
           | H3Finished \<Rightarrow> poll_events api s))"

definition poll_http3 ::
  "('c, 'h, 's) api \<Rightarrow> ('c, 'h, 's) QuicFuscateConnection \<Rightarrow>
   ((ConnectionError + unit) \<times> ('c, 'h, 's) QuicFuscateConnection) option" where
  "poll_http3 api c =
     (case h3_conn c of
        None \<Rightarrow> Some (Inr (), c)
      | Some h \<Rightarrow> do {
          (r, h, cn) \<leftarrow> poll_events api (h, conn c);
          Some (r, c\<lparr>h3_conn := Some h, conn := cn\<rparr>) })"

subsection \<open>Statistics\<close>

text \<open>\<open>now\<close> is the reading for the telemetry interval, \<open>clk\<close> those of the mode manager.\<close>

definition update_state ::
  "platform \<Rightarrow> ('c, 'h, 's) api \<Rightarrow> clock \<Rightarrow> nat \<Rightarrow> ('c, 'h, 's) QuicFuscateConnection \<Rightarrow>
   ('c, 'h, 's) QuicFuscateConnection option" where
  "update_state pf api clk now c = do {
     let s = q_stats api (conn c);
     let st = (stats c)\<lparr>packets_sent := of_nat (st_sent s), packets_lost := of_nat (st_lost s)\<rparr>;
     let st = (if st_sent s > 0
               then st\<lparr>loss_rate := f32 (usize_as_f32 (st_lost s) / usize_as_f32 (st_sent s))\<rparr> else st);
     let st = st\<lparr>rtt := usize_as_f32 (st_rtt_millis s)\<rparr>;
     f \<leftarrow> AdaptiveFec_report_loss (node pf) clk (st_lost s) (st_sent s) (fec c);
     let c = set_fec f (c\<lparr>stats := st\<rparr>);
     let c = (if now - last_telemetry c \<ge> 1000000000 then c\<lparr>last_telemetry := now\<rparr> else c);
     path_events api c }"

subsection \<open>Invariant of the composition\<close>

lemma set_manager_simps [simp]:
  "conn (set_manager om c) = conn c" "peer_addr (set_manager om c) = peer_addr c"
  "local_addr (set_manager om c) = local_addr c" "host_header (set_manager om c) = host_header c"
  "crypto_selector (set_manager om c) = crypto_selector c" "stealth_manager (set_manager om c) = stealth_manager c"
  "optimization_manager (set_manager om c) = om" "fec (set_manager om c) = (fec c)\<lparr>mem_pool := memory_pool om\<rparr>"
  "packet_id_counter (set_manager om c) = packet_id_counter c"
  "outgoing_fec_packets (set_manager om c) = outgoing_fec_packets c" "xdp_socket (set_manager om c) = xdp_socket c"
  "h3_conn (set_manager om c) = h3_conn c"
  by (simp_all add: set_manager_def)

lemma set_pool_simps [simp]:
  "conn (set_pool p c) = conn c" "peer_addr (set_pool p c) = peer_addr c"
  "local_addr (set_pool p c) = local_addr c" "host_header (set_pool p c) = host_header c"
  "crypto_selector (set_pool p c) = crypto_selector c" "stealth_manager (set_pool p c) = stealth_manager c"
  "optimization_manager (set_pool p c) = (optimization_manager c)\<lparr>memory_pool := p\<rparr>"
  "fec (set_pool p c) = (fec c)\<lparr>mem_pool := p\<rparr>" "packet_id_counter (set_pool p c) = packet_id_counter c"
  "outgoing_fec_packets (set_pool p c) = outgoing_fec_packets c" "xdp_socket (set_pool p c) = xdp_socket c"
  "h3_conn (set_pool p c) = h3_conn c"
  by (simp_all add: set_pool_def)

lemma set_fec_simps [simp]:
  "conn (set_fec f c) = conn c" "peer_addr (set_fec f c) = peer_addr c"
  "local_addr (set_fec f c) = local_addr c" "host_header (set_fec f c) = host_header c"
  "crypto_selector (set_fec f c) = crypto_selector c" "stealth_manager (set_fec f c) = stealth_manager c"
  "optimization_manager (set_fec f c) = (optimization_manager c)\<lparr>memory_pool := mem_pool f\<rparr>"
  "fec (set_fec f c) = f" "packet_id_counter (set_fec f c) = packet_id_counter c"
  "outgoing_fec_packets (set_fec f c) = outgoing_fec_packets c" "xdp_socket (set_fec f c) = xdp_socket c"
  "h3_conn (set_fec f c) = h3_conn c"
  by (simp_all add: set_fec_def)

text \<open>The FEC layer is in a state of its own life cycle and shares the pool with the manager; there is a socket
  only when the manager uses XDP.\<close>

definition xdp_on :: "OptimizationManager \<Rightarrow> bool" where
  "xdp_on om \<longleftrightarrow> xdp_available om \<and> use_xdp om"

definition conn_inv :: "platform \<Rightarrow> ('c, 'h, 's) QuicFuscateConnection \<Rightarrow> bool" where
  "conn_inv pf c \<longleftrightarrow> fec_reach (fec c) \<and> mem_pool (fec c) = memory_pool (optimization_manager c) \<and>
     (xdp_socket c \<noteq> None \<longrightarrow> xdp_on (optimization_manager c)) \<and>
     (xdp_available (optimization_manager c) \<longrightarrow> xdp_supported pf) \<and>
     crypto_selector c = select_suite (cpu_arch pf = X86) (cpu pf)"

lemma xdp_on_pool [simp]: "xdp_on (om\<lparr>memory_pool := p\<rparr>) = xdp_on om"
  by (simp add: xdp_on_def)

lemma open_socket_off [simp]: "\<not> xdp_on om \<Longrightarrow> open_socket api l p om = None"
  by (auto simp: open_socket_def create_xdp_socket_def xdp_on_def)

lemma alloc_block_manager:
  "alloc_block nd om = Some (b, om') \<Longrightarrow> \<exists>p. om' = om\<lparr>memory_pool := p\<rparr>"
  by (auto simp: alloc_block_def Option.bind_eq_Some_conv)

lemma conn_inv_set_pool [intro]: "conn_inv pf c \<Longrightarrow> conn_inv pf (set_pool p c)"
  by (simp add: conn_inv_def fec_pool)

lemma conn_inv_set_fec [intro]: "conn_inv pf c \<Longrightarrow> fec_reach f \<Longrightarrow> conn_inv pf (set_fec f c)"
  by (simp add: conn_inv_def)

lemma set_manager_pool: "set_manager ((optimization_manager c)\<lparr>memory_pool := p\<rparr>) c = set_pool p c"
  by (simp add: set_pool_def)

lemma conn_inv_free [intro]: "conn_inv pf c \<Longrightarrow> conn_inv pf (set_manager (free_block nd b (optimization_manager c)) c)"
  unfolding free_block_def set_manager_pool by (rule conn_inv_set_pool)

text \<open>Fields the invariant does not depend on.\<close>

lemma conn_inv_update [simp]:
  "conn_inv pf (c\<lparr>conn := cn\<rparr>) = conn_inv pf c" "conn_inv pf (c\<lparr>stealth_manager := sm\<rparr>) = conn_inv pf c"
  "conn_inv pf (c\<lparr>packet_id_counter := i\<rparr>) = conn_inv pf c" "conn_inv pf (c\<lparr>outgoing_fec_packets := q\<rparr>) = conn_inv pf c"
  "conn_inv pf (c\<lparr>h3_conn := h\<rparr>) = conn_inv pf c" "conn_inv pf (c\<lparr>stats := st\<rparr>) = conn_inv pf c"
  "conn_inv pf (c\<lparr>last_telemetry := t\<rparr>) = conn_inv pf c" "conn_inv pf (c\<lparr>peer_addr := a\<rparr>) = conn_inv pf c"
  "conn_inv pf (c\<lparr>local_addr := a\<rparr>) = conn_inv pf c"
  by (auto simp: conn_inv_def)

lemma conn_inv_socket:
  "conn_inv pf c \<Longrightarrow> (x \<noteq> None \<Longrightarrow> xdp_on (optimization_manager c)) \<Longrightarrow> conn_inv pf (c\<lparr>xdp_socket := x\<rparr>)"
  by (auto simp: conn_inv_def)

lemma conn_inv_xdp: "conn_inv pf c \<Longrightarrow> xdp_socket c \<noteq> None \<Longrightarrow> xdp_on (optimization_manager c)"
  by (simp add: conn_inv_def)

lemma deliver_inv: "conn_inv pf c \<Longrightarrow> conn_inv pf (deliver pf api pk c)"
  by (auto simp: deliver_def split: option.split prod.split)

lemma deliver_all_inv: "conn_inv pf c \<Longrightarrow> conn_inv pf (fold (deliver pf api) pks c)"
  by (induction pks arbitrary: c) (auto intro: deliver_inv)

lemma accept_frame_inv:
  assumes "conn_inv pf c" "accept_frame pf api b n c = Some (r, c')"
  shows "conn_inv pf c'"
proof -
  obtain r1 p where f: "from_block (node pf) (packet_id_counter c) b n (memory_pool (optimization_manager c)) = Some (r1, p)"
    using assms(2) by (auto simp: accept_frame_def Option.bind_eq_Some_conv)
  show ?thesis
  proof (cases r1)
    case (Inl e)
    with assms f show ?thesis by (auto simp: accept_frame_def)
  next
    case (Inr pkt)
    with assms f obtain r2 f2 where o: "on_receive (gf pf) (node pf) pkt (fec (set_pool p c)) = Some (r2, f2)"
      by (auto simp: accept_frame_def Option.bind_eq_Some_conv)
    have "fec_reach f2" using assms(1) o by (auto simp: conn_inv_def intro: fec_receive fec_pool)
    then have "conn_inv pf (set_fec f2 (set_pool p c))" using assms(1) by auto
    with Inr assms f o show ?thesis by (cases r2) (auto simp: accept_frame_def intro: deliver_all_inv)
  qed
qed

lemma fill_block_socket:
  "fill_block api dat b xdp = Some (r, b', xdp') \<Longrightarrow> xdp' = None \<longleftrightarrow> xdp = None"
  by (auto simp: fill_block_def Option.bind_eq_Some_conv Let_def split: option.splits prod.splits)

lemma recv_inv:
  assumes "conn_inv pf c" "Connection_recv pf api dat c = Some (r, c')"
  shows "conn_inv pf c'"
proof -
  obtain b om r1 b1 xdp where a: "alloc_block (node pf) (optimization_manager c) = Some (b, om)"
    "fill_block api dat b (xdp_socket c) = Some (r1, b1, xdp)"
    using assms(2) by (auto simp: Connection_recv_def Option.bind_eq_Some_conv)
  let ?c = "(set_manager om c)\<lparr>xdp_socket := xdp\<rparr>"
  obtain p where om: "om = (optimization_manager c)\<lparr>memory_pool := p\<rparr>" using alloc_block_manager[OF a(1)] by blast
  have inv: "conn_inv pf ?c"
    unfolding om set_manager_pool using fill_block_socket[OF a(2)] conn_inv_xdp[OF assms(1)] assms(1)
    by (intro conn_inv_socket) auto
  show ?thesis
  proof (cases r1)
    case (Inl e)
    with a assms(2) have "c' = set_manager (free_block (node pf) b1 (optimization_manager ?c)) ?c"
      by (simp add: Connection_recv_def Let_def)
    with conn_inv_free[OF inv] show ?thesis by metis
  next
    case (Inr n)
    with a assms(2) have "accept_frame pf api b1 n ?c = Some (r, c')" by (simp add: Connection_recv_def Let_def)
    with accept_frame_inv[OF inv] show ?thesis by blast
  qed
qed

lemma transmit_inv:
  assumes "conn_inv pf c" "transmit pf api pk buf c = Some (r, buf', c')"
  shows "conn_inv pf c'"
proof -
  obtain xdp where c': "c' = set_pool (drop_packet (node pf) pk (memory_pool (optimization_manager c))) (c\<lparr>xdp_socket := xdp\<rparr>)"
    and x: "xdp = None \<longleftrightarrow> xdp_socket c = None"
    using assms(2) by (auto simp: transmit_def Option.bind_eq_Some_conv case_prod_beta Let_def split: option.splits)
  show ?thesis unfolding c' using assms(1) conn_inv_xdp[OF assms(1)] x by (intro conn_inv_set_pool conn_inv_socket) auto
qed

lemma queue_packet_inv:
  assumes "conn_inv pf c" "queue_packet pf b n c = Some c'"
  shows "conn_inv pf c'"
proof -
  obtain pkt sm i f q where o: "on_send (gf pf) (node pf) pkt (fec c) (outgoing_fec_packets c) = Some (f, q)"
    and c': "c' = set_fec f (c\<lparr>stealth_manager := sm, packet_id_counter := i, outgoing_fec_packets := q\<rparr>)"
    using assms(2) by (auto simp: queue_packet_def Option.bind_eq_Some_conv case_prod_beta Let_def)
  have "fec_reach f" using assms(1) o by (auto simp: conn_inv_def intro: fec_send)
  with assms(1) show ?thesis unfolding c' by (intro conn_inv_set_fec) simp_all
qed

lemma send_inv:
  assumes "conn_inv pf c" "Connection_send pf api buf c = Some (r, buf', c')"
  shows "conn_inv pf c'"
proof (cases "outgoing_fec_packets c")
  case (Cons pk q)
  with assms show ?thesis using transmit_inv[of pf "c\<lparr>outgoing_fec_packets := q\<rparr>"] by (simp add: Connection_send_def)
next
  case Nil
  then obtain b om where a: "alloc_block (node pf) (optimization_manager c) = Some (b, om)"
    using assms(2) by (auto simp: Connection_send_def Option.bind_eq_Some_conv)
  obtain p where om: "om = (optimization_manager c)\<lparr>memory_pool := p\<rparr>" using alloc_block_manager[OF a] by blast
  obtain r1 b1 cn where s: "q_send api b (conn c) = (r1, b1, cn)" by (cases "q_send api b (conn c)") auto
  let ?c = "set_manager om (c\<lparr>conn := cn\<rparr>)"
  have inv: "conn_inv pf ?c"
    using conn_inv_set_pool[of pf "c\<lparr>conn := cn\<rparr>" p] assms(1) by (simp add: om set_pool_def)
  have rel: "conn_inv pf (set_manager (free_block (node pf) b1 om) ?c)" using conn_inv_free[OF inv, of "node pf" b1] by simp
  consider e where "r1 = Inl e" | "r1 = Inr 0" | n where "r1 = Inr n" "n \<noteq> 0" by (cases r1) auto
  then show ?thesis
  proof cases
    case 3
    with Nil a s assms(2) obtain c2 where q: "queue_packet pf b1 n ?c = Some c2"
      and t: "(case outgoing_fec_packets c2 of pk # q \<Rightarrow> transmit pf api pk buf (c2\<lparr>outgoing_fec_packets := q\<rparr>)
                | [] \<Rightarrow> Some (Inr 0, buf, c2)) = Some (r, buf', c')"
      by (auto simp: Connection_send_def Let_def Option.bind_eq_Some_conv)
    from queue_packet_inv[OF inv q] t show ?thesis
      using transmit_inv[of pf "c2\<lparr>outgoing_fec_packets := _\<rparr>"] by (auto split: list.splits)
  qed (use Nil a s assms(2) rel in \<open>auto simp: Connection_send_def Let_def\<close>)
qed

lemma switch_path_inv: "conn_inv pf c \<Longrightarrow> conn_inv pf (switch_path api l p c)"
  unfolding switch_path_def Let_def
  by (cases "xdp_on (optimization_manager c)") (auto simp: conn_inv_def split: option.splits prod.splits sum.splits)

lemma path_event_inv: "conn_inv pf c \<Longrightarrow> conn_inv pf (path_event api e c)"
  by (cases e) (simp_all add: switch_path_inv)

lemma path_events_inv: "path_events api c = Some c' \<Longrightarrow> conn_inv pf c \<Longrightarrow> conn_inv pf c'"
proof (induction rule: path_events.raw_induct [rotated, consumes 1, case_names step])
  case (step path_events' api c c')
  obtain e cn where e: "q_path_event_next api (conn c) = (e, cn)" by fastforce
  show ?case
  proof (cases e)
    case (Some ev)
    with step(2) e have "path_events' api (path_event api ev (c\<lparr>conn := cn\<rparr>)) = Some c'" by simp
    then show ?thesis by (rule step.IH) (simp add: path_event_inv step.prems)
  qed (use step e in auto)
qed

lemma update_state_inv:
  assumes "conn_inv pf c" "update_state pf api clk now c = Some c'"
  shows "conn_inv pf c'"
proof -
  let ?s = "q_stats api (conn c)"
  obtain f where f: "AdaptiveFec_report_loss (node pf) clk (st_lost ?s) (st_sent ?s) (fec c) = Some f"
    using assms(2) by (auto simp: update_state_def Option.bind_eq_Some_conv Let_def)
  then have "fec_reach f" using assms(1) by (auto simp: conn_inv_def intro: fec_report)
  then have inv: "conn_inv pf (set_fec f (c\<lparr>stats := st\<rparr>))" for st using assms(1) by (intro conn_inv_set_fec) simp_all
  from assms(2) f obtain st where "path_events api (set_fec f (c\<lparr>stats := st\<rparr>)) = Some c' \<or>
      path_events api ((set_fec f (c\<lparr>stats := st\<rparr>))\<lparr>last_telemetry := now\<rparr>) = Some c'"
    by (auto simp: update_state_def Let_def split: if_splits)
  then show ?thesis using path_events_inv inv by (metis conn_inv_update(7))
qed

lemma migrate_inv: "conn_inv pf c \<Longrightarrow> conn_inv pf (snd (migrate_connection api a c))"
  by (cases "xdp_on (optimization_manager c)")
     (auto simp: migrate_connection_def Let_def conn_inv_def split: prod.splits)

lemma init_http3_inv: "conn_inv pf c \<Longrightarrow> conn_inv pf (snd (init_http3 api c))"
  by (auto simp: init_http3_def split: option.splits sum.splits prod.splits)

lemma send_http3_request_inv: "conn_inv pf c \<Longrightarrow> conn_inv pf (snd (send_http3_request api path c))"
  using init_http3_inv[of pf c api]
  by (auto simp: send_http3_request_def Let_def split: option.splits sum.splits prod.splits)

lemma poll_http3_inv: "conn_inv pf c \<Longrightarrow> poll_http3 api c = Some (r, c') \<Longrightarrow> conn_inv pf c'"
  by (auto simp: poll_http3_def Option.bind_eq_Some_conv split: option.splits)

lemma Connection_new_inv:
  assumes "config_ok cfg" "xdp \<noteq> None \<Longrightarrow> xdp_on om" "xdp_available om \<Longrightarrow> xdp_supported pf"
  shows "conn_inv pf (fst (Connection_new pf now cn l p host sm om xdp cfg))"
  using assms fec_new[OF assms(1), of now "memory_pool om" "gf pf"]
  by (auto simp: Connection_new_def conn_inv_def AdaptiveFec_new_def Let_def case_prod_beta)

lemma finish_inv:
  assumes "config_ok cfg" "om = manager_from_cfg nodes (xdp_supported pf) oc"
    "finish pf api now e local remote host sm om cfg r = Inr (c, g)"
  shows "conn_inv pf c"
proof -
  obtain cn where C: "Connection_new pf now cn local remote host sm om (open_socket api local remote om) cfg = (c, g)"
    using assms(3) by (auto simp: finish_def split: sum.split_asm)
  have "xdp_available om \<Longrightarrow> xdp_supported pf" by (simp add: assms(2) manager_from_cfg_def manager_new_with_config_def)
  then have "conn_inv pf (fst (c, g))"
    unfolding C [symmetric] by (intro Connection_new_inv[OF assms(1)]) (auto intro: ccontr)
  then show ?thesis by simp
qed

lemma new_client_inv:
  assumes "config_ok cfg"
    "new_client pf api now name local remote config sc cfg oc utls hooks = Some (Inr (c, g), hooks')"
  shows "conn_inv pf c"
  using assms(2) by (auto simp: new_client_def Option.bind_eq_Some_conv Let_def intro: finish_inv[OF assms(1) refl])

lemma new_server_inv:
  assumes "config_ok cfg" "new_server pf api now scid odcid local remote config sc cfg oc = Some (Inr (c, g))"
  shows "conn_inv pf c"
  using assms(2) by (auto simp: new_server_def Option.bind_eq_Some_conv Let_def intro: finish_inv[OF assms(1) refl])

end
