(* ===== verification/Fec_Roundtrip.thy ===== *)
theory Fec_Roundtrip
  imports Fec_Decoder
begin

text \<open>
  Encoder and decoder together: what the decoder makes of the packets of a window.

  Any \<open>k\<close> different repair packets of a window reconstruct it, and so do its \<open>k\<close> source packets. Mixing
  source and repair packets does not: the decoder keeps the rows of source packets without payload, so
  their contribution is never subtracted from the repair data.
\<close>

subsection \<open>Repair packets of a window\<close>

text \<open>\<open>pk\<close> is the repair packet number \<open>r\<close> of the window, whatever the pool was when it was built.\<close>

definition is_repair_of :: "gf_env \<Rightarrow> nat \<Rightarrow> nat \<Rightarrow> Encoder \<Rightarrow> nat \<Rightarrow> Packet \<Rightarrow> bool" where
  "is_repair_of g nd bs e r pk \<longleftrightarrow>
     (\<exists>p p'. pool_ok p \<and> block_size p = bs \<and> Encoder_generate_repair_packet g nd e r p = Some (Some pk, p'))"

definition src_data :: "Packet list \<Rightarrow> nat \<Rightarrow> nat \<Rightarrow> gf8" where
  "src_data ws i j = (if j < len (hd ws) then src_byte ws i j else 0)"

lemma repair_packet_rows:
  assumes g: "gf_scalar g" and w: "window_ok bs ws" "length ws = k" "k + r < 256" "k \<le> bs"
    and pk: "is_repair_of g nd bs \<lparr>enc_k = k, enc_n = n, source_window = ws\<rparr> r pk"
  shows "repair_ok k bs pk" "coeff_row pk = map (\<lambda>i. raw (1 / (gpt (k + r) - gpt i))) [0..<k]"
    "len pk = len (hd ws)" "len (hd ws) \<le> bs"
    "\<exists>d. data pk = Some d \<and> (\<forall>j < bs. GF8 (d ! j) = (\<Sum>i<k. 1 / (gpt (k + r) - gpt i) * src_data ws i j))"
proof -
  obtain p p' where p: "pool_ok p" "block_size p = bs"
    "Encoder_generate_repair_packet g nd \<lparr>enc_k = k, enc_n = n, source_window = ws\<rparr> r p = Some (Some pk, p')"
    using pk by (auto simp: is_repair_of_def)
  from generate_repair_packet_spec[OF g p(1,2) w, of nd n] p(3) obtain rd where
    pk: "pk = \<lparr>pid = pid (last ws) + 1 + of_nat r, data = Some rd, len = len (hd ws), is_systematic = False,
         coefficients = Some (map (\<lambda>i. raw (1 / (gpt (k + r) - gpt i))) [0..<k] @ replicate (bs - k) 0),
         coeff_len = k\<rparr>" "length rd = bs"
    "\<And>j. j < bs \<Longrightarrow> GF8 (rd ! j) = (if j < len (hd ws) then \<Sum>i<k. 1 / (gpt (k + r) - gpt i) * src_byte ws i j else 0)"
    by auto
  show "repair_ok k bs pk" using pk(1,2) w(4) by (simp add: repair_ok_def)
  show "coeff_row pk = map (\<lambda>i. raw (1 / (gpt (k + r) - gpt i))) [0..<k]" using pk(1) by (simp add: coeff_row_def)
  show "len pk = len (hd ws)" using pk(1) by simp
  show "len (hd ws) \<le> bs" using w(1) by (cases ws) (auto simp: window_ok_def source_ok_def split: option.splits)
  show "\<exists>d. data pk = Some d \<and> (\<forall>j < bs. GF8 (d ! j) = (\<Sum>i<k. 1 / (gpt (k + r) - gpt i) * src_data ws i j))"
    using pk by (auto simp: src_data_def intro!: exI[of _ rd])
qed

lemma repair_packet_exists:
  assumes "gf_scalar g" "window_ok bs ws" "length ws = k" "k + r < 256" "k \<le> bs"
  shows "\<exists>pk. is_repair_of g nd bs \<lparr>enc_k = k, enc_n = n, source_window = ws\<rparr> r pk"
proof -
  have pool: "pool_ok (pool_new 1 4 bs)" "block_size (pool_new 1 4 bs) = bs" by (simp_all add: pool_ok_new)
  with generate_repair_packet_spec[OF assms(1) pool assms(2-5), of nd n] show ?thesis
    unfolding is_repair_of_def by blast
qed

lemma mx_coeff_rows:
  assumes "m < length pks" "c < k" "coeff_row (pks ! m) = map (\<lambda>i. raw (f i)) [0..<k]"
  shows "mx (map (sparse \<circ> coeff_row) pks) m c = f c"
  using assms by (simp add: mx_def row_val_sparse raw_GF8_eq)

lemma cauchy_kernel:
  assumes "distinct rs" "length rs = k" "\<And>r. r \<in> set rs \<Longrightarrow> k + r < 256"
    and "\<And>m c. m < k \<Longrightarrow> c < k \<Longrightarrow> M m c = 1 / (gpt (k + rs ! m) - gpt c)"
  shows "trivial_kernel k M"
proof -
  have lt: "k + rs ! m < 256" if "m < k" for m using assms(2,3) that by simp
  show ?thesis
    unfolding trivial_kernel_def
  proof (intro allI impI)
    fix x c
    assume z: "\<forall>r<k. dot k (M r) x = 0" and c: "c < k"
    have "k < 256" using lt[OF c] by simp
    then have "inj_on gpt {..<k}" by (auto simp: inj_on_def gpt_inj)
    moreover have "inj_on (\<lambda>m. gpt (k + rs ! m)) {..<k}"
      using assms(1,2) lt by (auto intro!: inj_onI simp: gpt_inj nth_eq_iff_index_eq)
    moreover have "gpt (k + rs ! m) \<noteq> gpt i" if "i < k" "m < k" for i m
      using gpt_inj[of "k + rs ! m" i] lt[OF that(2)] that(1) by simp
    moreover have "(\<Sum>i<k. x i / (gpt (k + rs ! m) - gpt i)) = 0" if "m < k" for m
      using z that by (simp add: dot_def assms(4))
    ultimately show "x c = 0" by (rule cauchy_trivial[of gpt k "\<lambda>m. gpt (k + rs ! m)" x c]) (use c in simp_all)
  qed
qed

text \<open>Packets with the coefficients of different repair packets and, in the first \<open>N\<close> bytes, their data.\<close>

lemma cauchy_coded:
  assumes g: "gf_scalar g" and rs: "distinct rs" "length rs = k" "list_all (\<lambda>r. k + r < 256) rs"
    and pks: "length pks = k"
      "\<And>m. m < k \<Longrightarrow> coeff_row (pks ! m) = map (\<lambda>i. raw (1 / (gpt (k + rs ! m) - gpt i))) [0..<k]"
      "\<And>m. m < k \<Longrightarrow> \<exists>d. data (pks ! m) = Some d \<and>
         (\<forall>j < N. j < length d \<longrightarrow> GF8 (d ! j) = (\<Sum>i<k. 1 / (gpt (k + rs ! m) - gpt i) * X i j))"
  shows "coded g k N True X (map (sparse \<circ> coeff_row) pks) (map data pks)"
proof -
  have M: "mx (map (sparse \<circ> coeff_row) pks) m c = 1 / (gpt (k + rs ! m) - gpt c)" if "m < k" "c < k" for m c
    using mx_coeff_rows[OF _ that(2) pks(2)[OF that(1)]] that pks(1) by simp
  have "trivial_kernel k (mx (map (sparse \<circ> coeff_row) pks))"
    using rs M by (intro cauchy_kernel[of rs]) (auto simp: list_all_iff)
  moreover have "pay_ok k N True X (mx (map (sparse \<circ> coeff_row) pks) m) (map data pks ! m)" if "m < k" for m
    using pks(3)[OF that] that pks(1) M by (auto simp: pay_ok_def dot_def)
  ultimately show ?thesis using g by (simp add: coded_def)
qed

lemma repairs_coded:
  assumes g: "gf_scalar g" and w: "window_ok bs ws" "length ws = k" "k \<le> bs"
    and rs: "distinct rs" "length rs = k" "list_all (\<lambda>r. k + r < 256) rs"
    and pks: "list_all2 (is_repair_of g nd bs \<lparr>enc_k = k, enc_n = n, source_window = ws\<rparr>) rs pks"
  shows "list_all (repair_ok k bs) pks"
    "coded g k bs True (src_data ws) (map (sparse \<circ> coeff_row) pks) (map data pks)"
proof -
  have len: "length pks = k" using pks rs(2) by (simp add: list_all2_conv_all_nth)
  have rep: "is_repair_of g nd bs \<lparr>enc_k = k, enc_n = n, source_window = ws\<rparr> (rs ! m) (pks ! m)" "k + rs ! m < 256"
    if "m < k" for m using pks rs that by (auto simp: list_all2_conv_all_nth list_all_length)
  note spec = repair_packet_rows[OF g w(1,2) rep(2) w(3) rep(1)]
  show "list_all (repair_ok k bs) pks" using spec(1) len by (simp add: list_all_length)
  show "coded g k bs True (src_data ws) (map (sparse \<circ> coeff_row) pks) (map data pks)"
    using spec(2,5) by (intro cauchy_coded[OF g rs len]) blast+
qed

text \<open>The same after transmission: packets with the content of different repair packets of a window, in blocks of any
  size they fit into.\<close>

lemma transmitted_repair:
  assumes g: "gf_scalar g" and w: "window_ok bs ws" "length ws = k" "k + r < 256" "k \<le> bs"
    and pk: "is_repair_of g nd bs \<lparr>enc_k = k, enc_n = n, source_window = ws\<rparr> r pk"
    and q: "packet_view q = packet_view pk" "packet_ok bs' q" "data q \<noteq> None"
  shows "repair_ok k bs' q" "coeff_row q = map (\<lambda>i. raw (1 / (gpt (k + r) - gpt i))) [0..<k]"
    "\<exists>d. data q = Some d \<and> (\<forall>j < len (hd ws). j < length d \<longrightarrow>
       GF8 (d ! j) = (\<Sum>i<k. 1 / (gpt (k + r) - gpt i) * src_data ws i j))"
proof -
  note spec = repair_packet_rows[OF g w pk]
  obtain c d where pc: "coefficients pk = Some c" "k \<le> length c" "coeff_len pk = k" "\<not> is_systematic pk"
    "data pk = Some d" "length d = bs"
    using spec(1) by (auto simp: repair_ok_def split: option.splits)
  obtain c' d' where qc: "coefficients q = Some c'" "data q = Some d'" "take (coeff_len q) c' = take k c"
    "take (len q) d' = take (len pk) d" "\<not> is_systematic q"
    using q(1,3) pc by (auto simp: packet_view_def)
  have "length (take (coeff_len q) c') = length (take k c)" "length (take (len q) d') = length (take (len pk) d)"
    by (simp_all only: qc)
  then have l: "coeff_len q = k" "len q = len (hd ws)" "length c' = bs'" "length d' = bs'" "k \<le> bs'"
    using q(2) qc(1,2) pc spec(3,4) by (simp_all add: packet_ok_def)
  show "repair_ok k bs' q" using qc l by (simp add: repair_ok_def)
  show "coeff_row q = map (\<lambda>i. raw (1 / (gpt (k + r) - gpt i))) [0..<k]"
    using spec(2) qc(1,3) pc l by (simp add: coeff_row_def)
  have "d' ! j = d ! j" if "j < len (hd ws)" for j
    using arg_cong[OF qc(4), of "\<lambda>xs. xs ! j"] that l(2) spec(3) by simp
  then show "\<exists>d. data q = Some d \<and> (\<forall>j < len (hd ws). j < length d \<longrightarrow>
       GF8 (d ! j) = (\<Sum>i<k. 1 / (gpt (k + r) - gpt i) * src_data ws i j))"
    using spec(4,5) pc(5) qc(2) by auto
qed

lemma transmitted_coded:
  assumes g: "gf_scalar g" "gf_scalar g'" and w: "window_ok bs ws" "length ws = k" "k \<le> bs"
    and rs: "distinct rs" "length rs = k" "list_all (\<lambda>r. k + r < 256) rs"
    and pks: "list_all2 (is_repair_of g nd bs \<lparr>enc_k = k, enc_n = n, source_window = ws\<rparr>) rs pks"
    and qs: "list_all2 (\<lambda>pk q. packet_view q = packet_view pk \<and> packet_ok bs' q \<and> data q \<noteq> None) pks qs"
  shows "list_all (repair_ok k bs') qs"
    "coded g' k (len (hd ws)) True (src_data ws) (map (sparse \<circ> coeff_row) qs) (map data qs)"
proof -
  have len: "length qs = k" using pks qs rs(2) by (simp add: list_all2_conv_all_nth)
  have rep: "is_repair_of g nd bs \<lparr>enc_k = k, enc_n = n, source_window = ws\<rparr> (rs ! m) (pks ! m)" "k + rs ! m < 256"
    "packet_view (qs ! m) = packet_view (pks ! m)" "packet_ok bs' (qs ! m)" "data (qs ! m) \<noteq> None"
    if "m < k" for m using pks qs rs that by (auto simp: list_all2_conv_all_nth list_all_length)
  note spec = transmitted_repair[OF g(1) w(1,2) rep(2) w(3) rep(1,3,4,5)]
  show "list_all (repair_ok k bs') qs" using spec(1) len by (simp add: list_all_length)
  show "coded g' k (len (hd ws)) True (src_data ws) (map (sparse \<circ> coeff_row) qs) (map data qs)"
    using spec(2,3) by (intro cauchy_coded[OF g(2) rs len]) blast+
qed

subsection \<open>Source packets of a window\<close>

definition src_index :: "nat \<Rightarrow> Packet \<Rightarrow> nat" where
  "src_index k pk = unat (pid pk) mod k"

definition unit_row :: "nat \<Rightarrow> Packet \<Rightarrow> bytes" where
  "unit_row k pk = (replicate k 0)[src_index k pk := 1]"

definition sps_of :: "nat \<Rightarrow> Packet list \<Rightarrow> Packet option list" where
  "sps_of k ws = map (\<lambda>i. List.find (\<lambda>pk. src_index k pk = i) ws) [0..<k]"

definition src_state :: "nat \<Rightarrow> Packet list \<Rightarrow> Decoder" where
  "src_state k ws = (Decoder_new k)\<lparr>systematic_packets := sps_of k ws,
     decoding_matrix := csr_of (map (sparse \<circ> unit_row k) ws) (map (\<lambda>_. None) ws) k\<rparr>"

lemma find_snoc: "List.find P (xs @ [x]) = (case List.find P xs of Some y \<Rightarrow> Some y | None \<Rightarrow> if P x then Some x else None)"
  by (induction xs) auto

lemma sps_of_snoc:
  assumes "src_index k pk \<notin> set (map (src_index k) ws)" "0 < k"
  shows "sps_of k (ws @ [pk]) = (sps_of k ws)[src_index k pk := Some pk]" "sps_of k ws ! src_index k pk = None"
proof -
  have lt: "src_index k pk < k" using assms(2) by (simp add: src_index_def)
  have none: "List.find (\<lambda>q. src_index k q = src_index k pk) ws = None"
    using assms(1) by (auto simp: find_None_iff) (metis imageI)
  then show "sps_of k ws ! src_index k pk = None" using lt by (simp add: sps_of_def)
  show "sps_of k (ws @ [pk]) = (sps_of k ws)[src_index k pk := Some pk]"
    using lt none by (intro nth_equalityI) (auto simp: sps_of_def find_snoc nth_list_update split: option.split)
qed

lemma src_state_Nil: "src_state k [] = Decoder_new k"
  by (simp add: src_state_def Decoder_new_def csr_new_of sps_of_def map_replicate_const)

lemma add_source:
  assumes "length ws < k" "is_systematic pk" "src_index k pk \<notin> set (map (src_index k) ws)"
  shows "Decoder_add_packet g nd pk (src_state k ws) p =
      do { (b, d, p) \<leftarrow> try_decode g nd (src_state k (ws @ [pk])) p; Some (Inr b, d, p) }"
proof -
  have k: "0 < k" using assms(1) by simp
  then have i: "src_index k pk < k" by (simp add: src_index_def)
  note sps = sps_of_snoc[OF assms(3) k]
  have st: "(src_state k ws)\<lparr>systematic_packets := (sps_of k ws)[src_index k pk := Some pk],
      decoding_matrix := append_row (unit_row k pk) None (decoding_matrix (src_state k ws))\<rparr> = src_state k (ws @ [pk])"
    by (simp add: src_state_def append_row_csr_of sps)
  have "set_idx (sps_of k ws) (src_index k pk) (Some pk) = Some ((sps_of k ws)[src_index k pk := Some pk])"
    "idx (sps_of k ws) (src_index k pk) = Some None"
    "set_idx (replicate k 0) (src_index k pk) 1 = Some (unit_row k pk)"
    using i sps(2) by (simp_all add: set_idx_def idx_def sps_of_def unit_row_def)
  moreover have "dec_k (src_state k ws) = k" "\<not> is_decoded (src_state k ws)"
    "systematic_packets (src_state k ws) = sps_of k ws" "num_rows (decoding_matrix (src_state k ws)) = length ws"
    by (simp_all add: src_state_def Decoder_new_def)
  ultimately show ?thesis
    using assms(1,2) st by (simp add: Decoder_add_packet_def src_index_def[symmetric])
qed

lemma add_sources_partial:
  "length ws < k \<Longrightarrow> list_all is_systematic ws \<Longrightarrow> distinct (map (src_index k) ws) \<Longrightarrow>
   add_packets g nd ws (Decoder_new k, p) = Some (src_state k ws, p)"
proof (induction ws rule: rev_induct)
  case (snoc pk ws)
  then show ?case
    using add_source[of ws k pk g nd p]
    by (simp add: add_packets_def ofold_append try_decode_def src_state_def Decoder_new_def)
qed (simp add: add_packets_def src_state_Nil)

lemma mx_unit_rows:
  "m < length ws \<Longrightarrow> c < k \<Longrightarrow> mx (map (sparse \<circ> unit_row k) ws) m c = (if c = src_index k (ws ! m) then 1 else 0)"
  by (auto simp: mx_def row_val_sparse unit_row_def nth_list_update gf_simps)

lemma wf_unit_row: "wf_row k (sparse (unit_row k pk))"
  using wf_row_sparse[of "unit_row k pk"] by (simp add: unit_row_def)

lemma src_index_surj:
  assumes "length ws = k" "distinct (map (src_index k) ws)" "0 < k"
  shows "src_index k ` set ws = {..<k}"
proof (rule card_subset_eq)
  show "src_index k ` set ws \<subseteq> {..<k}" using assms(3) by (auto simp: src_index_def)
  show "card (src_index k ` set ws) = card {..<k}"
    using assms(1,2) by (metis card_lessThan distinct_card length_map set_map)
qed simp

lemma unit_rows_coded:
  assumes g: "gf_scalar g" and ws: "length ws = k" "distinct (map (src_index k) ws)" "0 < k"
  shows "coded g k bs False X (map (sparse \<circ> unit_row k) ws) (map (\<lambda>_. None) ws)"
proof -
  note surj = src_index_surj[OF ws]
  have "trivial_kernel k (mx (map (sparse \<circ> unit_row k) ws))"
    unfolding trivial_kernel_def
  proof (intro allI impI)
    fix x c
    assume z: "\<forall>r<k. dot k (mx (map (sparse \<circ> unit_row k) ws) r) x = 0" and c: "c < k"
    then obtain m where m: "m < k" "src_index k (ws ! m) = c"
      using surj ws(1) by (metis imageE in_set_conv_nth lessThan_iff)
    have "dot k (mx (map (sparse \<circ> unit_row k) ws) m) x = x c"
      using c m ws(1) by (intro dot_unit) (simp_all add: mx_unit_rows)
    with z m(1) show "x c = 0" by simp
  qed
  then show ?thesis using g ws(1) by (simp add: coded_def pay_ok_def)
qed

lemma try_decode_sources:
  assumes g: "gf_scalar g" and ws: "length ws = k" "0 < k" "k \<le> 256" "distinct (map (src_index k) ws)"
  shows "\<exists>m. try_decode g nd (src_state k ws) p =
      Some (True, (src_state k ws)\<lparr>decoding_matrix := m, is_decoded := True\<rparr>, p)"
proof -
  have sel: "dec_k (src_state k ws) = k" "strategy (src_state k ws) = GaussianElimination" "\<not> is_decoded (src_state k ws)"
    "decoding_matrix (src_state k ws) = csr_of (map (sparse \<circ> unit_row k) ws) (map (\<lambda>_. None) ws) k"
    "systematic_packets (src_state k ws) = sps_of k ws" using ws(3) by (simp_all add: src_state_def Decoder_new_def)
  have rows: "rows_ok k 0 (map (sparse \<circ> unit_row k) ws) (map (\<lambda>_. None) ws)"
    using ws(1) wf_unit_row by (simp add: rows_ok_def list_all_iff)
  have "List.find (\<lambda>pk. src_index k pk = i) ws \<noteq> None" if "i < k" for i
  proof -
    have "i \<in> src_index k ` set ws" using src_index_surj[OF ws(1,4,2)] that by simp
    then show ?thesis by (auto simp: find_None_iff)
  qed
  then have full: "list_all (\<lambda>sp. sp \<noteq> None) (sps_of k ws)" by (simp add: sps_of_def list_all_iff)
  obtain m where "gaussian_elimination g nd (src_state k ws) p =
      Some (True, (src_state k ws)\<lparr>decoding_matrix := m, is_decoded := True\<rparr>, p)"
    using gaussian_systematic[OF sel(1,4) _ _ rows unit_rows_coded[OF g ws(1,4,2)], of nd p] full sel
    by (auto simp: sps_of_def)
  then show ?thesis using sel ws(1) by (intro exI[of _ m]) (simp add: try_decode_def)
qed

lemma add_sources_decode:
  assumes g: "gf_scalar g" and ws: "length ws = k" "0 < k" "k \<le> 256" "list_all is_systematic ws"
    "distinct (map (src_index k) ws)"
  shows "\<exists>d. add_packets g nd ws (Decoder_new k, p) = Some (d, p) \<and> is_decoded d \<and> systematic_packets d = sps_of k ws"
proof -
  obtain qs pk where q: "ws = qs @ [pk]" using ws(1,2) by (cases ws rule: rev_exhaust) auto
  have part: "add_packets g nd qs (Decoder_new k, p) = Some (src_state k qs, p)"
    using add_sources_partial[of qs k g nd p] q ws by simp
  have sel: "systematic_packets (src_state k ws) = sps_of k ws" by (simp add: src_state_def)
  with part add_source[of qs k pk g nd p] q ws try_decode_sources[OF g ws(1-3,5), of nd p] show ?thesis
    by (auto simp: add_packets_def ofold_append)
qed

subsection \<open>Two-packet windows step by step\<close>

text \<open>The elimination of a system of two rows, in the cases below.\<close>

lemma row_val_Cons: "row_val ((c, v) # es) d = (if d = c then v else row_val es d)"
  by (simp add: row_val_def)

lemma row_val_Nil [simp]: "row_val [] d = 0"
  by (simp add: row_val_def)

lemma sparse_pair: "sparse [a, b] = (if a \<noteq> 0 then [(0, a)] else []) @ (if b \<noteq> 0 then [(1, b)] else [])"
  by (simp add: sparse_def)

lemma gauss_step_two:
  assumes ok: "rows_ok 2 bs rs ps" and i: "i < 2" "rank \<noteq> 2" and piv: "row_val (rs ! i) i \<noteq> 0"
  shows "gauss_step g 2 i (csr_of rs ps 2, rank) =
      Some (csr_of (map (elim_row g 2 i (norm_rows g i i rs)) [0..<2])
                   (map (elim_pay g i (norm_rows g i i rs) (norm_pays g i i rs ps)) [0..<2]) 2, Suc rank)"
    "rows_ok 2 bs (map (elim_row g 2 i (norm_rows g i i rs)) [0..<2])
                   (map (elim_pay g i (norm_rows g i i rs) (norm_pays g i i rs ps)) [0..<2])"
proof -
  have "List.find (\<lambda>r. row_val (rs ! r) i \<noteq> 0) [i..<2] = Some i"
    using i piv by (simp add: upt_conv_Cons)
  with any_rows.gauss_step_run[of 2 bs rs ps i rank g] ok i
  show "gauss_step g 2 i (csr_of rs ps 2, rank) =
      Some (csr_of (map (elim_row g 2 i (norm_rows g i i rs)) [0..<2])
                   (map (elim_pay g i (norm_rows g i i rs) (norm_pays g i i rs ps)) [0..<2]) 2, Suc rank)"
    "rows_ok 2 bs (map (elim_row g 2 i (norm_rows g i i rs)) [0..<2])
                   (map (elim_pay g i (norm_rows g i i rs) (norm_pays g i i rs ps)) [0..<2])"
    by (simp_all add: Let_def)
qed

lemma swapl_same [simp]: "swapl i i xs = xs"
  by (simp add: swapl_def)

lemma scaled_one: "gf_scalar g \<Longrightarrow> scaled g 1 row = row"
  by (simp add: scaled_def gf_mul_one_right map_idI case_prod_beta)

lemma upt_2: "[0..<2] = [0, 1 :: nat]"
  by (simp add: numeral_2_eq_2)

text \<open>A source row and a repair row: the source row has no payload, so the elimination of its column
  leaves the payload of the repair row as it was received.\<close>

lemma gauss_mixed:
  assumes g: "gf_scalar g" and c: "c0 \<noteq> 0" "c1 \<noteq> 0" and d: "length d = bs"
  shows "\<exists>rs inv. gf_inv g c1 = Some inv \<and>
      ofold (gauss_step g 2) [0..<2] (csr_of [[(0, 1)], [(0, c0), (1, c1)]] [None, Some d] 2, 0) =
      Some (csr_of rs [None, Some (map (\<lambda>b. gf_mul g b inv) d)] 2, 2)"
proof -
  let ?r0 = "[[(0, 1)], [(0, c0), (1, c1)]] :: srow list" and ?p0 = "[None, Some d]"
  have ok0: "rows_ok 2 bs ?r0 ?p0" using d by (simp add: rows_ok_def wf_row_def)
  have n0: "norm_rows g 0 0 ?r0 = ?r0" "norm_pays g 0 0 ?r0 ?p0 = ?p0"
    using gf_inv_1[OF gf_scalar_ready[OF g]] scaled_one[OF g]
    by (simp_all add: norm_rows_def norm_pays_def row_val_Cons scaled_pay_def)
  have mul: "gf_mul g 1 c0 = c0" using g by (simp add: gf_mul_scalar gf_mul_shift_one_left)
  have "added_row g 2 c0 [(0, 1)] [(0, c0), (1, c1)] = [(1, c1)]"
    using c mul by (simp add: added_row_def upt_2 row_val_Cons sparse_pair)
  then have e0: "map (elim_row g 2 0 ?r0) [0..<2] = [[(0, 1)], [(1, c1)]]" "map (elim_pay g 0 ?r0 ?p0) [0..<2] = ?p0"
    using c by (simp_all add: upt_2 elim_row_def elim_pay_def row_val_Cons added_payload_def)
  have s0: "gauss_step g 2 0 (csr_of ?r0 ?p0 2, 0) = Some (csr_of [[(0, 1)], [(1, c1)]] ?p0 2, 1)"
    and ok1: "rows_ok 2 bs [[(0, 1)], [(1, c1)]] ?p0"
    using gauss_step_two[OF ok0, of 0 0 g] n0 e0 by (simp_all add: row_val_Cons)
  obtain inv where inv: "gf_inv g c1 = Some inv" using c(2) by (simp add: gf_inv_def)
  let ?r1 = "[[(0, 1)], [(1, c1)]] :: srow list"
  have n1: "norm_rows g 1 1 ?r1 = [[(0, 1)], [(1, gf_mul g c1 inv)]]"
    "norm_pays g 1 1 ?r1 ?p0 = [None, Some (map (\<lambda>b. gf_mul g b inv) d)]"
    using inv by (simp_all add: norm_rows_def norm_pays_def row_val_Cons scaled_def scaled_pay_def)
  have e1: "map (elim_pay g 1 [[(0, 1)], [(1, gf_mul g c1 inv)]] [None, Some (map (\<lambda>b. gf_mul g b inv) d)]) [0..<2] =
      [None, Some (map (\<lambda>b. gf_mul g b inv) d)]"
    by (simp add: upt_2 elim_pay_def row_val_Cons)
  have "\<exists>rs. gauss_step g 2 1 (csr_of ?r1 ?p0 2, 1) =
      Some (csr_of rs [None, Some (map (\<lambda>b. gf_mul g b inv) d)] 2, 2)"
    using gauss_step_two(1)[OF ok1, of 1 1 g] n1 e1 c(2) by (auto simp: row_val_Cons)
  then show ?thesis using inv s0 by (auto simp: upt_2)
qed

text \<open>The same repair row twice: the second row vanishes and the rank stays 1.\<close>

lemma gauss_duplicate:
  assumes g: "gf_scalar g" and c: "c0 \<noteq> 0" "c1 \<noteq> 0" and d: "length d = bs"
  shows "\<exists>m. ofold (gauss_step g 2) [0..<2]
      (csr_of [[(0, c0), (1, c1)], [(0, c0), (1, c1)]] [Some d, Some d] 2, 0) = Some (m, 1) \<and> num_rows m = 2"
proof -
  let ?r0 = "[[(0, c0), (1, c1)], [(0, c0), (1, c1)]] :: srow list" and ?p0 = "[Some d, Some d]"
  have ok0: "rows_ok 2 bs ?r0 ?p0" using d by (simp add: rows_ok_def wf_row_def)
  have inv: "gf_inv g c0 = Some (raw (inverse (GF8 c0)))" using gf_inv_field[OF gf_scalar_ready[OF g] c(1)] .
  define f where "f = raw (inverse (GF8 c0))"
  have f: "GF8 f * GF8 c0 = 1" using c(1) by (simp add: f_def raw_GF8_eq)
  define q where "q = gf_mul g c1 f"
  have n0: "norm_rows g 0 0 ?r0 = [[(0, gf_mul g c0 f), (1, q)], [(0, c0), (1, c1)]]"
    using inv by (simp add: norm_rows_def row_val_Cons scaled_def f_def q_def)
  have "GF8 (c0 XOR gf_mul g (gf_mul g c0 f) c0) = GF8 c0 + (GF8 f * GF8 c0) * GF8 c0"
    "GF8 (c1 XOR gf_mul g q c0) = GF8 c1 + GF8 c1 * (GF8 f * GF8 c0)"
    using g by (simp_all add: gf_simps q_def mult_ac)
  then have "c0 XOR gf_mul g (gf_mul g c0 f) c0 = 0" "c1 XOR gf_mul g q c0 = 0"
    unfolding f by (simp_all add: gf8_add_self)
  then have "added_row g 2 c0 [(0, gf_mul g c0 f), (1, q)] [(0, c0), (1, c1)] = []"
    by (simp add: added_row_def upt_2 row_val_Cons sparse_pair)
  then have e0: "map (elim_row g 2 0 [[(0, gf_mul g c0 f), (1, q)], [(0, c0), (1, c1)]]) [0..<2] = [[(0, gf_mul g c0 f), (1, q)], []]"
    using c by (simp add: upt_2 elim_row_def row_val_Cons)
  obtain ps where s0: "gauss_step g 2 0 (csr_of ?r0 ?p0 2, 0) = Some (csr_of [[(0, gf_mul g c0 f), (1, q)], []] ps 2, 1)"
    and ok1: "rows_ok 2 bs [[(0, gf_mul g c0 f), (1, q)], []] ps"
    using gauss_step_two[OF ok0, of 0 0 g] n0 e0 c(1) by (auto simp: row_val_Cons)
  have "List.find (\<lambda>r. row_val ([[(0, gf_mul g c0 f), (1, q)], []] ! r) 1 \<noteq> 0) [1..<2] = None"
    by (simp add: upt_conv_Cons)
  then have "gauss_step g 2 1 (csr_of [[(0, gf_mul g c0 f), (1, q)], []] ps 2, 1) =
      Some (csr_of [[(0, gf_mul g c0 f), (1, q)], []] ps 2, 1)"
    using any_rows.gauss_step_run[of 2 bs "[[(0, gf_mul g c0 f), (1, q)], []]" ps 1 1 g] ok1 by simp
  then show ?thesis using s0 by (simp add: upt_2)
qed

lemma mixed_decode_run:
  assumes g: "gf_scalar g" and p: "pool_ok p" "block_size p = bs" and w: "is_systematic w0" "pid w0 = 0"
    and pk: "repair_ok 2 bs pk" "coeff_row pk = [c0, c1]" "c0 \<noteq> 0" "c1 \<noteq> 0" "data pk = Some d"
  shows "\<exists>dd p' inv. gf_inv g c1 = Some inv \<and> add_packets g nd [w0, pk] (Decoder_new 2, p) = Some (dd, p') \<and>
      is_decoded dd \<and> systematic_packets dd ! 1 = Some (recovered 1 (map (\<lambda>b. gf_mul g b inv) d) bs)"
proof -
  have d: "length d = bs" using pk(1,5) by (simp add: repair_ok_def)
  obtain c where c: "coefficients pk = Some c" "2 \<le> length c" "coeff_len pk = 2" "\<not> is_systematic pk" "take 2 c = [c0, c1]"
    using pk(1,2) by (auto simp: repair_ok_def coeff_row_def split: option.splits)
  obtain rs inv where inv: "gf_inv g c1 = Some inv" and run: "ofold (gauss_step g 2) [0..<2]
      (csr_of [[(0, 1)], [(0, c0), (1, c1)]] [None, Some d] 2, 0) =
      Some (csr_of rs [None, Some (map (\<lambda>b. gf_mul g b inv) d)] 2, 2)"
    using gauss_mixed[OF g pk(3,4) d] by blast
  let ?B = "map (\<lambda>b. gf_mul g b inv) d"
  obtain p' where p': "alloc_filled (alloc nd) bs ?B p = Some (?B, p')"
    using pool.alloc_filled_ok[OF p(1), of ?B bs nd] p(2) d by auto
  have i0: "src_index 2 w0 = 0" using w(2) by (simp add: src_index_def)
  have "sparse [1, 0] = [(0, 1)]" "unit_row 2 w0 = [1, 0]" "sps_of 2 [w0] = [Some w0, None]"
    using i0 by (simp_all add: sparse_pair unit_row_def sps_of_def upt_2 numeral_2_eq_2)
  then have sel: "src_state 2 [w0] = \<lparr>dec_k = 2, decoding_matrix = csr_of [[(0, 1)]] [None] 2,
      systematic_packets = [Some w0, None], is_decoded = False, strategy = GaussianElimination\<rparr>"
    by (simp add: src_state_def Decoder_new_def)
  let ?d1 = "\<lparr>dec_k = 2, decoding_matrix = csr_of [[(0, 1)], [(0, c0), (1, c1)]] [None, Some d] 2,
      systematic_packets = [Some w0, None], is_decoded = False, strategy = GaussianElimination\<rparr>"
  let ?d2 = "?d1\<lparr>decoding_matrix := csr_of rs [None, Some ?B] 2, is_decoded := True,
      systematic_packets := [Some w0, Some (recovered 1 ?B bs)]\<rparr>"
  have "gaussian_elimination g nd ?d1 p = Some (True, ?d2, p')"
    using run p' d by (simp add: gaussian_elimination_def reconstruct_def get_payload_def idx_def set_idx_def upt_2)
  then have "Decoder_add_packet g nd pk (src_state 2 [w0]) p = Some (Inr True, ?d2, p')"
    using c pk by (simp add: sel Decoder_add_packet_def exec_simps append_row_csr_of sparse_pair try_decode_def)
  moreover have "add_packets g nd [w0] (Decoder_new 2, p) = Some (src_state 2 [w0], p)"
    using add_sources_partial[of "[w0]" 2 g nd p] w(1) by simp
  ultimately have "add_packets g nd [w0, pk] (Decoder_new 2, p) = Some (?d2, p')"
    using add_packets_snoc[of g nd "[w0]"] by simp
  then show ?thesis using inv by simp
qed

subsection \<open>Properties\<close>

definition padded_source :: "Packet list \<Rightarrow> nat \<Rightarrow> nat \<Rightarrow> bytes" where
  "padded_source ws bs i =
     map (\<lambda>j. if j < len (hd ws) then (case data (ws ! i) of None \<Rightarrow> 0 | Some d \<Rightarrow> d ! j) else 0) [0..<bs]"

text \<open>C1: maximum-distance recovery from repair packets. Take a window of \<open>k\<close> packets in blocks of the pool,
  none shorter than the first, and any \<open>k\<close> different repair packets of it with \<open>k + r < 256\<close>. Without a
  carry-less kernel, a fresh decoder fed with them in any order finishes with the last one, and the
  packets it hands out are those of the window: packet \<open>i\<close> has id \<open>i\<close> and the bytes of source packet
  \<open>i\<close> up to the length of the first packet, then zeros; its length field is the block size, because the
  original length is not transmitted.\<close>

theorem repair_only_roundtrip:
  assumes "gf_scalar g" "window_ok bs ws" "length ws = k" "k \<le> bs"
    "distinct rs" "length rs = k" "list_all (\<lambda>r. k + r < 256) rs"
    "list_all2 (is_repair_of g nd bs \<lparr>enc_k = k, enc_n = n, source_window = ws\<rparr>) rs pks"
    "pool_ok p" "block_size p = bs"
  shows "\<exists>d p'. add_packets g nd pks (Decoder_new k, p) = Some (d, p') \<and> is_decoded d \<and> pool_ok p' \<and>
           fst (Decoder_get_decoded_packets d) = map (\<lambda>i. recovered i (padded_source ws bs i) bs) [0..<k]"
proof -
  have k: "0 < k" using assms(2,3) by (auto simp: window_ok_def)
  have len: "length pks = k" using assms(6,8) by (simp add: list_all2_conv_all_nth)
  have k256: "k \<le> 256"
    using assms(6,7) k by (auto simp: list_all_length dest: spec[of _ 0])
  note rep = repairs_coded[OF assms(1-8)]
  from add_repairs_decode[OF assms(9,10) len k k256 rep, of nd] obtain d B p' where
    dec: "add_packets g nd pks (Decoder_new k, p) = Some (d, p')" "is_decoded d" "pool_ok p'"
    "systematic_packets d = map (\<lambda>i. Some (recovered i (B i) bs)) [0..<k]"
    "\<forall>i < k. length (B i) = bs \<and> (\<forall>j < min bs bs. GF8 (B i ! j) = src_data ws i j)" by blast
  have "B i = padded_source ws bs i" if "i < k" for i
  proof (rule nth_equalityI)
    fix j
    assume "j < length (B i)"
    then have j: "j < bs" using dec(5) that by simp
    then have "GF8 (B i ! j) = src_data ws i j" using dec(5) that by simp
    also have "\<dots> = GF8 (padded_source ws bs i ! j)"
      using j by (simp add: padded_source_def src_data_def src_byte_def GF8_0 split: option.split)
    finally show "B i ! j = padded_source ws bs i ! j" by simp
  qed (use dec(5) that in \<open>simp add: padded_source_def\<close>)
  then have "fst (Decoder_get_decoded_packets d) = map (\<lambda>i. recovered i (padded_source ws bs i) bs) [0..<k]"
    using dec(4) by (simp add: Decoder_get_decoded_packets_def map_filter_def comp_def)
  with dec show ?thesis by blast
qed

definition window2 :: "Packet list" where
  "window2 = [sample_source 0 [1, 2, 0] 2, sample_source 1 [3, 4, 0] 2]"

lemma window2_ok: "window_ok 3 window2" "length window2 = 2"
  by (simp_all add: window2_def window_ok_def source_ok_def sample_source_def)

lemma window2_repair: "r < 200 \<Longrightarrow> \<exists>pk. is_repair_of std_env 0 3 \<lparr>enc_k = 2, enc_n = 4, source_window = window2\<rparr> r pk"
  by (rule repair_packet_exists[OF gf_scalar_std_env window2_ok]) simp_all

theorem repair_only_roundtrip_witness:
  "\<exists>pks d p'. list_all2 (is_repair_of std_env 0 3 \<lparr>enc_k = 2, enc_n = 4, source_window = window2\<rparr>) [0, 5] pks \<and>
     add_packets std_env 0 pks (Decoder_new 2, pool_new 1 4 3) = Some (d, p') \<and> is_decoded d \<and>
     map data (fst (Decoder_get_decoded_packets d)) = [Some [1, 2, 0], Some [3, 4, 0]]"
proof -
  obtain a b where "is_repair_of std_env 0 3 \<lparr>enc_k = 2, enc_n = 4, source_window = window2\<rparr> 0 a"
    "is_repair_of std_env 0 3 \<lparr>enc_k = 2, enc_n = 4, source_window = window2\<rparr> 5 b"
    using window2_repair[of 0] window2_repair[of 5] by auto
  then have l2: "list_all2 (is_repair_of std_env 0 3 \<lparr>enc_k = 2, enc_n = 4, source_window = window2\<rparr>) [0, 5] [a, b]"
    by simp
  have "map data (map (\<lambda>i. recovered i (padded_source window2 3 i) 3) [0..<2]) = [Some [1, 2, 0], Some [3, 4, 0]]"
    by (simp add: upt_2 recovered_def padded_source_def window2_def sample_source_def numeral_3_eq_3 upt_conv_Cons)
  with repair_only_roundtrip[OF gf_scalar_std_env window2_ok, of "[0, 5]" 0 4 "[a, b]" "pool_new 1 4 3"] l2
  show ?thesis by (fastforce simp: pool_ok_new)
qed

text \<open>C17: a fresh decoder that receives the \<open>k\<close> source packets of a window (systematic packets whose ids
  are different modulo \<open>k\<close>) is done with the last of them, without touching the pool, and hands out
  exactly those packets, ordered by their id modulo \<open>k\<close>.\<close>

theorem source_only_roundtrip:
  assumes "gf_scalar g" "length ws = k" "0 < k" "k \<le> 256" "list_all is_systematic ws" "distinct (map (src_index k) ws)"
  shows "\<exists>d. add_packets g nd ws (Decoder_new k, p) = Some (d, p) \<and> is_decoded d \<and>
           (\<exists>outs. map Some outs = systematic_packets d \<and> fst (Decoder_get_decoded_packets d) = outs \<and>
                    set outs = set ws \<and> map (src_index k) outs = [0..<k])"
proof -
  from add_sources_decode[OF assms, of nd p] obtain d where
    d: "add_packets g nd ws (Decoder_new k, p) = Some (d, p)" "is_decoded d" "systematic_packets d = sps_of k ws" by blast
  define F where "F i = the (List.find (\<lambda>pk. src_index k pk = i) ws)" for i
  have F: "List.find (\<lambda>pk. src_index k pk = i) ws = Some (F i)" "F i \<in> set ws" "src_index k (F i) = i" if "i < k" for i
  proof -
    have "i \<in> src_index k ` set ws" using src_index_surj[OF assms(2,6,3)] that by simp
    then obtain pk where pk: "List.find (\<lambda>pk. src_index k pk = i) ws = Some pk"
      by (cases "List.find (\<lambda>pk. src_index k pk = i) ws") (auto simp: find_None_iff)
    then have "F i = pk" by (simp add: F_def)
    moreover have "pk \<in> set ws \<and> src_index k pk = i" using pk by (auto simp: find_Some_iff)
    ultimately show "List.find (\<lambda>pk. src_index k pk = i) ws = Some (F i)" "F i \<in> set ws" "src_index k (F i) = i"
      using pk by simp_all
  qed
  have idx: "map (src_index k) (map F [0..<k]) = [0..<k]" using F(3) by (simp only: map_map) (rule map_idI, simp)
  have sps: "map Some (map F [0..<k]) = sps_of k ws" using F(1) by (simp add: sps_of_def)
  have "set (map F [0..<k]) = set ws"
  proof
    show "set (map F [0..<k]) \<subseteq> set ws" using F(2) by auto
    show "set ws \<subseteq> set (map F [0..<k])"
    proof
      fix pk
      assume "pk \<in> set ws"
      moreover have i: "src_index k pk < k" using assms(3) by (simp add: src_index_def)
      ultimately have "F (src_index k pk) = pk"
        using F(2,3)[OF i] assms(6) by (auto simp: distinct_map inj_on_def)
      with i show "pk \<in> set (map F [0..<k])" by (metis atLeastLessThan_iff image_eqI set_map set_upt zero_le)
    qed
  qed
  then show ?thesis
    using d sps idx
    by (intro exI[of _ d] conjI exI[of _ "map F [0..<k]"])
       (simp_all add: Decoder_get_decoded_packets_def map_filter_def comp_def flip: sps)
qed

theorem source_only_roundtrip_witness:
  "\<exists>d. add_packets std_env 0 window2 (Decoder_new 2, pool_new 1 4 3) = Some (d, pool_new 1 4 3) \<and> is_decoded d"
  using source_only_roundtrip[OF gf_scalar_std_env, of window2 2 0 "pool_new 1 4 3"]
  by (auto simp: window2_def sample_source_def src_index_def)

text \<open>C15: mixing source and repair packets gives wrong data. For a window of two packets, feed the first source
  packet and repair packet 0: the decoder reports success, but every byte of the packet it reconstructs
  is off by a fixed non-zero multiple of the corresponding byte of the packet that was received, so it is
  wrong wherever that byte is not zero. (The contribution of the source packet is never subtracted,
  because its row is stored without payload.)\<close>

theorem mixed_decoding_wrong:
  assumes "gf_scalar g" "pool_ok p" "block_size p = bs" "window_ok bs [w0, w1]" "2 \<le> bs"
    "is_systematic w0" "pid w0 = 0"
    "is_repair_of g nd bs \<lparr>enc_k = 2, enc_n = n, source_window = [w0, w1]\<rparr> 0 pk"
  shows "\<exists>d p' b f. add_packets g nd [w0, pk] (Decoder_new 2, p) = Some (d, p') \<and> is_decoded d \<and>
           systematic_packets d ! 1 = Some (recovered 1 b bs) \<and> f \<noteq> 0 \<and>
           (\<forall>j < len w0. GF8 (b ! j) = src_byte [w0, w1] 1 j + f * src_byte [w0, w1] 0 j)"
proof -
  note spec = repair_packet_rows[OF assms(1,4) _ _ assms(5), of 0 nd n pk, simplified, OF assms(8)]
  define a b where "a = 1 / (gpt 2 - gpt 0)" and "b = 1 / (gpt 2 - gpt 1)"
  have ab: "a \<noteq> 0" "b \<noteq> 0" using gpt_inj[of 2 0] gpt_inj[of 2 1] by (simp_all add: a_def b_def)
  have c: "raw a \<noteq> 0" "raw b \<noteq> 0" "GF8 (raw b) = b"
    using ab by (simp_all add: raw_GF8_eq flip: GF8_eq_0_iff)
  have row: "coeff_row pk = [raw a, raw b]" using spec(2) by (simp add: a_def b_def upt_2)
  obtain d where d: "data pk = Some d" "length d = bs" "\<And>j. j < bs \<Longrightarrow> GF8 (d ! j) =
      a * src_data [w0, w1] 0 j + b * src_data [w0, w1] 1 j"
    using spec(1,5) by (auto simp: repair_ok_def a_def b_def numeral_2_eq_2)
  have pl: "len w0 \<le> bs" using spec(4) by simp
  obtain dd p' inv where run: "gf_inv g (raw b) = Some inv" "add_packets g nd [w0, pk] (Decoder_new 2, p) = Some (dd, p')"
      "is_decoded dd" "systematic_packets dd ! 1 = Some (recovered 1 (map (\<lambda>b. gf_mul g b inv) d) bs)"
    using mixed_decode_run[OF assms(1-3,6,7) spec(1) row c(1,2) d(1), of nd] by blast
  have inv: "GF8 inv = inverse b"
    using run(1) gf_inv_field[OF gf_scalar_ready[OF assms(1)] c(2)] by (auto simp: c(3) raw_GF8_eq)
  have "GF8 (map (\<lambda>b. gf_mul g b inv) d ! j) = src_byte [w0, w1] 1 j + a * inverse b * src_byte [w0, w1] 0 j"
    if "j < len w0" for j
    using that pl d(2) d(3)[of j] ab assms(1)
    by (simp add: gf_simps inv src_data_def distrib_right field_simps)
  with run ab show ?thesis
    by (intro exI[of _ dd] exI[of _ p'] exI[of _ "map (\<lambda>b. gf_mul g b inv) d"] exI[of _ "a * inverse b"]) simp
qed

theorem mixed_decoding_wrong_witness:
  "\<exists>pk d p' b f. add_packets std_env 0 [window2 ! 0, pk] (Decoder_new 2, pool_new 1 4 3) = Some (d, p') \<and> is_decoded d \<and>
     systematic_packets d ! 1 = Some (recovered 1 b 3) \<and> f \<noteq> 0 \<and> GF8 (b ! 0) = GF8 3 + f * GF8 1"
proof -
  obtain pk where pk: "is_repair_of std_env 0 3 \<lparr>enc_k = 2, enc_n = 4, source_window = window2\<rparr> 0 pk"
    using window2_repair[of 0] by auto
  have w2: "window2 = [window2 ! 0, window2 ! 1]" "is_systematic (window2 ! 0)" "pid (window2 ! 0) = 0"
    "len (window2 ! 0) = 2" "src_byte window2 1 0 = GF8 3" "src_byte window2 0 0 = GF8 1"
    by (simp_all add: window2_def sample_source_def src_byte_def)
  from mixed_decoding_wrong[OF gf_scalar_std_env, of "pool_new 1 4 3" 3 "window2 ! 0" "window2 ! 1" 0 4 pk]
  show ?thesis
    using pk window2_ok(1) w2 by (fastforce simp: pool_ok_new)
qed

text \<open>A repair packet that arrives twice before the window is complete ends the decoder for good. For a
  window of two packets, after the same repair packet was added twice the decoder is not done, and from
  then on every packet is thrown away without changing the decoder.\<close>

lemma duplicate_repair_stuck:
  assumes "gf_scalar g" "window_ok bs ws" "length ws = 2" "2 \<le> bs" "2 + r < 256"
    "is_repair_of g nd bs \<lparr>enc_k = 2, enc_n = n, source_window = ws\<rparr> r pk"
  shows "\<exists>d. add_packets g nd [pk, pk] (Decoder_new 2, p) = Some (d, p) \<and> \<not> is_decoded d \<and>
           (\<forall>q p'. Decoder_add_packet g nd q d p' = Some (Inr False, d, drop_packet nd q p'))"
proof -
  note spec = repair_packet_rows[OF assms(1-3,5,4,6)]
  define a b where "a = 1 / (gpt (2 + r) - gpt 0)" and "b = 1 / (gpt (2 + r) - gpt 1)"
  have "a \<noteq> 0" "b \<noteq> 0" using gpt_inj[of "2 + r" 0] gpt_inj[of "2 + r" 1] assms(5) by (simp_all add: a_def b_def)
  then have c: "raw a \<noteq> 0" "raw b \<noteq> 0" by (simp_all add: raw_GF8_eq flip: GF8_eq_0_iff)
  have row: "coeff_row pk = [raw a, raw b]" using spec(2) by (simp add: a_def b_def upt_2)
  obtain d where d: "data pk = Some d" "length d = bs" using spec(1) by (auto simp: repair_ok_def split: option.splits)
  obtain m where m: "ofold (gauss_step g 2) [0..<2] (csr_of [[(0, raw a), (1, raw b)], [(0, raw a), (1, raw b)]]
      [Some d, Some d] 2, 0) = Some (m, 1)" "num_rows m = 2"
    using gauss_duplicate[OF assms(1) c d(2)] by blast
  have "add_packets g nd [pk] (Decoder_new 2, p) = Some (dec_state 2 [pk], p)"
    using add_repairs_partial[of "[pk]" 2 bs g nd p] spec(1) by (simp add: dec_state_Nil)
  moreover have "Decoder_add_packet g nd pk (dec_state 2 [pk]) p =
      Some (Inr False, (dec_state 2 [pk, pk])\<lparr>decoding_matrix := m\<rparr>, p)"
    using add_repair[of "[pk]" 2 bs pk g nd p] spec(1) c d row m
    by (simp add: try_decode_def gaussian_elimination_def sparse_pair)
  ultimately have "add_packets g nd [pk, pk] (Decoder_new 2, p) = Some ((dec_state 2 [pk, pk])\<lparr>decoding_matrix := m\<rparr>, p)"
    using add_packets_snoc[of g nd "[pk]"] by simp
  then show ?thesis
    using m(2) by (intro exI[of _ "(dec_state 2 [pk, pk])\<lparr>decoding_matrix := m\<rparr>"]) (simp add: Decoder_add_packet_def)
qed

end
