(* ===== verification/Connection_Properties.thy ===== *)
theory Connection_Properties
  imports Connection Fec_Roundtrip
begin

text \<open>
  Properties of a whole connection: its invariant over every sequence of operations, when its loops end,
  what \<open>send\<close> puts on the wire, and what \<open>recv\<close> hands to quiche.
\<close>

subsection \<open>Reachable connections\<close>

inductive conn_reach :: "platform \<Rightarrow> ('c, 'h, 's) api \<Rightarrow> ('c, 'h, 's) QuicFuscateConnection \<Rightarrow> bool" for pf api where
  reach_client: "config_ok cfg \<Longrightarrow>
     new_client pf api now name local remote config sc cfg oc utls hooks = Some (Inr (c, g), hooks') \<Longrightarrow> conn_reach pf api c"
| reach_server: "config_ok cfg \<Longrightarrow>
     new_server pf api now scid odcid local remote config sc cfg oc = Some (Inr (c, g)) \<Longrightarrow> conn_reach pf api c"
| reach_recv: "conn_reach pf api c \<Longrightarrow> Connection_recv pf api dat c = Some (r, c') \<Longrightarrow> conn_reach pf api c'"
| reach_send: "conn_reach pf api c \<Longrightarrow> Connection_send pf api buf c = Some (r, buf', c') \<Longrightarrow> conn_reach pf api c'"
| reach_migrate: "conn_reach pf api c \<Longrightarrow> conn_reach pf api (snd (migrate_connection api a c))"
| reach_request: "conn_reach pf api c \<Longrightarrow> conn_reach pf api (snd (send_http3_request api path c))"
| reach_poll: "conn_reach pf api c \<Longrightarrow> poll_http3 api c = Some (r, c') \<Longrightarrow> conn_reach pf api c'"
| reach_quiche: "conn_reach pf api c \<Longrightarrow> conn_reach pf api (c\<lparr>conn := cn\<rparr>)"
| reach_update: "conn_reach pf api c \<Longrightarrow> update_state pf api clk now c = Some c' \<Longrightarrow> conn_reach pf api c'"

text \<open>The field \<open>conn\<close> is public: the event loops close the QUIC connection and run its timers themselves.\<close>

lemma conn_reach_inv: "conn_reach pf api c \<Longrightarrow> conn_inv pf c"
proof (induction rule: conn_reach.induct)
  case (reach_quiche c cn)
  then show ?case by simp
qed (blast intro: new_client_inv new_server_inv recv_inv send_inv migrate_inv send_http3_request_inv poll_http3_inv
        update_state_inv)+

subsection \<open>Loops\<close>

text \<open>quiche queues finitely many path events, HTTP/3 events and body bytes: a measure that every successful call
  lowers.\<close>

lemma path_events_returns:
  assumes "\<And>cn e cn'. q_path_event_next api cn = (Some e, cn') \<Longrightarrow> (\<mu> cn' :: nat) < \<mu> cn"
  shows "\<exists>c'. path_events api c = Some c'"
proof (induction "\<mu> (conn c)" arbitrary: c rule: less_induct)
  case less
  obtain e cn where e: "q_path_event_next api (conn c) = (e, cn)" by fastforce
  show ?case
  proof (cases e)
    case None
    with e show ?thesis by (simp add: path_events.simps[of api c])
  next
    case (Some ev)
    have "conn (path_event api ev (c\<lparr>conn := cn\<rparr>)) = cn" by (cases ev) (simp_all add: switch_path_def Let_def)
    then have "\<exists>c'. path_events api (path_event api ev (c\<lparr>conn := cn\<rparr>)) = Some c'"
      using assms[of "conn c" ev cn] e Some by (intro less) simp
    with e Some show ?thesis by (simp add: path_events.simps[of api c])
  qed
qed

lemma read_body_returns:
  assumes "\<And>s d s'. h3_recv_body api sid 4096 s = (Inr d, s') \<Longrightarrow> (\<mu> s' :: nat) < \<mu> s"
    "\<And>s e s'. h3_recv_body api sid 4096 s = (Inl e, s') \<Longrightarrow> \<mu> s' \<le> \<mu> s"
  shows "\<exists>s'. read_body api sid s = Some s' \<and> \<mu> s' \<le> \<mu> s"
proof (induction "\<mu> s" arbitrary: s rule: less_induct)
  case less
  obtain r s1 where r: "h3_recv_body api sid 4096 s = (r, s1)" by (rule prod.exhaust)
  show ?case
  proof (cases r)
    case (Inl e)
    with r assms(2) show ?thesis by (simp add: read_body.simps[of api sid s])
  next
    case (Inr d)
    then have l: "\<mu> s1 < \<mu> s" using r assms(1) by simp
    from less[OF this] obtain s' where "read_body api sid s1 = Some s'" "\<mu> s' \<le> \<mu> s1" by blast
    with r Inr l show ?thesis by (simp add: read_body.simps[of api sid s])
  qed
qed

lemma poll_events_returns:
  assumes poll: "\<And>s x s'. h3_poll api s = (Inr x, s') \<Longrightarrow> (\<mu> s' :: nat) < \<mu> s"
    and body: "\<And>sid s d s'. h3_recv_body api sid 4096 s = (Inr d, s') \<Longrightarrow> \<mu> s' < \<mu> s"
      "\<And>sid s e s'. h3_recv_body api sid 4096 s = (Inl e, s') \<Longrightarrow> \<mu> s' \<le> \<mu> s"
  shows "\<exists>r s'. poll_events api s = Some (r, s')"
proof (induction "\<mu> s" arbitrary: s rule: less_induct)
  case less
  obtain r s1 where r: "h3_poll api s = (r, s1)" by (rule prod.exhaust)
  show ?case
  proof (cases r)
    case (Inl e)
    with r show ?thesis by (simp add: poll_events.simps[of api s])
  next
    case (Inr x)
    obtain sid ev where x: "x = (sid, ev)" by fastforce
    have l: "\<mu> s1 < \<mu> s" using poll r Inr by simp
    obtain s2 where s2: "read_body api sid s1 = Some s2" "\<mu> s2 \<le> \<mu> s1"
      using read_body_returns[of api sid \<mu> s1] body by blast
    from less[OF l] less[of s2] s2 l r Inr x show ?thesis
      by (cases ev) (auto simp: poll_events.simps[of api s])
  qed
qed

subsection \<open>Receiving\<close>

text \<open>The block a received datagram is copied into.\<close>

definition received_block :: "nat \<Rightarrow> bytes \<Rightarrow> block" where
  "received_block bs dat = take bs dat @ replicate (bs - length dat) 0"

lemma length_received_block [simp]: "length (received_block bs dat) = bs"
  by (simp add: received_block_def)

lemma take_received_block: "take (min (length dat) bs) (received_block bs dat) = take bs dat"
  by (auto simp: received_block_def min_def)

text \<open>How many blocks are handed out: one per allocation, and one more for a frame with coefficients.\<close>

lemma alloc_in_use: "pool_ok p \<Longrightarrow> alloc nd p = Some (b, p') \<Longrightarrow> in_use p' = in_use p + 1"
  using alloc_spec[of _ p nd] by (auto simp: pool_ok_iff)

lemma alloc_filled_in_use:
  "pool_ok p \<Longrightarrow> alloc_filled (alloc nd) n src p = Some (b, p') \<Longrightarrow> in_use p' = in_use p + 1"
  by (auto simp: alloc_filled_def bind_eq_Some_conv alloc_in_use)

lemma from_block_in_use:
  assumes "pool_ok p" "from_block nd i b n p = Some (Inr pk, p')"
  shows "in_use p' = in_use p + (if coefficients pk = None then 0 else 1)"
proof -
  have "n \<noteq> 0" "n \<le> length b" using assms(2) by (auto simp: from_block_def split: if_splits)
  with assms show ?thesis
    by (auto simp: from_block_def Let_def idx_def bind_eq_Some_conv alloc_filled_in_use split: if_splits)
qed

lemma recv_udp:
  assumes "pool_ok (memory_pool (optimization_manager c))" "xdp_socket c = None"
  shows "\<exists>p. Connection_recv pf api dat c =
           accept_frame pf api (received_block (block_size (memory_pool (optimization_manager c))) dat)
             (min (length dat) (block_size (memory_pool (optimization_manager c)))) (set_pool p c) \<and>
         pool_ok p \<and> block_size p = block_size (memory_pool (optimization_manager c)) \<and>
         in_use p = in_use (memory_pool (optimization_manager c)) + 1"
proof -
  let ?p = "memory_pool (optimization_manager c)"
  obtain p where p: "alloc (node pf) ?p = Some (replicate (block_size ?p) 0, p)" "pool_ok p" "block_size p = block_size ?p"
    using pool.al_ok[OF assms(1)] by blast
  have "fill_block api dat (replicate (block_size ?p) 0) None =
      Some (Inr (min (length dat) (block_size ?p)), received_block (block_size ?p) dat, None)"
    by (auto simp: fill_block_def Let_def slice_def copy_at_def received_block_def min_def)
  then have "Connection_recv pf api dat c = accept_frame pf api (received_block (block_size ?p) dat)
      (min (length dat) (block_size ?p)) ((set_pool p c)\<lparr>xdp_socket := None\<rparr>)"
    using p assms(2) by (simp add: Connection_recv_def alloc_block_def set_manager_pool)
  moreover have "(set_pool p c)\<lparr>xdp_socket := None\<rparr> = set_pool p c"
    using assms(2) by (cases c) (simp add: set_pool_def set_manager_def)
  ultimately have "Connection_recv pf api dat c = accept_frame pf api (received_block (block_size ?p) dat)
      (min (length dat) (block_size ?p)) (set_pool p c)" by argo
  with p alloc_in_use[OF assms(1) p(1)] show ?thesis by blast
qed

text \<open>What a frame becomes: an error, or a packet that carries the counter of the receiving side.\<close>

lemma from_block_total:
  assumes "pool_ok p" "length b = block_size p" "n \<le> length b"
  shows "\<exists>r p'. from_block nd i b n p = Some (r, p') \<and> pool_ok p' \<and> block_size p' = block_size p \<and>
           (\<forall>pk. r = Inr pk \<longrightarrow> pid pk = i \<and> packet_ok (block_size p) pk)"
proof (cases "n = 0")
  case True
  then show ?thesis using pool.fr_ok[OF assms(1,2), of nd] by (simp add: from_block_def)
next
  case False
  then show ?thesis
    using from_block_error[of n b _ nd i p] from_block_ok[OF assms(1) _ assms(3,2), of _ nd i] pool.fr_ok[OF assms(1,2), of nd] assms(3)
    by (cases "parse_frame (take n b)") auto
qed

text \<open>With an empty window a received datagram only passes through the pool.\<close>

lemma recv_k_0:
  assumes "conn_inv pf c" "xdp_socket c = None" "pool_ok (memory_pool (optimization_manager c))"
    "AdaptiveFec_current_mode (fec c) \<noteq> Extreme" "current_window (mode_mgr (fec c)) = 0" "transition_left (fec c) \<le> 16"
  shows "\<exists>r p. Connection_recv pf api dat c = Some (r, set_pool p c) \<and> pool_ok p \<and>
           block_size p = block_size (memory_pool (optimization_manager c))"
proof -
  let ?bs = "block_size (memory_pool (optimization_manager c))"
  obtain p where p: "Connection_recv pf api dat c =
      accept_frame pf api (received_block ?bs dat) (min (length dat) ?bs) (set_pool p c)" "pool_ok p" "block_size p = ?bs"
    using recv_udp[OF assms(3,2)] by blast
  obtain r q where q: "from_block (node pf) (packet_id_counter c) (received_block ?bs dat) (min (length dat) ?bs) p = Some (r, q)"
    "pool_ok q" "block_size q = ?bs" "\<forall>pk. r = Inr pk \<longrightarrow> packet_ok ?bs pk"
    using from_block_total[OF p(2), of "received_block ?bs dat" "min (length dat) ?bs" "node pf" "packet_id_counter c"] p(3) by auto
  have twice: "set_pool x (set_pool y c) = set_pool x c" for x y by (simp add: set_pool_def set_manager_def)
  show ?thesis
  proof (cases r)
    case (Inl e)
    with p(1) q(1) have "Connection_recv pf api dat c = Some (Inl (Fec e), set_pool q c)" by (simp add: accept_frame_def twice)
    with q(2,3) show ?thesis by blast
  next
    case (Inr pk)
    let ?q = "drop_packet (node pf) pk q"
    have reach: "fec_reach ((fec c)\<lparr>mem_pool := q\<rparr>)" using assms(1) by (auto simp: conn_inv_def intro: fec_pool)
    have "on_receive (gf pf) (node pf) pk ((fec c)\<lparr>mem_pool := q\<rparr>) = Some (Inr [], (fec c)\<lparr>mem_pool := ?q\<rparr>)"
      using on_receive_k_0[OF reach, of "gf pf" "node pf" pk] assms(4-6) by (simp add: AdaptiveFec_current_mode_def)
    moreover have "set_fec ((fec c)\<lparr>mem_pool := ?q\<rparr>) (set_pool q c) = set_pool ?q c"
      by (simp add: set_fec_def set_pool_def set_manager_def)
    ultimately have "\<exists>n. Connection_recv pf api dat c = Some (Inr n, set_pool ?q c)"
      using p(1) q(1) Inr by (simp add: accept_frame_def twice)
    with drop_packet_ok[OF q(2), of pk "node pf"] q(3,4) Inr show ?thesis by auto
  qed
qed


text \<open>Outside the first half of a cross-fade only the current decoder is asked.\<close>

lemma on_receive_steady:
  assumes "transition_left f \<le> 16" "transition_decoder f = None"
    "receive_with g nd pkt (decoder f) (mem_pool f) = Some (Inr pks, d, p)"
  shows "on_receive g nd pkt f = Some (Inr pks, f\<lparr>decoder := d, mem_pool := p\<rparr>)"
proof -
  have "f\<lparr>decoder := d, transition_decoder := None, mem_pool := p\<rparr> = f\<lparr>decoder := d, mem_pool := p\<rparr>"
    using assms(2) by (cases f) simp
  then show ?thesis
    using assms by (simp add: on_receive_def receive_transition_def drop_packets_def CROSS_FADE_LEN_def)
qed

lemma conn_inv_steady: "conn_inv pf c \<Longrightarrow> transition_left (fec c) \<le> 16 \<Longrightarrow> transition_decoder (fec c) = None"
  using fec_reach_inv[of "fec c"] by (auto simp: conn_inv_def fec_inv_def fade_ok_def CROSS_FADE_LEN_def)

text \<open>Receiving a well-formed frame: the packet has the content of the frame, and what the decoder makes of it goes to
  quiche.\<close>

lemma recv_frame:
  assumes "pool_ok (memory_pool (optimization_manager c))" "xdp_socket c = None"
    "length dat \<le> block_size (memory_pool (optimization_manager c))" "parse_frame dat = Inr v"
    "transition_left (fec c) \<le> 16" "transition_decoder (fec c) = None"
  shows "\<exists>pk p. packet_view pk = v \<and> pid pk = packet_id_counter c \<and>
           packet_ok (block_size (memory_pool (optimization_manager c))) pk \<and> data pk \<noteq> None \<and>
           pool_ok p \<and> block_size p = block_size (memory_pool (optimization_manager c)) \<and>
           in_use p = in_use (memory_pool (optimization_manager c)) + (if v_coeffs v = None then 1 else 2) \<and>
           (\<forall>pks d p'. receive_with (gf pf) (node pf) pk (decoder (fec c)) p = Some (Inr pks, d, p') \<longrightarrow>
              Connection_recv pf api dat c =
                Some (Inr (length dat), fold (deliver pf api) pks (set_fec ((fec c)\<lparr>decoder := d, mem_pool := p'\<rparr>) c)))"
proof -
  let ?bs = "block_size (memory_pool (optimization_manager c))"
  obtain p where p: "Connection_recv pf api dat c =
      accept_frame pf api (received_block ?bs dat) (length dat) (set_pool p c)" "pool_ok p" "block_size p = ?bs"
    "in_use p = in_use (memory_pool (optimization_manager c)) + 1"
    using recv_udp[OF assms(1,2), of pf api dat] assms(3) by (auto simp: min_def split: if_splits)
  have t: "take (length dat) (received_block ?bs dat) = dat" "0 < length dat"
    using take_received_block[of dat ?bs] assms(3,4) by (auto simp: parse_frame_def)
  then obtain pk p1 where pk: "from_block (node pf) (packet_id_counter c) (received_block ?bs dat) (length dat) p = Some (Inr pk, p1)"
    "packet_view pk = v" "pid pk = packet_id_counter c" "packet_ok ?bs pk" "data pk \<noteq> None" "pool_ok p1" "block_size p1 = ?bs"
    using from_block_ok[OF p(2), of "length dat" "received_block ?bs dat" v "node pf" "packet_id_counter c"] assms(3,4) p(3)
    by auto
  have n: "in_use p1 = in_use (memory_pool (optimization_manager c)) + (if v_coeffs v = None then 1 else 2)"
    using from_block_in_use[OF p(2) pk(1)] p(4) pk(2) by (auto simp: packet_view_def)
  have "Connection_recv pf api dat c =
      Some (Inr (length dat), fold (deliver pf api) pks (set_fec ((fec c)\<lparr>decoder := d, mem_pool := p'\<rparr>) c))"
    if "receive_with (gf pf) (node pf) pk (decoder (fec c)) p1 = Some (Inr pks, d, p')" for pks d p'
  proof -
    have "on_receive (gf pf) (node pf) pk ((fec c)\<lparr>mem_pool := p1\<rparr>) =
        Some (Inr pks, (fec c)\<lparr>mem_pool := p1\<rparr>\<lparr>decoder := d, mem_pool := p'\<rparr>)"
      using assms(5,6) that by (intro on_receive_steady) simp_all
    moreover have "set_fec ((fec c)\<lparr>mem_pool := p1, decoder := d, mem_pool := p'\<rparr>) (set_pool p1 (set_pool p c)) =
        set_fec ((fec c)\<lparr>decoder := d, mem_pool := p'\<rparr>) c"
      by (simp add: set_fec_def set_pool_def set_manager_def)
    ultimately show ?thesis using p(1) pk(1) by (simp add: accept_frame_def)
  qed
  with pk n show ?thesis by (intro exI[of _ pk] exI[of _ p1]) simp
qed

text \<open>The content of a source frame.\<close>

abbreviation source_view :: "bytes \<Rightarrow> view" where
  "source_view dat \<equiv> \<lparr>v_systematic = True, v_coeffs = None, v_payload = drop 1 dat\<rparr>"

lemma parse_source_frame: "dat \<noteq> [] \<Longrightarrow> hd dat = 1 \<Longrightarrow> parse_frame dat = Inr (source_view dat)"
  by (simp add: parse_frame_def hd_conv_nth)

text \<open>Receiving a source frame when the FEC layer hands out nothing.\<close>

lemma recv_source_quiet:
  assumes "pool_ok (memory_pool (optimization_manager c))" "xdp_socket c = None"
    "length dat \<le> block_size (memory_pool (optimization_manager c))" "dat \<noteq> []" "hd dat = 1"
    "transition_left (fec c) \<le> 16" "transition_decoder (fec c) = None"
    and quiet: "\<And>pk p. packet_view pk = source_view dat \<Longrightarrow> pid pk = packet_id_counter c \<Longrightarrow>
      packet_ok (block_size (memory_pool (optimization_manager c))) pk \<Longrightarrow> pool_ok p \<Longrightarrow>
      block_size p = block_size (memory_pool (optimization_manager c)) \<Longrightarrow>
      \<exists>d p'. receive_with (gf pf) (node pf) pk (decoder (fec c)) p = Some (Inr [], d, p') \<and> Q d \<and> pool_ok p' \<and>
        block_size p' = block_size p"
  shows "\<exists>d p'. Connection_recv pf api dat c =
             Some (Inr (length dat), set_fec ((fec c)\<lparr>decoder := d, mem_pool := p'\<rparr>) c) \<and> Q d \<and> pool_ok p' \<and>
           block_size p' = block_size (memory_pool (optimization_manager c))"
proof -
  let ?bs = "block_size (memory_pool (optimization_manager c))"
  obtain pk p where pk: "packet_view pk = source_view dat"
    "pid pk = packet_id_counter c" "packet_ok ?bs pk" "pool_ok p" "block_size p = ?bs"
    "\<forall>pks d p'. receive_with (gf pf) (node pf) pk (decoder (fec c)) p = Some (Inr pks, d, p') \<longrightarrow>
       Connection_recv pf api dat c =
         Some (Inr (length dat), fold (deliver pf api) pks (set_fec ((fec c)\<lparr>decoder := d, mem_pool := p'\<rparr>) c))"
    using recv_frame[OF assms(1-3) parse_source_frame[OF assms(4,5)] assms(6,7), of pf api] by (elim exE conjE) (rule that)
  from quiet[OF pk(1-5)] obtain d p' where d: "receive_with (gf pf) (node pf) pk (decoder (fec c)) p = Some (Inr [], d, p')"
    "Q d" "pool_ok p'" "block_size p' = ?bs" using pk(5) by auto
  with pk(6) show ?thesis by (intro exI[of _ d] exI[of _ p']) simp
qed

subsection \<open>Source packets of one number\<close>

lemma add_first_source:
  assumes "2 \<le> k" "is_systematic pk"
  shows "receive_with g nd pk (DecG8 (Decoder_new k)) p = Some (Inr [], DecG8 (src_state k [pk]), p)"
proof -
  have "try_decode g nd (src_state k [pk]) p = Some (False, src_state k [pk], p)"
    using assms(1) by (simp add: try_decode_def src_state_def Decoder_new_def)
  moreover have "\<not> is_decoded (Decoder_new k)" by (simp add: Decoder_new_def)
  ultimately show ?thesis
    using add_source[of "[]" k pk g nd p] assms by (simp add: receive_with_def src_state_Nil)
qed

lemma add_same_number:
  assumes "2 \<le> k" "is_systematic pk" "pid pk = pid pk0"
  shows "receive_with g nd pk (DecG8 (src_state k [pk0])) p = Some (Inr [], DecG8 (src_state k [pk0]), drop_packet nd pk p)"
proof -
  have i: "unat (pid pk) mod k < k" using assms(1) by simp
  then have "sps_of k [pk0] ! (unat (pid pk) mod k) = Some pk0"
    using assms(3) by (simp add: sps_of_def src_index_def)
  with i assms show ?thesis
    by (simp add: receive_with_def Decoder_add_packet_def src_state_def Decoder_new_def idx_def set_idx_def sps_of_def)
qed

primrec recv_all ::
  "platform \<Rightarrow> ('c, 'h, 's) api \<Rightarrow> bytes list \<Rightarrow> ('c, 'h, 's) QuicFuscateConnection \<Rightarrow>
   ((ConnectionError + nat) list \<times> ('c, 'h, 's) QuicFuscateConnection) option" where
  "recv_all pf api [] c = Some ([], c)"
| "recv_all pf api (dat # dats) c = do {
     (r, c) \<leftarrow> Connection_recv pf api dat c;
     (rs, c) \<leftarrow> recv_all pf api dats c;
     Some (r # rs, c) }"

text \<open>A receiver whose decoder holds the source packets \<open>ws\<close>, at most one, which carries the current number.\<close>

definition collecting :: "nat \<Rightarrow> Packet list \<Rightarrow> ('c, 'h, 's) QuicFuscateConnection \<Rightarrow> bool" where
  "collecting k ws c \<longleftrightarrow> pool_ok (memory_pool (optimization_manager c)) \<and> xdp_socket c = None \<and> transition_left (fec c) \<le> 16 \<and>
     transition_decoder (fec c) = None \<and> decoder (fec c) = DecG8 (src_state k ws) \<and> length ws \<le> 1 \<and>
     list_all (\<lambda>pk. pid pk = packet_id_counter c) ws"

text \<open>What the decoder holds after a source frame: the packet held before, or the new one.\<close>

definition kept_first :: "u64 \<Rightarrow> bytes \<Rightarrow> Packet list \<Rightarrow> Packet list \<Rightarrow> bool" where
  "kept_first i dat ws ws' \<longleftrightarrow> (if ws = [] then \<exists>pk. ws' = [pk] \<and> pid pk = i \<and> packet_view pk = source_view dat else ws' = ws)"

lemma receive_source_kept:
  assumes "2 \<le> k" "length ws \<le> 1" "list_all (\<lambda>pk. pid pk = i) ws" "packet_view pk = source_view dat" "pid pk = i"
    "pool_ok p" "packet_ok (block_size p) pk"
  shows "\<exists>ws' p'. receive_with g nd pk (DecG8 (src_state k ws)) p = Some (Inr [], DecG8 (src_state k ws'), p') \<and>
           kept_first i dat ws ws' \<and> pool_ok p' \<and> block_size p' = block_size p"
proof (cases ws)
  case Nil
  with assms add_first_source[OF assms(1), of pk g nd p] show ?thesis
    by (auto simp: kept_first_def src_state_Nil packet_view_def)
next
  case (Cons pk0 ws')
  with assms add_same_number[OF assms(1), of pk pk0 g nd p] drop_packet_ok[OF assms(6,7), of nd] show ?thesis
    by (auto simp: kept_first_def packet_view_def)
qed

lemma recv_collecting:
  assumes "2 \<le> k" "collecting k ws c" "length dat \<le> block_size (memory_pool (optimization_manager c))" "dat \<noteq> []" "hd dat = 1"
  shows "\<exists>c' ws'. Connection_recv pf api dat c = Some (Inr (length dat), c') \<and> collecting k ws' c' \<and> conn c' = conn c \<and>
           block_size (memory_pool (optimization_manager c')) = block_size (memory_pool (optimization_manager c)) \<and>
           packet_id_counter c' = packet_id_counter c \<and> kept_first (packet_id_counter c) dat ws ws'"
proof -
  let ?Q = "\<lambda>d. \<exists>ws'. d = DecG8 (src_state k ws') \<and> kept_first (packet_id_counter c) dat ws ws'"
  have c: "pool_ok (memory_pool (optimization_manager c))" "xdp_socket c = None" "transition_left (fec c) \<le> 16"
    "transition_decoder (fec c) = None" "decoder (fec c) = DecG8 (src_state k ws)" "length ws \<le> 1"
    "list_all (\<lambda>pk. pid pk = packet_id_counter c) ws" using assms(2) by (auto simp: collecting_def)
  obtain ws' p' where r: "Connection_recv pf api dat c =
      Some (Inr (length dat), set_fec ((fec c)\<lparr>decoder := DecG8 (src_state k ws'), mem_pool := p'\<rparr>) c)"
    "kept_first (packet_id_counter c) dat ws ws'" "pool_ok p'"
    "block_size p' = block_size (memory_pool (optimization_manager c))"
    using recv_source_quiet[OF c(1,2) assms(3-5) c(3,4), of pf ?Q api] receive_source_kept[OF assms(1) c(6,7)] c(5) by fastforce
  then have "collecting k ws' (set_fec ((fec c)\<lparr>decoder := DecG8 (src_state k ws'), mem_pool := p'\<rparr>) c)"
    using c by (auto simp: collecting_def kept_first_def split: if_splits)
  with r show ?thesis by (intro exI[of _ "set_fec ((fec c)\<lparr>decoder := DecG8 (src_state k ws'), mem_pool := p'\<rparr>) c"] exI[of _ ws']) simp
qed

lemma recv_all_collecting:
  "2 \<le> k \<Longrightarrow> collecting k ws c \<Longrightarrow>
   list_all (\<lambda>d. d \<noteq> [] \<and> hd d = 1 \<and> length d \<le> block_size (memory_pool (optimization_manager c))) dats \<Longrightarrow>
   \<exists>c' ws'. recv_all pf api dats c = Some (map (\<lambda>d. Inr (length d)) dats, c') \<and> conn c' = conn c \<and>
     packet_id_counter c' = packet_id_counter c \<and> decoder (fec c') = DecG8 (src_state k ws') \<and>
     (if dats = [] then ws' = ws else kept_first (packet_id_counter c) (hd dats) ws ws')"
proof (induction dats arbitrary: c ws)
  case Nil
  then show ?case by (auto simp: collecting_def)
next
  case (Cons dat dats)
  obtain c1 ws1 where c1: "Connection_recv pf api dat c = Some (Inr (length dat), c1)" "collecting k ws1 c1" "conn c1 = conn c"
    "block_size (memory_pool (optimization_manager c1)) = block_size (memory_pool (optimization_manager c))"
    "packet_id_counter c1 = packet_id_counter c" "kept_first (packet_id_counter c) dat ws ws1"
    using recv_collecting[OF Cons.prems(1,2), of dat pf api] Cons.prems(3) by auto
  have "ws1 \<noteq> []" using c1(6) by (auto simp: kept_first_def split: if_splits)
  then have "if dats = [] then ws' = ws1 else kept_first i (hd dats) ws1 ws' \<Longrightarrow> ws' = ws1" for ws' i
    by (simp add: kept_first_def split: if_splits)
  with c1 Cons.IH[OF Cons.prems(1) c1(2)] Cons.prems(3) show ?case by fastforce
qed

subsection \<open>Sending\<close>

lemma length_process_outgoing [simp]: "length (fst (process_outgoing_packet a det sha d m)) = length d"
  by (simp add: process_outgoing_packet_def process_payload_def case_prod_beta Let_def split: option.split bool.split)

text \<open>What the sender's obfuscation does to a payload is undone by a receiver in the same state, also when more bytes
  follow.\<close>

lemma process_incoming_prefix:
  assumes "sm_config m' = sm_config m" "xor_obfuscator m' = xor_obfuscator m"
    "take (length d) blk = fst (process_outgoing_packet a det sha d m)" "length d \<le> length blk"
  shows "take (length d) (fst (process_incoming_packet a' det' sha' blk m')) = d"
    "length (fst (process_incoming_packet a' det' sha' blk m')) = length blk"
proof -
  show "length (fst (process_incoming_packet a' det' sha' blk m')) = length blk"
    by (simp add: process_incoming_packet_def deobfuscate_def case_prod_beta Let_def split: option.split bool.split)
  show "take (length d) (fst (process_incoming_packet a' det' sha' blk m')) = d"
  proof (cases "enable_xor_obfuscation (sm_config m) \<and> xor_obfuscator m \<noteq> None")
    case True
    then obtain x where x: "enable_xor_obfuscation (sm_config m)" "xor_obfuscator m = Some x" by auto
    have "blk ! i = d ! i XOR stream_byte x i" if "i < length d" for i
    proof -
      have "blk ! i = take (length d) blk ! i" using that by simp
      also have "\<dots> = d ! i XOR stream_byte x i"
        using that x assms(3) by (simp add: process_outgoing_packet_def process_payload_def case_prod_beta obfuscate_bytes)
      finally show ?thesis .
    qed
    with x assms show ?thesis
      by (intro nth_equalityI)
         (auto simp: process_incoming_packet_def deobfuscate_def case_prod_beta obfuscate_bytes xor_twice_iff)
  next
    case False
    with assms show ?thesis
      by (auto simp: process_incoming_packet_def process_outgoing_packet_def process_payload_def split: option.splits bool.splits)
  qed
qed

lemma send_fresh:
  assumes inv: "conn_inv pf c" and idle: "outgoing_fec_packets c = []" "xdp_socket c = None"
    and pool: "pool_ok (memory_pool (optimization_manager c))" "bs = block_size (memory_pool (optimization_manager c))"
    and quic: "q_send api (replicate bs 0) (conn c) = (Inr n, b, cn)" "length b = bs" "0 < n" "n \<le> bs"
    and plain: "transition_left (fec c) \<le> 16" "num_repair (encoder (fec c)) = 0"
    and room: "packet_id_counter c + 1 \<noteq> 0" "n + 1 \<le> length buf"
    and obf: "process_outgoing_packet (cpu_arch pf) (cpu pf) (sha256 pf) (take n b) (stealth_manager c) = (w, sm)"
  shows "\<exists>c'. Connection_send pf api buf c = Some (Inr (n + 1), 1 # w @ drop (n + 1) buf, c') \<and>
           packet_id_counter c' = packet_id_counter c + 1 \<and> outgoing_fec_packets c' = [] \<and> conn c' = cn \<and>
           stealth_manager c' = sm"
proof -
  let ?om = "optimization_manager c"
  obtain p where p: "alloc (node pf) (memory_pool ?om) = Some (replicate bs 0, p)" "pool_ok p" "block_size p = bs"
    using pool.al_ok[OF pool(1), of "node pf"] pool(2) by auto
  have w: "length w = n" using length_process_outgoing[of "cpu_arch pf" "cpu pf" "sha256 pf" "take n b" "stealth_manager c"] obf quic
    by simp
  define pkt where "pkt = \<lparr>pid = packet_id_counter c, data = Some (w @ drop n b), len = n, is_systematic = True,
    coefficients = None, coeff_len = 0\<rparr>"
  have ok: "packet_ok bs pkt" using w quic by (simp add: pkt_def packet_ok_def)
  have te: "transition_encoder (fec c) = None"
    using fec_reach_inv[of "fec c"] inv plain(1) by (auto simp: conn_inv_def fec_inv_def fade_ok_def CROSS_FADE_LEN_def)
  obtain f where f: "on_send (gf pf) (node pf) pkt ((fec c)\<lparr>mem_pool := p\<rparr>) [] = Some (f, [pkt])"
    using on_send_plain[of "(fec c)\<lparr>mem_pool := p\<rparr>" pkt "gf pf" "node pf" "[]"] p ok te plain(2) by (auto simp: pkt_def)
  let ?c = "set_manager (?om\<lparr>memory_pool := p\<rparr>) (c\<lparr>conn := cn\<rparr>)"
  let ?c2 = "set_fec f (?c\<lparr>stealth_manager := sm, packet_id_counter := packet_id_counter c + 1, outgoing_fec_packets := [pkt]\<rparr>)"
  have "slice b 0 n = Some (take n b)" "copy_at b 0 n w = Some (w @ drop n b)"
    using quic w by (simp_all add: slice_def copy_at_def)
  then have queue: "queue_packet pf b n ?c = Some ?c2"
    using obf f idle(1) room(1) by (simp add: queue_packet_def checked_inc_def pkt_def)
  have view: "frame (packet_view pkt) = 1 # w" using w by (simp add: frame_def packet_view_def pkt_def)
  then have raw: "to_raw pkt buf = Some (Inr (n + 1), 1 # w @ drop (n + 1) buf)"
    using to_raw_frame[OF ok, of "w @ drop n b" buf] room(2) w by (simp add: pkt_def)
  show ?thesis
    using idle p quic queue raw by (simp add: Connection_send_def alloc_block_def transmit_def Let_def)
qed

subsection \<open>A window of one packet\<close>

lemma receive_single:
  assumes "gf_scalar g" "is_systematic pk"
  shows "\<exists>d. receive_with g nd pk (DecG8 (Decoder_new 1)) p = Some (Inr [pk], d, p)"
proof -
  obtain m where "try_decode g nd (src_state 1 [pk]) p =
      Some (True, (src_state 1 [pk])\<lparr>decoding_matrix := m, is_decoded := True\<rparr>, p)"
    using try_decode_sources[OF assms(1), of "[pk]" 1 nd p] by auto
  moreover have "\<not> is_decoded (Decoder_new 1)" by (simp add: Decoder_new_def)
  moreover have "systematic_packets (src_state 1 [pk]) = [Some pk]" by (simp add: src_state_def sps_of_def src_index_def)
  ultimately show ?thesis
    using add_source[of "[]" 1 pk g nd p] assms(2)
    by (simp add: receive_with_def src_state_Nil Decoder_get_decoded_packets_def map_filter_def apsnd_def map_prod_def)
qed

lemma recv_single:
  assumes "conn_inv pf c" "pool_ok (memory_pool (optimization_manager c))" "bs = block_size (memory_pool (optimization_manager c))"
    "xdp_socket c = None" "transition_left (fec c) \<le> 16" "decoder (fec c) = DecG8 (Decoder_new 1)" "gf_scalar (gf pf)"
    "length w + 1 \<le> bs"
  shows "\<exists>blk c'. Connection_recv pf api (1 # w) c = Some (Inr (length w + 1), c') \<and> length blk = bs \<and>
           take (length w) blk = w \<and>
           conn c' = snd (q_recv api (fst (process_incoming_packet (cpu_arch pf) (cpu pf) (sha256 pf) blk (stealth_manager c)))
                            (peer_addr c) (local_addr c) (conn c))"
proof -
  have "length (1 # w) \<le> block_size (memory_pool (optimization_manager c))" using assms(3,8) by simp
  then obtain pk p where pk: "packet_view pk = \<lparr>v_systematic = True, v_coeffs = None, v_payload = w\<rparr>" "packet_ok bs pk"
    "data pk \<noteq> None"
    "\<forall>pks d p'. receive_with (gf pf) (node pf) pk (decoder (fec c)) p = Some (Inr pks, d, p') \<longrightarrow>
       Connection_recv pf api (1 # w) c =
         Some (Inr (length (1 # w)), fold (deliver pf api) pks (set_fec ((fec c)\<lparr>decoder := d, mem_pool := p'\<rparr>) c))"
    using recv_frame[OF assms(2,4) _ parse_source_frame[of "1 # w"] assms(5) conn_inv_steady[OF assms(1,5)], of pf api] assms(3)
    by auto
  from pk(3) obtain blk where d: "data pk = Some blk" by auto
  have blk: "length blk = bs" "take (length w) blk = w" "is_systematic pk"
    using pk(1,2) d by (auto simp: packet_view_def packet_ok_def)
  obtain d' where "receive_with (gf pf) (node pf) pk (decoder (fec c)) p = Some (Inr [pk], d', p)"
    using receive_single[OF assms(7) blk(3)] assms(6) by metis
  with pk(4) have "Connection_recv pf api (1 # w) c =
      Some (Inr (length (1 # w)), fold (deliver pf api) [pk] (set_fec ((fec c)\<lparr>decoder := d', mem_pool := p\<rparr>) c))" by blast
  with d blk show ?thesis
    by (intro exI[of _ blk]) (simp add: deliver_def case_prod_beta Let_def)
qed

subsection \<open>A sample connection\<close>

text \<open>A machine without vector units, and a QUIC stack that counts the packets it is given and the events it reports,
  sends packets of two bytes until it has counted three and never opens packet sockets.\<close>

definition sample_platform :: platform where
  "sample_platform = \<lparr>node = 0, numa_nodes = 1, cpu_arch = X86, cpu = features std_env, gf = std_env, sha256 = id,
     rng = (\<lambda>i. of_nat i), chlo_files = (\<lambda>_ _. None), quiche_lib = None, xdp_supported = False\<rparr>"

definition sample_addr :: SocketAddr where
  "sample_addr = (IpV4 127 0 0 1, 4433)"

definition sample_api :: "(nat, nat, unit) api" where
  "sample_api =
     \<lparr>q_connect = \<lambda>_ _ _ _ _. Inr 0, q_accept = \<lambda>_ _ _ _ _. Inr 0, q_error_text = \<lambda>_. [],
      q_recv = \<lambda>d _ _ n. (Inr (length d), n + 1), q_send = \<lambda>b n. if n < 3 \<and> 2 \<le> length b then (Inr 2, 7 # 9 # drop 2 b, n + 1) else (Inl Done, b, n),
      q_migrate = \<lambda>_ _ n. (Inr 0, n), q_stats = \<lambda>_. \<lparr>st_sent = 4, st_lost = 1, st_rtt_millis = 20\<rparr>,
      q_path_event_next = \<lambda>n. if n = 0 then (None, 0) else (Some (PathClosed sample_addr sample_addr), n - 1),
      q_is_established = \<lambda>_. True, q_is_closed = \<lambda>n. 100 < n, q_on_timeout = id, q_close = \<lambda>_. 101,
      h3_config_new = Inr (), h3_with_transport = \<lambda>n. (Inr 3, n), h3_send_request = \<lambda>_ s. (Inr 0, s),
      h3_poll = \<lambda>(h, n). if h = 0 then (Inl H3Done, h, n) else (Inr (0, H3Data), h - 1, n),
      h3_recv_body = \<lambda>_ _ s. (Inl H3Done, s),
      xdp_new = \<lambda>_ _. Inl [], xdp_new_udp = \<lambda>_ _. Inl [], xdp_recv = \<lambda>b s. (Inl [], b, s), xdp_send = \<lambda>_ s. (Inl [], s),
      xdp_update_remote = \<lambda>_ s. s, xdp_reconfigure = \<lambda>_ _ s. (Inl [], s)\<rparr>"

definition sample_optimize :: OptimizeConfig where
  "sample_optimize = \<lparr>cfg_pool_capacity = 4, cfg_block_size = 8, cfg_enable_xdp = False\<rparr>"

lemma sample_server:
  assumes "config_ok cfg"
  obtains c g sm where
    "new_server sample_platform sample_api 0 (replicate 20 0) None sample_addr sample_addr [] StealthConfig_default cfg sample_optimize =
       Some (Inr (c, g))"
    "conn_reach sample_platform sample_api c"
    "fec c = fst (AdaptiveFec_new 0 cfg (pool_new 1 4 8) std_env)"
    "memory_pool (optimization_manager c) = pool_new 1 4 8" "xdp_socket c = None" "outgoing_fec_packets c = []" "conn c = 0"
    "packet_id_counter c = 0" "h3_conn c = None"
    "StealthManager_new (\<lambda>_ _. None) (\<lambda>i. of_nat i) StealthConfig_default = Some sm" "stealth_manager c = sm"
proof -
  obtain sm where sm: "StealthManager_new (\<lambda>_ _. None) (\<lambda>i. of_nat i) StealthConfig_default = Some sm"
    using StealthManager_new_Some[of "\<lambda>_ _. None" "\<lambda>i. of_nat i" StealthConfig_default] by blast
  define om where "om = manager_from_cfg (numa_nodes sample_platform) (xdp_supported sample_platform) sample_optimize"
  obtain c :: "(nat, nat, unit) QuicFuscateConnection" and g where
    c: "Connection_new sample_platform 0 0 sample_addr sample_addr [] sm om None cfg = (c, g)" by fastforce
  have om: "\<not> xdp_on om" "memory_pool om = pool_new 1 4 8"
    by (simp_all add: om_def manager_from_cfg_def manager_new_with_config_def xdp_on_def sample_optimize_def sample_platform_def)
  have a: "q_accept sample_api x y z v u = Inr 0" for x y z v u by (simp add: sample_api_def)
  have pf: "chlo_files sample_platform = (\<lambda>_ _. None)" "rng sample_platform = (\<lambda>i. of_nat i)"
    by (simp_all add: sample_platform_def)
  have s: "new_server sample_platform sample_api 0 (replicate 20 0) None sample_addr sample_addr [] StealthConfig_default cfg sample_optimize =
      Some (Inr (c, g))"
    using sm om c by (simp add: new_server_def finish_def pf a Let_def flip: om_def)
  from c om(2) show thesis
    by (intro that[OF s reach_server[OF assms s] _ _ _ _ _ _ _ sm])
       (auto simp: Connection_new_def Let_def case_prod_beta sample_platform_def)
qed

text \<open>A light mode with a window of \<open>k\<close> packets.\<close>

definition window_config :: "nat \<Rightarrow> FecConfig" where
  "window_config k = FecConfig_default\<lparr>initial_mode := Light, cfg_window_sizes := [Light \<mapsto> k]\<rparr>"

lemma window_config_ok: "config_ok (window_config k)"
  using config_ok_default by (auto simp: window_config_def config_ok_def FecConfig_validate_def split: if_splits)

lemma window_config_fec:
  "decoder (fst (AdaptiveFec_new now (window_config k) p g)) = DecG8 (Decoder_new k)"
  "transition_left (fst (AdaptiveFec_new now cfg p g)) = 0"
  by (simp_all add: AdaptiveFec_new_def Let_def case_prod_beta window_config_def ModeManager_new_def
      window_or_default_def DecoderVariant_new_def)

lemma default_fec:
  "AdaptiveFec_current_mode (fst (AdaptiveFec_new now FecConfig_default p g)) = Zero"
  "current_window (mode_mgr (fst (AdaptiveFec_new now FecConfig_default p g))) = 0"
  "num_repair (encoder (fst (AdaptiveFec_new now FecConfig_default p g))) = 0"
proof -
  show mode: "AdaptiveFec_current_mode (fst (AdaptiveFec_new now FecConfig_default p g)) = Zero"
    "current_window (mode_mgr (fst (AdaptiveFec_new now FecConfig_default p g))) = 0"
    by (simp_all add: AdaptiveFec_current_mode_def AdaptiveFec_new_def Let_def case_prod_beta ModeManager_new_def
        FecConfig_default_def window_or_default_def default_windows_def)
  then show "num_repair (encoder (fst (AdaptiveFec_new now FecConfig_default p g))) = 0"
    using num_repair_Zero
    by (simp add: AdaptiveFec_current_mode_def AdaptiveFec_new_def Let_def case_prod_beta)
qed

subsection \<open>Properties\<close>



text \<open>C7: end to end. A sender in the default mode with an empty queue puts a fresh QUIC packet of \<open>n\<close> bytes on the
  wire as one frame of \<open>n + 1\<close> bytes; a receiver with a window of one packet, whose stealth manager is in the same
  state, hands quiche a buffer that starts with exactly the bytes of the packet. The buffer is the whole pool
  block, not the \<open>n\<close> bytes.\<close>

theorem packet_delivery:
  assumes "conn_reach pf api c" "outgoing_fec_packets c = []" "xdp_socket c = None"
    "pool_ok (memory_pool (optimization_manager c))" "block_size (memory_pool (optimization_manager c)) = bs"
    "q_send api (replicate bs 0) (conn c) = (Inr n, b, cn)" "length b = bs" "0 < n" "n + 1 \<le> bs" "n + 1 \<le> length buf"
    "transition_left (fec c) \<le> 16" "num_repair (encoder (fec c)) = 0" "packet_id_counter c + 1 \<noteq> 0"
    and receiver: "conn_reach pf' api' d" "xdp_socket d = None" "pool_ok (memory_pool (optimization_manager d))"
    "block_size (memory_pool (optimization_manager d)) = bs" "transition_left (fec d) \<le> 16"
    "decoder (fec d) = DecG8 (Decoder_new 1)" "gf_scalar (gf pf')"
    "sm_config (stealth_manager d) = sm_config (stealth_manager c)"
    "xor_obfuscator (stealth_manager d) = xor_obfuscator (stealth_manager c)"
  shows "\<exists>buf' c' d' blk. Connection_send pf api buf c = Some (Inr (n + 1), buf', c') \<and>
           packet_id_counter c' = packet_id_counter c + 1 \<and>
           Connection_recv pf' api' (take (n + 1) buf') d = Some (Inr (n + 1), d') \<and>
           conn d' = snd (q_recv api' blk (peer_addr d) (local_addr d) (conn d)) \<and>
           length blk = bs \<and> take n blk = take n b"
proof -
  obtain w sm where w: "process_outgoing_packet (cpu_arch pf) (cpu pf) (sha256 pf) (take n b) (stealth_manager c) = (w, sm)"
    by fastforce
  have n: "length (take n b) = n" "length w = n"
    using length_process_outgoing[of "cpu_arch pf" "cpu pf" "sha256 pf" "take n b" "stealth_manager c"] w assms(7,9) by simp_all
  obtain c' where send: "Connection_send pf api buf c = Some (Inr (n + 1), 1 # w @ drop (n + 1) buf, c')"
    "packet_id_counter c' = packet_id_counter c + 1"
    using send_fresh[OF conn_reach_inv[OF assms(1)] assms(2-4) _ assms(6-8) _ assms(11-13,10) w] assms(5,9) by auto
  obtain blk d' where recv: "Connection_recv pf' api' (1 # w) d = Some (Inr (n + 1), d')" "length blk = bs" "take n blk = w"
    "conn d' = snd (q_recv api' (fst (process_incoming_packet (cpu_arch pf') (cpu pf') (sha256 pf') blk (stealth_manager d)))
                     (peer_addr d) (local_addr d) (conn d))"
    using recv_single[OF conn_reach_inv[OF receiver(1)] receiver(3) receiver(4)[symmetric] receiver(2,5-7), of w api'] assms(9) n
    by auto
  have "take n (fst (process_incoming_packet (cpu_arch pf') (cpu pf') (sha256 pf') blk (stealth_manager d))) = take n b"
    "length (fst (process_incoming_packet (cpu_arch pf') (cpu pf') (sha256 pf') blk (stealth_manager d))) = bs"
    using process_incoming_prefix[OF receiver(8,9), of "take n b" blk "cpu_arch pf" "cpu pf" "sha256 pf" "cpu_arch pf'" "cpu pf'"
        "sha256 pf'"] n w recv(2,3) assms(9) by simp_all
  moreover have "take (n + 1) (1 # w @ drop (n + 1) buf) = 1 # w" using n by simp
  ultimately show ?thesis using send recv by metis
qed

theorem packet_delivery_witness:
  "\<exists>c d buf' c' d' blk. Connection_send sample_platform sample_api (replicate 9 0) c = Some (Inr 3, buf', c') \<and>
     Connection_recv sample_platform sample_api (take 3 buf') d = Some (Inr 3, d') \<and>
     conn (d' :: (nat, nat, unit) QuicFuscateConnection) = 1 \<and> length blk = 8 \<and> take 2 blk = [7, 9 :: u8] \<and> packet_id_counter c' = 1"
proof (rule sample_server[OF config_ok_default], rule sample_server[OF window_config_ok[of 1]])
  fix c g sm d g' sm'
  assume c: "conn_reach sample_platform sample_api c" "fec c = fst (AdaptiveFec_new 0 FecConfig_default (pool_new 1 4 8) std_env)"
    "memory_pool (optimization_manager c) = pool_new 1 4 8" "xdp_socket c = None" "outgoing_fec_packets c = []" "conn c = 0"
    "packet_id_counter c = 0" "StealthManager_new (\<lambda>_ _. None) (\<lambda>i. of_nat i) StealthConfig_default = Some sm"
    "stealth_manager c = sm"
    and d: "conn_reach sample_platform sample_api d" "fec d = fst (AdaptiveFec_new 0 (window_config 1) (pool_new 1 4 8) std_env)"
    "memory_pool (optimization_manager d) = pool_new 1 4 8" "xdp_socket d = None" "conn d = 0"
    "StealthManager_new (\<lambda>_ _. None) (\<lambda>i. of_nat i) StealthConfig_default = Some sm'" "stealth_manager d = sm'"
  have "q_send sample_api (replicate 8 0) (conn c) = (Inr 2, 7 # 9 # replicate 6 0, 1)"
    using c(6) by (simp add: sample_api_def eval_nat_numeral)
  moreover have q: "snd (q_recv sample_api blk a b 0) = 1" for blk a b by (simp add: sample_api_def)
  moreover have "gf_scalar (gf sample_platform)" using gf_scalar_std_env by (simp add: sample_platform_def)
  ultimately have "\<exists>buf' c' d' blk. Connection_send sample_platform sample_api (replicate 9 0) c = Some (Inr (2 + 1), buf', c') \<and>
      packet_id_counter c' = packet_id_counter c + 1 \<and>
      Connection_recv sample_platform sample_api (take (2 + 1) buf') d = Some (Inr (2 + 1), d') \<and>
      conn d' = snd (q_recv sample_api blk (peer_addr d) (local_addr d) (conn d)) \<and>
      length blk = 8 \<and> take 2 blk = take 2 (7 # 9 # replicate 6 0)"
    using c d default_fec window_config_fec
    by (intro packet_delivery[of sample_platform sample_api c 8 2 _ 1]) (simp_all add: pool_ok_new)
  then obtain buf' c' d' blk where
    r: "Connection_send sample_platform sample_api (replicate 9 0) c = Some (Inr (2 + 1), buf', c')"
      "packet_id_counter c' = packet_id_counter c + 1"
      "Connection_recv sample_platform sample_api (take (2 + 1) buf') d = Some (Inr (2 + 1), d')"
      "conn d' = snd (q_recv sample_api blk (peer_addr d) (local_addr d) (conn d))"
      "length blk = 8" "take 2 blk = take 2 (7 # 9 # replicate 6 0)" by (elim exE conjE) (rule that)
  have n: "2 + 1 = (3 :: nat)" by simp
  show ?thesis
    using r[unfolded n] c(7) d(5) q
    by (intro exI[of _ c] exI[of _ d] exI[of _ buf'] exI[of _ c'] exI[of _ d'] exI[of _ blk]) simp
qed

text \<open>C9: source packets collide. The receiver numbers a packet with its own send counter, which receiving does not
  change, instead of the number the sender gave it. So however many source packets arrive in a row at a receiver
  over UDP with an empty decoder for a window of two or more packets, they are all accepted, but afterwards the decoder holds only the
  first of them, under that number: the others are dropped as duplicates, and quiche is given none.\<close>

theorem source_packets_collide:
  assumes "conn_reach pf api c" "xdp_socket c = None" "pool_ok (memory_pool (optimization_manager c))"
    "transition_left (fec c) \<le> 16" "decoder (fec c) = DecG8 (Decoder_new k)" "2 \<le> k"
    "list_all (\<lambda>d. d \<noteq> [] \<and> hd d = 1 \<and> length d \<le> block_size (memory_pool (optimization_manager c))) dats"
  shows "\<exists>c'. recv_all pf api dats c = Some (map (\<lambda>d. Inr (length d)) dats, c') \<and> conn c' = conn c \<and>
           packet_id_counter c' = packet_id_counter c \<and>
           (if dats = [] then decoder (fec c') = DecG8 (Decoder_new k)
            else \<exists>pk. decoder (fec c') = DecG8 (src_state k [pk]) \<and> pid pk = packet_id_counter c \<and>
                  packet_view pk = \<lparr>v_systematic = True, v_coeffs = None, v_payload = drop 1 (hd dats)\<rparr>)"
proof -
  have "collecting k [] c"
    using assms conn_inv_steady[OF conn_reach_inv[OF assms(1)] assms(4)] by (simp add: collecting_def src_state_Nil)
  from recv_all_collecting[OF assms(6) this assms(7), of pf api] show ?thesis
    by (auto simp: kept_first_def src_state_Nil split: if_splits)
qed

theorem source_packets_collide_witness:
  "\<exists>(c :: (nat, nat, unit) QuicFuscateConnection) c' pk.
     recv_all sample_platform sample_api [[1, 2, 3], [1, 4, 5, 6]] c = Some ([Inr 3, Inr 4], c') \<and> conn c' = 0 \<and>
     decoder (fec c') = DecG8 (src_state 2 [pk]) \<and> v_payload (packet_view pk) = [2, 3]"
proof (rule sample_server[OF window_config_ok[of 2]])
  fix c g sm
  assume c: "conn_reach sample_platform sample_api c" "fec c = fst (AdaptiveFec_new 0 (window_config 2) (pool_new 1 4 8) std_env)"
    "memory_pool (optimization_manager c) = pool_new 1 4 8" "xdp_socket c = None" "conn c = 0"
  have "\<exists>c'. recv_all sample_platform sample_api [[1, 2, 3], [1, 4, 5, 6]] c =
      Some (map (\<lambda>d. Inr (length d)) [[1, 2, 3], [1, 4, 5, 6 :: u8]], c') \<and> conn c' = conn c \<and>
      (\<exists>pk. decoder (fec c') = DecG8 (src_state 2 [pk]) \<and> v_payload (packet_view pk) = [2, 3])"
    using source_packets_collide[OF c(1,4), of 2 "[[1, 2, 3], [1, 4, 5, 6]]"] c window_config_fec
    by (simp add: pool_ok_new del: recv_all.simps) (metis view.select_convs(3))
  then show ?thesis using c(5) by (auto simp: eval_nat_numeral simp del: recv_all.simps)
qed

text \<open>C10: a connection over UDP with an empty window (the default mode; not the extreme one), outside the first half of a
  cross-fade: \<open>recv\<close> returns for every datagram, and whatever it returns, quiche is given nothing.\<close>

theorem default_mode_delivers_nothing:
  assumes "conn_reach pf api c" "xdp_socket c = None" "pool_ok (memory_pool (optimization_manager c))"
    "AdaptiveFec_current_mode (fec c) \<noteq> Extreme" "current_window (mode_mgr (fec c)) = 0" "transition_left (fec c) \<le> 16"
  shows "\<exists>r c'. Connection_recv pf api dat c = Some (r, c') \<and> conn c' = conn c \<and> stealth_manager c' = stealth_manager c"
  using recv_k_0[OF conn_reach_inv[OF assms(1)] assms(2-6), of api dat] by auto

theorem default_mode_delivers_nothing_witness:
  "\<exists>r (c :: (nat, nat, unit) QuicFuscateConnection) c'.
     Connection_recv sample_platform sample_api [1, 2, 3] c = Some (r, c') \<and> conn c' = 0"
proof (rule sample_server[OF config_ok_default])
  fix c g sm
  assume c: "conn_reach sample_platform sample_api c" "fec c = fst (AdaptiveFec_new 0 FecConfig_default (pool_new 1 4 8) std_env)"
    "memory_pool (optimization_manager c) = pool_new 1 4 8" "xdp_socket c = None" "conn c = 0"
  from default_mode_delivers_nothing[OF c(1,4), of "[1, 2, 3]"] c default_fec window_config_fec show ?thesis
    by (auto simp: pool_ok_new)
qed

text \<open>C11: the update of the statistics. When quiche queues finitely many path events (a measure falls with every event
  taken), \<open>update_state\<close> returns exactly when quiche reports no more lost packets than sent ones; otherwise it
  panics in the loss estimator.\<close>

theorem update_state_outcome:
  assumes "conn_reach pf api c" "\<And>cn e cn'. q_path_event_next api cn = (Some e, cn') \<Longrightarrow> (\<mu> cn' :: nat) < \<mu> cn"
  shows "(\<exists>c'. update_state pf api clk now c = Some c') \<longleftrightarrow> st_lost (q_stats api (conn c)) \<le> st_sent (q_stats api (conn c))"
proof (cases "st_lost (q_stats api (conn c)) \<le> st_sent (q_stats api (conn c))")
  case True
  have "fec_inv (fec c)" using conn_reach_inv[OF assms(1)] fec_reach_inv by (auto simp: conn_inv_def)
  from report_loss_inv[OF this True, of "node pf" clk] path_events_returns[of api \<mu>, OF assms(2)] True show ?thesis
    by (auto simp: update_state_def Let_def)
next
  case False
  with report_loss_panics[of "st_sent (q_stats api (conn c))" "st_lost (q_stats api (conn c))" "node pf" clk "fec c"]
  show ?thesis by (simp add: update_state_def Let_def)
qed

theorem update_state_outcome_witness:
  "\<exists>c c' :: (nat, nat, unit) QuicFuscateConnection.
     update_state sample_platform sample_api \<lparr>t_elapsed = 1, t_pid = 1, t_change = 1\<rparr> 5 c = Some c'"
proof (rule sample_server[OF config_ok_default])
  fix c g sm
  assume c: "conn_reach sample_platform sample_api c"
  have s: "st_lost (q_stats sample_api cn) = 1" "st_sent (q_stats sample_api cn) = 4"
    "q_path_event_next sample_api cn = (Some e, cn') \<Longrightarrow> id cn' < id cn" for cn cn' e
    by (auto simp: sample_api_def split: if_splits)
  from update_state_outcome[OF c, of id "\<lparr>t_elapsed = 1, t_pid = 1, t_change = 1\<rparr>" 5] s show ?thesis by auto
qed

text \<open>Polling HTTP/3 returns when quiche has finitely many events and body bytes queued: a measure falls with
  every event taken and every successful read, and does not rise with a failing read.\<close>

lemma poll_http3_returns:
  assumes "\<And>s x s'. h3_poll api s = (Inr x, s') \<Longrightarrow> (\<mu> s' :: nat) < \<mu> s"
    "\<And>sid s d s'. h3_recv_body api sid 4096 s = (Inr d, s') \<Longrightarrow> \<mu> s' < \<mu> s"
    "\<And>sid s e s'. h3_recv_body api sid 4096 s = (Inl e, s') \<Longrightarrow> \<mu> s' \<le> \<mu> s"
  shows "\<exists>r c'. poll_http3 api c = Some (r, c') \<and> fec c' = fec c \<and> outgoing_fec_packets c' = outgoing_fec_packets c \<and>
           (h3_conn c = None \<longleftrightarrow> h3_conn c' = None)"
proof (cases "h3_conn c")
  case (Some h)
  obtain r h' cn where "poll_events api (h, conn c) = Some (r, h', cn)"
    using poll_events_returns[of api \<mu> "(h, conn c)"] assms by (metis prod.exhaust)
  with Some show ?thesis by (simp add: poll_http3_def)
qed (simp add: poll_http3_def)

end
