(* ===== verification/Application.thy ===== *)
theory Application
  imports Connection_Properties
begin

text \<open>
  Configuration and event loops of the program (\<open>src/src/app_config.rs\<close>, \<open>src/src/main.rs\<close>): how the settings of the
  command line and the configuration file are combined, and one round of the client's and of the server's loop.

  The TOML parser, the file system and the command line parser are parameters; sockets are the datagrams that a
  round receives and sends. Logging, telemetry and the task that prints statistics are left out, as are the
  quiche settings that do not depend on the configuration.
\<close>

subsection \<open>Configuration file\<close>

record AppConfig =
  app_fec :: FecConfig
  app_stealth :: StealthConfig
  app_optimize :: OptimizeConfig

record 'e parsers =
  parse_fec :: "string \<Rightarrow> 'e + Adaptive"
  parse_stealth :: "string \<Rightarrow> 'e + StealthSection option"
  parse_optimize :: "string \<Rightarrow> string + OptimizeSection option"

definition result_or :: "'a \<Rightarrow> 'e + 'a \<Rightarrow> 'a" where
  "result_or d r = (case r of Inl _ \<Rightarrow> d | Inr x \<Rightarrow> x)"

definition AppConfig_from_toml :: "'e parsers \<Rightarrow> string \<Rightarrow> 'e + AppConfig" where
  "AppConfig_from_toml ps s =
     Inr \<lparr>app_fec = result_or FecConfig_default (FecConfig_from_toml (parse_fec ps) s),
          app_stealth = result_or StealthConfig_default (StealthConfig_from_toml (parse_stealth ps) s),
          app_optimize = result_or OptimizeConfig_default (OptimizeConfig_from_toml (parse_optimize ps) s)\<rparr>"

definition AppConfig_from_file :: "'e parsers \<Rightarrow> (string \<Rightarrow> 'e + string) \<Rightarrow> string \<Rightarrow> 'e + AppConfig" where
  "AppConfig_from_file ps read path = (case read path of Inl e \<Rightarrow> Inl e | Inr s \<Rightarrow> AppConfig_from_toml ps s)"

definition AppConfig_validate :: "AppConfig \<Rightarrow> string + unit" where
  "AppConfig_validate c =
     (case FecConfig_validate (app_fec c) of
        Inl e \<Rightarrow> Inl e
      | Inr _ \<Rightarrow> (case StealthConfig_validate (app_stealth c) of
                    Inl e \<Rightarrow> Inl e
                  | Inr _ \<Rightarrow> OptimizeConfig_validate (app_optimize c)))"

definition FecConfig_from_file :: "'e parsers \<Rightarrow> (string \<Rightarrow> 'e + string) \<Rightarrow> string \<Rightarrow> 'e + FecConfig" where
  "FecConfig_from_file ps read path = (case read path of Inl e \<Rightarrow> Inl e | Inr s \<Rightarrow> FecConfig_from_toml (parse_fec ps) s)"

subsection \<open>Command line\<close>

text \<open>The options that client and server share, and the client's switch for regular TLS.\<close>

record Cli =
  cli_profile :: BrowserProfile
  cli_os :: OsProfile
  cli_profile_seq :: "string list option"
  cli_profile_interval :: nat
  cli_fec_mode :: FecMode
  cli_pool_capacity :: usize
  cli_pool_block :: nat
  cli_xdp :: bool
  cli_config :: "string option"
  cli_fec_config :: "string option"
  cli_doh_provider :: string
  cli_front_domain :: "string list"
  cli_disable_doh :: bool
  cli_disable_fronting :: bool
  cli_disable_xor :: bool
  cli_disable_http3 :: bool
  cli_no_utls :: bool

text \<open>The settings of the file, or the defaults; a failed validation is only reported.\<close>

definition load_settings ::
  "'e parsers \<Rightarrow> (string \<Rightarrow> 'e + string) \<Rightarrow> Cli \<Rightarrow> FecConfig \<times> StealthConfig \<times> OptimizeConfig" where
  "load_settings ps read cli =
     (let (f, s, opt) =
        (case cli_config cli of
           Some path \<Rightarrow> (case AppConfig_from_file ps read path of
                           Inr c \<Rightarrow> (app_fec c, app_stealth c, app_optimize c)
                         | Inl _ \<Rightarrow> (FecConfig_default, StealthConfig_default, OptimizeConfig_default))
         | None \<Rightarrow>
             (case cli_fec_config cli of
                Some path \<Rightarrow> result_or FecConfig_default (FecConfig_from_file ps read path)
              | None \<Rightarrow> FecConfig_default, StealthConfig_default, OptimizeConfig_default))
      in (f\<lparr>initial_mode := cli_fec_mode cli\<rparr>, s, opt))"

definition apply_cli :: "Cli \<Rightarrow> StealthConfig \<Rightarrow> StealthConfig" where
  "apply_cli cli s =
     s\<lparr>browser_profile := cli_profile cli, os_profile := cli_os cli, enable_doh := \<not> cli_disable_doh cli,
       doh_provider := cli_doh_provider cli, enable_domain_fronting := \<not> cli_disable_fronting cli,
       fronting_domains := cli_front_domain cli, enable_xor_obfuscation := \<not> cli_disable_xor cli,
       enable_http3_masquerading := \<not> cli_disable_http3 cli\<rparr>"

definition opt_params :: "Cli \<Rightarrow> OptimizeConfig \<Rightarrow> OptimizeConfig" where
  "opt_params cli opt =
     (if cli_config cli \<noteq> None
      then \<lparr>cfg_pool_capacity = cfg_pool_capacity opt, cfg_block_size = cfg_block_size opt,
            cfg_enable_xdp = cfg_enable_xdp opt \<or> cli_xdp cli\<rparr>
      else \<lparr>cfg_pool_capacity = cli_pool_capacity cli, cfg_block_size = cli_pool_block cli, cfg_enable_xdp = cli_xdp cli\<rparr>)"

text \<open>An entry \<open>browser\<close> or \<open>browser@os\<close>. The outer option is the panic of \<open>FingerprintProfile::new\<close>, which does not
  happen.\<close>

definition parse_profile_entry ::
  "(BrowserProfile \<Rightarrow> OsProfile \<Rightarrow> bytes option) \<Rightarrow> OsProfile \<Rightarrow> string \<Rightarrow> FingerprintProfile option option" where
  "parse_profile_entry load default_os entry =
     (let parts = split_on (CHR ''@'') entry
      in case parts of
           [] \<Rightarrow> Some None
         | b # rest \<Rightarrow>
             (case BrowserProfile_from_str b of
                None \<Rightarrow> Some None
              | Some br \<Rightarrow>
                  (case (case rest of [] \<Rightarrow> Some default_os | o' # _ \<Rightarrow> OsProfile_from_str o') of
                     None \<Rightarrow> Some None
                   | Some sys \<Rightarrow> do {
                       fp \<leftarrow> FingerprintProfile_new load br sys;
                       Some (if client_hello fp = None then None else Some fp) })))"

definition select_profiles ::
  "(BrowserProfile \<Rightarrow> OsProfile \<Rightarrow> bytes option) \<Rightarrow> Cli \<Rightarrow> FingerprintProfile list option" where
  "select_profiles load cli =
     (case cli_profile_seq cli of
        Some seq \<Rightarrow> do { ps \<leftarrow> omap (parse_profile_entry load (cli_os cli)) seq; Some (List.map_filter id ps) }
      | None \<Rightarrow> do { fp \<leftarrow> FingerprintProfile_new load (cli_profile cli) (cli_os cli); Some [fp] })"

text \<open>Whether the program goes on, and whether it starts the rotation task.\<close>

definition check_profiles :: "Cli \<Rightarrow> FingerprintProfile list \<Rightarrow> string + bool" where
  "check_profiles cli profiles =
     (if cli_profile_interval cli > 0 \<and> profiles = [] then Inl ''invalid profile sequence''
      else Inr (cli_profile_interval cli > 0 \<and> length profiles > 1))"

text \<open>One tick of the server's rotation task, which changes the settings for new connections.\<close>

definition rotate_settings :: "FingerprintProfile list \<Rightarrow> nat \<times> StealthConfig \<Rightarrow> (nat \<times> StealthConfig) option" where
  "rotate_settings profiles st =
     (case st of (i, s) \<Rightarrow> do {
        let i = (i + 1) mod length profiles;
        p \<leftarrow> idx profiles i;
        Some (i, s\<lparr>browser_profile := browser p, os_profile := os p\<rparr>) })"

subsection \<open>Event loops\<close>

text \<open>The inner loop that sends until there is nothing more; the result lists the datagrams.\<close>

partial_function (option) send_loop ::
  "platform \<Rightarrow> ('c, 'h, 's) api \<Rightarrow> bytes \<Rightarrow> ('c, 'h, 's) QuicFuscateConnection \<Rightarrow>
   (bytes list \<times> bytes \<times> ('c, 'h, 's) QuicFuscateConnection) option" where
  "send_loop pf api out c =
     Option.bind (Connection_send pf api out c) (\<lambda>(r, out, c).
       case r of
         Inl _ \<Rightarrow> Some ([], out, c)
       | Inr n \<Rightarrow>
           if n = 0 then Some ([], out, c)
           else Option.bind (slice out 0 n) (\<lambda>dg.
                  Option.bind (send_loop pf api out c) (\<lambda>(ds, out, c). Some (dg # ds, out, c))))"

datatype socket_read = Datagram bytes | WouldBlock | ReadError

record ('c, 'h, 's) Client =
  cl_conn :: "('c, 'h, 's) QuicFuscateConnection"
  request_sent :: bool
  cl_out :: bytes

text \<open>Before the loop the client sends the first packet; an error is ignored.\<close>

definition client_start ::
  "platform \<Rightarrow> ('c, 'h, 's) api \<Rightarrow> ('c, 'h, 's) QuicFuscateConnection \<Rightarrow> (bytes list \<times> ('c, 'h, 's) Client) option" where
  "client_start pf api c = do {
     (r, out, c) \<leftarrow> Connection_send pf api (replicate 65535 0) c;
     ds \<leftarrow> (case r of
             Inl _ \<Rightarrow> Some []
           | Inr n \<Rightarrow> if n = 0 then Some [] else map_option (\<lambda>dg. [dg]) (slice out 0 n));
     Some (ds, \<lparr>cl_conn = c, request_sent = False, cl_out = out\<rparr>) }"

text \<open>A round for one connection after its input: sending, then statistics and timers.\<close>

definition finish_round ::
  "platform \<Rightarrow> ('c, 'h, 's) api \<Rightarrow> clock \<Rightarrow> nat \<Rightarrow> bytes \<Rightarrow> ('c, 'h, 's) QuicFuscateConnection \<Rightarrow>
   (bytes list \<times> bytes \<times> ('c, 'h, 's) QuicFuscateConnection) option" where
  "finish_round pf api clk now out c = do {
     (ds, out, c) \<leftarrow> send_loop pf api out c;
     c \<leftarrow> update_state pf api clk now c;
     Some (ds, out, c\<lparr>conn := q_on_timeout api (conn c)\<rparr>) }"

definition client_round ::
  "platform \<Rightarrow> ('c, 'h, 's) api \<Rightarrow> string \<Rightarrow> clock \<Rightarrow> nat \<Rightarrow> socket_read \<Rightarrow> ('c, 'h, 's) Client \<Rightarrow>
   (bytes list \<times> ('c, 'h, 's) Client) option" where
  "client_round pf api path clk now input s =
     (if input = ReadError then Some ([], s)
      else do {
        c \<leftarrow> (case input of Datagram dat \<Rightarrow> map_option snd (Connection_recv pf api dat (cl_conn s)) | _ \<Rightarrow> Some (cl_conn s));
        let (sent, c) = (if q_is_established api (conn c) \<and> \<not> request_sent s
                         then (case send_http3_request api path c of (r, c) \<Rightarrow> (r = Inr (), c))
                         else (request_sent s, c));
        (_, c) \<leftarrow> poll_http3 api c;
        (ds, out, c) \<leftarrow> finish_round pf api clk now (cl_out s) c;
        Some (ds, \<lparr>cl_conn = c, request_sent = sent, cl_out = out\<rparr>) })"

text \<open>The server keeps one connection per peer address. The order of the list stands for the order in which the hash
  map is traversed.\<close>

type_synonym ('c, 'h, 's) clients = "(SocketAddr \<times> ('c, 'h, 's) QuicFuscateConnection) list"

definition put_client ::
  "SocketAddr \<Rightarrow> ('c, 'h, 's) QuicFuscateConnection \<Rightarrow> ('c, 'h, 's) clients \<Rightarrow> ('c, 'h, 's) clients" where
  "put_client a c cs =
     (if a \<in> fst ` set cs then map (\<lambda>(b, d). (b, if b = a then c else d)) cs else cs @ [(a, c)])"

record settings =
  srv_local :: SocketAddr
  srv_config :: "config_call list"
  srv_stealth :: StealthConfig
  srv_fec :: FecConfig
  srv_optimize :: OptimizeConfig

text \<open>\<open>entry(from).or_insert_with(..)\<close>: the connection of the peer, created when there is none; failing to create
  it is a panic.\<close>

definition client_for ::
  "platform \<Rightarrow> ('c, 'h, 's) api \<Rightarrow> settings \<Rightarrow> nat \<Rightarrow> SocketAddr \<Rightarrow> ('c, 'h, 's) clients \<Rightarrow>
   ('c, 'h, 's) QuicFuscateConnection option" where
  "client_for pf api st now from_addr cs =
     (case map_of cs from_addr of
        Some c \<Rightarrow> Some c
      | None \<Rightarrow>
          (case new_server pf api now (replicate 20 0) None (srv_local st) from_addr (srv_config st) (srv_stealth st) (srv_fec st)
                  (srv_optimize st) of
             Some (Inr (c, _)) \<Rightarrow> Some c
           | _ \<Rightarrow> None))"

definition server_receive ::
  "platform \<Rightarrow> ('c, 'h, 's) api \<Rightarrow> settings \<Rightarrow> nat \<Rightarrow> bytes \<Rightarrow> SocketAddr \<Rightarrow> ('c, 'h, 's) clients \<Rightarrow>
   (bool \<times> ('c, 'h, 's) clients) option" where
  "server_receive pf api st now dat from_addr cs = do {
     c \<leftarrow> client_for pf api st now from_addr cs;
     (r, c) \<leftarrow> Connection_recv pf api dat c;
     case r of
       Inl _ \<Rightarrow> Some (False, put_client from_addr c cs)
     | Inr _ \<Rightarrow> do {
         (_, c) \<leftarrow> poll_http3 api c;
         Some (True, put_client from_addr c cs) } }"

text \<open>The readings \<open>ts\<close> of the clocks are taken anew for every client.\<close>

primrec serve_all ::
  "platform \<Rightarrow> ('c, 'h, 's) api \<Rightarrow> (SocketAddr \<Rightarrow> clock \<times> nat) \<Rightarrow> ('c, 'h, 's) clients \<Rightarrow> bytes \<Rightarrow>
   ((SocketAddr \<times> bytes) list \<times> ('c, 'h, 's) clients \<times> bytes) option" where
  "serve_all pf api ts [] out = Some ([], [], out)"
| "serve_all pf api ts (e # cs) out = do {
     (ds, out, c) \<leftarrow> finish_round pf api (fst (ts (fst e))) (snd (ts (fst e))) out (snd e);
     (rest, cs, out) \<leftarrow> serve_all pf api ts cs out;
     Some (map (Pair (fst e)) ds @ rest, (fst e, c) # cs, out) }"

text \<open>A round: a datagram, if there is one; then every client; then closed connections are removed. A datagram that
  cannot be processed ends the round. Without a datagram the input is \<open>None\<close>; any other error of the socket leaves the
  loop, so there is no further round.\<close>

definition server_round ::
  "platform \<Rightarrow> ('c, 'h, 's) api \<Rightarrow> settings \<Rightarrow> (SocketAddr \<Rightarrow> clock \<times> nat) \<Rightarrow> nat \<Rightarrow> (bytes \<times> SocketAddr) option \<Rightarrow> ('c, 'h, 's) clients \<times> bytes \<Rightarrow>
   ((SocketAddr \<times> bytes) list \<times> ('c, 'h, 's) clients \<times> bytes) option" where
  "server_round pf api st ts now input s =
     (case s of (cs, out) \<Rightarrow> do {
        (ok, cs) \<leftarrow> (case input of None \<Rightarrow> Some (True, cs) | Some (dat, a) \<Rightarrow> server_receive pf api st now dat a cs);
        if \<not> ok then Some ([], cs, out)
        else do {
          (ds, cs, out) \<leftarrow> serve_all pf api ts cs out;
          Some (ds, filter (\<lambda>(a, c). \<not> q_is_closed api (conn c)) cs, out) } })"

definition shutdown :: "('c, 'h, 's) api \<Rightarrow> ('c, 'h, 's) clients \<Rightarrow> ('c, 'h, 's) clients" where
  "shutdown api cs = map (\<lambda>(a, c). (a, c\<lparr>conn := q_close api (conn c)\<rparr>)) cs"

subsection \<open>The loops keep every connection in its life cycle\<close>

lemma send_loop_reach:
  "send_loop pf api out c = Some y \<Longrightarrow> conn_reach pf api c \<Longrightarrow> conn_reach pf api (snd (snd y))"
proof (induction rule: send_loop.raw_induct [rotated, consumes 1, case_names step])
  case (step loop pf api out c y)
  obtain r out1 c1 where s: "Connection_send pf api out c = Some (r, out1, c1)"
    using step(2) by (auto simp: Option.bind_eq_Some_conv)
  have c1: "conn_reach pf api c1" using reach_send[OF step.prems s] .
  consider e where "r = Inl e" | "r = Inr 0" | n where "r = Inr n" "n \<noteq> 0" by (cases r) auto
  then show ?case
  proof cases
    case 3
    with step(2) s obtain z where "loop pf api out1 c1 = Some z" "snd (snd y) = snd (snd z)"
      by (auto simp: Option.bind_eq_Some_conv)
    then show ?thesis using step(1) c1 by metis
  qed (use step(2) s c1 in auto)
qed

lemma finish_round_reach:
  assumes "finish_round pf api clk now out c = Some (ds, out', c')" "conn_reach pf api c"
  shows "conn_reach pf api c'"
proof -
  obtain z c2 where z: "send_loop pf api out c = Some z" "update_state pf api clk now (snd (snd z)) = Some c2"
    "c' = c2\<lparr>conn := q_on_timeout api (conn c2)\<rparr>"
    using assms(1) by (auto simp: finish_round_def Option.bind_eq_Some_conv)
  show ?thesis
    unfolding z(3) using reach_update[OF send_loop_reach[OF z(1) assms(2)] z(2)] by (rule reach_quiche)
qed

lemma client_start_reach:
  assumes "conn_reach pf api c" "client_start pf api c = Some (ds, s)"
  shows "conn_reach pf api (cl_conn s)"
  using assms reach_send by (fastforce simp: client_start_def Option.bind_eq_Some_conv)

lemma client_round_reach:
  assumes "conn_reach pf api (cl_conn s)" "client_round pf api path clk now input s = Some (ds, s')"
  shows "conn_reach pf api (cl_conn s')"
proof (cases "input = ReadError")
  case False
  let ?recv = "case input of Datagram dat \<Rightarrow> map_option snd (Connection_recv pf api dat (cl_conn s)) | _ \<Rightarrow> Some (cl_conn s)"
  let ?req = "\<lambda>c. if q_is_established api (conn c) \<and> \<not> request_sent s
      then (case send_http3_request api path c of (r, c) \<Rightarrow> (r = Inr (), c)) else (request_sent s, c)"
  from False assms(2) obtain c r c2 out c3 where c: "?recv = Some c" "poll_http3 api (snd (?req c)) = Some (r, c2)"
    "finish_round pf api clk now (cl_out s) c2 = Some (ds, out, c3)" "cl_conn s' = c3"
    by (auto simp: client_round_def Option.bind_eq_Some_conv Let_def case_prod_beta)
  have "conn_reach pf api c" using c(1) assms(1) reach_recv by (fastforce split: socket_read.splits)
  then have "conn_reach pf api (snd (?req c))" using reach_request[of pf api c path] by (simp add: case_prod_beta)
  then show ?thesis using c(2-4) reach_poll finish_round_reach by blast
qed (use assms in \<open>auto simp: client_round_def\<close>)

text \<open>A table of clients: one entry per address, every connection in its life cycle.\<close>

definition clients_ok :: "platform \<Rightarrow> ('c, 'h, 's) api \<Rightarrow> ('c, 'h, 's) clients \<Rightarrow> bool" where
  "clients_ok pf api cs \<longleftrightarrow> distinct (map fst cs) \<and> list_all (\<lambda>e. conn_reach pf api (snd e)) cs"

lemma put_client_fst: "map fst (put_client a c cs) = (if a \<in> fst ` set cs then map fst cs else map fst cs @ [a])"
  by (auto simp: put_client_def)

lemma put_client_ok: "clients_ok pf api cs \<Longrightarrow> conn_reach pf api c \<Longrightarrow> clients_ok pf api (put_client a c cs)"
  unfolding clients_ok_def put_client_fst by (auto simp: put_client_def list_all_iff)

lemma client_for_reach:
  assumes "clients_ok pf api cs" "config_ok (srv_fec st)" "client_for pf api st now a cs = Some c"
  shows "conn_reach pf api c"
proof (cases "map_of cs a")
  case None
  with assms(3) obtain g where "new_server pf api now (replicate 20 0) None (srv_local st) a (srv_config st) (srv_stealth st)
      (srv_fec st) (srv_optimize st) = Some (Inr (c, g))"
    by (auto simp: client_for_def split: option.splits sum.splits)
  then show ?thesis by (rule reach_server[OF assms(2)])
next
  case (Some d)
  then have "(a, d) \<in> set cs" by (rule map_of_SomeD)
  with Some assms(1,3) show ?thesis by (auto simp: client_for_def clients_ok_def list_all_iff)
qed

lemma server_receive_ok:
  assumes "clients_ok pf api cs" "config_ok (srv_fec st)" "server_receive pf api st now dat a cs = Some (ok, cs')"
  shows "clients_ok pf api cs' \<and> fst ` set cs' = insert a (fst ` set cs)"
proof -
  obtain c r c1 where c: "client_for pf api st now a cs = Some c" "Connection_recv pf api dat c = Some (r, c1)"
    using assms(3) by (auto simp: server_receive_def Option.bind_eq_Some_conv)
  have r: "conn_reach pf api c1" using reach_recv[OF client_for_reach[OF assms(1,2) c(1)] c(2)] .
  obtain c2 where c2: "cs' = put_client a c2 cs" "conn_reach pf api c2"
    using assms(3) c r by (cases r) (auto simp: server_receive_def Option.bind_eq_Some_conv intro: reach_poll)
  have "set (map fst cs') = insert a (fst ` set cs)" unfolding c2(1) put_client_fst by auto
  with c2 put_client_ok[OF assms(1) c2(2), of a] show ?thesis by simp
qed

lemma serve_all_ok:
  "serve_all pf api ts cs out = Some (ds, cs', out') \<Longrightarrow> list_all (\<lambda>e. conn_reach pf api (snd e)) cs \<Longrightarrow>
   map fst cs' = map fst cs \<and> list_all (\<lambda>e. conn_reach pf api (snd e)) cs' \<and> fst ` set ds \<subseteq> fst ` set cs"
proof (induction cs arbitrary: out ds cs' out')
  case (Cons e cs)
  obtain ds1 out1 c rest cs1 out2 where s: "finish_round pf api (fst (ts (fst e))) (snd (ts (fst e))) out (snd e) = Some (ds1, out1, c)"
    "serve_all pf api ts cs out1 = Some (rest, cs1, out2)" "ds = map (Pair (fst e)) ds1 @ rest" "cs' = (fst e, c) # cs1"
    using Cons.prems(1) by (auto simp: Option.bind_eq_Some_conv)
  have "conn_reach pf api c" using finish_round_reach[OF s(1)] Cons.prems(2) by simp
  with Cons.IH[OF s(2)] Cons.prems(2) s(3,4) show ?case by auto
qed simp

subsection \<open>Properties\<close>

text \<open>A round of the server keeps the table of clients well-formed: one connection per peer address, each in
  a state of its life cycle (so that the invariant of connections holds for it). Datagrams are only sent to peers in the
  table, only the sender of the received datagram can be new, and a round without a datagram leaves no closed
  connection.\<close>

lemma server_round_invariant:
  assumes "clients_ok pf api cs" "config_ok (srv_fec st)" "server_round pf api st ts now input (cs, out) = Some (ds, cs', out')"
  shows "clients_ok pf api cs' \<and>
         fst ` set cs' \<subseteq> fst ` set cs \<union> (case input of None \<Rightarrow> {} | Some (dat, a) \<Rightarrow> {a}) \<and>
         fst ` set ds \<subseteq> fst ` set cs \<union> (case input of None \<Rightarrow> {} | Some (dat, a) \<Rightarrow> {a}) \<and>
         (input = None \<longrightarrow> list_all (\<lambda>e. \<not> q_is_closed api (conn (snd e))) cs')"
proof -
  define new where "new = (case input of None \<Rightarrow> {} | Some (dat, a) \<Rightarrow> {a})"
  obtain ok cs1 where r: "(case input of None \<Rightarrow> Some (True, cs) | Some (dat, a) \<Rightarrow> server_receive pf api st now dat a cs) = Some (ok, cs1)"
    using assms(3) by (auto simp: server_round_def Option.bind_eq_Some_conv)
  have cs1: "clients_ok pf api cs1" "fst ` set cs1 = fst ` set cs \<union> new" "input = None \<Longrightarrow> ok"
  proof (atomize (full), cases input)
    case (Some x)
    obtain dat a where x: "x = (dat, a)" by (rule prod.exhaust)
    then have "server_receive pf api st now dat a cs = Some (ok, cs1)" using Some r by simp
    from server_receive_ok[OF assms(1,2) this] Some x
    show "clients_ok pf api cs1 \<and> fst ` set cs1 = fst ` set cs \<union> new \<and> (input = None \<longrightarrow> ok)" by (simp add: new_def)
  qed (use r assms(1) in \<open>simp add: new_def\<close>)
  have cut: "server_round pf api st ts now input (cs, out) =
      (if \<not> ok then Some ([], cs1, out)
       else do { (ds, cs, out) \<leftarrow> serve_all pf api ts cs1 out;
                 Some (ds, filter (\<lambda>(a, c). \<not> q_is_closed api (conn c)) cs, out) })"
    using r by (simp add: server_round_def)
  show ?thesis
  proof (cases ok)
    case False
    then have "ds = []" "cs' = cs1" using assms(3) unfolding cut by auto
    then have "clients_ok pf api cs'" "fst ` set cs' \<subseteq> fst ` set cs \<union> new" "fst ` set ds \<subseteq> fst ` set cs \<union> new"
      using cs1(1,2) by simp_all
    moreover have "input = None \<longrightarrow> list_all (\<lambda>e. \<not> q_is_closed api (conn (snd e))) cs'" using False cs1(3) by blast
    ultimately show ?thesis unfolding new_def by blast
  next
    case True
    with assms(3) obtain cs2 where s: "serve_all pf api ts cs1 out = Some (ds, cs2, out')"
      "cs' = filter (\<lambda>(a, c). \<not> q_is_closed api (conn c)) cs2"
      unfolding cut by (auto simp: Option.bind_eq_Some_conv)
    have cs2: "map fst cs2 = map fst cs1" "list_all (\<lambda>e. conn_reach pf api (snd e)) cs2" "fst ` set ds \<subseteq> fst ` set cs1"
      using serve_all_ok[OF s(1)] cs1(1) by (simp_all add: clients_ok_def)
    have "distinct (map fst cs')" unfolding s(2) using cs2(1) cs1(1) by (simp add: clients_ok_def distinct_map_filter)
    then have "clients_ok pf api cs'" using cs2(2) by (auto simp: clients_ok_def s(2) list_all_iff)
    moreover have "fst ` set cs' \<subseteq> fst ` set cs1"
    proof -
      have "fst ` set cs' \<subseteq> fst ` set cs2" unfolding s(2) by (intro image_mono) (simp add: filter_is_subset)
      also have "\<dots> = fst ` set cs1" using arg_cong[OF cs2(1), of set] by simp
      finally show ?thesis .
    qed
    moreover have "list_all (\<lambda>e. \<not> q_is_closed api (conn (snd e))) cs'" by (auto simp: s(2) list_all_iff)
    moreover have "fst ` set ds \<subseteq> fst ` set cs \<union> new" using cs2(3) cs1(2) by blast
    ultimately show ?thesis using cs1(2) unfolding new_def by blast
  qed
qed

text \<open>With a configuration file given, the settings the file makes for the stealth layer are overwritten by the
  command line, also by its defaults: what is left of the file is the use of FakeTLS, the QPACK flag and the list of
  CDN providers.\<close>

lemma file_settings_overridden:
  "apply_cli cli s = apply_cli cli s' \<longleftrightarrow>
     use_fake_tls s = use_fake_tls s' \<and> use_qpack_headers s = use_qpack_headers s' \<and> cdn_providers s = cdn_providers s'"
  by (cases s; cases s') (auto simp: apply_cli_def)

text \<open>Reading a configuration never fails once the file is read: a section that does not parse is replaced by its
  defaults. Validation accepts a configuration exactly when its three parts are valid.\<close>

lemma app_config_total:
  "\<exists>c. AppConfig_from_toml ps s = Inr c \<and>
     (\<forall>e. parse_fec ps s = Inl e \<longrightarrow> app_fec c = FecConfig_default) \<and>
     (\<forall>e. parse_stealth ps s = Inl e \<longrightarrow> app_stealth c = StealthConfig_default) \<and>
     (\<forall>e. parse_optimize ps s = Inl e \<longrightarrow> app_optimize c = OptimizeConfig_default)"
  by (auto simp: AppConfig_from_toml_def FecConfig_from_toml_def StealthConfig_from_toml_def OptimizeConfig_from_toml_def result_or_def)

lemma AppConfig_validate_iff:
  "AppConfig_validate c = Inr () \<longleftrightarrow> FecConfig_validate (app_fec c) = Inr () \<and>
     StealthConfig_validate (app_stealth c) = Inr () \<and> OptimizeConfig_validate (app_optimize c) = Inr ()"
  by (auto simp: AppConfig_validate_def split: sum.split)

text \<open>An entry of \<open>--profile-seq\<close> names a profile that has a recorded ClientHello.\<close>

lemma profile_entry_parts:
  "split_on (CHR ''@'') (browser_name b @ CHR ''@'' # os_name o') = [browser_name b, os_name o']"
  "split_on (CHR ''@'') (browser_name b) = [browser_name b]"
proof -
  have b: "CHR ''@'' \<notin> set (browser_name b)" and o': "CHR ''@'' \<notin> set (os_name o')" by (cases b; simp) (cases o'; simp)
  show "split_on (CHR ''@'') (browser_name b @ CHR ''@'' # os_name o') = [browser_name b, os_name o']"
    using split_on_append[OF b] split_on_no_delim[OF o'] by simp
  show "split_on (CHR ''@'') (browser_name b) = [browser_name b]" using split_on_no_delim[OF b] .
qed

lemma names_parse: "BrowserProfile_from_str (browser_name b) = Some b" "OsProfile_from_str (os_name o') = Some o'"
  by (cases b; hypsubst; code_simp) (cases o'; hypsubst; code_simp)

lemma parse_profile_entry_spec:
  assumes "FingerprintProfile_new load b o' = Some fp"
  shows "parse_profile_entry load d (browser_name b @ ''@'' @ os_name o') = Some (if client_hello fp = None then None else Some fp)"
    "d = o' \<Longrightarrow> parse_profile_entry load d (browser_name b) = Some (if client_hello fp = None then None else Some fp)"
  using assms by (simp_all add: parse_profile_entry_def profile_entry_parts names_parse)

end
