(* ===== verification/Block_Integrity.thy ===== *)
theory Block_Integrity
  imports Connection_Properties
begin

text \<open>
  Every block stays what it was: whatever a connection does, the blocks in its pool, in the packets of its queue
  and in its codecs have the size the pool was created with, so that a block taken from the pool always
  fits and nothing else is ever put back. Of quiche and the sockets this needs only that they leave the length of the
  buffer they are given alone.
\<close>

subsection \<open>Pools and packets of one block size\<close>

definition pool_of :: "nat \<Rightarrow> MemoryPool \<Rightarrow> bool" where
  "pool_of bs p \<longleftrightarrow> pool_ok p \<and> block_size p = bs"

definition sized :: "nat \<Rightarrow> Packet \<Rightarrow> bool" where
  "sized bs pk \<longleftrightarrow> pred_option (\<lambda>b. length b = bs) (data pk) \<and> pred_option (\<lambda>b. length b = bs) (coefficients pk)"

lemma alloc_of: "alloc nd p = Some (b, p') \<Longrightarrow> pool_of bs p \<Longrightarrow> length b = bs \<and> pool_of bs p'"
  using pool.al_ok[of p nd] by (auto simp: pool_of_def)

lemma free_of [inv_intros]: "pool_of bs p \<Longrightarrow> length b = bs \<Longrightarrow> pool_of bs (free nd b p)"
  using pool.fr_ok[of p b nd] by (simp add: pool_of_def)

lemma copy_at_length: "copy_at b i j src = Some b' \<Longrightarrow> length b' = length b"
  by (auto simp: copy_at_def split: if_splits)

lemma set_idx_length: "set_idx xs i v = Some ys \<Longrightarrow> length ys = length xs"
  by (auto simp: set_idx_def split: if_splits)

lemma alloc_filled_of: "alloc_filled (alloc nd) n src p = Some (b, p') \<Longrightarrow> pool_of bs p \<Longrightarrow> length b = bs \<and> pool_of bs p'"
  by (auto simp: alloc_filled_def Option.bind_eq_Some_conv dest!: alloc_of copy_at_length)

lemma drop_packet_of [inv_intros]: "pool_of bs p \<Longrightarrow> sized bs pk \<Longrightarrow> pool_of bs (drop_packet nd pk p)"
  by (auto simp: sized_def drop_packet_def free_opt_def intro!: free_of split: option.splits)

lemma drop_packets_of [inv_intros]: "pool_of bs p \<Longrightarrow> list_all (sized bs) pks \<Longrightarrow> pool_of bs (drop_packets nd pks p)"
  unfolding drop_packets_def by (induction pks arbitrary: p) (auto intro: drop_packet_of)

lemma sized_recovered [simp]: "sized bs (recovered i b n) \<longleftrightarrow> length b = bs"
  by (simp add: sized_def recovered_def)

text \<open>A fold that may panic keeps what each of its steps keeps.\<close>

lemma ofold_keeps:
  "ofold f xs s = Some s' \<Longrightarrow> P s \<Longrightarrow> (\<And>x s s'. x \<in> set xs \<Longrightarrow> f x s = Some s' \<Longrightarrow> P s \<Longrightarrow> P s') \<Longrightarrow> P s'"
  by (induction xs arbitrary: s) (auto simp: Option.bind_eq_Some_conv)

lemma loop2_keeps:
  "loop2 upd j n s = Some s' \<Longrightarrow> P s \<Longrightarrow> (\<And>j s s'. upd j s = Some s' \<Longrightarrow> P s \<Longrightarrow> P s') \<Longrightarrow> P s'"
proof (induction upd j n s rule: loop2.induct)
  case (1 upd j n s)
  then show ?case by (subst (asm) loop2.simps) (auto simp: Option.bind_eq_Some_conv split: if_splits)
qed

subsection \<open>The encoders\<close>

lemma clone_of:
  "clone_for_encoder nd pk p = Some (c, p') \<Longrightarrow> pool_of bs p \<Longrightarrow> sized bs c \<and> pool_of bs p'"
  by (cases "data pk"; cases "coefficients pk")
     (auto simp: clone_for_encoder_def sized_def Option.bind_eq_Some_conv
       dest!: copy_at_length dest: alloc_of[where bs = bs])

definition enc_sized :: "nat \<Rightarrow> EncoderVariant \<Rightarrow> bool" where
  "enc_sized bs e = list_all (sized bs) (variant_window e)"

lemma variant_add_of:
  assumes "EncoderVariant_add_source_packet nd pk (e, p) = (e', p')" "enc_sized bs e" "sized bs pk" "pool_of bs p"
  shows "enc_sized bs e' \<and> pool_of bs p'"
  using assms
  by (cases e)
     (auto simp: enc_sized_def Encoder_add_source_packet_def Encoder16_add_source_packet_def Let_def apfst_def map_prod_def
       intro: drop_packet_of split: if_splits list.splits)

lemma feed_of:
  "feed nd pk e p = Some (e', p') \<Longrightarrow> enc_sized bs e \<Longrightarrow> pool_of bs p \<Longrightarrow> enc_sized bs e' \<and> pool_of bs p'"
  by (auto simp: feed_def Option.bind_eq_Some_conv dest!: clone_of variant_add_of)

lemma encode_window_length:
  assumes "encode_window g cs n ws rd = Some rd'"
  shows "length rd' = length rd"
  using assms unfolding encode_window_def
proof (rule ofold_keeps[where P = "\<lambda>x. length x = length rd"])
  fix x s s'
  assume "(case x of (i, source_packet) \<Rightarrow> \<lambda>rd. do {
         coeff \<leftarrow> idx cs i;
         if coeff = 0 then Some rd
         else do {
           d \<leftarrow> data source_packet;
           source_data \<leftarrow> slice d 0 (len source_packet);
           encode_source g coeff source_data n rd } }) s = Some s'" and s: "length s = length rd"
  then have "s' = s \<or> (\<exists>c sd. encode_source g c sd n s = Some s')"
    by (auto simp: Option.bind_eq_Some_conv split: prod.splits if_splits)
  then show "length s' = length rd"
  proof
    assume "\<exists>c sd. encode_source g c sd n s = Some s'"
    then obtain c sd where "ofold (\<lambda>j rd. do { s \<leftarrow> idx sd j; r \<leftarrow> idx rd j; set_idx rd j (gf_mul_add g c s r) }) [0..<n] s = Some s'"
      by (auto simp: encode_source_def unrolled4_eq_ofold)
    then show ?thesis
      by (rule ofold_keeps) (use s in \<open>auto simp: Option.bind_eq_Some_conv dest!: set_idx_length\<close>)
  qed (use s in simp)
qed simp

lemma write16_length: "write16 b j v = Some b' \<Longrightarrow> length b' = length b"
  by (auto simp: write16_def Option.bind_eq_Some_conv dest!: set_idx_length)

lemma mul_add16_length:
  assumes "mul_add16 c src n dst = Some dst'"
  shows "length dst' = length dst"
  using assms unfolding mul_add16_def
  by (rule loop2_keeps) (auto simp: Option.bind_eq_Some_conv dest!: write16_length)

lemma encode_window16_length:
  assumes "encode_window16 cs n ws rd = Some rd'"
  shows "length rd' = length rd"
  using assms unfolding encode_window16_def
  by (rule ofold_keeps) (auto simp: Option.bind_eq_Some_conv dest!: mul_add16_length split: if_splits)

lemma write_coeffs16_length:
  assumes "write_coeffs16 cs b = Some b'"
  shows "length b' = length b"
  using assms unfolding write_coeffs16_def by (rule ofold_keeps) (auto dest!: write16_length)

lemma repair_of:
  assumes "EncoderVariant_generate_repair_packet g nd e i p = Some (r, p')" "pool_of bs p"
  shows "pred_option (sized bs) r \<and> pool_of bs p'"
proof (cases e)
  case (EncG8 e8)
  with assms show ?thesis
    by (auto simp: Encoder_generate_repair_packet_def Let_def Option.bind_eq_Some_conv sized_def
        dest!: alloc_of alloc_filled_of encode_window_length split: if_splits)
next
  case (EncG16 e16)
  with assms show ?thesis
    by (auto simp: Encoder16_generate_repair_packet_def Let_def Option.bind_eq_Some_conv sized_def
        dest!: alloc_of encode_window16_length write_coeffs16_length split: if_splits)
qed

lemma emit_of:
  assumes "emit_repairs g nd e (p, q) = Some (p', q')" "pool_of bs p" "list_all (sized bs) q"
  shows "pool_of bs p' \<and> list_all (sized bs) q'"
proof -
  let ?P = "\<lambda>s. pool_of bs (fst s) \<and> list_all (sized bs) (snd s)"
  have "ofold (\<lambda>i (p, q). do {
           (r, p) \<leftarrow> EncoderVariant_generate_repair_packet g nd e i p;
           Some (p, q @ (case r of None \<Rightarrow> [] | Some pk \<Rightarrow> [pk])) })
         [0..<snd (encoder_params e) - fst (encoder_params e)] (p, q) = Some (p', q')"
    using assms(1) by (simp add: emit_repairs_def Let_def case_prod_beta)
  then have "?P (p', q')"
    by (rule ofold_keeps[where P = ?P])
       (use assms(2,3) in \<open>auto simp: Option.bind_eq_Some_conv dest!: repair_of split: option.splits\<close>)
  then show ?thesis by simp
qed

subsection \<open>The decoders\<close>

lemma set_idx_all: "set_idx xs i v = Some ys \<Longrightarrow> list_all P xs \<Longrightarrow> P v \<Longrightarrow> list_all P ys"
  by (auto simp: set_idx_def list_all_length nth_list_update split: if_splits)

lemma idx_all: "idx xs i = Some v \<Longrightarrow> list_all P xs \<Longrightarrow> P v"
  by (auto simp: idx_def list_all_length split: if_splits)

abbreviation sps_sized :: "nat \<Rightarrow> Packet option list \<Rightarrow> bool" where
  "sps_sized bs \<equiv> list_all (pred_option (sized bs))"

lemma reconstruct_of:
  assumes "reconstruct nd m i (sps, p) = Some (sps', p')" "sps_sized bs sps" "pool_of bs p"
  shows "sps_sized bs sps' \<and> pool_of bs p'"
  using assms
  by (auto simp: reconstruct_def Option.bind_eq_Some_conv dest!: alloc_filled_of[where bs = bs] elim!: set_idx_all split: option.splits)

lemma wiedemann_reconstruct_of:
  assumes "wiedemann_reconstruct nd n ir (sps, p) = Some (sps', p')" "sps_sized bs sps" "pool_of bs p"
  shows "sps_sized bs sps' \<and> pool_of bs p'"
proof -
  obtain i row where ir: "ir = (i, row)" by fastforce
  have "length b' = length b" if "ofold (\<lambda>(j, v) pd. set_idx pd j v) (List.enumerate 0 row) b = Some b'" for b b'
    using that by (rule ofold_keeps) (auto dest: set_idx_length)
  with assms show ?thesis
    by (auto simp: ir wiedemann_reconstruct_def Option.bind_eq_Some_conv dest!: alloc_of[where bs = bs] elim!: set_idx_all
        split: option.splits)
qed

lemma reconstruct_all_of:
  assumes "ofold f xs (sps, p) = Some (sps', p')" "sps_sized bs sps" "pool_of bs p"
    and "\<And>x sps p sps' p'. f x (sps, p) = Some (sps', p') \<Longrightarrow> sps_sized bs sps \<Longrightarrow> pool_of bs p \<Longrightarrow>
      sps_sized bs sps' \<and> pool_of bs p'"
  shows "sps_sized bs sps' \<and> pool_of bs p'"
proof -
  have "sps_sized bs (fst (sps', p')) \<and> pool_of bs (snd (sps', p'))"
    using assms(1) by (rule ofold_keeps[where P = "\<lambda>s. sps_sized bs (fst s) \<and> pool_of bs (snd s)"])
      (use assms(2,3) assms(4) in \<open>auto split: prod.splits\<close>)
  then show ?thesis by simp
qed

lemmas reconstruct_loop_of = reconstruct_all_of[of "reconstruct nd m" for nd m, OF _ _ _ reconstruct_of]
lemmas wiedemann_loop_of = reconstruct_all_of[of "wiedemann_reconstruct nd n" for nd n, OF _ _ _ wiedemann_reconstruct_of]

lemma try_decode_of:
  assumes "try_decode g nd d p = Some (b, d', p')" "sps_sized bs (systematic_packets d)" "pool_of bs p"
  shows "sps_sized bs (systematic_packets d') \<and> pool_of bs p'"
proof -
  have g: "sps_sized bs (systematic_packets d') \<and> pool_of bs p'" if "gaussian_elimination g nd d p = Some (b, d', p')"
    using that assms(2,3)
    by (auto simp: gaussian_elimination_def Option.bind_eq_Some_conv Let_def dest: reconstruct_loop_of[where bs = bs] split: if_splits)
  have w: "sps_sized bs (systematic_packets d') \<and> pool_of bs p'" if "wiedemann_algorithm g nd d p = Some (b, d', p')"
    using that assms(2,3)
    by (auto simp: wiedemann_algorithm_def Option.bind_eq_Some_conv Let_def dest: wiedemann_loop_of[where bs = bs] split: if_splits)
  show ?thesis
    using assms g w by (auto simp: try_decode_def split: if_splits DecodingStrategy.splits)
qed

lemma add_packet_of:
  assumes "Decoder_add_packet g nd pk d p = Some (r, d', p')" "sps_sized bs (systematic_packets d)" "sized bs pk" "pool_of bs p"
  shows "sps_sized bs (systematic_packets d') \<and> pool_of bs p'"
proof (cases "is_decoded d \<or> num_rows (decoding_matrix d) \<ge> dec_k d")
  case True
  with assms show ?thesis by (auto simp: Decoder_add_packet_def intro: drop_packet_of)
next
  case False
  note d = assms(1)[unfolded Decoder_add_packet_def, simplified False if_False]
  show ?thesis
  proof (cases "is_systematic pk")
    case True
    with d obtain sp where sp: "idx (systematic_packets d) (unat (pid pk) mod dec_k d) = Some sp"
      by (auto simp: Option.bind_eq_Some_conv Let_def)
    show ?thesis
    proof (cases sp)
      case None
      with d True sp obtain row sps b where s: "set_idx (systematic_packets d) (unat (pid pk) mod dec_k d) (Some pk) = Some sps"
        "try_decode g nd (d\<lparr>systematic_packets := sps, decoding_matrix := append_row row None (decoding_matrix d)\<rparr>) p = Some (b, d', p')"
        by (auto simp: Option.bind_eq_Some_conv Let_def)
      have "sps_sized bs sps" using set_idx_all[OF s(1) assms(2)] assms(3) by simp
      with try_decode_of[OF s(2), of bs] assms(4) show ?thesis by simp
    next
      case (Some x)
      with d True sp assms(2-4) show ?thesis
        by (auto simp: Option.bind_eq_Some_conv Let_def intro: drop_packet_of)
    qed
  next
    case F: False
    show ?thesis
    proof (cases "coefficients pk")
      case None
      with d F assms(2-4) show ?thesis by (auto intro: drop_packet_of)
    next
      case (Some c)
      with d F obtain row b where
        "try_decode g nd (d\<lparr>decoding_matrix := append_row row (data pk) (decoding_matrix d)\<rparr>) p = Some (b, d', p')"
        by (auto simp: Option.bind_eq_Some_conv)
      from try_decode_of[OF this, of bs] assms(2,4) show ?thesis by simp
    qed
  qed
qed

abbreviation pays_sized :: "nat \<Rightarrow> block option list \<Rightarrow> bool" where
  "pays_sized bs \<equiv> list_all (pred_option (\<lambda>b. length b = bs))"

lemma vec_swap_all: "vec_swap i j xs = Some ys \<Longrightarrow> list_all P xs \<Longrightarrow> list_all P ys"
  by (auto simp: vec_swap_def Option.bind_eq_Some_conv idx_eq_Some_iff list_all_length nth_list_update)

lemma scale_payload16_length:
  assumes "scale_payload16 v b = Some b'"
  shows "length b' = length b"
  using assms unfolding scale_payload16_def
  by (rule loop2_keeps) (auto simp: Option.bind_eq_Some_conv dest!: write16_length)

lemma eliminate_row16_of:
  assumes "eliminate_row16 k i r (m, ps) = Some (m', ps')" "pays_sized bs ps"
  shows "pays_sized bs ps'"
proof -
  have "ps' = ps \<or> (\<exists>f s t t'. idx ps r = Some (Some t) \<and> mul_add16 f s (length s) t = Some t' \<and> set_idx ps r (Some t') = Some ps')"
    using assms(1)
    by (cases "the (idx ps i)"; cases "the (idx ps r)") (auto simp: eliminate_row16_def Option.bind_eq_Some_conv split: if_splits)
  with assms(2) show ?thesis
    by (auto dest!: mul_add16_length idx_all[OF _ assms(2)] elim!: set_idx_all)
qed

lemma gauss_step16_of:
  assumes "gauss_step16 k i (m, ps) = Some (ok, m', ps')" "pays_sized bs ps"
  shows "pays_sized bs ps'"
proof -
  obtain pivot where pivot: "find_pivot16 m k i i = Some pivot"
    using assms(1) by (auto simp: gauss_step16_def Option.bind_eq_Some_conv)
  show ?thesis
  proof (cases "pivot = k")
    case True
    with assms pivot show ?thesis by (simp add: gauss_step16_def)
  next
    case False
    with assms(1) pivot obtain m1 ps1 v pay ps2 m2 where s: "vec_swap i pivot ps = Some ps1" "idx ps1 i = Some pay"
      "(case pay of None \<Rightarrow> Some ps1 | Some b \<Rightarrow> do { b \<leftarrow> scale_payload16 v b; set_idx ps1 i (Some b) }) = Some ps2"
      "ofold (eliminate_row16 k i) [0..<k] (m2, ps2) = Some (m', ps')"
      by (auto simp: gauss_step16_def Option.bind_eq_Some_conv)
    have ps1: "pays_sized bs ps1" using vec_swap_all[OF s(1) assms(2)] .
    then have "pays_sized bs ps2"
      using s(3) idx_all[OF s(2) ps1]
      by (cases pay) (auto simp: Option.bind_eq_Some_conv dest!: scale_payload16_length elim!: set_idx_all)
    then have "pays_sized bs (snd (m', ps'))"
      using ofold_keeps[where P = "\<lambda>s. pays_sized bs (snd s)", OF s(4)] eliminate_row16_of[of k i] by force
    then show ?thesis by simp
  qed
qed

lemma gauss_loop16_of:
  "gauss_loop16 k is (m, ps) = Some (ok, m', ps') \<Longrightarrow> pays_sized bs ps \<Longrightarrow> pays_sized bs ps'"
  by (induction "is" arbitrary: m ps) (auto simp: Option.bind_eq_Some_conv dest: gauss_step16_of split: if_splits)

lemma try_decode16_of:
  "Decoder16_try_decode d = Some (b, d') \<Longrightarrow> pays_sized bs (payloads16 d) \<Longrightarrow> pays_sized bs (payloads16 d')"
  by (auto simp: Decoder16_try_decode_def Let_def Option.bind_eq_Some_conv dest: gauss_loop16_of split: if_splits)

lemma add_packet16_of:
  assumes "Decoder16_add_packet nd pk d p = Some (r, d', p')" "pays_sized bs (payloads16 d)" "sized bs pk" "pool_of bs p"
  shows "pays_sized bs (payloads16 d') \<and> pool_of bs p'"
  using assms
  by (auto simp: Decoder16_add_packet_def Let_def Option.bind_eq_Some_conv sized_def[of bs pk] intro: drop_packet_of
      dest!: try_decode16_of[where bs = bs] split: if_splits option.splits)

fun dec_sized :: "nat \<Rightarrow> DecoderVariant \<Rightarrow> bool" where
  "dec_sized bs (DecG8 d) = sps_sized bs (systematic_packets d)"
| "dec_sized bs (DecG16 d) = pays_sized bs (payloads16 d)"

lemma variant_add_packet_of:
  "DecoderVariant_add_packet g nd pk d p = Some (r, d', p') \<Longrightarrow> dec_sized bs d \<Longrightarrow> sized bs pk \<Longrightarrow> pool_of bs p \<Longrightarrow>
   dec_sized bs d' \<and> pool_of bs p'"
  by (cases d) (auto dest: add_packet_of add_packet16_of)

lemma list_all_map_filter: "list_all (\<lambda>x. pred_option P (f x)) xs \<Longrightarrow> list_all P (List.map_filter f xs)"
  by (induction xs) (auto simp: map_filter_simps split: option.split)

lemma get_decoded_of:
  assumes "DecoderVariant_get_decoded_packets d = (pks, d')" "dec_sized bs d"
  shows "list_all (sized bs) pks \<and> dec_sized bs d'"
proof (cases d)
  case (DecG8 d8)
  with assms show ?thesis
    using list_all_map_filter[of "sized bs" id "systematic_packets d8"]
    by (auto simp: Decoder_get_decoded_packets_def apsnd_def map_prod_def list_all_length)
next
  case (DecG16 d16)
  have "list_all (\<lambda>x. pred_option (sized bs) (case x of (i, pay) \<Rightarrow> map_option (\<lambda>b. recovered i b (length b)) pay))
      (List.enumerate 0 (payloads16 d16))" if "pays_sized bs (payloads16 d16)"
    using that by (auto simp: list_all_length nth_enumerate_eq option.pred_map comp_def)
  with DecG16 assms list_all_map_filter[of "sized bs" "\<lambda>(i, pay). map_option (\<lambda>b. recovered i b (length b)) pay"] show ?thesis
    by (auto simp: Decoder16_get_decoded_packets_def apsnd_def map_prod_def list_all_length)
qed

lemma receive_with_of:
  assumes "receive_with g nd pk d p = Some (r, d', p')" "dec_sized bs d" "sized bs pk" "pool_of bs p"
  shows "dec_sized bs d' \<and> pool_of bs p' \<and> (\<forall>pks. r = Inr pks \<longrightarrow> list_all (sized bs) pks)"
proof -
  obtain r1 d1 p1 where a: "DecoderVariant_add_packet g nd pk d p = Some (r1, d1, p1)"
    using assms(1) by (auto simp: receive_with_def Option.bind_eq_Some_conv)
  note s = variant_add_packet_of[OF a assms(2-4)]
  obtain pks d2 where g: "DecoderVariant_get_decoded_packets d1 = (pks, d2)" by fastforce
  from get_decoded_of[OF g] s a assms(1) g show ?thesis
    by (cases r1) (auto simp: receive_with_def split: if_splits)
qed

subsection \<open>The adaptive layer\<close>

definition fec_sized :: "nat \<Rightarrow> AdaptiveFec \<Rightarrow> bool" where
  "fec_sized bs f \<longleftrightarrow> pool_of bs (mem_pool f) \<and> enc_sized bs (encoder f) \<and> pred_option (enc_sized bs) (transition_encoder f) \<and>
     dec_sized bs (decoder f) \<and> pred_option (dec_sized bs) (transition_decoder f)"

lemma drop_encoder_of [inv_intros]: "pool_of bs p \<Longrightarrow> pred_option (enc_sized bs) e \<Longrightarrow> pool_of bs (drop_encoder nd e p)"
  by (cases "(nd, e, p)" rule: drop_encoder.cases) (auto simp: enc_sized_def intro: drop_packets_of)

lemma drop_decoder_of [inv_intros]: "pool_of bs p \<Longrightarrow> pred_option (dec_sized bs) d \<Longrightarrow> pool_of bs (drop_decoder nd d p)"
  by (cases "(nd, d, p)" rule: drop_decoder.cases)
     (auto intro!: drop_packets_of list_all_map_filter)

lemma fade_step_of:
  "fec_sized bs (f\<lparr>mem_pool := p\<rparr>) \<Longrightarrow> fec_sized bs (fade_step nd p f)"
  by (auto simp: fec_sized_def fade_step_def Let_def intro: inv_intros)

lemma new_sized: "enc_sized bs (EncoderVariant_new mode k n)" "dec_sized bs (DecoderVariant_new mode k)"
  by (simp_all add: enc_sized_def EncoderVariant_new_def DecoderVariant_new_def Encoder_new_def Encoder16_new_def Decoder_new_def
      Decoder16_new_def list_all_length)

lemma on_send_of:
  assumes "on_send g nd pkt f q = Some (f', q')" "fec_sized bs f" "sized bs pkt" "list_all (sized bs) q"
  shows "fec_sized bs f' \<and> list_all (sized bs) q'"
proof -
  obtain te p0 where te: "(case transition_encoder f of None \<Rightarrow> Some (None, mem_pool f)
      | Some enc \<Rightarrow> do { (enc, p) \<leftarrow> feed nd pkt enc (mem_pool f); Some (Some enc, p) }) = Some (te, p0)"
    using assms(1) unfolding on_send_def Let_def by (auto simp: Option.bind_eq_Some_conv)
  have te_ok: "pred_option (enc_sized bs) te \<and> pool_of bs p0"
    using te assms(2) by (auto simp: fec_sized_def Option.bind_eq_Some_conv dest!: feed_of split: option.splits)
  obtain enc p1 where enc: "feed nd pkt (encoder f) p0 = Some (enc, p1)"
    using assms(1) unfolding on_send_def Let_def te by (auto simp: Option.bind_eq_Some_conv)
  have enc_ok: "enc_sized bs enc" "pool_of bs p1" using feed_of[OF enc] te_ok assms(2) by (auto simp: fec_sized_def)
  obtain p2 q2 p3 where q2: "(if transition_left f > CROSS_FADE_LEN div 2
      then (case te of None \<Rightarrow> Some (p1, q @ [pkt]) | Some tenc \<Rightarrow> emit_repairs g nd tenc (p1, q @ [pkt]))
      else Some (p1, q @ [pkt])) = Some (p2, q2)" "emit_repairs g nd enc (p2, q2) = Some (p3, q')"
    "f' = fade_step nd p3 (f\<lparr>transition_encoder := te, encoder := enc\<rparr>)"
    using assms(1) unfolding on_send_def Let_def te by (auto simp: enc Option.bind_eq_Some_conv)
  have "pool_of bs p2 \<and> list_all (sized bs) q2"
    using q2(1) enc_ok(2) assms(3,4) by (auto dest!: emit_of split: if_splits option.splits)
  with emit_of[OF q2(2)] have "pool_of bs p3" "list_all (sized bs) q'" by auto
  moreover from this te_ok enc_ok assms(2) have "fec_sized bs (f\<lparr>transition_encoder := te, encoder := enc, mem_pool := p3\<rparr>)"
    by (simp add: fec_sized_def)
  ultimately show ?thesis unfolding q2(3) by (blast intro: fade_step_of)
qed

lemma receive_transition_of:
  assumes "receive_transition g nd c td rec p = Some (r, td', p')" "pred_option (dec_sized bs) td" "pred_option (sized bs) c"
    "list_all (sized bs) rec" "pool_of bs p"
  shows "pred_option (dec_sized bs) td' \<and> pool_of bs p' \<and> (\<forall>pks. r = Inr pks \<longrightarrow> list_all (sized bs) pks)"
proof (cases "\<exists>d ck. td = Some d \<and> c = Some ck")
  case True
  then obtain d ck where d: "td = Some d" "c = Some ck" by blast
  with assms(1) obtain r1 d1 p1 where a: "receive_with g nd ck d p = Some (r1, d1, p1)"
    by (auto simp: receive_transition_def Option.bind_eq_Some_conv)
  from receive_with_of[OF a, of bs] a d assms show ?thesis
    by (cases r1) (auto simp: receive_transition_def intro: drop_packets_of)
next
  case False
  then have "r = Inr rec \<and> td' = td \<and> p' = drop_packets nd (case c of None \<Rightarrow> [] | Some c \<Rightarrow> [c]) p"
    using assms(1) by (cases td; cases c) (auto simp: receive_transition_def)
  moreover have "list_all (sized bs) (case c of None \<Rightarrow> [] | Some c \<Rightarrow> [c])" using assms(3) by (auto split: option.split)
  ultimately show ?thesis using assms by (auto intro: drop_packets_of)
qed

lemma on_receive_of:
  assumes "on_receive g nd pkt f = Some (r, f')" "fec_sized bs f" "sized bs pkt"
  shows "fec_sized bs f' \<and> (\<forall>pks. r = Inr pks \<longrightarrow> list_all (sized bs) pks)"
proof -
  obtain c p1 where c: "(if transition_left f > CROSS_FADE_LEN div 2
      then do { (c, p) \<leftarrow> clone_for_encoder nd pkt (mem_pool f); Some (Some c, p) } else Some (None, mem_pool f)) = Some (c, p1)"
    using assms(1) unfolding on_receive_def by (auto simp: Option.bind_eq_Some_conv split: if_splits)
  then have c_ok: "pred_option (sized bs) c" "pool_of bs p1"
    using assms(2) by (auto simp: fec_sized_def Option.bind_eq_Some_conv dest: clone_of split: if_splits)
  obtain r1 d p2 where w: "receive_with g nd pkt (decoder f) p1 = Some (r1, d, p2)"
    using assms(1) unfolding on_receive_def c by (auto simp: Option.bind_eq_Some_conv)
  have w_ok: "dec_sized bs d" "pool_of bs p2" "\<forall>pks. r1 = Inr pks \<longrightarrow> list_all (sized bs) pks"
    using receive_with_of[OF w _ assms(3) c_ok(2)] assms(2) by (auto simp: fec_sized_def)
  have cl: "list_all (sized bs) (case c of None \<Rightarrow> [] | Some c \<Rightarrow> [c])" using c_ok(1) by (auto split: option.split)
  show ?thesis
  proof (cases r1)
    case (Inl e)
    then have "r = Inl e" "f' = f\<lparr>decoder := d, mem_pool := drop_packets nd (case c of None \<Rightarrow> [] | Some c \<Rightarrow> [c]) p2\<rparr>"
      using assms(1) unfolding on_receive_def c by (auto simp: w)
    then show ?thesis using w_ok assms(2) cl by (auto simp: fec_sized_def intro: drop_packets_of)
  next
    case (Inr rec)
    then obtain td p3 where t: "receive_transition g nd c (transition_decoder f) rec p2 = Some (r, td, p3)"
      "f' = f\<lparr>decoder := d, transition_decoder := td, mem_pool := p3\<rparr>"
      using assms(1) unfolding on_receive_def c by (auto simp: w Option.bind_eq_Some_conv)
    from receive_transition_of[OF t(1) _ c_ok(1) _ w_ok(2)] Inr w_ok assms(2) show ?thesis
      by (auto simp: t(2) fec_sized_def)
  qed
qed

lemma report_loss_of:
  assumes "AdaptiveFec_report_loss nd clk lost tot f = Some f'" "fec_sized bs f"
  shows "fec_sized bs f'"
proof -
  obtain est mode w prev mgr where "ModeManager_update clk (get_estimated_loss est) (mode_mgr f) = Some ((mode, w, prev), mgr)"
    "LossEstimator_report_loss lost tot (estimator f) = Some est"
    using assms(1) by (auto simp: AdaptiveFec_report_loss_def Option.bind_eq_Some_conv)
  with assms show ?thesis
    by (cases prev)
       (auto simp: AdaptiveFec_report_loss_def case_prod_beta Let_def fec_sized_def new_sized intro!: drop_decoder_of drop_encoder_of)
qed

lemma fec_new_of: "pool_of bs p \<Longrightarrow> fec_sized bs (fst (AdaptiveFec_new now cfg p g))"
  by (simp add: AdaptiveFec_new_def Let_def case_prod_beta fec_sized_def new_sized)

subsection \<open>Connections\<close>

text \<open>What a connection needs of quiche and its sockets: a buffer keeps its length.\<close>

definition keeps_buffers :: "('c, 'h, 's) api \<Rightarrow> bool" where
  "keeps_buffers api \<longleftrightarrow> (\<forall>b cn. length (fst (snd (q_send api b cn))) = length b) \<and>
     (\<forall>b s. length (fst (snd (xdp_recv api b s))) = length b)"

definition conn_sized :: "nat \<Rightarrow> ('c, 'h, 's) QuicFuscateConnection \<Rightarrow> bool" where
  "conn_sized bs c \<longleftrightarrow> fec_sized bs (fec c) \<and> mem_pool (fec c) = memory_pool (optimization_manager c) \<and>
     list_all (sized bs) (outgoing_fec_packets c)"

lemma conn_sized_update [simp]:
  "conn_sized bs (c\<lparr>conn := cn\<rparr>) = conn_sized bs c" "conn_sized bs (c\<lparr>stealth_manager := sm\<rparr>) = conn_sized bs c"
  "conn_sized bs (c\<lparr>packet_id_counter := i\<rparr>) = conn_sized bs c" "conn_sized bs (c\<lparr>xdp_socket := x\<rparr>) = conn_sized bs c"
  "conn_sized bs (c\<lparr>h3_conn := h\<rparr>) = conn_sized bs c" "conn_sized bs (c\<lparr>stats := st\<rparr>) = conn_sized bs c"
  "conn_sized bs (c\<lparr>last_telemetry := t\<rparr>) = conn_sized bs c" "conn_sized bs (c\<lparr>peer_addr := a\<rparr>) = conn_sized bs c"
  "conn_sized bs (c\<lparr>local_addr := a\<rparr>) = conn_sized bs c"
  by (auto simp: conn_sized_def)

lemma conn_sized_pool: "conn_sized bs c \<Longrightarrow> pool_of bs (memory_pool (optimization_manager c))"
  by (metis conn_sized_def fec_sized_def)

lemma conn_sized_set_pool [intro]: "conn_sized bs c \<Longrightarrow> pool_of bs p \<Longrightarrow> conn_sized bs (set_pool p c)"
  by (simp add: conn_sized_def fec_sized_def)

lemma conn_sized_set_fec [intro]:
  "conn_sized bs c \<Longrightarrow> fec_sized bs f \<Longrightarrow> conn_sized bs (set_fec f c)"
  by (simp add: conn_sized_def)

lemma deliver_of: "conn_sized bs c \<Longrightarrow> sized bs pk \<Longrightarrow> conn_sized bs (deliver pf api pk c)"
proof -
  assume c: "conn_sized bs c" and pk: "sized bs pk"
  have "length (fst (process_incoming_packet a det sha d m)) = length d" for a det sha d m
    by (simp add: process_incoming_packet_def deobfuscate_def case_prod_beta Let_def split: option.split bool.split)
  with c pk conn_sized_pool[OF c] show ?thesis
    by (cases "data pk") (auto simp: deliver_def case_prod_beta Let_def sized_def intro!: drop_packet_of)
qed

lemma deliver_all_of: "conn_sized bs c \<Longrightarrow> list_all (sized bs) pks \<Longrightarrow> conn_sized bs (fold (deliver pf api) pks c)"
  by (induction pks arbitrary: c) (auto intro: deliver_of)

lemma from_block_of:
  assumes "from_block nd i b n p = Some (r, p')" "pool_of bs p" "length b = bs"
  shows "pool_of bs p' \<and> (\<forall>pk. r = Inr pk \<longrightarrow> sized bs pk)"
proof (cases "n \<le> length b")
  case True
  with from_block_total[of p b n nd i] assms have "pool_of bs p' \<and> (\<forall>pk. r = Inr pk \<longrightarrow> packet_ok bs pk)"
    by (auto simp: pool_of_def)
  moreover have "sized bs pk" if "packet_ok bs pk" for pk
    using that by (cases "data pk"; cases "coefficients pk") (auto simp: sized_def packet_ok_def)
  ultimately show ?thesis by blast
next
  case False
  with assms show ?thesis by (auto simp: from_block_def intro: free_of)
qed

lemma accept_frame_of:
  assumes "accept_frame pf api b n c = Some (r, c')" "conn_sized bs c" "length b = bs"
  shows "conn_sized bs c'"
proof -
  obtain r1 p where f: "from_block (node pf) (packet_id_counter c) b n (memory_pool (optimization_manager c)) = Some (r1, p)"
    using assms(1) by (auto simp: accept_frame_def Option.bind_eq_Some_conv)
  note b = from_block_of[OF f conn_sized_pool[OF assms(2)] assms(3)]
  show ?thesis
  proof (cases r1)
    case (Inl e)
    with assms f b show ?thesis by (auto simp: accept_frame_def)
  next
    case (Inr pkt)
    with assms f obtain r2 f2 where o: "on_receive (gf pf) (node pf) pkt (fec (set_pool p c)) = Some (r2, f2)"
      by (auto simp: accept_frame_def Option.bind_eq_Some_conv)
    have c: "conn_sized bs (set_pool p c)" using assms(2) b by blast
    then have "fec_sized bs (fec (set_pool p c))" by (simp add: conn_sized_def)
    note o_ok = on_receive_of[OF o this]
    then have "conn_sized bs (set_fec f2 (set_pool p c))" using c b Inr by blast
    with Inr assms(1) f o o_ok b show ?thesis by (cases r2) (auto simp: accept_frame_def intro: deliver_all_of)
  qed
qed

lemma alloc_block_of:
  assumes "alloc_block nd (optimization_manager c) = Some (b, om)" "conn_sized bs c"
  shows "length b = bs \<and> conn_sized bs (set_manager om c)"
proof -
  obtain p where p: "alloc nd (memory_pool (optimization_manager c)) = Some (b, p)" "om = (optimization_manager c)\<lparr>memory_pool := p\<rparr>"
    using assms(1) by (auto simp: alloc_block_def Option.bind_eq_Some_conv)
  with alloc_of[OF p(1) conn_sized_pool[OF assms(2)]] assms(2) show ?thesis by (auto simp: set_manager_pool)
qed

lemma free_block_of:
  "conn_sized bs c \<Longrightarrow> length b = bs \<Longrightarrow> conn_sized bs (set_manager (free_block nd b (optimization_manager c)) c)"
  unfolding free_block_def set_manager_pool by (blast intro: free_of dest: conn_sized_pool)

lemma fill_block_length:
  assumes "fill_block api dat b xdp = Some (r, b', xdp')" "keeps_buffers api"
  shows "length b' = length b"
proof (cases xdp)
  case None
  with assms(1) show ?thesis by (auto simp: fill_block_def Option.bind_eq_Some_conv Let_def dest: copy_at_length)
next
  case (Some x)
  with assms show ?thesis by (auto simp: fill_block_def keeps_buffers_def case_prod_beta)
qed

lemma recv_of:
  assumes "Connection_recv pf api dat c = Some (r, c')" "conn_sized bs c" "keeps_buffers api"
  shows "conn_sized bs c'"
proof -
  obtain b om r1 b1 xdp where a: "alloc_block (node pf) (optimization_manager c) = Some (b, om)"
    "fill_block api dat b (xdp_socket c) = Some (r1, b1, xdp)"
    using assms(1) by (auto simp: Connection_recv_def Option.bind_eq_Some_conv)
  let ?c = "(set_manager om c)\<lparr>xdp_socket := xdp\<rparr>"
  have c: "conn_sized bs ?c" "length b1 = bs"
    using alloc_block_of[OF a(1) assms(2)] fill_block_length[OF a(2) assms(3)] by simp_all
  show ?thesis
  proof (cases r1)
    case (Inl e)
    with a assms(1) have "c' = set_manager (free_block (node pf) b1 (optimization_manager ?c)) ?c"
      by (simp add: Connection_recv_def Let_def)
    with free_block_of[OF c] show ?thesis by metis
  next
    case (Inr n)
    with a assms(1) have "accept_frame pf api b1 n ?c = Some (r, c')" by (simp add: Connection_recv_def Let_def)
    with accept_frame_of[OF _ c] show ?thesis by blast
  qed
qed

lemma transmit_of:
  assumes "transmit pf api pk buf c = Some (r, buf', c')" "conn_sized bs c" "sized bs pk"
  shows "conn_sized bs c'"
proof -
  obtain xdp where c': "c' = set_pool (drop_packet (node pf) pk (memory_pool (optimization_manager c))) (c\<lparr>xdp_socket := xdp\<rparr>)"
    using assms(1) by (auto simp: transmit_def Option.bind_eq_Some_conv case_prod_beta Let_def split: option.splits)
  show ?thesis
    unfolding c' using assms(2,3) conn_sized_pool[OF assms(2)] by (intro conn_sized_set_pool drop_packet_of) simp_all
qed

lemma queue_packet_of:
  assumes "queue_packet pf b n c = Some c'" "conn_sized bs c" "length b = bs"
  shows "conn_sized bs c'"
proof -
  obtain pl b2 sm i f q where b: "copy_at b 0 n pl = Some b2"
    and o: "on_send (gf pf) (node pf) \<lparr>pid = packet_id_counter c, data = Some b2, len = n, is_systematic = True,
        coefficients = None, coeff_len = 0\<rparr> (fec c) (outgoing_fec_packets c) = Some (f, q)"
    and c': "c' = set_fec f (c\<lparr>stealth_manager := sm, packet_id_counter := i, outgoing_fec_packets := q\<rparr>)"
    using assms(1) by (auto simp: queue_packet_def Option.bind_eq_Some_conv case_prod_beta Let_def)
  have "fec_sized bs f \<and> list_all (sized bs) q"
    using assms(2,3) copy_at_length[OF b] by (intro on_send_of[OF o]) (simp_all add: conn_sized_def sized_def)
  then show ?thesis by (simp add: c' conn_sized_def)
qed

lemma send_of:
  assumes "Connection_send pf api buf c = Some (r, buf', c')" "conn_sized bs c" "keeps_buffers api"
  shows "conn_sized bs c'"
proof (cases "outgoing_fec_packets c")
  case (Cons pk q)
  then have "transmit pf api pk buf (c\<lparr>outgoing_fec_packets := q\<rparr>) = Some (r, buf', c')" using assms(1) by (simp add: Connection_send_def)
  moreover have "conn_sized bs (c\<lparr>outgoing_fec_packets := q\<rparr>)" "sized bs pk" using assms(2) Cons by (simp_all add: conn_sized_def)
  ultimately show ?thesis by (rule transmit_of)
next
  case Nil
  obtain b om where a: "alloc_block (node pf) (optimization_manager c) = Some (b, om)"
    using assms(1) Nil by (auto simp: Connection_send_def Option.bind_eq_Some_conv)
  obtain r1 b1 cn where s: "q_send api b (conn c) = (r1, b1, cn)" by (rule prod_cases3)
  let ?c = "set_manager om (c\<lparr>conn := cn\<rparr>)"
  have eq: "?c = (set_manager om c)\<lparr>conn := cn\<rparr>" by (simp add: set_manager_def)
  have "length (fst (snd (q_send api b (conn c)))) = length b" using assms(3) by (simp add: keeps_buffers_def)
  then have c: "conn_sized bs ?c" "length b1 = bs" using alloc_block_of[OF a assms(2)] by (simp_all add: eq s)
  note run = assms(1) Nil a s
  show ?thesis
  proof (cases "\<exists>n. r1 = Inr n \<and> n \<noteq> 0")
    case False
    then have "c' = set_manager (free_block (node pf) b1 (optimization_manager ?c)) ?c"
      using run by (cases r1) (auto simp: Connection_send_def)
    with free_block_of[OF c] show ?thesis by metis
  next
    case True
    then obtain n c1 where n: "r1 = Inr n" "n \<noteq> 0" "queue_packet pf b1 n ?c = Some c1"
      using run by (auto simp: Connection_send_def Option.bind_eq_Some_conv)
    have c1: "conn_sized bs c1" by (rule queue_packet_of[OF n(3) c])
    show ?thesis
    proof (cases "outgoing_fec_packets c1")
      case Nil
      with run n c1 show ?thesis by (simp add: Connection_send_def)
    next
      case (Cons pk q)
      then have "transmit pf api pk buf (c1\<lparr>outgoing_fec_packets := q\<rparr>) = Some (r, buf', c')" using run n by (simp add: Connection_send_def)
      moreover have "conn_sized bs (c1\<lparr>outgoing_fec_packets := q\<rparr>)" "sized bs pk" using c1 Cons by (simp_all add: conn_sized_def)
      ultimately show ?thesis by (rule transmit_of)
    qed
  qed
qed

lemma path_event_of: "conn_sized bs c \<Longrightarrow> conn_sized bs (path_event api e c)"
  by (cases e) (simp_all add: switch_path_def Let_def)

lemma path_events_of: "path_events api c = Some c' \<Longrightarrow> conn_sized bs c \<Longrightarrow> conn_sized bs c'"
proof (induction rule: path_events.raw_induct [rotated, consumes 1, case_names step])
  case (step path_events' api c c')
  obtain e cn where e: "q_path_event_next api (conn c) = (e, cn)" by fastforce
  show ?case
  proof (cases e)
    case (Some ev)
    with step(2) e have "path_events' api (path_event api ev (c\<lparr>conn := cn\<rparr>)) = Some c'" by simp
    then show ?thesis by (rule step.IH) (simp add: path_event_of step.prems)
  qed (use step e in auto)
qed

lemma update_state_of:
  assumes "update_state pf api clk now c = Some c'" "conn_sized bs c"
  shows "conn_sized bs c'"
proof -
  let ?s = "q_stats api (conn c)"
  obtain f where f: "AdaptiveFec_report_loss (node pf) clk (st_lost ?s) (st_sent ?s) (fec c) = Some f"
    using assms(1) by (auto simp: update_state_def Option.bind_eq_Some_conv Let_def)
  have "fec_sized bs f" using report_loss_of[OF f] assms(2) by (simp add: conn_sized_def)
  then have c: "conn_sized bs (set_fec f (c\<lparr>stats := st\<rparr>))" for st using assms(2) by (intro conn_sized_set_fec) simp_all
  from assms(1) f obtain st where "path_events api (set_fec f (c\<lparr>stats := st\<rparr>)) = Some c' \<or>
      path_events api ((set_fec f (c\<lparr>stats := st\<rparr>))\<lparr>last_telemetry := now\<rparr>) = Some c'"
    by (auto simp: update_state_def Let_def split: if_splits)
  then show ?thesis using path_events_of c by (metis conn_sized_update(7))
qed

lemma init_http3_of: "conn_sized bs c \<Longrightarrow> conn_sized bs (snd (init_http3 api c))"
  by (auto simp: init_http3_def split: option.splits sum.splits prod.splits)

lemma other_of:
  "conn_sized bs c \<Longrightarrow> conn_sized bs (snd (migrate_connection api a c))"
  "conn_sized bs c \<Longrightarrow> conn_sized bs (snd (send_http3_request api path c))"
  "poll_http3 api c = Some (r, c') \<Longrightarrow> conn_sized bs c \<Longrightarrow> conn_sized bs c'"
  using init_http3_of[of bs c api]
  by (auto simp: migrate_connection_def send_http3_request_def poll_http3_def Let_def Option.bind_eq_Some_conv
      split: option.splits sum.splits prod.splits)

lemma finish_of:
  assumes "finish pf api now e local remote host sm (manager_from_cfg (numa_nodes pf) x oc) cfg r = Inr (c, g)" "0 < numa_nodes pf"
  shows "conn_sized (cfg_block_size oc) c"
proof -
  define om where "om = manager_from_cfg (numa_nodes pf) x oc"
  have p: "memory_pool om = pool_new (numa_nodes pf) (cfg_pool_capacity oc) (cfg_block_size oc)"
    by (simp add: om_def manager_from_cfg_def manager_new_with_config_def)
  then have "pool_of (cfg_block_size oc) (memory_pool om)" using assms(2) by (simp add: pool_of_def pool_ok_new)
  then have "fec_sized (cfg_block_size oc) (fst (AdaptiveFec_new now cfg (memory_pool om) (gf pf)))" by (rule fec_new_of)
  moreover obtain cn where "Connection_new pf now cn local remote host sm om (open_socket api local remote om) cfg = (c, g)"
    using assms(1) by (auto simp: finish_def om_def split: sum.split_asm)
  moreover have "mem_pool (fst (AdaptiveFec_new now cfg p g)) = p" for p g by (simp add: AdaptiveFec_new_def Let_def case_prod_beta)
  ultimately show ?thesis by (auto simp: Connection_new_def Let_def case_prod_beta conn_sized_def)
qed

lemma conn_reach_sized:
  assumes "conn_reach pf api c" "keeps_buffers api" "0 < numa_nodes pf"
  shows "\<exists>bs. conn_sized bs c"
  using assms(1)
proof (induction rule: conn_reach.induct)
  case (reach_client cfg now name local remote config sc oc utls hooks c g hooks')
  then show ?case using assms(3) by (auto simp: new_client_def Option.bind_eq_Some_conv Let_def dest!: finish_of)
next
  case (reach_server cfg now scid odcid local remote config sc oc c g)
  then show ?case using assms(3) by (auto simp: new_server_def Option.bind_eq_Some_conv Let_def dest!: finish_of)
next
  case (reach_quiche c cn)
  then show ?case by simp
qed (use assms(2) in \<open>blast intro: recv_of send_of update_state_of other_of\<close>)+

subsection \<open>Properties\<close>

text \<open>C6: blocks keep their size. After any sequence of operations on a connection whose machine has a memory node, over a QUIC library and
  sockets that do not change the length of the buffers they are given, the pool is intact and gives out zeroed blocks of
  its size on every node; and every block of a packet in the send queue, in the window of either encoder or kept by either decoder has
  that size, so whatever is given back later fits.\<close>

theorem connection_blocks:
  assumes "conn_reach pf api c" "keeps_buffers api" "0 < numa_nodes pf" "block_size (memory_pool (optimization_manager c)) = bs"
  shows "pool_ok (memory_pool (optimization_manager c)) \<and>
         (\<exists>p. alloc nd (memory_pool (optimization_manager c)) = Some (replicate bs 0, p)) \<and>
         list_all (sized bs) (outgoing_fec_packets c) \<and>
         enc_sized bs (encoder (fec c)) \<and> pred_option (enc_sized bs) (transition_encoder (fec c)) \<and>
         dec_sized bs (decoder (fec c)) \<and> pred_option (dec_sized bs) (transition_decoder (fec c))"
proof -
  obtain bs' where c: "conn_sized bs' c" using conn_reach_sized[OF assms(1-3)] by blast
  have p: "pool_ok (memory_pool (optimization_manager c))" "bs' = bs"
    using conn_sized_pool[OF c] assms(4) by (simp_all add: pool_of_def)
  with pool.al_ok[OF p(1), of nd] c assms(4) show ?thesis by (auto simp: conn_sized_def fec_sized_def)
qed

theorem connection_blocks_witness:
  "\<exists>(c :: (nat, nat, unit) QuicFuscateConnection) p.
     alloc 0 (memory_pool (optimization_manager c)) = Some (replicate 8 0, p) \<and> list_all (sized 8) (outgoing_fec_packets c) \<and>
     dec_sized 8 (decoder (fec c)) \<and> conn c = 1"
proof (rule sample_server[OF window_config_ok[of 1]])
  fix c g sm
  assume c: "conn_reach sample_platform sample_api c" "fec c = fst (AdaptiveFec_new 0 (window_config 1) (pool_new 1 4 8) std_env)"
    "memory_pool (optimization_manager c) = pool_new 1 4 8" "xdp_socket c = None" "conn c = 0"
  have g: "gf_scalar (gf sample_platform)" using gf_scalar_std_env by (simp add: sample_platform_def)
  have q: "snd (q_recv sample_api blk a b 0) = 1" for blk a b by (simp add: sample_api_def)
  have pool: "pool_ok (memory_pool (optimization_manager c))" "8 = block_size (memory_pool (optimization_manager c))"
    "transition_left (fec c) \<le> 16" "decoder (fec c) = DecG8 (Decoder_new 1)" "length [5 :: u8] + 1 \<le> 8"
    using c window_config_fec by (simp_all add: pool_ok_new)
  obtain c' where c': "Connection_recv sample_platform sample_api (1 # [5]) c = Some (Inr (length [5 :: u8] + 1), c')" "conn c' = 1"
    using recv_single[OF conn_reach_inv[OF c(1)] pool(1,2) c(4) pool(3,4) g pool(5), of sample_api] q
    unfolding c(5) by (elim exE conjE) (rule that, simp_all)
  have api: "keeps_buffers sample_api" "0 < numa_nodes sample_platform"
    by (auto simp: keeps_buffers_def sample_api_def sample_platform_def)
  obtain bs where bs: "conn_sized bs c" using conn_reach_sized[OF c(1) api] by blast
  have "bs = 8" using conn_sized_pool[OF bs] by (simp add: c(3) pool_of_def)
  with conn_sized_pool[OF recv_of[OF c'(1) bs api(1)]] have size: "block_size (memory_pool (optimization_manager c')) = 8"
    by (simp add: pool_of_def)
  have "conn_reach sample_platform sample_api c'" using c(1) c'(1) by (rule reach_recv)
  from connection_blocks[OF this api size, of 0] c'(2) show ?thesis by (elim conjE exE) (rule exI[of _ c'], simp)
qed

end
