(* ===== verification/Window_Delivery.thy ===== *)
theory Window_Delivery
  imports Connection_Properties
begin

text \<open>
  A whole window over the wire: a connection that receives the frames of \<open>k\<close> different repair packets of a window
  reconstructs its packets, removes the obfuscation and hands them to quiche in order.

  The bytes of a received frame that are not payload stay in the block behind it, so the decoder works with
  stale bytes after the payload; the theorems of \<open>Fec_Decoder\<close> bound what they say to the payload.
\<close>

subsection \<open>Repair frames\<close>

lemma packet_ok_repair:
  assumes "gf_scalar g" "window_ok bs ws" "length ws = k" "k + r < 256" "k \<le> bs"
    "is_repair_of g nd bs \<lparr>enc_k = k, enc_n = n, source_window = ws\<rparr> r pk"
  shows "packet_ok bs pk"
proof -
  obtain p p' where p: "pool_ok p" "block_size p = bs"
    "Encoder_generate_repair_packet g nd \<lparr>enc_k = k, enc_n = n, source_window = ws\<rparr> r p = Some (Some pk, p')"
    using assms(6) by (auto simp: is_repair_of_def)
  have "len (hd ws) \<le> bs" by (rule repair_packet_rows(4)[OF assms])
  with generate_repair_packet_spec[OF assms(1) p(1,2) assms(2-5), of nd n] p(3) assms(5) show ?thesis
    by (auto simp: packet_ok_def)
qed

lemma repair_frame:
  assumes "gf_scalar g" "window_ok bs ws" "length ws = k" "k + r < 256" "k \<le> bs"
    "is_repair_of g nd bs \<lparr>enc_k = k, enc_n = n, source_window = ws\<rparr> r pk"
  shows "parse_frame (frame (packet_view pk)) = Inr (packet_view pk)" "packet_ok bs pk" "data pk \<noteq> None"
    "length (frame (packet_view pk)) = 3 + k + len (hd ws)"
proof -
  note spec = repair_packet_rows[OF assms]
  obtain c d where pc: "coefficients pk = Some c" "k \<le> length c" "coeff_len pk = k" "\<not> is_systematic pk"
    "data pk = Some d" "length d = bs"
    using spec(1) by (auto simp: repair_ok_def split: option.splits)
  show "parse_frame (frame (packet_view pk)) = Inr (packet_view pk)"
    using pc assms(4) by (intro parse_frame_frame) (simp add: view_ok_def packet_view_def)
  show "packet_ok bs pk" "data pk \<noteq> None" using packet_ok_repair[OF assms] pc(5) by simp_all
  show "length (frame (packet_view pk)) = 3 + k + len (hd ws)"
    using pc spec(3,4) by (simp add: frame_def packet_view_def)
qed

text \<open>What \<open>to_raw\<close> puts on the wire for a packet, in whatever buffer it is given.\<close>

definition wire :: "Packet \<Rightarrow> bytes \<Rightarrow> bool" where
  "wire pk dat \<longleftrightarrow> (\<exists>buf n buf'. to_raw pk buf = Some (Inr n, buf') \<and> dat = take n buf')"

lemma wire_frame:
  assumes "packet_ok bs pk" "data pk \<noteq> None" "wire pk dat"
  shows "dat = frame (packet_view pk)"
proof -
  obtain buf n buf' where w: "to_raw pk buf = Some (Inr n, buf')" "dat = take n buf'" using assms(3) by (auto simp: wire_def)
  obtain d where d: "data pk = Some d" using assms(2) by auto
  have "length (frame (packet_view pk)) \<le> length buf"
    using to_raw_short[OF assms(1,2), of buf] w(1) by (cases "length buf < length (frame (packet_view pk))") auto
  from to_raw_frame[OF assms(1) d this] w show ?thesis by auto
qed

subsection \<open>Collecting repair packets\<close>

lemma receive_repair:
  assumes "length qs + 1 < k" "repair_ok k bs q"
  shows "receive_with g nd q (DecG8 (dec_state k qs)) p = Some (Inr [], DecG8 (dec_state k (qs @ [q])), p)"
proof -
  have "try_decode g nd (dec_state k (qs @ [q])) p = Some (False, dec_state k (qs @ [q]), p)"
    using assms(1) by (simp add: try_decode_def)
  then show ?thesis using add_repair[of qs k bs q g nd p] assms by (simp add: receive_with_def)
qed

text \<open>\<open>repair_like k bs v\<close>: every packet with content \<open>v\<close> in blocks of \<open>bs\<close> bytes is a repair packet of a window of \<open>k\<close>.\<close>

definition repair_like :: "nat \<Rightarrow> nat \<Rightarrow> view \<Rightarrow> bool" where
  "repair_like k bs v \<longleftrightarrow> parse_frame (frame v) = Inr v \<and> length (frame v) \<le> bs \<and>
     (\<forall>q. packet_view q = v \<longrightarrow> packet_ok bs q \<longrightarrow> data q \<noteq> None \<longrightarrow> repair_ok k bs q)"

definition received :: "nat \<Rightarrow> view \<Rightarrow> Packet \<Rightarrow> bool" where
  "received bs v q \<longleftrightarrow> packet_view q = v \<and> packet_ok bs q \<and> data q \<noteq> None"

lemma recv_repairs_partial:
  assumes "pool_ok (memory_pool (optimization_manager c))" "block_size (memory_pool (optimization_manager c)) = bs"
    "xdp_socket c = None" "transition_left (fec c) \<le> 16" "transition_decoder (fec c) = None"
    "decoder (fec c) = DecG8 (dec_state k qs)" "length qs + length vs < k" "list_all (repair_like k bs) vs"
  shows "\<exists>qs' p. recv_all pf api (map frame vs) c = Some (map (\<lambda>v. Inr (length (frame v))) vs,
             if vs = [] then c else set_fec ((fec c)\<lparr>decoder := DecG8 (dec_state k (qs @ qs')), mem_pool := p\<rparr>) c) \<and>
           list_all2 (received bs) vs qs' \<and> pool_ok p \<and> block_size p = bs \<and>
           in_use p = in_use (memory_pool (optimization_manager c)) + 2 * of_nat (length vs)"
  using assms
proof (induction vs arbitrary: c qs)
  case Nil
  then show ?case by (intro exI[of _ "[]"] exI[of _ "memory_pool (optimization_manager c)"]) simp
next
  case (Cons v vs)
  have v: "parse_frame (frame v) = Inr v" "length (frame v) \<le> bs"
    "\<And>q. received bs v q \<Longrightarrow> repair_ok k bs q" using Cons.prems(8) by (auto simp: repair_like_def received_def)
  obtain q p where q: "received bs v q" "pool_ok p" "block_size p = bs"
    "in_use p = in_use (memory_pool (optimization_manager c)) + (if v_coeffs v = None then 1 else 2)"
    "\<forall>pks d p'. receive_with (gf pf) (node pf) q (decoder (fec c)) p = Some (Inr pks, d, p') \<longrightarrow>
       Connection_recv pf api (frame v) c =
         Some (Inr (length (frame v)), fold (deliver pf api) pks (set_fec ((fec c)\<lparr>decoder := d, mem_pool := p'\<rparr>) c))"
    using recv_frame[OF Cons.prems(1,3) _ v(1) Cons.prems(4,5), of pf api] v(2) Cons.prems(2)
    unfolding received_def by auto
  have n: "in_use p = in_use (memory_pool (optimization_manager c)) + 2"
    using q(1,4) v(3)[OF q(1)] by (auto simp: received_def packet_view_def repair_ok_def split: option.splits)
  let ?c = "set_fec ((fec c)\<lparr>decoder := DecG8 (dec_state k (qs @ [q])), mem_pool := p\<rparr>) c"
  have "receive_with (gf pf) (node pf) q (decoder (fec c)) p = Some (Inr [], DecG8 (dec_state k (qs @ [q])), p)"
    using receive_repair[of qs k bs q] v(3)[OF q(1)] Cons.prems(6,7) by simp
  with q(5) have step: "Connection_recv pf api (frame v) c = Some (Inr (length (frame v)), ?c)" by simp
  obtain qs' p' where IH: "recv_all pf api (map frame vs) ?c = Some (map (\<lambda>v. Inr (length (frame v))) vs,
      if vs = [] then ?c else set_fec ((fec ?c)\<lparr>decoder := DecG8 (dec_state k ((qs @ [q]) @ qs')), mem_pool := p'\<rparr>) ?c)"
    "list_all2 (received bs) vs qs'" "pool_ok p'" "block_size p' = bs" "in_use p' = in_use p + 2 * of_nat (length vs)"
    using Cons.IH[of ?c "qs @ [q]"] Cons.prems(3-5,7,8) q(2,3) by auto
  have twice: "set_fec ((fec ?c)\<lparr>decoder := d, mem_pool := p'\<rparr>) ?c = set_fec ((fec c)\<lparr>decoder := d, mem_pool := p'\<rparr>) c" for d p'
    by (simp add: set_fec_def)
  show ?case
  proof (cases "vs = []")
    case True
    with step q n IH(2) show ?thesis by (intro exI[of _ "[q]"] exI[of _ p]) simp
  next
    case False
    with step q(1) n IH twice show ?thesis by (intro exI[of _ "q # qs'"] exI[of _ p']) simp
  qed
qed

subsection \<open>The last repair packet\<close>

lemma receive_last_repair:
  assumes "pool_ok p" "block_size p = bs" "length (qs @ [q]) = k" "k \<le> 256" "list_all (repair_ok k bs) (qs @ [q])"
    "coded g k N True X (map (sparse \<circ> coeff_row) (qs @ [q])) (map data (qs @ [q]))"
  shows "\<exists>d B p'. receive_with g nd q (DecG8 (dec_state k qs)) p = Some (Inr (map (\<lambda>i. recovered i (B i) bs) [0..<k]), d, p') \<and>
           (\<forall>i < k. length (B i) = bs \<and> (\<forall>j < min N bs. GF8 (B i ! j) = X i j))"
proof -
  obtain d B p' where d: "Decoder_add_packet g nd q (dec_state k qs) p = Some (Inr True, d, p')"
    "systematic_packets d = map (\<lambda>i. Some (recovered i (B i) bs)) [0..<k]"
    "\<forall>i < k. length (B i) = bs \<and> (\<forall>j < min N bs. GF8 (B i ! j) = X i j)"
    using add_last_repair[OF assms, of nd] by (elim exE conjE) (rule that)
  then show ?thesis
    by (simp add: receive_with_def Decoder_get_decoded_packets_def map_filter_def comp_def case_prod_beta)
       (intro exI[of _ B], simp)
qed

lemma recv_all_snoc:
  "recv_all pf api ds c = Some (rs, c1) \<Longrightarrow> Connection_recv pf api d c1 = Some (r, c2) \<Longrightarrow>
   recv_all pf api (ds @ [d]) c = Some (rs @ [r], c2)"
  by (induction ds arbitrary: c rs) (auto simp: Option.bind_eq_Some_conv)

text \<open>The frames of \<open>k\<close> packets of one code word: with the last one the reconstructed packets are delivered.\<close>

lemma recv_repairs:
  assumes c: "pool_ok (memory_pool (optimization_manager c))" "block_size (memory_pool (optimization_manager c)) = bs"
      "xdp_socket c = None" "transition_left (fec c) \<le> 16" "transition_decoder (fec c) = None"
      "decoder (fec c) = DecG8 (dec_state k [])"
    and vs: "length vs = k" "0 < k" "k \<le> 256" "list_all (repair_like k bs) vs"
    and code: "\<And>qs. list_all2 (received bs) vs qs \<Longrightarrow>
      coded (gf pf) k N True X (map (sparse \<circ> coeff_row) qs) (map data qs)"
  shows "\<exists>B f. recv_all pf api (map frame vs) c = Some (map (\<lambda>v. Inr (length (frame v))) vs,
             fold (deliver pf api) (map (\<lambda>i. recovered i (B i) bs) [0..<k]) (set_fec f c)) \<and>
           (\<forall>i < k. length (B i) = bs \<and> (\<forall>j < min N bs. GF8 (B i ! j) = X i j))"
proof -
  obtain us v where u: "vs = us @ [v]" using vs(1,2) by (cases vs rule: rev_exhaust) auto
  have us: "length us < k" "list_all (repair_like k bs) us" and v: "repair_like k bs v" using vs u by auto
  obtain qs p where part: "recv_all pf api (map frame us) c = Some (map (\<lambda>v. Inr (length (frame v))) us,
      if us = [] then c else set_fec ((fec c)\<lparr>decoder := DecG8 (dec_state k ([] @ qs)), mem_pool := p\<rparr>) c)"
    "list_all2 (received bs) us qs" "pool_ok p" "block_size p = bs"
    using recv_repairs_partial[OF c, of us pf api] us by auto
  define c1 where "c1 = (if us = [] then c else set_fec ((fec c)\<lparr>decoder := DecG8 (dec_state k ([] @ qs)), mem_pool := p\<rparr>) c)"
  have c1: "pool_ok (memory_pool (optimization_manager c1))" "block_size (memory_pool (optimization_manager c1)) = bs"
    "xdp_socket c1 = None" "transition_left (fec c1) \<le> 16" "transition_decoder (fec c1) = None"
    "decoder (fec c1) = DecG8 (dec_state k qs)" "set_fec f c1 = set_fec f c" for f
    using c part(2-4) by (auto simp: c1_def set_fec_def)
  obtain q p1 where q: "received bs v q" "pool_ok p1" "block_size p1 = bs"
    "\<forall>pks d p'. receive_with (gf pf) (node pf) q (decoder (fec c1)) p1 = Some (Inr pks, d, p') \<longrightarrow>
       Connection_recv pf api (frame v) c1 =
         Some (Inr (length (frame v)), fold (deliver pf api) pks (set_fec ((fec c1)\<lparr>decoder := d, mem_pool := p'\<rparr>) c1))"
    using recv_frame[OF c1(1,3) _ _ c1(4,5), of "frame v" v pf api] v c1(2) unfolding received_def repair_like_def by auto
  have all: "list_all2 (received bs) vs (qs @ [q])" using part(2) q(1) u by (simp add: list_all2_appendI)
  then have "list_all (repair_ok k bs) (qs @ [q])" "length (qs @ [q]) = k"
    using vs(1,4) by (auto simp: list_all2_conv_all_nth list_all_length received_def repair_like_def)
  from receive_last_repair[OF q(2,3) this(2) vs(3) this(1) code[OF all], of "node pf"] obtain d B p' where
    d: "receive_with (gf pf) (node pf) q (decoder (fec c1)) p1 = Some (Inr (map (\<lambda>i. recovered i (B i) bs) [0..<k]), d, p')"
    "\<forall>i < k. length (B i) = bs \<and> (\<forall>j < min N bs. GF8 (B i ! j) = X i j)"
    by (elim exE conjE) (rule that, simp_all only: c1(6))
  from q(4) d(1) have "Connection_recv pf api (frame v) c1 = Some (Inr (length (frame v)),
      fold (deliver pf api) (map (\<lambda>i. recovered i (B i) bs) [0..<k]) (set_fec ((fec c1)\<lparr>decoder := d, mem_pool := p'\<rparr>) c))"
    by (simp only: c1(7))
  from recv_all_snoc[OF part(1)[folded c1_def] this] d(2) u show ?thesis
    by (intro exI[of _ B] exI[of _ "(fec c1)\<lparr>decoder := d, mem_pool := p'\<rparr>"]) simp
qed

subsection \<open>Handing over\<close>

text \<open>A sequence of payloads on its way out through the stealth manager.\<close>

primrec outgoing_all ::
  "arch \<Rightarrow> FeatureDetector \<Rightarrow> (bytes \<Rightarrow> bytes) \<Rightarrow> bytes list \<Rightarrow> StealthManager \<Rightarrow> bytes list" where
  "outgoing_all a det sha [] m = []"
| "outgoing_all a det sha (p # ps) m =
     (let (w, m) = process_outgoing_packet a det sha p m in w # outgoing_all a det sha ps m)"

lemma take_process_outgoing:
  "take n (fst (process_outgoing_packet a det sha d m)) = fst (process_outgoing_packet a det sha (take n d) m)"
  by (intro nth_equalityI)
     (auto simp: process_outgoing_packet_def process_payload_def case_prod_beta obfuscate_bytes split: option.split bool.split)

text \<open>Both directions move the obfuscator in the same way, whatever the payload.\<close>

lemma process_state:
  assumes "sm_config m' = sm_config m" "xor_obfuscator m' = xor_obfuscator m"
  shows "sm_config (snd (process_incoming_packet a' det' sha blk m')) = sm_config (snd (process_outgoing_packet a det sha d m))"
    "xor_obfuscator (snd (process_incoming_packet a' det' sha blk m')) =
     xor_obfuscator (snd (process_outgoing_packet a det sha d m))"
  using assms
  by (auto simp: process_incoming_packet_def process_outgoing_packet_def process_payload_def deobfuscate_def obfuscate_def
      case_prod_beta split: option.split bool.split)

definition hand_over :: "('c, 'h, 's) api \<Rightarrow> SocketAddr \<Rightarrow> SocketAddr \<Rightarrow> bytes \<Rightarrow> 'c \<Rightarrow> 'c" where
  "hand_over api peer local buf cn = snd (q_recv api buf peer local cn)"

lemma deliver_window:
  assumes "sm_config (stealth_manager c) = sm_config m" "xor_obfuscator (stealth_manager c) = xor_obfuscator m"
    "list_all2 (\<lambda>w pk. \<exists>b. data pk = Some b \<and> length b = bs \<and> take n b = take n w)
       (outgoing_all a det (sha256 pf) ps m) pks"
    "list_all (\<lambda>p. n \<le> length p) ps" "n \<le> bs"
  shows "\<exists>bufs. list_all2 (\<lambda>p buf. length buf = bs \<and> take n buf = take n p) ps bufs \<and>
           conn (fold (deliver pf api) pks c) = fold (hand_over api (peer_addr c) (local_addr c)) bufs (conn c)"
  using assms
proof (induction ps arbitrary: pks c m)
  case (Cons p ps)
  obtain w m1 where w: "process_outgoing_packet a det (sha256 pf) p m = (w, m1)" by fastforce
  obtain pk pks1 b where pk: "pks = pk # pks1" "data pk = Some b" "length b = bs" "take n b = take n w"
    "list_all2 (\<lambda>w pk. \<exists>b. data pk = Some b \<and> length b = bs \<and> take n b = take n w)
       (outgoing_all a det (sha256 pf) ps m1) pks1"
    using Cons.prems(3) w by (auto simp: list_all2_Cons1)
  let ?buf = "fst (process_incoming_packet (cpu_arch pf) (cpu pf) (sha256 pf) b (stealth_manager c))"
  let ?c = "deliver pf api pk c"
  have n: "length (take n p) = n" using Cons.prems(4) by simp
  have "take (length (take n p)) b = fst (process_outgoing_packet a det (sha256 pf) (take n p) m)"
    using pk(4) w take_process_outgoing[of n a det "sha256 pf" p m] n by simp
  from process_incoming_prefix[OF Cons.prems(1,2) this, of "cpu_arch pf" "cpu pf" "sha256 pf"] n pk(3) Cons.prems(5)
  have buf: "take n ?buf = take n p" "length ?buf = bs" by simp_all
  have c: "stealth_manager ?c = snd (process_incoming_packet (cpu_arch pf) (cpu pf) (sha256 pf) b (stealth_manager c))"
    "conn ?c = hand_over api (peer_addr c) (local_addr c) ?buf (conn c)" "peer_addr ?c = peer_addr c" "local_addr ?c = local_addr c"
    by (simp_all add: deliver_def pk(2) case_prod_beta Let_def hand_over_def)
  have "sm_config (stealth_manager ?c) = sm_config m1" "xor_obfuscator (stealth_manager ?c) = xor_obfuscator m1"
    using process_state[OF Cons.prems(1,2), of "cpu_arch pf" "cpu pf" "sha256 pf" b a det p] by (simp_all add: c(1) w)
  from Cons.IH[OF this pk(5)] Cons.prems(4,5) obtain bufs where
    "list_all2 (\<lambda>p buf. length buf = bs \<and> take n buf = take n p) ps bufs"
    "conn (fold (deliver pf api) pks1 ?c) = fold (hand_over api (peer_addr c) (local_addr c)) bufs (conn ?c)"
    using c(3,4) by auto
  with buf pk(1) c(2) show ?case by (intro exI[of _ "?buf # bufs"]) simp
qed simp

lemma length_outgoing_all: "map length (outgoing_all a det sha ps m) = map length ps"
proof (induction ps arbitrary: m)
  case (Cons p ps)
  then show ?case
    using length_process_outgoing[of a det sha p m] by (simp add: case_prod_beta Let_def)
qed simp

text \<open>Blocks that agree with the window in the bytes the repair packets cover.\<close>

lemma window_blocks:
  assumes "window_ok bs0 ws" "length ws = k"
    "\<forall>i < k. length (B i) = bs \<and> (\<forall>j < min (len (hd ws)) bs. GF8 (B i ! j) = src_data ws i j)" "len (hd ws) \<le> bs"
  shows "list_all2 (\<lambda>w pk. \<exists>b. data pk = Some b \<and> length b = bs \<and> take (len (hd ws)) b = take (len (hd ws)) w)
           (map (v_payload \<circ> packet_view) ws) (map (\<lambda>i. recovered i (B i) bs) [0..<k])"
proof -
  have "take (len (hd ws)) (B i) = take (len (hd ws)) (v_payload (packet_view (ws ! i)))" if i: "i < k" for i
  proof -
    obtain d where d: "data (ws ! i) = Some d" "length d = bs0" "len (hd ws) \<le> len (ws ! i)" "len (ws ! i) \<le> bs0"
      using assms(1,2) i by (auto simp: window_ok_def source_ok_def list_all_length split: option.splits)
    have "B i ! j = d ! j" if "j < len (hd ws)" for j
    proof -
      have "GF8 (B i ! j) = GF8 (d ! j)" using assms(3,4) i that d(1) by (simp add: src_data_def src_byte_def)
      then show ?thesis by simp
    qed
    with assms(3,4) i d show ?thesis by (intro nth_equalityI) (auto simp: packet_view_def)
  qed
  with assms(2,3) show ?thesis by (auto simp: list_all2_conv_all_nth recovered_def)
qed

text \<open>The frames of different repair packets of a window.\<close>

lemma repair_window_frames:
  assumes window: "gf_scalar g" "window_ok bs0 ws" "length ws = k" "k \<le> bs0"
    and repair: "length rs = k" "list_all (\<lambda>r. k + r < 256) rs"
      "list_all2 (is_repair_of g nd bs0 \<lparr>enc_k = k, enc_n = n, source_window = ws\<rparr>) rs pks"
      "list_all2 wire pks dats" "3 + k + len (hd ws) \<le> bs"
  shows "dats = map frame (map packet_view pks)" "list_all (repair_like k bs) (map packet_view pks)"
    "map (\<lambda>v. length (frame v)) (map packet_view pks) = replicate k (3 + k + len (hd ws))"
proof -
  have len: "length pks = k" using repair(1,3) by (simp add: list_all2_conv_all_nth)
  have rep: "is_repair_of g nd bs0 \<lparr>enc_k = k, enc_n = n, source_window = ws\<rparr> (rs ! i) (pks ! i)" "k + rs ! i < 256"
    if "i < k" for i using repair that by (auto simp: list_all2_conv_all_nth list_all_length)
  note fr = repair_frame[OF window(1-3) rep(2) window(4) rep(1)]
  have "dats ! i = frame (packet_view (pks ! i))" if "i < k" for i
    using wire_frame[OF fr(2,3)[OF that that]] repair(4) len that by (auto simp: list_all2_conv_all_nth)
  then show "dats = map frame (map packet_view pks)"
    using repair(4) len by (intro nth_equalityI) (auto simp: list_all2_conv_all_nth)
  show "list_all (repair_like k bs) (map packet_view pks)"
    using fr(1,4) repair(5) transmitted_repair(1)[OF window(1-3) rep(2) window(4) rep(1)] len
    by (auto simp: list_all_length repair_like_def)
  show "map (\<lambda>v. length (frame v)) (map packet_view pks) = replicate k (3 + k + len (hd ws))"
    using fr(4) len by (intro nth_equalityI) auto
qed

lemma window_payload_lengths:
  assumes "window_ok bs ws" "map (v_payload \<circ> packet_view) ws = outgoing_all a det sha ps m"
  shows "list_all (\<lambda>p. len (hd ws) \<le> length p) ps"
proof -
  have "list_all (\<lambda>l. len (hd ws) \<le> l) (map length (outgoing_all a det sha ps m))"
    using assms(1) by (auto simp: assms(2)[symmetric] window_ok_def list_all_iff source_ok_def packet_view_def split: option.splits)
  then show ?thesis unfolding length_outgoing_all by (simp add: list_all_iff)
qed

subsection \<open>Properties\<close>

text \<open>C8: a window survives on its repair packets alone. A sender obfuscated \<open>k\<close> payloads in order, put the packets into
  the window of its encoder and sent any \<open>k\<close> different repair packets of it; a receiver with an empty window of \<open>k\<close> packets,
  whose stealth manager is in the state the sender's was in before the first payload, accepts all \<open>k\<close> frames in any order.
  With the last one it hands quiche exactly \<open>k\<close> buffers, in the order of the window, which start with the original
  payloads up to the length of the first one. As with single packets, the buffers are whole pool blocks.\<close>

theorem window_delivery:
  assumes receiver: "conn_reach pf api c" "xdp_socket c = None" "pool_ok (memory_pool (optimization_manager c))"
      "block_size (memory_pool (optimization_manager c)) = bs" "transition_left (fec c) \<le> 16"
      "decoder (fec c) = DecG8 (Decoder_new k)" "gf_scalar (gf pf)"
    and window: "gf_scalar g" "window_ok bs0 ws" "length ws = k" "k \<le> bs0"
      "map (v_payload \<circ> packet_view) ws = outgoing_all a det (sha256 pf) ps m"
    and step: "sm_config (stealth_manager c) = sm_config m" "xor_obfuscator (stealth_manager c) = xor_obfuscator m"
    and repair: "distinct rs" "length rs = k" "list_all (\<lambda>r. k + r < 256) rs"
      "list_all2 (is_repair_of g nd bs0 \<lparr>enc_k = k, enc_n = n, source_window = ws\<rparr>) rs pks"
      "list_all2 wire pks dats" "3 + k + len (hd ws) \<le> bs"
  shows "\<exists>c' bufs. recv_all pf api dats c = Some (replicate k (Inr (3 + k + len (hd ws))), c') \<and>
           list_all2 (\<lambda>p buf. length buf = bs \<and> take (len (hd ws)) buf = take (len (hd ws)) p) ps bufs \<and>
           conn c' = fold (hand_over api (peer_addr c) (local_addr c)) bufs (conn c)"
proof -
  let ?n = "len (hd ws)" and ?vs = "map packet_view pks"
  note frames = repair_window_frames[OF window(1-4) repair(2-6)]
  have k: "0 < k" using window(2,3) by (auto simp: window_ok_def)
  have "k + rs ! 0 < 256" using repair(2,3) k by (simp add: list_all_length)
  then have k256: "k \<le> 256" by simp
  have lenv: "length ?vs = k" using repair(2,4) by (simp add: list_all2_conv_all_nth)
  have code: "coded (gf pf) k ?n True (src_data ws) (map (sparse \<circ> coeff_row) qs) (map data qs)"
    if "list_all2 (received bs) ?vs qs" for qs
    using that by (intro transmitted_coded(2)[OF window(1) receiver(7) window(2-4) repair(1-4), of bs])
      (simp add: list_all2_map1 received_def)
  have "\<exists>B f. recv_all pf api (map frame ?vs) c = Some (map (\<lambda>v. Inr (length (frame v))) ?vs,
      fold (deliver pf api) (map (\<lambda>i. recovered i (B i) bs) [0..<k]) (set_fec f c)) \<and>
    (\<forall>i < k. length (B i) = bs \<and> (\<forall>j < min ?n bs. GF8 (B i ! j) = src_data ws i j))"
    by (rule recv_repairs[OF receiver(3,4,2,5) conn_inv_steady[OF conn_reach_inv[OF receiver(1)] receiver(5)]
          receiver(6)[folded dec_state_Nil] lenv k k256 frames(2)]) (rule code)
  then obtain B f where B: "recv_all pf api (map frame ?vs) c = Some (map (\<lambda>v. Inr (length (frame v))) ?vs,
      fold (deliver pf api) (map (\<lambda>i. recovered i (B i) bs) [0..<k]) (set_fec f c))"
    "\<forall>i < k. length (B i) = bs \<and> (\<forall>j < min ?n bs. GF8 (B i ! j) = src_data ws i j)" by (elim exE conjE)
  have n: "?n \<le> bs" using repair(6) by simp
  obtain bufs where bufs: "list_all2 (\<lambda>p buf. length buf = bs \<and> take ?n buf = take ?n p) ps bufs"
    "conn (fold (deliver pf api) (map (\<lambda>i. recovered i (B i) bs) [0..<k]) (set_fec f c)) =
       fold (hand_over api (peer_addr c) (local_addr c)) bufs (conn c)"
    using deliver_window[of "set_fec f c" m bs ?n a det pf ps "map (\<lambda>i. recovered i (B i) bs) [0..<k]" api]
      window_blocks[OF window(2,3) B(2) n] step window_payload_lengths[OF window(2,5)] n window(5) by auto
  moreover have "map (\<lambda>v. Inr (length (frame v))) ?vs = map Inr (map (\<lambda>v. length (frame v)) ?vs)" by simp
  ultimately show ?thesis using B(1) frames(1) by (auto simp only: frames(3) map_replicate)
qed

lemma repair_exists:
  assumes "gf_scalar g" "window_ok bs ws" "length ws = k" "k + r < 256" "k \<le> bs"
  shows "\<exists>pk dat. is_repair_of g nd bs \<lparr>enc_k = k, enc_n = n, source_window = ws\<rparr> r pk \<and> wire pk dat"
proof -
  obtain pk where pk: "is_repair_of g nd bs \<lparr>enc_k = k, enc_n = n, source_window = ws\<rparr> r pk"
    using repair_packet_exists[OF assms] by blast
  note fr = repair_frame[OF assms pk]
  obtain d where "data pk = Some d" using fr(3) by auto
  from to_raw_frame[OF fr(2) this, of "replicate (length (frame (packet_view pk))) 0"] pk show ?thesis
    unfolding wire_def by auto
qed

text \<open>Two obfuscated payloads of two bytes as a window.\<close>

lemma sample_window:
  obtains ws where "window_ok 8 ws" "length ws = 2" "len (hd ws) = 2"
    "map (v_payload \<circ> packet_view) ws = outgoing_all a det sha [[1, 2], [3, 4]] m"
proof -
  obtain w0 w1 where w: "outgoing_all a det sha [[1, 2], [3, 4]] m = [w0, w1]" by (simp add: case_prod_beta Let_def)
  have "length w0 = 2" "length w1 = 2" using length_outgoing_all[of a det sha "[[1, 2], [3, 4]]" m] unfolding w by simp_all
  then show thesis
    by (intro that[of "[sample_source 0 (w0 @ replicate 6 0) 2, sample_source 1 (w1 @ replicate 6 0) 2]"])
       (simp_all add: w[simplified] window_ok_def source_ok_def sample_source_def packet_view_def)
qed

theorem window_delivery_witness:
  "\<exists>(c :: (nat, nat, unit) QuicFuscateConnection) c' dats bufs.
     recv_all sample_platform sample_api dats c = Some ([Inr 7, Inr 7], c') \<and> map (take 2) bufs = [[1, 2], [3, 4]] \<and>
     conn c' = fold (hand_over sample_api (peer_addr c) (local_addr c)) bufs 0"
proof (rule sample_server[OF window_config_ok[of 2]])
  fix c g sm
  assume c: "conn_reach sample_platform sample_api c" "fec c = fst (AdaptiveFec_new 0 (window_config 2) (pool_new 1 4 8) std_env)"
    "memory_pool (optimization_manager c) = pool_new 1 4 8" "xdp_socket c = None" "conn c = 0"
  let ?m = "stealth_manager c" and ?a = "cpu_arch sample_platform" and ?det = "cpu sample_platform"
  obtain ws where w: "window_ok 8 ws" "length ws = 2" "len (hd ws) = 2"
    "map (v_payload \<circ> packet_view) ws = outgoing_all ?a ?det (sha256 sample_platform) [[1, 2], [3, 4]] ?m"
    by (rule sample_window)
  obtain pa da pb db where r: "is_repair_of std_env 0 8 \<lparr>enc_k = 2, enc_n = 4, source_window = ws\<rparr> 5 pa" "wire pa da"
    "is_repair_of std_env 0 8 \<lparr>enc_k = 2, enc_n = 4, source_window = ws\<rparr> 0 pb" "wire pb db"
    using repair_exists[OF gf_scalar_std_env w(1,2), of 5 0 4] repair_exists[OF gf_scalar_std_env w(1,2), of 0 0 4] by auto
  have g: "gf_scalar (gf sample_platform)" using gf_scalar_std_env by (simp add: sample_platform_def)
  have "\<exists>c' bufs. recv_all sample_platform sample_api [da, db] c = Some (replicate 2 (Inr (3 + 2 + len (hd ws))), c') \<and>
      list_all2 (\<lambda>p buf. length buf = 8 \<and> take (len (hd ws)) buf = take (len (hd ws)) p) [[1, 2], [3, 4]] bufs \<and>
      conn c' = fold (hand_over sample_api (peer_addr c) (local_addr c)) bufs (conn c)"
    using c w r window_config_fec
    by (intro window_delivery[OF c(1,4) _ _ _ _ g gf_scalar_std_env w(1,2) _ w(4), of 8 "[5, 0]" 0 4 "[pa, pb]"])
       (simp_all add: pool_ok_new)
  then obtain c' bufs where d: "recv_all sample_platform sample_api [da, db] c = Some (replicate 2 (Inr (3 + 2 + len (hd ws))), c')"
    "list_all2 (\<lambda>p buf. length buf = 8 \<and> take (len (hd ws)) buf = take (len (hd ws)) p) [[1, 2], [3, 4]] bufs"
    "conn c' = fold (hand_over sample_api (peer_addr c) (local_addr c)) bufs (conn c)" by (elim exE conjE)
  have "replicate 2 (Inr (3 + 2 + len (hd ws))) = [Inr 7, Inr 7 :: ConnectionError + nat]"
    by (simp add: w(3) numeral_2_eq_2)
  moreover have "map (take 2) bufs = [[1, 2], [3, 4]]" using d(2) by (auto simp: w(3) list_all2_Cons1)
  ultimately show ?thesis
    using d(1,3) c(5) by (intro exI[of _ c] exI[of _ c'] exI[of _ "[da, db]"] exI[of _ bufs]) (simp del: recv_all.simps)
qed

end
