(* ===== verification/Block_Leak.thy ===== *)
theory Block_Leak
  imports Window_Delivery
begin

text \<open>
  What happens to the blocks of received repair packets. A frame takes two blocks from the pool
  (\<open>src/src/core.rs\<close>: \<open>recv\<close>, \<open>src/src/fec/encoder.rs\<close>: \<open>from_block\<close>), one for the frame and one for the
  coefficients. The decoder (\<open>src/src/fec/decoder.rs\<close>: \<open>add_packet\<close>) moves them out of the packet, so that
  dropping the packet no longer returns them, and dropping the decoder returns only the packets in its slots:
  every repair packet of an abandoned window keeps two blocks for good.
\<close>

lemma drop_collecting_decoder: "drop_decoder nd (Some (DecG8 (dec_state k qs))) p = p"
  by (simp add: drop_packets_def map_filter_def)

text \<open>The content of a repair frame with \<open>k\<close> coefficients that fits a block.\<close>

definition repair_view :: "nat \<Rightarrow> nat \<Rightarrow> view \<Rightarrow> bool" where
  "repair_view k bs v \<longleftrightarrow> \<not> v_systematic v \<and> map_option length (v_coeffs v) = Some k \<and> length (frame v) \<le> bs"

lemma repair_view_like:
  assumes "repair_view k bs v" "k < 65536"
  shows "repair_like k bs v"
  unfolding repair_like_def
proof (intro conjI allI impI)
  show "parse_frame (frame v) = Inr v"
    using assms by (intro parse_frame_frame) (auto simp: repair_view_def view_ok_def)
  show "length (frame v) \<le> bs" using assms(1) by (simp add: repair_view_def)
  fix q assume "packet_view q = v" "packet_ok bs q" "data q \<noteq> None"
  with assms(1) show "repair_ok k bs q"
    by (auto simp: repair_view_def repair_ok_def packet_view_def packet_ok_def)
qed

text \<open>C35: an abandoned window. A connection over UDP, outside a cross-fade and with an empty decoder for windows of \<open>k\<close> packets,
  that receives the frames of fewer than \<open>k\<close> repair packets accepts them all and hands quiche nothing; afterwards exactly
  two blocks per frame more are handed out by the pool, and giving up the decoder (as a change of mode does) returns
  none of them.\<close>

theorem abandoned_window_leaks:
  assumes "pool_ok (memory_pool (optimization_manager c))" "block_size (memory_pool (optimization_manager c)) = bs"
    "xdp_socket c = None" "transition_left (fec c) \<le> 16" "transition_decoder (fec c) = None"
    "decoder (fec c) = DecG8 (Decoder_new k)" "vs \<noteq> []" "length vs < k" "k < 65536" "list_all (repair_view k bs) vs"
  shows "\<exists>c'. recv_all pf api (map frame vs) c = Some (map (\<lambda>v. Inr (length (frame v))) vs, c') \<and> conn c' = conn c \<and>
           in_use (mem_pool (fec c')) = in_use (memory_pool (optimization_manager c)) + 2 * of_nat (length vs) \<and>
           drop_decoder (node pf) (Some (decoder (fec c'))) (mem_pool (fec c')) = mem_pool (fec c')"
proof -
  have 1: "decoder (fec c) = DecG8 (dec_state k [])" using assms(6) by (simp add: dec_state_Nil)
  have 2: "list_all (repair_like k bs) vs" using assms(9,10) by (auto simp: list_all_iff repair_view_like)
  from recv_repairs_partial[OF assms(1-5) 1 _ 2, of pf api] assms(7,8) show ?thesis
    by (auto simp: drop_collecting_decoder set_fec_def simp del: drop_decoder.simps)
qed

theorem abandoned_window_leaks_witness:
  "\<exists>c c' :: (nat, nat, unit) QuicFuscateConnection.
     recv_all sample_platform sample_api [[0, 0, 2, 7, 9, 1, 2]] c = Some ([Inr 7], c') \<and> conn c' = 0 \<and>
     in_use (mem_pool (fec c')) = in_use (memory_pool (optimization_manager c)) + 2"
proof (rule sample_server[OF window_config_ok[of 2]])
  fix c g sm
  assume c: "fec c = fst (AdaptiveFec_new 0 (window_config 2) (pool_new 1 4 8) std_env)"
    "memory_pool (optimization_manager c) = pool_new 1 4 8" "xdp_socket c = None" "conn c = 0" "conn_reach sample_platform sample_api c"
  let ?v = "\<lparr>v_systematic = False, v_coeffs = Some [7, 9], v_payload = [1, 2]\<rparr>"
  have f: "frame ?v = [0, 0, 2, 7, 9, 1, 2]" by code_simp
  then have v: "list_all (repair_view 2 8) [?v]" by (simp add: repair_view_def)
  have d: "decoder (fec c) = DecG8 (Decoder_new 2)" "transition_left (fec c) \<le> 16"
    using window_config_fec by (simp_all add: c(1))
  note td = conn_inv_steady[OF conn_reach_inv[OF c(5)] d(2)]
  have "\<exists>c'. recv_all sample_platform sample_api (map frame [?v]) c = Some (map (\<lambda>v. Inr (length (frame v))) [?v], c') \<and> conn c' = conn c \<and>
      in_use (mem_pool (fec c')) = in_use (memory_pool (optimization_manager c)) + 2 * of_nat (length [?v]) \<and>
      drop_decoder (node sample_platform) (Some (decoder (fec c'))) (mem_pool (fec c')) = mem_pool (fec c')"
    using v by (intro abandoned_window_leaks[OF _ _ c(3) d(2) td d(1), of 8]) (simp_all add: c(2) pool_ok_new)
  then obtain c' where "recv_all sample_platform sample_api (map frame [?v]) c = Some (map (\<lambda>v. Inr (length (frame v))) [?v], c')"
    "conn c' = conn c" "in_use (mem_pool (fec c')) = in_use (memory_pool (optimization_manager c)) + 2 * of_nat (length [?v])"
    by (elim exE conjE) (rule that)
  moreover have "length (frame ?v) = 7" by (simp add: f)
  ultimately show ?thesis using c(4) f by (intro exI[of _ c] exI[of _ c']) (simp del: recv_all.simps)
qed

end
