(* ===== verification/Telemetry.thy ===== *)
theory Telemetry
  imports Prelude
begin

text \<open>
  The metrics of \<open>src/src/telemetry.rs\<close> and the lines of \<open>src/src/main.rs\<close> that switch them on.

  Every metric is a lazily initialised static: the first access registers its name with the crate
  \<open>prometheus\<close> and panics when the registration is refused. The state keeps the switch
  \<open>TELEMETRY_ENABLED\<close>, the statics that were accessed (in the order of their registration) and the calls
  that the program made on the metrics. A gauge shows the value of its last \<open>set\<close>, a counter has
  counted the sum of its increments. The crate itself (registration, \<open>gather\<close>, the text encoder), the
  process table of \<open>sysinfo\<close> and the listening socket are parameters.
\<close>

subsection \<open>The metrics\<close>

datatype metric =
    ENCODED_PACKETS | DECODED_PACKETS | LOSS_RATE | FEC_MODE | FEC_MODE_SWITCHES | FEC_WINDOW
     | DECODING_TIME_MS | FEC_OVERFLOWS | DNS_ERRORS | BYTES_SENT | BYTES_RECEIVED | XDP_BYTES_SENT
     | XDP_BYTES_RECEIVED | XDP_FALLBACKS | XDP_ACTIVE | XDP_SEND_LATENCY | XDP_RECV_LATENCY | XDP_THROUGHPUT
     | MEM_POOL_CAPACITY | MEM_POOL_BLOCK_SIZE | MEM_POOL_IN_USE | MEM_POOL_USAGE_BYTES
     | MEM_POOL_FRAGMENTATION | MEM_POOL_UTILIZATION | CPU_FEATURE_MASK | SIMD_ACTIVE | MEMORY_USAGE_BYTES
     | SIMD_USAGE_AVX512 | SIMD_USAGE_AVX2 | SIMD_USAGE_SSE2 | SIMD_USAGE_NEON | SIMD_USAGE_SCALAR
     | STEALTH_BROWSER_PROFILE | STEALTH_OS_PROFILE | PATH_MIGRATIONS | FEC_LAMBDA | FEC_BURST_WINDOW
     | FEC_HYSTERESIS | FEC_KALMAN | STEALTH_DOH | STEALTH_FRONTING | STEALTH_XOR

definition all_metrics :: "metric list" where
  "all_metrics =
    [ENCODED_PACKETS, DECODED_PACKETS, LOSS_RATE, FEC_MODE, FEC_MODE_SWITCHES, FEC_WINDOW, DECODING_TIME_MS
     , FEC_OVERFLOWS, DNS_ERRORS, BYTES_SENT, BYTES_RECEIVED, XDP_BYTES_SENT, XDP_BYTES_RECEIVED
     , XDP_FALLBACKS, XDP_ACTIVE, XDP_SEND_LATENCY, XDP_RECV_LATENCY, XDP_THROUGHPUT, MEM_POOL_CAPACITY
     , MEM_POOL_BLOCK_SIZE, MEM_POOL_IN_USE, MEM_POOL_USAGE_BYTES, MEM_POOL_FRAGMENTATION
     , MEM_POOL_UTILIZATION, CPU_FEATURE_MASK, SIMD_ACTIVE, MEMORY_USAGE_BYTES, SIMD_USAGE_AVX512
     , SIMD_USAGE_AVX2, SIMD_USAGE_SSE2, SIMD_USAGE_NEON, SIMD_USAGE_SCALAR, STEALTH_BROWSER_PROFILE
     , STEALTH_OS_PROFILE, PATH_MIGRATIONS, FEC_LAMBDA, FEC_BURST_WINDOW, FEC_HYSTERESIS, FEC_KALMAN
     , STEALTH_DOH, STEALTH_FRONTING, STEALTH_XOR]"

text \<open>The name and the help text that a static registers, and whether it is an \<open>IntCounter\<close> (the others are
  \<open>IntGauge\<close>).\<close>

primrec metric_name :: "metric \<Rightarrow> string" where
  "metric_name ENCODED_PACKETS = ''encoded_packets_total''"
| "metric_name DECODED_PACKETS = ''decoded_packets_total''"
| "metric_name LOSS_RATE = ''loss_rate_percent''"
| "metric_name FEC_MODE = ''fec_mode''"
| "metric_name FEC_MODE_SWITCHES = ''fec_mode_switch_total''"
| "metric_name FEC_WINDOW = ''fec_window_size''"
| "metric_name DECODING_TIME_MS = ''decoding_time_ms''"
| "metric_name FEC_OVERFLOWS = ''fec_overflow_total''"
| "metric_name DNS_ERRORS = ''dns_errors_total''"
| "metric_name BYTES_SENT = ''bytes_sent_total''"
| "metric_name BYTES_RECEIVED = ''bytes_received_total''"
| "metric_name XDP_BYTES_SENT = ''xdp_bytes_sent_total''"
| "metric_name XDP_BYTES_RECEIVED = ''xdp_bytes_received_total''"
| "metric_name XDP_FALLBACKS = ''xdp_fallback_total''"
| "metric_name XDP_ACTIVE = ''xdp_active''"
| "metric_name XDP_SEND_LATENCY = ''xdp_send_latency_us_total''"
| "metric_name XDP_RECV_LATENCY = ''xdp_recv_latency_us_total''"
| "metric_name XDP_THROUGHPUT = ''xdp_throughput_mbps''"
| "metric_name MEM_POOL_CAPACITY = ''mem_pool_capacity''"
| "metric_name MEM_POOL_BLOCK_SIZE = ''mem_pool_block_size''"
| "metric_name MEM_POOL_IN_USE = ''mem_pool_in_use''"
| "metric_name MEM_POOL_USAGE_BYTES = ''mem_pool_usage_bytes''"
| "metric_name MEM_POOL_FRAGMENTATION = ''mem_pool_fragmentation''"
| "metric_name MEM_POOL_UTILIZATION = ''mem_pool_utilization_percent''"
| "metric_name CPU_FEATURE_MASK = ''cpu_feature_mask''"
| "metric_name SIMD_ACTIVE = ''simd_active_policy''"
| "metric_name MEMORY_USAGE_BYTES = ''memory_usage_bytes''"
| "metric_name SIMD_USAGE_AVX512 = ''simd_usage_avx512_total''"
| "metric_name SIMD_USAGE_AVX2 = ''simd_usage_avx2_total''"
| "metric_name SIMD_USAGE_SSE2 = ''simd_usage_sse2_total''"
| "metric_name SIMD_USAGE_NEON = ''simd_usage_neon_total''"
| "metric_name SIMD_USAGE_SCALAR = ''simd_usage_scalar_total''"
| "metric_name STEALTH_BROWSER_PROFILE = ''stealth_browser_profile''"
| "metric_name STEALTH_OS_PROFILE = ''stealth_os_profile''"
| "metric_name PATH_MIGRATIONS = ''path_migrations_total''"
| "metric_name FEC_LAMBDA = ''fec_lambda_scaled''"
| "metric_name FEC_BURST_WINDOW = ''fec_burst_window''"
| "metric_name FEC_HYSTERESIS = ''fec_hysteresis_scaled''"
| "metric_name FEC_KALMAN = ''fec_kalman_enabled''"
| "metric_name STEALTH_DOH = ''stealth_doh''"
| "metric_name STEALTH_FRONTING = ''stealth_fronting''"
| "metric_name STEALTH_XOR = ''stealth_xor''"

primrec metric_help :: "metric \<Rightarrow> string" where
  "metric_help ENCODED_PACKETS = ''Total encoded packets''"
| "metric_help DECODED_PACKETS = ''Total decoded packets''"
| "metric_help LOSS_RATE = ''Current loss rate * 100''"
| "metric_help FEC_MODE = ''Current FEC mode''"
| "metric_help FEC_MODE_SWITCHES = ''FEC mode transitions''"
| "metric_help FEC_WINDOW = ''Current FEC window size''"
| "metric_help DECODING_TIME_MS = ''Last decoder runtime in ms''"
| "metric_help FEC_OVERFLOWS = ''FEC memory pool overflows''"
| "metric_help DNS_ERRORS = ''Number of DNS resolution errors''"
| "metric_help BYTES_SENT = ''Total UDP bytes sent''"
| "metric_help BYTES_RECEIVED = ''Total UDP bytes received''"
| "metric_help XDP_BYTES_SENT = ''Total XDP bytes sent''"
| "metric_help XDP_BYTES_RECEIVED = ''Total XDP bytes received''"
| "metric_help XDP_FALLBACKS = ''Number of times XDP fell back to UDP''"
| "metric_help XDP_ACTIVE = ''XDP enabled status''"
| "metric_help XDP_SEND_LATENCY = ''Total microseconds spent sending via XDP''"
| "metric_help XDP_RECV_LATENCY = ''Total microseconds spent receiving via XDP''"
| "metric_help XDP_THROUGHPUT = ''Current XDP throughput in Mbps''"
| "metric_help MEM_POOL_CAPACITY = ''Memory pool capacity''"
| "metric_help MEM_POOL_BLOCK_SIZE = ''Memory pool block size''"
| "metric_help MEM_POOL_IN_USE = ''Memory pool blocks in use''"
| "metric_help MEM_POOL_USAGE_BYTES = ''Memory pool bytes in use''"
| "metric_help MEM_POOL_FRAGMENTATION = ''Memory pool fragmentation in blocks''"
| "metric_help MEM_POOL_UTILIZATION = ''Memory pool utilization percentage''"
| "metric_help CPU_FEATURE_MASK = ''Detected CPU features bitmask''"
| "metric_help SIMD_ACTIVE = ''Active SIMD policy''"
| "metric_help MEMORY_USAGE_BYTES = ''Resident memory usage of the process''"
| "metric_help SIMD_USAGE_AVX512 = ''SIMD AVX512 dispatches''"
| "metric_help SIMD_USAGE_AVX2 = ''SIMD AVX2 dispatches''"
| "metric_help SIMD_USAGE_SSE2 = ''SIMD SSE2 dispatches''"
| "metric_help SIMD_USAGE_NEON = ''SIMD NEON dispatches''"
| "metric_help SIMD_USAGE_SCALAR = ''Scalar dispatches''"
| "metric_help STEALTH_BROWSER_PROFILE = ''Active browser profile''"
| "metric_help STEALTH_OS_PROFILE = ''Active OS profile''"
| "metric_help PATH_MIGRATIONS = ''Successful connection migrations''"
| "metric_help FEC_LAMBDA = ''FEC lambda * 1000''"
| "metric_help FEC_BURST_WINDOW = ''FEC burst window''"
| "metric_help FEC_HYSTERESIS = ''FEC hysteresis * 1000''"
| "metric_help FEC_KALMAN = ''Kalman filter enabled''"
| "metric_help STEALTH_DOH = ''DNS-over-HTTPS enabled''"
| "metric_help STEALTH_FRONTING = ''Domain fronting enabled''"
| "metric_help STEALTH_XOR = ''XOR obfuscation enabled''"

definition is_counter :: "metric \<Rightarrow> bool" where
  "is_counter m \<longleftrightarrow> m \<in> set
    [ENCODED_PACKETS, DECODED_PACKETS, FEC_MODE_SWITCHES, FEC_OVERFLOWS, DNS_ERRORS, BYTES_SENT
     , BYTES_RECEIVED, XDP_BYTES_SENT, XDP_BYTES_RECEIVED, XDP_FALLBACKS, XDP_SEND_LATENCY, XDP_RECV_LATENCY
     , SIMD_USAGE_AVX512, SIMD_USAGE_AVX2, SIMD_USAGE_SSE2, SIMD_USAGE_NEON, SIMD_USAGE_SCALAR
     , PATH_MIGRATIONS]"

text \<open>A call on a metric; the values are the 64 bits of an \<open>i64\<close> (gauges) or a \<open>u64\<close> (counters).\<close>

datatype metric_call = Set_to metric u64 | Inc metric | Inc_by metric u64

primrec target :: "metric_call \<Rightarrow> metric" where
  "target (Set_to m v) = m"
| "target (Inc m) = m"
| "target (Inc_by m v) = m"

record telemetry =
  TELEMETRY_ENABLED :: bool
  forced :: "metric list"
  calls :: "metric_call list"

definition telemetry_init :: telemetry where
  "telemetry_init = \<lparr>TELEMETRY_ENABLED = False, forced = [], calls = []\<rparr>"

text \<open>What the environment answers: whether the registry that holds the given names accepts a further
  name with a help text, the process id, and the memory that the process table has for it.\<close>

record metrics_env =
  register :: "string list \<Rightarrow> string \<Rightarrow> string \<Rightarrow> bool"
  get_current_pid :: "nat option"
  process_memory :: "nat \<Rightarrow> u64 option"

text \<open>An access to a static: \<open>register_int_counter!(..).unwrap()\<close> at the first one.\<close>

definition force :: "metrics_env \<Rightarrow> metric \<Rightarrow> telemetry \<Rightarrow> telemetry option" where
  "force P m t =
     (if m \<in> set (forced t) then Some t
      else if register P (map metric_name (forced t)) (metric_name m) (metric_help m)
      then Some (t\<lparr>forced := forced t @ [m]\<rparr>)
      else None)"

definition metric_do :: "metrics_env \<Rightarrow> metric_call \<Rightarrow> telemetry \<Rightarrow> telemetry option" where
  "metric_do P c t = do { t \<leftarrow> force P (target c) t; Some (t\<lparr>calls := calls t @ [c]\<rparr>) }"

text \<open>The macro \<open>telemetry!\<close>: the expression runs only when the switch is on.\<close>

definition telemetry_macro :: "(telemetry \<Rightarrow> telemetry option) \<Rightarrow> telemetry \<Rightarrow> telemetry option" where
  "telemetry_macro e t = (if TELEMETRY_ENABLED t then e t else Some t)"

text \<open>The call \<open>telemetry!(METRIC.op(..))\<close>, the form most sites have.\<close>

definition tel :: "metrics_env \<Rightarrow> metric_call \<Rightarrow> telemetry \<Rightarrow> telemetry option" where
  "tel P c = telemetry_macro (metric_do P c)"

text \<open>\<open>proc.memory() as i64 * 1024\<close> is a signed product that is checked.\<close>

definition i64_mul :: "u64 \<Rightarrow> u64 \<Rightarrow> u64 option" where
  "i64_mul a b = (if - (2 ^ 63) \<le> sint a * sint b \<and> sint a * sint b < 2 ^ 63 then Some (a * b) else None)"

definition update_memory_usage :: "metrics_env \<Rightarrow> telemetry \<Rightarrow> telemetry option" where
  "update_memory_usage P t = do {
     pid \<leftarrow> get_current_pid P;
     case process_memory P pid of
       None \<Rightarrow> Some t
     | Some mem \<Rightarrow> do { v \<leftarrow> i64_mul mem 1024; metric_do P (Set_to MEMORY_USAGE_BYTES v) t } }"

subsection \<open>Export\<close>

text \<open>\<open>serve\<close> binds its address or panics, and starts a thread that answers every connection with the encoded
  metrics. A connection is given with the state at the time of its answer; a failed \<open>accept\<close> is
  skipped and the result of writing is ignored. The thread panics when the encoder fails. Its result are
  the answers and whether it is still running.\<close>

definition serve :: "(string \<Rightarrow> bool) \<Rightarrow> string \<Rightarrow> unit option" where
  "serve can_bind addr = (if can_bind addr then Some () else None)"

primrec serve_thread ::
  "(telemetry \<Rightarrow> 'f) \<Rightarrow> ('f \<Rightarrow> bytes option) \<Rightarrow> ('s option \<times> telemetry) list \<Rightarrow> ('s \<times> bytes) list \<times> bool" where
  "serve_thread gather encode [] = ([], True)"
| "serve_thread gather encode (c # cs) =
     (case c of
        (None, t) \<Rightarrow> serve_thread gather encode cs
      | (Some s, t) \<Rightarrow>
          (case encode (gather t) of
             None \<Rightarrow> ([], False)
           | Some buf \<Rightarrow> (case serve_thread gather encode cs of (out, alive) \<Rightarrow> ((s, buf) # out, alive))))"

text \<open>\<open>flush\<close> logs the encoded metrics; \<open>lossy\<close> is \<open>String::from_utf8_lossy\<close>.\<close>

definition flush :: "(telemetry \<Rightarrow> 'f) \<Rightarrow> ('f \<Rightarrow> bytes option) \<Rightarrow> (bytes \<Rightarrow> string) \<Rightarrow> telemetry \<Rightarrow> string option" where
  "flush gather encode lossy t =
     (case encode (gather t) of None \<Rightarrow> None | Some buf \<Rightarrow> Some (CHR 0x0A # lossy buf))"

text \<open>The begin and the end of \<open>main\<close>: the flag \<open>--telemetry\<close> turns the switch on and starts the
  export; at the end the metrics are logged once more.\<close>

definition main_begin :: "(string \<Rightarrow> bool) \<Rightarrow> bool \<Rightarrow> telemetry \<Rightarrow> telemetry option" where
  "main_begin can_bind flag t =
     (if flag then do { serve can_bind ''0.0.0.0:9898''; Some (t\<lparr>TELEMETRY_ENABLED := True\<rparr>) } else Some t)"

definition main_end ::
  "(telemetry \<Rightarrow> 'f) \<Rightarrow> ('f \<Rightarrow> bytes option) \<Rightarrow> (bytes \<Rightarrow> string) \<Rightarrow> telemetry \<Rightarrow> string option" where
  "main_end gather encode lossy t = (if TELEMETRY_ENABLED t then flush gather encode lossy t else None)"

subsection \<open>What the metrics show\<close>

primrec set_value :: "metric \<Rightarrow> metric_call \<Rightarrow> u64 option" where
  "set_value m (Set_to m' v) = (if m' = m then Some v else None)"
| "set_value m (Inc m') = None"
| "set_value m (Inc_by m' v) = None"

primrec increment :: "metric \<Rightarrow> metric_call \<Rightarrow> nat" where
  "increment m (Set_to m' v) = 0"
| "increment m (Inc m') = (if m' = m then 1 else 0)"
| "increment m (Inc_by m' v) = (if m' = m then unat v else 0)"

definition gauge :: "metric \<Rightarrow> telemetry \<Rightarrow> u64 option" where
  "gauge m t = fold (\<lambda>c v. case set_value m c of None \<Rightarrow> v | Some w \<Rightarrow> Some w) (calls t) None"

definition counted :: "metric \<Rightarrow> telemetry \<Rightarrow> nat" where
  "counted m t = sum_list (map (increment m) (calls t))"

lemma gauge_snoc:
  "gauge m (t\<lparr>calls := calls t @ [c]\<rparr>) = (case set_value m c of None \<Rightarrow> gauge m t | Some w \<Rightarrow> Some w)"
  by (simp add: gauge_def split: option.split)

lemma counted_snoc: "counted m (t\<lparr>calls := calls t @ [c]\<rparr>) = counted m t + increment m c"
  by (simp add: counted_def)

lemma metric_fields [simp]:
  "gauge m (t\<lparr>forced := ms\<rparr>) = gauge m t" "counted m (t\<lparr>forced := ms\<rparr>) = counted m t"
  "gauge m (t\<lparr>TELEMETRY_ENABLED := b\<rparr>) = gauge m t" "counted m (t\<lparr>TELEMETRY_ENABLED := b\<rparr>) = counted m t"
  by (simp_all add: gauge_def counted_def)

lemma metric_init [simp]: "gauge m telemetry_init = None" "counted m telemetry_init = 0"
  by (simp_all add: gauge_def counted_def telemetry_init_def)

subsection \<open>Registration\<close>

text \<open>What \<open>prometheus\<close> documents about registration: a well-formed name that is not registered yet is
  accepted when its help text is not empty.\<close>

definition name_start :: string where
  "name_start = ''abcdefghijklmnopqrstuvwxyzABCDEFGHIJKLMNOPQRSTUVWXYZ_:''"

definition valid_metric_name :: "string \<Rightarrow> bool" where
  "valid_metric_name s \<longleftrightarrow> s \<noteq> [] \<and> hd s \<in> set name_start \<and>
     list_all (\<lambda>c. c \<in> set name_start \<or> c \<in> set ''0123456789'') s"

definition registry_ok :: "(string list \<Rightarrow> string \<Rightarrow> string \<Rightarrow> bool) \<Rightarrow> bool" where
  "registry_ok reg \<longleftrightarrow>
     (\<forall>names n h. n \<notin> set names \<longrightarrow> valid_metric_name n \<longrightarrow> h \<noteq> [] \<longrightarrow> reg names n h)"

text \<open>The process is found under an id, and its memory in bytes fits a signed word.\<close>

definition memory_ok :: "metrics_env \<Rightarrow> bool" where
  "memory_ok P \<longleftrightarrow>
     (case get_current_pid P of None \<Rightarrow> False
      | Some pid \<Rightarrow> (case process_memory P pid of None \<Rightarrow> True | Some mem \<Rightarrow> unat mem < 2 ^ 53))"

definition metrics_env_ok :: "metrics_env \<Rightarrow> bool" where
  "metrics_env_ok P \<longleftrightarrow> registry_ok (register P) \<and> memory_ok P"

lemma all_metrics_complete: "m \<in> set all_metrics"
  by (cases m) (simp_all add: all_metrics_def)

lemma metric_names_distinct: "distinct (map metric_name all_metrics)"
  by code_simp

lemma metric_name_inject: "metric_name m = metric_name m' \<longleftrightarrow> m = m'"
  using metric_names_distinct all_metrics_complete unfolding distinct_map inj_on_def by blast

lemma metric_names_valid: "valid_metric_name (metric_name m) \<and> metric_help m \<noteq> []"
proof -
  have "list_all (\<lambda>m. valid_metric_name (metric_name m) \<and> metric_help m \<noteq> []) all_metrics"
    by code_simp
  then show ?thesis using all_metrics_complete by (simp add: list_all_iff)
qed

lemma force_ok:
  assumes "registry_ok (register P)"
  shows "force P m t = Some (t\<lparr>forced := forced t @ (if m \<in> set (forced t) then [] else [m])\<rparr>)"
proof (cases "m \<in> set (forced t)")
  case False
  then have "metric_name m \<notin> set (map metric_name (forced t))"
    by (auto simp: metric_name_inject)
  with assms metric_names_valid[of m] False show ?thesis by (simp add: force_def registry_ok_def)
qed (simp add: force_def)

text \<open>The effect of a call that does not panic, on the metrics.\<close>

definition after :: "metric_call \<Rightarrow> telemetry \<Rightarrow> telemetry" where
  "after c t = t\<lparr>forced := forced t @ (if target c \<in> set (forced t) then [] else [target c]),
                 calls := calls t @ [c]\<rparr>"

lemma metric_do_ok: "registry_ok (register P) \<Longrightarrow> metric_do P c t = Some (after c t)"
  by (simp add: metric_do_def force_ok after_def)

lemma tel_ok: "registry_ok (register P) \<Longrightarrow> tel P c t = Some (if TELEMETRY_ENABLED t then after c t else t)"
  by (simp add: tel_def telemetry_macro_def metric_do_ok)

lemma after_simps [simp]:
  "TELEMETRY_ENABLED (after c t) = TELEMETRY_ENABLED t"
  "gauge m (after c t) = (case set_value m c of None \<Rightarrow> gauge m t | Some w \<Rightarrow> Some w)"
  "counted m (after c t) = counted m t + increment m c"
  by (simp_all add: after_def gauge_def counted_def split: option.split)

lemma i64_mul_1024:
  assumes "unat mem < 2 ^ 53"
  shows "i64_mul mem 1024 = Some (mem * 1024)"
proof -
  have "int (unat mem) < int (2 ^ 53)" using assms by (simp only: of_nat_less_iff)
  then have mem: "0 \<le> uint mem" "uint mem < 2 ^ 53" by simp_all
  then have "sint mem = uint mem"
    unfolding sint_uint by (intro signed_take_bit_int_eq_self order_trans[OF _ mem(1)]) simp_all
  moreover have "sint (1024 :: u64) = 1024" by code_simp
  ultimately show ?thesis using mem order_trans[OF _ mem(1), of "- 9007199254740992"] by (simp add: i64_mul_def)
qed

lemma update_memory_usage_ok:
  assumes "metrics_env_ok P"
  shows "\<exists>t'. update_memory_usage P t = Some t' \<and> TELEMETRY_ENABLED t' = TELEMETRY_ENABLED t \<and>
           (\<forall>m. m \<noteq> MEMORY_USAGE_BYTES \<longrightarrow> gauge m t' = gauge m t) \<and> (\<forall>m. counted m t' = counted m t)"
proof -
  obtain pid where "get_current_pid P = Some pid"
    using assms by (auto simp: metrics_env_ok_def memory_ok_def split: option.splits)
  with assms show ?thesis
    by (cases "process_memory P pid")
      (auto simp: update_memory_usage_def metrics_env_ok_def memory_ok_def i64_mul_1024 metric_do_ok)
qed

subsection \<open>Components with metrics\<close>

text \<open>A history of operations on a component, each with the environment at its time: with and without
  metrics, and the condition that every operation meets its own requirement.\<close>

definition run_all ::
  "(metrics_env \<Rightarrow> 'op \<Rightarrow> 's \<Rightarrow> telemetry \<Rightarrow> ('s \<times> telemetry) option) \<Rightarrow> (metrics_env \<times> 'op) list \<Rightarrow>
   's \<times> telemetry \<Rightarrow> ('s \<times> telemetry) option" where
  "run_all run = ofold (\<lambda>(P, x) (s, t). run P x s t)"

definition plain_all :: "('op \<Rightarrow> 's \<Rightarrow> 's option) \<Rightarrow> (metrics_env \<times> 'op) list \<Rightarrow> 's \<Rightarrow> 's option" where
  "plain_all plain = ofold (\<lambda>(P, x) s. plain x s)"

primrec fits_all ::
  "('op \<Rightarrow> 's \<Rightarrow> 's option) \<Rightarrow> ('op \<Rightarrow> 's \<Rightarrow> bool) \<Rightarrow> (metrics_env \<times> 'op) list \<Rightarrow> 's \<Rightarrow> bool" where
  "fits_all plain fits [] s \<longleftrightarrow> True"
| "fits_all plain fits (x # xs) s \<longleftrightarrow> metrics_env_ok (fst x) \<and> fits (snd x) s \<and>
     (case plain (snd x) s of None \<Rightarrow> True | Some s' \<Rightarrow> fits_all plain fits xs s')"

text \<open>The contract of a component with metrics: an operation with metrics has the outcome of the operation
  without them, and when the switch is on it keeps the metrics in step with the state.\<close>

locale instrumented =
  fixes run :: "metrics_env \<Rightarrow> 'op \<Rightarrow> 's \<Rightarrow> telemetry \<Rightarrow> ('s \<times> telemetry) option"
    and plain :: "'op \<Rightarrow> 's \<Rightarrow> 's option"
    and fits :: "'op \<Rightarrow> 's \<Rightarrow> bool"
    and shown :: "'s \<Rightarrow> telemetry \<Rightarrow> bool"
  assumes run_plain: "metrics_env_ok P \<Longrightarrow> fits x s \<Longrightarrow> plain x s = Some s' \<Longrightarrow>
      \<exists>t'. run P x s t = Some (s', t') \<and> TELEMETRY_ENABLED t' = TELEMETRY_ENABLED t \<and>
        (TELEMETRY_ENABLED t \<longrightarrow> shown s t \<longrightarrow> shown s' t')"
begin

lemma history:
  "fits_all plain fits xs s \<Longrightarrow> plain_all plain xs s = Some s' \<Longrightarrow>
   \<exists>t'. run_all run xs (s, t) = Some (s', t') \<and> TELEMETRY_ENABLED t' = TELEMETRY_ENABLED t \<and>
     (TELEMETRY_ENABLED t \<longrightarrow> shown s t \<longrightarrow> shown s' t')"
proof (induction xs arbitrary: s t)
  case Nil
  then show ?case by (simp add: run_all_def plain_all_def)
next
  case (Cons x xs)
  obtain P y where x: "x = (P, y)" by (cases x)
  from Cons.prems obtain s1 where s1: "plain y s = Some s1" "plain_all plain xs s1 = Some s'"
    by (auto simp: plain_all_def x split: Option.bind_splits)
  with Cons.prems have ok: "metrics_env_ok P" "fits y s" "fits_all plain fits xs s1" by (simp_all add: x)
  from run_plain[OF ok(1,2) s1(1)] obtain t1 where t1: "run P y s t = Some (s1, t1)"
    "TELEMETRY_ENABLED t1 = TELEMETRY_ENABLED t" "TELEMETRY_ENABLED t \<longrightarrow> shown s t \<longrightarrow> shown s1 t1" by blast
  from Cons.IH[OF ok(3) s1(2), of t1] t1 show ?case by (auto simp: run_all_def x)
qed

end

subsection \<open>Registration never fails\<close>

text \<open>The statics register 42 distinct well-formed names, each at most once, so that no access to a metric panics:
  any sequence of calls goes through, makes exactly these calls and registers exactly the metrics it
  uses.\<close>

lemma metrics_never_panic:
  assumes "registry_ok (register P)" "distinct (forced t)"
  shows "\<exists>t'. ofold (metric_do P) cs t = Some t' \<and> calls t' = calls t @ cs \<and>
           distinct (map metric_name (forced t')) \<and> set (forced t') = set (forced t) \<union> set (map target cs)"
  using assms(2)
proof (induction cs arbitrary: t)
  case Nil
  then show ?case by (simp add: distinct_map inj_on_def metric_name_inject)
next
  case (Cons c cs)
  have "distinct (forced (after c t))" using Cons.prems by (simp add: after_def)
  from Cons.IH[OF this] show ?case
    by (auto simp: metric_do_ok[OF assms(1)] after_def split: if_splits)
qed

definition example_env :: metrics_env where
  "example_env = \<lparr>register = (\<lambda>names n h. n \<notin> set names), get_current_pid = Some 1,
     process_memory = (\<lambda>pid. Some 4096)\<rparr>"

lemma example_env_ok: "metrics_env_ok example_env" "registry_ok (register example_env)"
  by (simp_all add: metrics_env_ok_def registry_ok_def memory_ok_def example_env_def)

end
