(* ===== verification/Pool_Telemetry.thy ===== *)
theory Pool_Telemetry
  imports Telemetry Memory_Pool
begin

text \<open>
  The operations of the memory pool with the metrics they write (\<open>src/src/optimize.rs\<close>, lines 436 to 565)
  and with the overflow checks of a debug build: \<open>capacity * 2\<close> in \<open>alloc\<close> and the sums and products of
  \<open>update_metrics\<close>, which are computed whether the metrics are switched on or not (all but the bytes in
  use). \<open>None\<close> is a panic or a loop without progress.

  The theory shows that on pools of realistic size the operations with metrics do what the operations of
  \<open>Memory_Pool\<close> do, and what the gauges then show.
\<close>

definition checked_add :: "usize \<Rightarrow> usize \<Rightarrow> usize option" where
  "checked_add a b = (if uint a + uint b < 2 ^ 64 then Some (a + b) else None)"

definition checked_mul :: "usize \<Rightarrow> usize \<Rightarrow> usize option" where
  "checked_mul a b = (if uint a * uint b < 2 ^ 64 then Some (a * b) else None)"

definition saturating_sub :: "usize \<Rightarrow> usize \<Rightarrow> usize" where
  "saturating_sub a b = (if b \<le> a then a - b else 0)"

definition update_metrics :: "metrics_env \<Rightarrow> MemoryPool \<Rightarrow> telemetry \<Rightarrow> telemetry option" where
  "update_metrics P p t = do {
     let cap = capacity p;
     let used = in_use p;
     let avail = available p;
     t \<leftarrow> tel P (Set_to MEM_POOL_IN_USE used) t;
     t \<leftarrow> telemetry_macro (\<lambda>t. do {
            v \<leftarrow> checked_mul used (of_nat (block_size p));
            metric_do P (Set_to MEM_POOL_USAGE_BYTES v) t }) t;
     s \<leftarrow> checked_add used avail;
     let frag = saturating_sub cap s;
     t \<leftarrow> tel P (Set_to MEM_POOL_FRAGMENTATION frag) t;
     util \<leftarrow> (if cap = 0 then Some 0 else do { v \<leftarrow> checked_mul used 100; Some (v div cap) });
     tel P (Set_to MEM_POOL_UTILIZATION util) t }"

definition pool_new_t ::
  "metrics_env \<Rightarrow> nat \<Rightarrow> usize \<Rightarrow> nat \<Rightarrow> telemetry \<Rightarrow> (MemoryPool \<times> telemetry) option" where
  "pool_new_t P nodes cap bs t = do {
     t \<leftarrow> tel P (Set_to MEM_POOL_CAPACITY cap) t;
     t \<leftarrow> tel P (Set_to MEM_POOL_BLOCK_SIZE (of_nat bs)) t;
     t \<leftarrow> tel P (Set_to MEM_POOL_USAGE_BYTES 0) t;
     t \<leftarrow> tel P (Set_to MEM_POOL_FRAGMENTATION 0) t;
     t \<leftarrow> tel P (Set_to MEM_POOL_UTILIZATION 0) t;
     let pool = pool_new nodes cap bs;
     t \<leftarrow> update_metrics P pool t;
     Some (pool, t) }"

text \<open>The capacity gauge is set without the macro here.\<close>

definition grow_t ::
  "metrics_env \<Rightarrow> usize \<Rightarrow> MemoryPool \<Rightarrow> telemetry \<Rightarrow> (MemoryPool \<times> telemetry) option" where
  "grow_t P new_capacity p t = do {
     p \<leftarrow> grow new_capacity p;
     t \<leftarrow> metric_do P (Set_to MEM_POOL_CAPACITY (capacity p)) t;
     t \<leftarrow> update_metrics P p t;
     Some (p, t) }"

definition alloc_t ::
  "metrics_env \<Rightarrow> nat \<Rightarrow> MemoryPool \<Rightarrow> telemetry \<Rightarrow> (block \<times> MemoryPool \<times> telemetry) option" where
  "alloc_t P nd p t =
     (case (if nd < length (pools p) then pools p ! nd else []) of
        b # q \<Rightarrow> do {
          let p = p\<lparr>pools := (pools p)[nd := q], available := available p - 1, in_use := in_use p + 1\<rparr>;
          t \<leftarrow> update_metrics P p t;
          t \<leftarrow> telemetry_macro (update_memory_usage P) t;
          Some (b, p, t) }
      | [] \<Rightarrow> do {
          t \<leftarrow> tel P (Inc FEC_OVERFLOWS) t;
          new_cap \<leftarrow> checked_mul (capacity p) 2;
          (p, t) \<leftarrow> grow_t P new_cap p t;
          let p = p\<lparr>in_use := in_use p + 1\<rparr>;
          t \<leftarrow> update_metrics P p t;
          t \<leftarrow> telemetry_macro (update_memory_usage P) t;
          Some (alloc_numa_block (block_size p) nd, p, t) })"

definition free_t ::
  "metrics_env \<Rightarrow> nat \<Rightarrow> block \<Rightarrow> MemoryPool \<Rightarrow> telemetry \<Rightarrow> (MemoryPool \<times> telemetry) option" where
  "free_t P nd b p t = do {
     let p = free nd b p;
     t \<leftarrow> update_metrics P p t;
     t \<leftarrow> telemetry_macro (update_memory_usage P) t;
     Some (p, t) }"

definition set_capacity_t ::
  "metrics_env \<Rightarrow> usize \<Rightarrow> MemoryPool \<Rightarrow> telemetry \<Rightarrow> (MemoryPool \<times> telemetry) option" where
  "set_capacity_t P new_capacity p t = do {
     let current = capacity p;
     (p, t) \<leftarrow> (if new_capacity > current then grow_t P new_capacity p t
                else do { p \<leftarrow> shrink (current - new_capacity) p; Some (p, t) });
     t \<leftarrow> tel P (Set_to MEM_POOL_CAPACITY (capacity p)) t;
     t \<leftarrow> update_metrics P p t;
     t \<leftarrow> telemetry_macro (update_memory_usage P) t;
     Some (p, t) }"

subsection \<open>Histories\<close>

datatype pool_op = Alloc nat | Free nat block | Set_capacity usize

fun pool_run :: "metrics_env \<Rightarrow> pool_op \<Rightarrow> MemoryPool \<Rightarrow> telemetry \<Rightarrow> (MemoryPool \<times> telemetry) option" where
  "pool_run P (Alloc nd) p t = map_option snd (alloc_t P nd p t)"
| "pool_run P (Free nd b) p t = free_t P nd b p t"
| "pool_run P (Set_capacity c) p t = set_capacity_t P c p t"

fun pool_plain :: "pool_op \<Rightarrow> MemoryPool \<Rightarrow> MemoryPool option" where
  "pool_plain (Alloc nd) p = map_option snd (alloc nd p)"
| "pool_plain (Free nd b) p = Some (free nd b p)"
| "pool_plain (Set_capacity c) p = set_capacity c p"

text \<open>The numbers that \<open>update_metrics\<close> computes fit 64 bits.\<close>

definition metrics_fit :: "MemoryPool \<Rightarrow> bool" where
  "metrics_fit p \<longleftrightarrow> int (block_size p) < 2 ^ 64 \<and> uint (in_use p) * int (block_size p) < 2 ^ 64 \<and>
     uint (in_use p) * 100 < 2 ^ 64 \<and> uint (in_use p) + uint (available p) < 2 ^ 64"

text \<open>What an operation needs: a well-formed pool, a capacity that can be doubled, and a block to give
  back that was handed out.\<close>

fun pool_fits :: "pool_op \<Rightarrow> MemoryPool \<Rightarrow> bool" where
  "pool_fits (Alloc nd) p \<longleftrightarrow> pool_ok p \<and> uint (capacity p) * 2 < 2 ^ 64 \<and>
     (case alloc nd p of None \<Rightarrow> True | Some (b, p') \<Rightarrow> metrics_fit p' \<and> in_use p' \<noteq> 0)"
| "pool_fits (Free nd b) p \<longleftrightarrow> pool_ok p \<and> metrics_fit (free nd b p) \<and> in_use p \<noteq> 0 \<and> length b = block_size p"
| "pool_fits (Set_capacity c) p \<longleftrightarrow> pool_ok p \<and>
     (case set_capacity c p of None \<Rightarrow> True | Some p' \<Rightarrow> metrics_fit p')"

definition usage_shown :: "MemoryPool \<Rightarrow> telemetry \<Rightarrow> bool" where
  "usage_shown p t \<longleftrightarrow>
     gauge MEM_POOL_IN_USE t = Some (in_use p) \<and>
     gauge MEM_POOL_USAGE_BYTES t = Some (in_use p * of_nat (block_size p)) \<and>
     gauge MEM_POOL_FRAGMENTATION t = Some (saturating_sub (capacity p) (in_use p + available p)) \<and>
     gauge MEM_POOL_UTILIZATION t = Some (if capacity p = 0 then 0 else in_use p * 100 div capacity p)"

definition size_shown :: "MemoryPool \<Rightarrow> telemetry \<Rightarrow> bool" where
  "size_shown p t \<longleftrightarrow> gauge MEM_POOL_CAPACITY t = Some (capacity p) \<and>
     gauge MEM_POOL_BLOCK_SIZE t = Some (of_nat (block_size p))"

definition pool_shown :: "MemoryPool \<Rightarrow> telemetry \<Rightarrow> bool" where
  "pool_shown p t \<longleftrightarrow> size_shown p t \<and> usage_shown p t"

lemma int_less_64: "int n < 2 ^ 64 \<longleftrightarrow> n < 2 ^ 64"
  by simp

lemma fit_64:
  "uint (a :: usize) * uint (b :: usize) < 2 ^ 64 \<longleftrightarrow> unat a * unat b < 2 ^ 64"
  "uint a + uint b < 2 ^ 64 \<longleftrightarrow> unat a + unat b < 2 ^ 64"
  "uint a * int n < 2 ^ 64 \<longleftrightarrow> unat a * n < 2 ^ 64"
  "uint a * numeral k < 2 ^ 64 \<longleftrightarrow> unat a * numeral k < 2 ^ 64"
  using int_less_64[of "unat a * unat b"] int_less_64[of "unat a + unat b"] int_less_64[of "unat a * n"]
    int_less_64[of "unat a * numeral k"]
  by (simp_all only: of_nat_mult of_nat_add of_nat_numeral uint_nat)

lemma unat_100 [simp]: "unat (100 :: usize) = 100" "unat (2 :: usize) = 2"
  by code_simp+

lemma metrics_fit_nat:
  "metrics_fit p \<longleftrightarrow> block_size p < 2 ^ 64 \<and> unat (in_use p) * block_size p < 2 ^ 64 \<and>
     unat (in_use p) * 100 < 2 ^ 64 \<and> unat (in_use p) + unat (available p) < 2 ^ 64"
  by (simp only: metrics_fit_def fit_64 int_less_64)

lemma unat_of_nat_64: "n < 2 ^ 64 \<Longrightarrow> unat (of_nat n :: usize) = n"
  by (simp add: unat_of_nat)

lemma update_metrics_ok:
  assumes "registry_ok (register P)" "metrics_fit p"
  shows "\<exists>t'. update_metrics P p t = Some t' \<and> TELEMETRY_ENABLED t' = TELEMETRY_ENABLED t \<and>
           (size_shown q t' \<longleftrightarrow> size_shown q t) \<and> (TELEMETRY_ENABLED t \<longrightarrow> usage_shown p t')"
proof -
  have "checked_mul (in_use p) (of_nat (block_size p)) = Some (in_use p * of_nat (block_size p))"
    "checked_mul (in_use p) 100 = Some (in_use p * 100)"
    "checked_add (in_use p) (available p) = Some (in_use p + available p)"
    using assms(2)
    by (simp_all only: metrics_fit_nat checked_add_def checked_mul_def fit_64 unat_100 unat_of_nat_64 if_True)
  then show ?thesis
    by (cases "TELEMETRY_ENABLED t") (simp_all add: Let_def update_metrics_def tel_ok[OF assms(1)] metric_do_ok[OF assms(1)] telemetry_macro_def
        size_shown_def usage_shown_def)
qed

lemma memory_usage_shown:
  assumes "metrics_env_ok P"
  shows "\<exists>t'. telemetry_macro (update_memory_usage P) t = Some t' \<and> TELEMETRY_ENABLED t' = TELEMETRY_ENABLED t \<and>
           (size_shown q t' \<longleftrightarrow> size_shown q t) \<and> (usage_shown p t' \<longleftrightarrow> usage_shown p t)"
  using update_memory_usage_ok[OF assms, of t]
  by (cases "TELEMETRY_ENABLED t") (auto simp: telemetry_macro_def size_shown_def usage_shown_def)

text \<open>The common end of the operations: the metrics of the pool and of the process.\<close>

lemma metrics_end:
  assumes "metrics_env_ok P" "metrics_fit p"
  shows "\<exists>t1 t'. update_metrics P p t = Some t1 \<and> telemetry_macro (update_memory_usage P) t1 = Some t' \<and>
           TELEMETRY_ENABLED t' = TELEMETRY_ENABLED t \<and> (size_shown q t' \<longleftrightarrow> size_shown q t) \<and>
           (TELEMETRY_ENABLED t \<longrightarrow> usage_shown p t')"
proof -
  have "registry_ok (register P)" using assms(1) by (simp add: metrics_env_ok_def)
  from update_metrics_ok[OF this assms(2)] obtain t1 where t1: "update_metrics P p t = Some t1"
    "TELEMETRY_ENABLED t1 = TELEMETRY_ENABLED t" "size_shown q t1 \<longleftrightarrow> size_shown q t"
    "TELEMETRY_ENABLED t \<longrightarrow> usage_shown p t1" by blast
  from memory_usage_shown[OF assms(1), of t1 q p] t1 show ?thesis by auto
qed

lemma grow_t_ok:
  assumes "metrics_env_ok P" "grow c p = Some p'" "metrics_fit p'" "block_size p' = block_size p"
  shows "\<exists>t'. grow_t P c p t = Some (p', t') \<and> TELEMETRY_ENABLED t' = TELEMETRY_ENABLED t \<and>
           (TELEMETRY_ENABLED t \<longrightarrow> size_shown p t \<longrightarrow> pool_shown p' t')"
proof -
  have reg: "registry_ok (register P)" using assms(1) by (simp add: metrics_env_ok_def)
  define t0 where "t0 = after (Set_to MEM_POOL_CAPACITY (capacity p')) t"
  have "TELEMETRY_ENABLED t0 = TELEMETRY_ENABLED t" "size_shown p t \<longrightarrow> size_shown p' t0"
    using assms(4) by (simp_all add: t0_def size_shown_def)
  with update_metrics_ok[OF reg assms(3), of t0 p'] assms(2) show ?thesis
    by (auto simp: grow_t_def metric_do_ok[OF reg] pool_shown_def simp flip: t0_def)
qed

lemma alloc_t_ok:
  assumes P: "metrics_env_ok P" and fits: "pool_fits (Alloc nd) p" and al: "alloc nd p = Some (b, p')"
  shows "\<exists>t'. alloc_t P nd p t = Some (b, p', t') \<and> TELEMETRY_ENABLED t' = TELEMETRY_ENABLED t \<and>
           (TELEMETRY_ENABLED t \<longrightarrow> pool_shown p t \<longrightarrow> pool_shown p' t')"
proof (cases "if nd < length (pools p) then pools p ! nd else []")
  case (Cons b' q)
  then have p': "p' = p\<lparr>pools := (pools p)[nd := q], available := available p - 1, in_use := in_use p + 1\<rparr>"
    "b = b'" using al by (simp_all add: alloc_def)
  moreover have "size_shown p' t' = size_shown p t'" for t' by (simp add: p' size_shown_def)
  ultimately show ?thesis
    using metrics_end[OF P, of p' t p] fits al Cons by (auto simp: alloc_t_def pool_shown_def Let_def)
next
  case Nil
  obtain k where k: "pool_inv k p" "0 < num_nodes p" using fits by (auto simp: pool_ok_iff)
  from grow_spec[OF this] obtain p1 where p1: "grow (capacity p * 2) p = Some p1" "pool_frame p p1" by blast
  then have p': "p' = p1\<lparr>in_use := in_use p1 + 1\<rparr>" "b = alloc_numa_block (block_size p1) nd"
    using al Nil by (simp_all add: alloc_def)
  define t0 where "t0 = (if TELEMETRY_ENABLED t then after (Inc FEC_OVERFLOWS) t else t)"
  have "metrics_fit p'" "in_use p1 + 1 \<noteq> 0" using fits al p' by simp_all
  then have "metrics_fit p1"
    by (auto simp: p' metrics_fit_nat unatSuc add.commute elim!: order.strict_trans1[rotated])
  moreover have "block_size p1 = block_size p" using p1 by (simp add: pool_frame_def)
  ultimately obtain t1 where t1: "grow_t P (capacity p * 2) p t0 = Some (p1, t1)"
    "TELEMETRY_ENABLED t1 = TELEMETRY_ENABLED t0" "TELEMETRY_ENABLED t0 \<longrightarrow> size_shown p t0 \<longrightarrow> pool_shown p1 t1"
    using grow_t_ok[OF P p1(1), of t0] by blast
  have t0: "TELEMETRY_ENABLED t0 = TELEMETRY_ENABLED t" "size_shown p t \<longrightarrow> size_shown p t0"
    by (simp_all add: t0_def size_shown_def)
  have "tel P (Inc FEC_OVERFLOWS) t = Some t0"
    using P by (simp add: tel_ok metrics_env_ok_def t0_def)
  moreover have "checked_mul (capacity p) 2 = Some (capacity p * 2)"
    using fits by (simp add: checked_mul_def)
  moreover have "size_shown p' t' = size_shown p1 t'" for t' by (simp add: p' size_shown_def)
  ultimately show ?thesis
    using metrics_end[OF P \<open>metrics_fit p'\<close>, of t1 p1] t1 t0 Nil
    by (auto simp: alloc_t_def Let_def p'(2) pool_shown_def simp flip: p'(1))
qed

lemma free_t_ok:
  assumes P: "metrics_env_ok P" and fits: "pool_fits (Free nd b) p"
  shows "\<exists>t'. free_t P nd b p t = Some (free nd b p, t') \<and> TELEMETRY_ENABLED t' = TELEMETRY_ENABLED t \<and>
           (TELEMETRY_ENABLED t \<longrightarrow> pool_shown p t \<longrightarrow> pool_shown (free nd b p) t')"
proof -
  obtain k where k: "pool_inv k p" using fits by (auto simp: pool_ok_iff)
  have "size_shown (free nd b p) t' = size_shown p t'" for t'
    using free_spec[OF k, of b nd] fits by (simp add: size_shown_def)
  with metrics_end[OF P, of "free nd b p" t p] fits show ?thesis by (auto simp: free_t_def pool_shown_def)
qed

lemma set_capacity_t_ok:
  assumes P: "metrics_env_ok P" and fits: "pool_fits (Set_capacity c) p" and set: "set_capacity c p = Some p'"
  shows "\<exists>t'. set_capacity_t P c p t = Some (p', t') \<and> TELEMETRY_ENABLED t' = TELEMETRY_ENABLED t \<and>
           (TELEMETRY_ENABLED t \<longrightarrow> pool_shown p t \<longrightarrow> pool_shown p' t')"
proof -
  have fit: "metrics_fit p'" "block_size p' = block_size p"
    using fits set set_capacity_ok[of p c p'] by (simp_all add: pool_frame_def)
  have reg: "registry_ok (register P)" using P by (simp add: metrics_env_ok_def)
  have "\<exists>t1. (if c > capacity p then grow_t P c p t else do { p \<leftarrow> shrink (capacity p - c) p; Some (p, t) }) =
      Some (p', t1) \<and> TELEMETRY_ENABLED t1 = TELEMETRY_ENABLED t \<and>
      (TELEMETRY_ENABLED t \<longrightarrow> gauge MEM_POOL_BLOCK_SIZE t = Some (of_nat (block_size p)) \<longrightarrow>
       size_shown p t \<longrightarrow> gauge MEM_POOL_BLOCK_SIZE t1 = Some (of_nat (block_size p)))"
    using set grow_t_ok[OF P _ fit, of c t] fit(2)
    by (auto simp: set_capacity_def pool_shown_def size_shown_def split: if_splits)
  then obtain t1 where t1: "(if c > capacity p then grow_t P c p t
      else do { p \<leftarrow> shrink (capacity p - c) p; Some (p, t) }) = Some (p', t1)"
    "TELEMETRY_ENABLED t1 = TELEMETRY_ENABLED t"
    "TELEMETRY_ENABLED t \<longrightarrow> size_shown p t \<longrightarrow> gauge MEM_POOL_BLOCK_SIZE t1 = Some (of_nat (block_size p'))"
    using fit(2) by (auto simp: size_shown_def)
  define t2 where "t2 = (if TELEMETRY_ENABLED t1 then after (Set_to MEM_POOL_CAPACITY (capacity p')) t1 else t1)"
  have "TELEMETRY_ENABLED t2 = TELEMETRY_ENABLED t" "TELEMETRY_ENABLED t \<longrightarrow> size_shown p t \<longrightarrow> size_shown p' t2"
    using t1 by (simp_all add: t2_def size_shown_def)
  moreover have "tel P (Set_to MEM_POOL_CAPACITY (capacity p')) t1 = Some t2" by (simp add: tel_ok[OF reg] t2_def)
  ultimately show ?thesis
    using metrics_end[OF P fit(1), of t2 p'] t1 by (auto simp: set_capacity_t_def Let_def pool_shown_def)
qed

interpretation pool_metrics: instrumented pool_run pool_plain pool_fits pool_shown
proof unfold_locales
  fix P x s s' t
  assume "metrics_env_ok P" "pool_fits x s" "pool_plain x s = Some s'"
  then show "\<exists>t'. pool_run P x s t = Some (s', t') \<and> TELEMETRY_ENABLED t' = TELEMETRY_ENABLED t \<and>
      (TELEMETRY_ENABLED t \<longrightarrow> pool_shown s t \<longrightarrow> pool_shown s' t')"
    using alloc_t_ok[of P _ s _ s' t] free_t_ok[of P _ _ s t] set_capacity_t_ok[of P _ s s' t]
    by (cases x) (force simp del: pool_fits.simps)+
qed

text \<open>A new pool shows its gauges from the start.\<close>

lemma pool_new_t_ok:
  assumes "registry_ok (register P)" "bs < 2 ^ 64"
  shows "\<exists>t'. pool_new_t P nodes cap bs t = Some (pool_new nodes cap bs, t') \<and>
           TELEMETRY_ENABLED t' = TELEMETRY_ENABLED t \<and>
           (TELEMETRY_ENABLED t \<longrightarrow> pool_shown (pool_new nodes cap bs) t')"
proof -
  have "metrics_fit (pool_new nodes cap bs)"
    using assms(2) unsigned_less[of cap] by (simp add: metrics_fit_nat pool_new_def)
  note um = update_metrics_ok[OF assms(1) this, of _ "pool_new nodes cap bs"]
  show ?thesis
  proof (cases "TELEMETRY_ENABLED t")
    case True
    define t1 where "t1 = after (Set_to MEM_POOL_UTILIZATION 0) (after (Set_to MEM_POOL_FRAGMENTATION 0)
      (after (Set_to MEM_POOL_USAGE_BYTES 0) (after (Set_to MEM_POOL_BLOCK_SIZE (of_nat bs))
      (after (Set_to MEM_POOL_CAPACITY cap) t))))"
    have "TELEMETRY_ENABLED t1" "size_shown (pool_new nodes cap bs) t1"
      using True by (simp_all add: t1_def size_shown_def pool_new_def)
    with um[of t1] True show ?thesis
      by (auto simp: pool_new_t_def tel_ok[OF assms(1)] pool_shown_def Let_def simp flip: t1_def)
  next
    case False
    with um[of t] show ?thesis by (auto simp: pool_new_t_def tel_ok[OF assms(1)] Let_def)
  qed
qed

subsection \<open>The fragmentation gauge\<close>

text \<open>Every block below the capacity is either queued or handed out.\<close>

definition pool_balanced :: "MemoryPool \<Rightarrow> bool" where
  "pool_balanced p \<longleftrightarrow> unat (capacity p) \<le> unat (in_use p) + unat (available p)"

lemma pool_balanced_new: "pool_balanced (pool_new nodes cap bs)"
  by (simp add: pool_balanced_def pool_new_def)

text \<open>Growing and shrinking change \<open>available\<close> and \<open>capacity\<close> by the same number.\<close>

definition same_gap :: "MemoryPool \<Rightarrow> MemoryPool \<Rightarrow> bool" where
  "same_gap p p' \<longleftrightarrow> unat (available p') + unat (capacity p) = unat (available p) + unat (capacity p')"

lemma grow_round_gap:
  "pool_inv k p \<Longrightarrow> list_all (\<lambda>n. n < num_nodes p) ns \<Longrightarrow> same_gap p (grow_round m ns p)"
proof (induction ns arbitrary: p)
  case (Cons n ns)
  show ?case
  proof (cases "capacity p < m")
    case True
    then have "available p < m" using Cons.prems by (auto simp: pool_inv_def)
    with True have "same_gap p (grow_push n p)"
      by (simp add: same_gap_def grow_push_def unat_plus1_less)
    moreover have "same_gap (grow_push n p) (grow_round m ns (grow_push n p))"
      using Cons pool_inv_grow_push[of k p n m] True by (simp add: grow_push_def)
    ultimately show ?thesis using True by (simp add: same_gap_def not_le)
  qed (simp add: same_gap_def not_less)
qed (simp add: same_gap_def)

lemma grow_gap: "pool_inv k p \<Longrightarrow> 0 < num_nodes p \<Longrightarrow> grow m p = Some p' \<Longrightarrow> same_gap p p'"
proof (induction m p rule: grow.induct)
  case (1 m p)
  show ?case
  proof (cases "capacity p < m")
    case False
    then show ?thesis using "1.prems"(3) by (subst (asm) grow.simps) (simp add: same_gap_def)
  next
    case True
    define q where "q = grow_round m [0..<length (pools p)] p"
    have ne: "pools p \<noteq> []" using "1.prems" by (auto simp: pool_inv_def)
    have ns: "list_all (\<lambda>n. n < num_nodes p) [0..<length (pools p)]"
      using "1.prems" by (auto simp: list_all_iff pool_inv_def)
    have q: "pool_inv k q" "pool_frame p q" "same_gap p q"
      using pool_inv_grow_round[OF "1.prems"(1) ns, of m] grow_round_gap[OF "1.prems"(1) ns, of m]
      by (simp_all add: q_def)
    have "grow m q = Some p'" using "1.prems"(3) True ne by (subst (asm) grow.simps) (simp add: q_def)
    then have "same_gap q p'" using "1.IH"[OF True ne] q "1.prems"(2) by (simp add: q_def pool_frame_def)
    with q(3) show ?thesis by (simp add: same_gap_def)
  qed
qed

lemma set_capacity_gap:
  assumes ok: "pool_ok p" and set: "set_capacity c p = Some p'"
  shows "same_gap p p'"
proof -
  obtain k where k: "pool_inv k p" "0 < num_nodes p" using ok by (auto simp: pool_ok_iff)
  show ?thesis
  proof (cases "capacity p < c")
    case True
    with set grow_gap[OF k] show ?thesis by (simp add: set_capacity_def)
  next
    case False
    with set shrink_spec[OF k(1), of "capacity p - c"] have "pool_inv k p'"
      "unat (capacity p') = unat (capacity p) - min (unat (capacity p - c)) (queued p)"
      "queued p' = queued p - min (unat (capacity p - c)) (queued p)"
      by (auto simp: set_capacity_def split: if_splits)
    moreover have "min (unat (capacity p - c)) (queued p) \<le> queued p" by simp
    ultimately show ?thesis using k(1) unfolding same_gap_def pool_inv_def word_le_nat_alt by linarith
  qed
qed

lemma pool_balanced_step:
  assumes fits: "pool_fits x p" and run: "pool_plain x p = Some p'" and bal: "pool_balanced p"
  shows "pool_balanced p'"
proof (cases x)
  case (Alloc nd)
  obtain b where al: "alloc nd p = Some (b, p')" using run Alloc by (cases "alloc nd p") auto
  obtain k where k: "pool_inv k p" "0 < num_nodes p" using fits Alloc by (auto simp: pool_ok_iff)
  have used: "in_use p' = in_use p + 1" "in_use p + 1 \<noteq> 0"
    using alloc_spec[OF k, of nd] al fits Alloc by auto
  show ?thesis
  proof (cases "if nd < length (pools p) then pools p ! nd else []")
    case Nil
    then obtain p1 where p1: "grow (capacity p * 2) p = Some p1" "p' = p1\<lparr>in_use := in_use p1 + 1\<rparr>"
      using al by (auto simp: alloc_def split: Option.bind_splits)
    from grow_gap[OF k p1(1)] bal have "unat (capacity p1) \<le> unat (in_use p) + unat (available p1)"
      by (simp add: same_gap_def pool_balanced_def)
    with p1(2) used show ?thesis by (simp add: pool_balanced_def unatSuc add.commute)
  next
    case (Cons b' q)
    then have "nd < num_nodes p" "pools p ! nd = b' # q"
      using k(1) by (auto simp: pool_inv_def split: if_splits)
    from pool_inv_pop(4)[OF k(1) this] al Cons bal used show ?thesis
      by (auto simp: alloc_def pool_balanced_def unat_pred unatSuc add.commute)
  qed
next
  case (Free nd b)
  have "in_use p \<noteq> 0" "available p \<le> capacity p"
    using fits Free by (auto simp: pool_ok_def pool_inv_def)
  then have "unat (in_use p - 1) = unat (in_use p) - 1" "0 < unat (in_use p)"
    "available p < capacity p \<or> available p = capacity p"
    by (auto simp: unat_pred unat_gt_0)
  with bal run Free show ?thesis
    by (auto simp: free_def pool_balanced_def Let_def unat_plus1_less)
next
  case (Set_capacity c)
  with fits run set_capacity_gap[of p c p'] set_capacity_ok[of p c p'] bal show ?thesis
    by (auto simp: same_gap_def pool_balanced_def pool_frame_def)
qed

lemma pool_balanced_zero:
  assumes "pool_balanced p" "metrics_fit p"
  shows "saturating_sub (capacity p) (in_use p + available p) = 0"
proof -
  have "unat (in_use p + available p) = unat (in_use p) + unat (available p)"
    using assms(2) by (simp add: metrics_fit_nat unat_word_ariths)
  then have "capacity p \<le> in_use p + available p"
    using assms(1) by (simp add: pool_balanced_def word_le_nat_alt)
  then show ?thesis by (auto simp: saturating_sub_def)
qed

lemma pool_fits_metrics: "pool_fits x p \<Longrightarrow> pool_plain x p = Some p' \<Longrightarrow> metrics_fit p'"
  by (cases x) auto

lemma pool_balanced_history:
  "fits_all pool_plain pool_fits xs p \<Longrightarrow> plain_all pool_plain xs p = Some p' \<Longrightarrow>
   pool_balanced p \<Longrightarrow> metrics_fit p \<Longrightarrow> pool_balanced p' \<and> metrics_fit p'"
proof (induction xs arbitrary: p)
  case (Cons x xs)
  obtain P y where x: "x = (P, y)" by (cases x)
  with Cons.prems obtain p1 where p1: "pool_plain y p = Some p1" "plain_all pool_plain xs p1 = Some p'"
    by (auto simp: plain_all_def split: Option.bind_splits)
  with Cons.prems x have "pool_fits y p" "fits_all pool_plain pool_fits xs p1" by simp_all
  with Cons.IH[of p1] p1 Cons.prems pool_balanced_step[of y p p1] pool_fits_metrics[of y p p1]
  show ?case by blast
qed (simp add: plain_all_def)

subsection \<open>Properties\<close>

text \<open>C24: when the metrics are switched on before a pool is made, then after every history of allocations, returns of
  blocks and capacity changes the instrumented operations have the outcome of the plain ones, the gauges show
  the capacity, block size, blocks and bytes in use and utilisation of the pool, and the fragmentation
  gauge shows 0: it never reports anything else.\<close>

theorem pool_gauges:
  assumes "registry_ok (register P)" "bs < 2 ^ 64" "TELEMETRY_ENABLED t"
    and "fits_all pool_plain pool_fits xs (pool_new nodes cap bs)"
    and "plain_all pool_plain xs (pool_new nodes cap bs) = Some p"
  shows "\<exists>t1 t'. pool_new_t P nodes cap bs t = Some (pool_new nodes cap bs, t1) \<and>
           run_all pool_run xs (pool_new nodes cap bs, t1) = Some (p, t') \<and>
           pool_shown p t' \<and> gauge MEM_POOL_FRAGMENTATION t' = Some 0"
proof -
  from pool_new_t_ok[OF assms(1,2), of nodes cap t] assms(3) obtain t1 where t1:
    "pool_new_t P nodes cap bs t = Some (pool_new nodes cap bs, t1)" "TELEMETRY_ENABLED t1"
    "pool_shown (pool_new nodes cap bs) t1" by auto
  from pool_metrics.history[OF assms(4,5), of t1] t1 obtain t' where t':
    "run_all pool_run xs (pool_new nodes cap bs, t1) = Some (p, t')" "pool_shown p t'" by auto
  have "metrics_fit (pool_new nodes cap bs)"
    using assms(2) unsigned_less[of cap] by (simp add: metrics_fit_nat pool_new_def)
  with pool_balanced_history[OF assms(4,5) pool_balanced_new] pool_balanced_zero[of p] t'
  show ?thesis by (auto simp: t1 pool_shown_def usage_shown_def)
qed

definition example_ops :: "(metrics_env \<times> pool_op) list" where
  "example_ops = [(example_env, Alloc 0), (example_env, Alloc 0), (example_env, Free 0 [7, 7]),
     (example_env, Set_capacity 4)]"

abbreviation example_pool :: "nat \<Rightarrow> usize \<Rightarrow> usize \<Rightarrow> usize \<Rightarrow> MemoryPool" where
  "example_pool n cap used avail \<equiv>
     \<lparr>pools = [replicate n [0, 0]], block_size = 2, num_nodes = 1, capacity = cap, in_use = used, available = avail\<rparr>"

lemma example_history:
  "pool_new 1 1 2 = example_pool 1 1 0 1"
  "pool_plain (Alloc 0) (example_pool 1 1 0 1) = Some (example_pool 0 1 1 0)"
  "pool_plain (Alloc 0) (example_pool 0 1 1 0) = Some (example_pool 1 2 2 1)"
  "pool_plain (Free 0 [7, 7]) (example_pool 1 2 2 1) = Some (example_pool 2 2 1 2)"
  "pool_plain (Set_capacity 4) (example_pool 2 2 1 2) = Some (example_pool 4 4 1 4)"
  by code_simp+

lemma example_fits:
  "pool_fits (Alloc 0) (example_pool 1 1 0 1)" "pool_fits (Alloc 0) (example_pool 0 1 1 0)"
  "pool_fits (Free 0 [7, 7]) (example_pool 1 2 2 1)" "pool_fits (Set_capacity 4) (example_pool 2 2 1 2)"
  by code_simp+

theorem pool_gauges_witness:
  "\<exists>t1 t'. pool_new_t example_env 1 1 2 (telemetry_init\<lparr>TELEMETRY_ENABLED := True\<rparr>) = Some (pool_new 1 1 2, t1) \<and>
     run_all pool_run example_ops (pool_new 1 1 2, t1) = Some (example_pool 4 4 1 4, t') \<and>
     pool_shown (example_pool 4 4 1 4) t' \<and> gauge MEM_POOL_FRAGMENTATION t' = Some 0"
proof (rule pool_gauges)
  show "fits_all pool_plain pool_fits example_ops (pool_new 1 1 2)"
    unfolding example_ops_def
    by (simp only: fits_all.simps fst_conv snd_conv example_history example_fits example_env_ok
        option.case simp_thms)
  show "plain_all pool_plain example_ops (pool_new 1 1 2) = Some (example_pool 4 4 1 4)"
    unfolding example_ops_def plain_all_def
    by (simp only: ofold.simps case_prod_conv example_history Option.bind.simps)
qed (simp_all add: example_env_ok)

subsection \<open>With the metrics switched off\<close>

text \<open>The switch silences every metric of the pool but the capacity gauge, which growing sets in any case.\<close>

lemma tel_off: "\<not> TELEMETRY_ENABLED t \<Longrightarrow> tel P c t = Some t" "\<not> TELEMETRY_ENABLED t \<Longrightarrow> telemetry_macro e t = Some t"
  by (simp_all add: tel_def telemetry_macro_def)

lemma update_metrics_off: "\<not> TELEMETRY_ENABLED t \<Longrightarrow> update_metrics P p t = Some t' \<Longrightarrow> t' = t"
  by (auto simp: update_metrics_def tel_off Let_def split: Option.bind_splits)

definition only_capacity :: "telemetry \<Rightarrow> telemetry \<Rightarrow> bool" where
  "only_capacity t t' \<longleftrightarrow> TELEMETRY_ENABLED t' = TELEMETRY_ENABLED t \<and>
     (\<forall>m. m \<noteq> MEM_POOL_CAPACITY \<longrightarrow> gauge m t' = gauge m t \<and> counted m t' = counted m t)"

lemma grow_t_off:
  assumes "\<not> TELEMETRY_ENABLED t" "grow_t P c p t = Some (p', t')"
  shows "only_capacity t t' \<and> gauge MEM_POOL_CAPACITY t' = Some (capacity p')"
proof -
  obtain t1 where "force P MEM_POOL_CAPACITY t = Some t1"
    "update_metrics P p' (t1\<lparr>calls := calls t1 @ [Set_to MEM_POOL_CAPACITY (capacity p')]\<rparr>) = Some t'"
    using assms(2) by (auto simp: grow_t_def metric_do_def split: Option.bind_splits)
  moreover have "\<not> TELEMETRY_ENABLED t1" "gauge m t1 = gauge m t" "counted m t1 = counted m t" for m
    using calculation(1) assms(1) by (auto simp: force_def split: if_splits)
  moreover have "t' = t1\<lparr>calls := calls t1 @ [Set_to MEM_POOL_CAPACITY (capacity p')]\<rparr>"
    using calculation by (intro update_metrics_off[of _ P p']) simp_all
  ultimately show ?thesis using assms(1) by (simp add: only_capacity_def gauge_snoc counted_snoc)
qed

lemma metrics_end_off:
  "update_metrics P p t = Some t1 \<Longrightarrow> telemetry_macro e t1 = Some t' \<Longrightarrow> \<not> TELEMETRY_ENABLED t \<Longrightarrow> t' = t"
  using update_metrics_off[of t P p t1] tel_off(2)[of t e] by simp

lemma grow_t_off_then:
  assumes off: "\<not> TELEMETRY_ENABLED t" and grow: "grow_t P c p t = Some (p1, t1)"
    and um: "update_metrics P p' t1 = Some t'"
  shows "only_capacity t t' \<and> \<not> TELEMETRY_ENABLED t1 \<and> \<not> TELEMETRY_ENABLED t'"
proof -
  have "only_capacity t t1" "\<not> TELEMETRY_ENABLED t1"
    using grow_t_off[OF off grow] off by (simp_all add: only_capacity_def)
  with update_metrics_off[OF _ um] show ?thesis by simp
qed

lemma pool_run_off:
  assumes off: "\<not> TELEMETRY_ENABLED t" and run: "pool_run P x p t = Some (p', t')"
  shows "only_capacity t t'"
proof (cases x)
  case (Alloc nd)
  then obtain b where b: "alloc_t P nd p t = Some (b, p', t')" using run by auto
  show ?thesis
  proof (cases "if nd < length (pools p) then pools p ! nd else []")
    case Nil
    with b off obtain c p1 t1 t2 where g: "grow_t P c p t = Some (p1, t1)" "update_metrics P p' t1 = Some t2"
      "telemetry_macro (update_memory_usage P) t2 = Some t'"
      by (auto simp: alloc_t_def tel_off Let_def bind_eq_Some_conv)
    with grow_t_off_then[OF off g(1,2)] tel_off(2)[of t2] show ?thesis by auto
  next
    case (Cons b' q)
    with b off have "t' = t" by (auto simp: alloc_t_def Let_def bind_eq_Some_conv dest: metrics_end_off)
    then show ?thesis by (simp add: only_capacity_def)
  qed
next
  case (Free nd b)
  with run off have "t' = t" by (auto simp: free_t_def Let_def bind_eq_Some_conv dest: metrics_end_off)
  then show ?thesis by (simp add: only_capacity_def)
next
  case (Set_capacity c)
  show ?thesis
  proof (cases "c > capacity p")
    case True
    with Set_capacity run obtain t1 t2 t3 where g: "grow_t P c p t = Some (p', t1)"
      "tel P (Set_to MEM_POOL_CAPACITY (capacity p')) t1 = Some t2" "update_metrics P p' t2 = Some t3"
      "telemetry_macro (update_memory_usage P) t3 = Some t'"
      by (auto simp: set_capacity_t_def Let_def bind_eq_Some_conv)
    have "only_capacity t t1" "\<not> TELEMETRY_ENABLED t1"
      using grow_t_off[OF off g(1)] off by (simp_all add: only_capacity_def)
    with g tel_off[of t1] tel_off[of t3] update_metrics_off[of t1 P p' t3] show ?thesis by auto
  next
    case False
    with Set_capacity run off have "t' = t"
      by (auto simp: set_capacity_t_def tel_off(1) Let_def bind_eq_Some_conv dest: metrics_end_off)
    then show ?thesis by (simp add: only_capacity_def)
  qed
qed

lemma ungated_capacity:
  "gauge MEM_POOL_CAPACITY (snd (the (pool_run example_env (Alloc 0) (pool_new 1 0 2) telemetry_init))) = Some 0"
  by code_simp

text \<open>In a debug build a return of a block that the pool never handed out panics, because the counter of
  blocks in use has wrapped and a hundred times its value overflows.\<close>

lemma free_t_unbalanced_panics:
  assumes "in_use p = 0" "capacity p \<noteq> 0"
  shows "free_t P nd b p t = None"
proof -
  have "in_use (free nd b p) = - 1" "capacity (free nd b p) \<noteq> 0"
    using assms by (simp_all add: free_def Let_def)
  moreover have "checked_mul (- 1) 100 = None" by code_simp
  ultimately have "update_metrics P (free nd b p) t = None" for t
    by (auto simp: update_metrics_def Let_def bind_eq_None_conv)
  then show ?thesis by (simp add: free_t_def)
qed

end
