(* ===== verification/Fec_Telemetry.thy ===== *)
theory Fec_Telemetry
  imports Telemetry Adaptive_Fec
begin

text \<open>
  The metrics of the adaptive FEC layer (\<open>src/src/fec/adaptive.rs\<close>): the operations of \<open>ModeManager\<close>
  and \<open>AdaptiveFec\<close> with the calls that their own bodies make. The memory pool they use writes its own
  metrics (theory \<open>Pool_Telemetry\<close>), which are others than the ones here.

  The theory shows that these operations have the outcome of the ones without metrics, which changes of
  mode and window the gauges follow, and what the packet counters count.
\<close>

primrec mode_number :: "FecMode \<Rightarrow> u64" where
  "mode_number Zero = 0"
| "mode_number Light = 1"
| "mode_number Normal = 2"
| "mode_number Medium = 3"
| "mode_number Strong = 4"
| "mode_number Extreme = 5"

text \<open>The cast \<open>as i64\<close> of an \<open>f32\<close> truncates and saturates.\<close>

definition f32_as_i64 :: "real \<Rightarrow> u64" where
  "f32_as_i64 x = word_of_int (max (- (2 ^ 63)) (min (2 ^ 63 - 1) (if 0 \<le> x then \<lfloor>x\<rfloor> else \<lceil>x\<rceil>)))"

definition scale_i64 :: "real \<Rightarrow> real \<Rightarrow> u64" where
  "scale_i64 x factor = f32_as_i64 (f32 (x * factor))"

definition ModeManager_update_t ::
  "metrics_env \<Rightarrow> clock \<Rightarrow> real \<Rightarrow> ModeManager \<Rightarrow> telemetry \<Rightarrow>
   ((FecMode \<times> nat \<times> (FecMode \<times> nat) option) \<times> ModeManager \<times> telemetry) option" where
  "ModeManager_update_t P clk estimated_loss m t = do {
     strong \<leftarrow> mode_thresholds m Strong;
     let prev = (current_mode m, current_window m);
     if estimated_loss > f32 (strong + hysteresis m)
     then let m = m\<lparr>current_mode := Extreme, current_window := initial_window m Extreme,
                    last_mode_change := t_change clk\<rparr>
          in Some ((current_mode m, current_window m, Some prev), m, t)
     else if t_elapsed clk - last_mode_change m < min_dwell_time m
     then Some ((current_mode m, current_window m, None), m, t)
     else do {
       target_loss \<leftarrow> mode_thresholds m (current_mode m);
       let (output, c) = PidController_update (t_pid clk) estimated_loss target_loss (mgr_pid m);
       let new_mode = (if output > f32 (1 / 10) then next_mode (current_mode m)
                       else if output < - f32 (1 / 10) then prev_mode (current_mode m)
                       else current_mode m);
       let m = m\<lparr>mgr_pid := c\<rparr>;
       let m = (if new_mode \<noteq> current_mode m
                then m\<lparr>current_mode := new_mode, last_mode_change := t_change clk,
                       current_window := initial_window m new_mode\<rparr>
                else m);
       target_loss_for_mode \<leftarrow> mode_thresholds m (current_mode m);
       let alpha = f32 (1 + f32 (ALPHA_K * f32 (estimated_loss - target_loss_for_mode)));
       let new_window = f32_as_usize (f32_round (f32 (usize_as_f32 (current_window m) * alpha)));
       let m = m\<lparr>current_window := clamp new_window (window_range (current_mode m))\<rparr>;
       if prev \<noteq> (current_mode m, current_window m)
       then do {
         t \<leftarrow> tel P (Set_to FEC_MODE (mode_number (current_mode m))) t;
         t \<leftarrow> tel P (Set_to LOSS_RATE (scale_i64 estimated_loss 100)) t;
         t \<leftarrow> tel P (Inc FEC_MODE_SWITCHES) t;
         t \<leftarrow> tel P (Set_to FEC_WINDOW (of_nat (current_window m))) t;
         Some ((current_mode m, current_window m, Some prev), m, t) }
       else do {
         t \<leftarrow> tel P (Set_to FEC_WINDOW (of_nat (current_window m))) t;
         Some ((current_mode m, current_window m, None), m, t) } } }"

definition AdaptiveFec_new_t ::
  "metrics_env \<Rightarrow> nat \<Rightarrow> FecConfig \<Rightarrow> MemoryPool \<Rightarrow> gf_env \<Rightarrow> telemetry \<Rightarrow> ((AdaptiveFec \<times> gf_env) \<times> telemetry) option" where
  "AdaptiveFec_new_t P now cfg p g t = do {
     let this = AdaptiveFec_new now cfg p g;
     t \<leftarrow> tel P (Set_to FEC_WINDOW (of_nat (current_window (mode_mgr (fst this))))) t;
     t \<leftarrow> tel P (Set_to FEC_LAMBDA (scale_i64 (cfg_lambda cfg) 1000)) t;
     t \<leftarrow> tel P (Set_to FEC_BURST_WINDOW (of_nat (cfg_burst_window cfg))) t;
     t \<leftarrow> tel P (Set_to FEC_HYSTERESIS (scale_i64 (cfg_hysteresis cfg) 1000)) t;
     t \<leftarrow> tel P (Set_to FEC_KALMAN (if kalman_enabled cfg then 1 else 0)) t;
     Some (this, t) }"

definition emit_repairs_t ::
  "metrics_env \<Rightarrow> gf_env \<Rightarrow> nat \<Rightarrow> EncoderVariant \<Rightarrow> MemoryPool \<times> Packet list \<times> telemetry \<Rightarrow>
   (MemoryPool \<times> Packet list \<times> telemetry) option" where
  "emit_repairs_t P g nd enc s =
     (let (k, n) = encoder_params enc;
          num_repair = n - k
      in ofold (\<lambda>i (p, q, t). do {
           (r, p) \<leftarrow> EncoderVariant_generate_repair_packet g nd enc i p;
           case r of
             None \<Rightarrow> Some (p, q, t)
           | Some pk \<Rightarrow> do { t \<leftarrow> tel P (Inc ENCODED_PACKETS) t; Some (p, q @ [pk], t) } }) [0..<num_repair] s)"

definition on_send_t ::
  "metrics_env \<Rightarrow> gf_env \<Rightarrow> nat \<Rightarrow> Packet \<Rightarrow> AdaptiveFec \<Rightarrow> Packet list \<Rightarrow> telemetry \<Rightarrow>
   (AdaptiveFec \<times> Packet list \<times> telemetry) option" where
  "on_send_t P g nd pkt f q t = do {
     let p = mem_pool f;
     (te, p) \<leftarrow> (case transition_encoder f of
                  None \<Rightarrow> Some (None, p)
                | Some enc \<Rightarrow> do { (enc, p) \<leftarrow> feed nd pkt enc p; Some (Some enc, p) });
     (enc, p) \<leftarrow> feed nd pkt (encoder f) p;
     let q = q @ [pkt];
     t \<leftarrow> tel P (Inc ENCODED_PACKETS) t;
     (p, q, t) \<leftarrow> (if transition_left f > CROSS_FADE_LEN div 2
                   then (case te of None \<Rightarrow> Some (p, q, t) | Some tenc \<Rightarrow> emit_repairs_t P g nd tenc (p, q, t))
                   else Some (p, q, t));
     (p, q, t) \<leftarrow> emit_repairs_t P g nd enc (p, q, t);
     Some (fade_step nd p (f\<lparr>transition_encoder := te, encoder := enc\<rparr>), q, t) }"

text \<open>One decoder of \<open>on_receive\<close>: \<open>rec\<close> are the packets recovered before, and the counter grows by
  the number of all recovered packets, these included.\<close>

definition receive_with_t ::
  "metrics_env \<Rightarrow> gf_env \<Rightarrow> nat \<Rightarrow> Packet \<Rightarrow> DecoderVariant \<Rightarrow> Packet list \<Rightarrow> MemoryPool \<Rightarrow> telemetry \<Rightarrow>
   ((string + Packet list) \<times> DecoderVariant \<times> MemoryPool \<times> telemetry) option" where
  "receive_with_t P g nd pkt d rec p t = do {
     let was_decoded = DecoderVariant_is_decoded d;
     (r, d, p) \<leftarrow> DecoderVariant_add_packet g nd pkt d p;
     case r of
       Inl e \<Rightarrow> Some (Inl e, d, p, t)
     | Inr is_now_decoded \<Rightarrow>
         if \<not> was_decoded \<and> is_now_decoded
         then let (pks, d) = DecoderVariant_get_decoded_packets d
              in do { t \<leftarrow> tel P (Inc_by DECODED_PACKETS (of_nat (length (rec @ pks)))) t; Some (Inr pks, d, p, t) }
         else Some (Inr [], d, p, t) }"

definition receive_transition_t ::
  "metrics_env \<Rightarrow> gf_env \<Rightarrow> nat \<Rightarrow> Packet option \<Rightarrow> DecoderVariant option \<Rightarrow> Packet list \<Rightarrow> MemoryPool \<Rightarrow> telemetry \<Rightarrow>
   ((string + Packet list) \<times> DecoderVariant option \<times> MemoryPool \<times> telemetry) option" where
  "receive_transition_t P g nd pkt_clone trans_dec rec p t =
     (case (trans_dec, pkt_clone) of
        (Some td, Some c) \<Rightarrow> do {
          (r, td, p, t) \<leftarrow> receive_with_t P g nd c td rec p t;
          Some (case r of
                  Inl e \<Rightarrow> (Inl e, Some td, drop_packets nd rec p, t)
                | Inr rec2 \<Rightarrow> (Inr (rec @ rec2), Some td, p, t)) }
      | (td, c) \<Rightarrow> Some (Inr rec, td, drop_packets nd (case c of None \<Rightarrow> [] | Some c \<Rightarrow> [c]) p, t))"

definition on_receive_t ::
  "metrics_env \<Rightarrow> gf_env \<Rightarrow> nat \<Rightarrow> Packet \<Rightarrow> AdaptiveFec \<Rightarrow> telemetry \<Rightarrow>
   ((string + Packet list) \<times> AdaptiveFec \<times> telemetry) option" where
  "on_receive_t P g nd pkt f t = do {
     (pkt_clone, p) \<leftarrow> (if transition_left f > CROSS_FADE_LEN div 2
                         then do { (c, p) \<leftarrow> clone_for_encoder nd pkt (mem_pool f); Some (Some c, p) }
                         else Some (None, mem_pool f));
     (r, d, p, t) \<leftarrow> receive_with_t P g nd pkt (decoder f) [] p t;
     let f = f\<lparr>decoder := d\<rparr>;
     case r of
       Inl e \<Rightarrow> Some (Inl e, f\<lparr>mem_pool := drop_packets nd (case pkt_clone of None \<Rightarrow> [] | Some c \<Rightarrow> [c]) p\<rparr>, t)
     | Inr rec \<Rightarrow> do {
         (r, td, p, t) \<leftarrow> receive_transition_t P g nd pkt_clone (transition_decoder f) rec p t;
         Some (r, f\<lparr>transition_decoder := td, mem_pool := p\<rparr>, t) } }"

definition AdaptiveFec_report_loss_t ::
  "metrics_env \<Rightarrow> nat \<Rightarrow> clock \<Rightarrow> nat \<Rightarrow> nat \<Rightarrow> AdaptiveFec \<Rightarrow> telemetry \<Rightarrow> (AdaptiveFec \<times> telemetry) option" where
  "AdaptiveFec_report_loss_t P nd clk lost tot f t = do {
     est \<leftarrow> LossEstimator_report_loss lost tot (estimator f);
     let estimated_loss = get_estimated_loss est;
     t \<leftarrow> tel P (Set_to LOSS_RATE (scale_i64 estimated_loss 100)) t;
     ((new_mode, new_window, prev), mgr, t) \<leftarrow> ModeManager_update_t P clk estimated_loss (mode_mgr f) t;
     let (k, n) = params_for new_mode new_window;
     let f = f\<lparr>estimator := est, mode_mgr := mgr\<rparr>;
     Some (case prev of
             Some (old_mode, old_window) \<Rightarrow>
               f\<lparr>transition_encoder := Some (encoder f), encoder := EncoderVariant_new new_mode k n,
                 transition_decoder := Some (decoder f), decoder := DecoderVariant_new new_mode k,
                 transition_left := CROSS_FADE_LEN,
                 mem_pool := drop_decoder nd (transition_decoder f)
                               (drop_encoder nd (transition_encoder f) (mem_pool f))\<rparr>
           | None \<Rightarrow>
               f\<lparr>encoder := EncoderVariant_new new_mode k n, decoder := DecoderVariant_new new_mode k,
                 mem_pool := drop_decoder nd (Some (decoder f)) (drop_encoder nd (Some (encoder f)) (mem_pool f))\<rparr>,
           t) }"

subsection \<open>The mode manager\<close>

definition emergency :: "real \<Rightarrow> ModeManager \<Rightarrow> bool" where
  "emergency loss m \<longleftrightarrow> (case mode_thresholds m Strong of None \<Rightarrow> False | Some s \<Rightarrow> loss > f32 (s + hysteresis m))"

definition dwelling :: "clock \<Rightarrow> ModeManager \<Rightarrow> bool" where
  "dwelling clk m \<longleftrightarrow> t_elapsed clk - last_mode_change m < min_dwell_time m"

text \<open>The metrics after an update with the new state \<open>m'\<close>.\<close>

definition update_metrics_after :: "clock \<Rightarrow> real \<Rightarrow> ModeManager \<Rightarrow> ModeManager \<Rightarrow> telemetry \<Rightarrow> telemetry" where
  "update_metrics_after clk loss m m' t =
     (if emergency loss m \<or> dwelling clk m \<or> \<not> TELEMETRY_ENABLED t then t
      else if (current_mode m, current_window m) \<noteq> (current_mode m', current_window m')
      then after (Set_to FEC_WINDOW (of_nat (current_window m'))) (after (Inc FEC_MODE_SWITCHES)
             (after (Set_to LOSS_RATE (scale_i64 loss 100)) (after (Set_to FEC_MODE (mode_number (current_mode m'))) t)))
      else after (Set_to FEC_WINDOW (of_nat (current_window m'))) t)"

lemma update_t_eq:
  assumes "registry_ok (register P)"
  shows "ModeManager_update_t P clk loss m t =
    map_option (\<lambda>(r, m'). (r, m', update_metrics_after clk loss m m' t)) (ModeManager_update clk loss m)"
proof (cases "mode_thresholds m Strong")
  case None
  then show ?thesis by (simp add: ModeManager_update_t_def ModeManager_update_def)
next
  case (Some s)
  note strong = this
  show ?thesis
  proof (cases "emergency loss m \<or> dwelling clk m")
    case True
    with strong show ?thesis
      by (auto simp: ModeManager_update_t_def ModeManager_update_def Let_def emergency_def dwelling_def
          update_metrics_after_def)
  next
    case False
    obtain c out where "mode_thresholds m (current_mode m) \<noteq> None \<longrightarrow>
      PidController_update (t_pid clk) loss (the (mode_thresholds m (current_mode m))) (mgr_pid m) = (out, c)"
      by (metis surj_pair)
    with False strong show ?thesis
      by (cases "mode_thresholds m (current_mode m)"; cases "TELEMETRY_ENABLED t")
        (auto simp: ModeManager_update_t_def ModeManager_update_def Let_def emergency_def dwelling_def
          update_metrics_after_def tel_ok[OF assms] split: Option.bind_splits)
  qed
qed

fun mgr_run :: "metrics_env \<Rightarrow> clock \<times> real \<Rightarrow> ModeManager \<Rightarrow> telemetry \<Rightarrow> (ModeManager \<times> telemetry) option" where
  "mgr_run P (clk, loss) m t = map_option snd (ModeManager_update_t P clk loss m t)"

fun mgr_plain :: "clock \<times> real \<Rightarrow> ModeManager \<Rightarrow> ModeManager option" where
  "mgr_plain (clk, loss) m = map_option snd (ModeManager_update clk loss m)"

fun mgr_fits :: "clock \<times> real \<Rightarrow> ModeManager \<Rightarrow> bool" where
  "mgr_fits (clk, loss) m \<longleftrightarrow> \<not> emergency loss m"

text \<open>A gauge that was never set reads 0.\<close>

definition reads :: "metric \<Rightarrow> telemetry \<Rightarrow> u64" where
  "reads m t = unwrap_or (gauge m t) 0"

definition mgr_shown :: "ModeManager \<Rightarrow> telemetry \<Rightarrow> bool" where
  "mgr_shown m t \<longleftrightarrow> reads FEC_MODE t = mode_number (current_mode m) \<and>
     reads FEC_WINDOW t = of_nat (current_window m)"

lemma update_dwelling:
  assumes "ModeManager_update clk loss m = Some (r, m')" "\<not> emergency loss m" "dwelling clk m"
  shows "m' = m"
  using assms by (auto simp: ModeManager_update_def emergency_def dwelling_def Let_def split: Option.bind_splits)

lemma update_metrics_after_shown:
  assumes "ModeManager_update clk loss m = Some (r, m')" "\<not> emergency loss m" "TELEMETRY_ENABLED t"
    "mgr_shown m t"
  shows "mgr_shown m' (update_metrics_after clk loss m m' t)"
  using assms update_dwelling[OF assms(1,2)]
  by (auto simp: update_metrics_after_def mgr_shown_def reads_def)

lemma update_metrics_after_enabled [simp]:
  "TELEMETRY_ENABLED (update_metrics_after clk loss m m' t) = TELEMETRY_ENABLED t"
  by (simp add: update_metrics_after_def)

interpretation mode_metrics: instrumented mgr_run mgr_plain mgr_fits mgr_shown
proof unfold_locales
  fix P x s s' t
  assume "metrics_env_ok P" "mgr_fits x s" "mgr_plain x s = Some s'"
  then show "\<exists>t'. mgr_run P x s t = Some (s', t') \<and> TELEMETRY_ENABLED t' = TELEMETRY_ENABLED t \<and>
      (TELEMETRY_ENABLED t \<longrightarrow> mgr_shown s t \<longrightarrow> mgr_shown s' t')"
    by (cases x) (auto simp: update_t_eq metrics_env_ok_def update_metrics_after_shown)
qed

text \<open>The emergency override switches to the extreme mode without a call on any metric.\<close>

lemma emergency_unseen:
  assumes "registry_ok (register P)" "emergency loss m" "ModeManager_update clk loss m = Some (r, m')"
  shows "ModeManager_update_t P clk loss m t = Some (r, m', t) \<and> current_mode m' = Extreme"
proof -
  have "current_mode m' = Extreme"
    using assms(2,3) by (auto simp: ModeManager_update_def emergency_def Let_def split: Option.bind_splits option.splits)
  with assms show ?thesis by (simp add: update_t_eq update_metrics_after_def)
qed

lemma mode_number_inject: "mode_number a = mode_number b \<longleftrightarrow> a = b"
  by (cases a; cases b) simp_all

lemma AdaptiveFec_new_t_ok:
  assumes "registry_ok (register P)" "TELEMETRY_ENABLED t"
  shows "\<exists>t'. AdaptiveFec_new_t P now cfg p g t = Some (AdaptiveFec_new now cfg p g, t') \<and> TELEMETRY_ENABLED t' \<and>
           gauge FEC_MODE t' = gauge FEC_MODE t \<and>
           gauge FEC_WINDOW t' = Some (of_nat (current_window (mode_mgr (fst (AdaptiveFec_new now cfg p g)))))"
  using assms by (simp add: AdaptiveFec_new_t_def tel_ok Let_def)

lemma AdaptiveFec_new_mode: "current_mode (mode_mgr (fst (AdaptiveFec_new now cfg p g))) = initial_mode cfg"
  by (simp add: AdaptiveFec_new_def ModeManager_new_def Let_def split: prod.split)

text \<open>Whatever the gauges show, updates with metrics have the outcome of updates without them.\<close>

interpretation mode_runs: instrumented mgr_run mgr_plain "\<lambda>_ _. True" "\<lambda>_ _. True"
proof unfold_locales
  fix P x s s' t
  assume "metrics_env_ok P" "mgr_plain x s = Some s'"
  then show "\<exists>t'. mgr_run P x s t = Some (s', t') \<and> TELEMETRY_ENABLED t' = TELEMETRY_ENABLED t \<and>
      (TELEMETRY_ENABLED t \<longrightarrow> True \<longrightarrow> True)"
    by (cases x) (auto simp: update_t_eq metrics_env_ok_def)
qed

lemma fits_all_envs: "list_all (\<lambda>x. metrics_env_ok (fst x)) xs \<Longrightarrow> fits_all plain (\<lambda>_ _. True) xs s"
  by (induction xs arbitrary: s) (auto split: option.split)

lemma AdaptiveFec_new_mgr_ok: "mgr_ok (mode_mgr (fst (AdaptiveFec_new now cfg p g)))"
  by (simp add: AdaptiveFec_new_def mgr_new_ok Let_def split: prod.split)

lemma plain_all_mgr: "mgr_ok m \<Longrightarrow> \<exists>m'. plain_all mgr_plain xs m = Some m' \<and> mgr_ok m'"
proof (induction xs arbitrary: m)
  case Nil
  then show ?case by (simp add: plain_all_def)
next
  case (Cons x xs)
  obtain P clk loss where x: "x = (P, clk, loss)" by (rule prod_cases3)
  from mode_update_total[OF Cons.prems, of clk loss] obtain m1 where "mgr_plain (clk, loss) m = Some m1" "mgr_ok m1" by auto
  with Cons.IH[of m1] show ?case by (simp add: plain_all_def x del: mgr_plain.simps)
qed

text \<open>What one update does to the gauges.\<close>

lemma update_t_gauges:
  assumes "registry_ok (register P)" "TELEMETRY_ENABLED t" "mgr_ok m"
  shows "\<exists>r m' t''. ModeManager_update clk loss m = Some (r, m') \<and>
        ModeManager_update_t P clk loss m t = Some (r, m', t'') \<and>
        (if emergency loss m then t'' = t \<and> current_mode m' = Extreme \<and> (current_mode m \<noteq> Extreme \<and> mgr_shown m t \<longrightarrow> \<not> mgr_shown m' t'')
         else if dwelling clk m then t'' = t \<and> m' = m
         else reads FEC_WINDOW t'' = of_nat (current_window m') \<and>
              reads FEC_MODE t'' = (if (current_mode m, current_window m) = (current_mode m', current_window m')
                                    then reads FEC_MODE t else mode_number (current_mode m')))"
proof -
  from mode_update_total[OF assms(3), of clk loss] obtain r m' where u: "ModeManager_update clk loss m = Some (r, m')" by auto
  show ?thesis
  proof (cases "emergency loss m")
    case True
    from emergency_unseen[OF assms(1) True u, of t] u True mode_number_inject[of "current_mode m" Extreme] show ?thesis
      by (intro exI[of _ r] exI[of _ m'] exI[of _ t]) (simp add: mgr_shown_def)
  next
    case False
    with u assms(1,2) update_dwelling[OF u False] show ?thesis
      by (intro exI[of _ r] exI[of _ m'] exI[of _ "update_metrics_after clk loss m m' t"])
        (auto simp: update_t_eq update_metrics_after_def reads_def)
  qed
qed

text \<open>A new manager in the light mode with the default settings, half a second or more later.\<close>

lemma light_limits: "f32 (1 / 2 + f32 (2 / 100)) < 1" "1 / 2 \<le> f32 (1 / 2 + f32 (2 / 100))"
proof -
  have "f32 (2 / 100) \<le> f32 (1 / 2 ^ 2)" "f32 (1 / 2 ^ 1) \<le> f32 (1 / 2 + f32 (2 / 100))" by (intro f32_mono; simp add: f32_nonneg)+
  moreover from this(1) have "f32 (1 / 2 + f32 (2 / 100)) \<le> f32 (3 / 4)" using f32_dyadic[of 2] by (intro f32_mono) simp
  moreover have "f32 (3 / 4) = 3 / 4" by (rule f32_exact[of _ 3 "- 2"]) (simp_all add: power_int_def power2_eq_square)
  ultimately show "f32 (1 / 2 + f32 (2 / 100)) < 1" "1 / 2 \<le> f32 (1 / 2 + f32 (2 / 100))" using f32_dyadic[of 1] by simp_all
qed

lemma light_falls:
  "\<exists>w prev m'. ModeManager_update \<lparr>t_elapsed = 10 ^ 9, t_pid = 10 ^ 9, t_change = 10 ^ 9\<rparr> (1 / 2)
      (ModeManager_new 0 default_pid (f32 (2 / 100)) Light default_windows) = Some ((Zero, w, prev), m') \<and> current_mode m' = Zero"
proof -
  let ?clk = "\<lparr>t_elapsed = 10 ^ 9, t_pid = 10 ^ 9, t_change = 10 ^ 9\<rparr>"
    and ?m = "ModeManager_new 0 default_pid (f32 (2 / 100)) Light default_windows"
  have "1 \<le> f32 (12 / 10)" using f32_mono[of 1 "12 / 10"] by simp
  moreover have "f32 (5 / 100) \<le> f32 (1 / 2 ^ 2)" by (rule f32_mono) simp
  then have "threshold Light + 1 / 4 \<le> 1 / 2" using f32_dyadic[of 2] by (simp add: threshold_def thresholds_def)
  ultimately have "\<exists>w prev m'. ModeManager_update ?clk (1 / 2) ?m = Some ((Zero, w, prev), m')"
    using first_update_falls[of default_pid 0 ?clk Light "1 / 2" "f32 (2 / 100)" default_windows] light_limits(2)
    by (auto simp: default_pid_def f32_nonneg)
  with mode_update_total[OF mgr_new_ok, of ?clk "1 / 2" 0 default_pid "f32 (2 / 100)" Light default_windows] show ?thesis by auto
qed

subsection \<open>The packet counters\<close>

definition encoded_after :: "nat \<Rightarrow> telemetry \<Rightarrow> telemetry" where
  "encoded_after n t = (if TELEMETRY_ENABLED t then (after (Inc ENCODED_PACKETS) ^^ n) t else t)"

lemma after_pow:
  "TELEMETRY_ENABLED ((after (Inc ENCODED_PACKETS) ^^ n) t) = TELEMETRY_ENABLED t"
  "counted ENCODED_PACKETS ((after (Inc ENCODED_PACKETS) ^^ n) t) = counted ENCODED_PACKETS t + n"
  by (induction n) simp_all

lemma encoded_after_simps [simp]:
  "encoded_after 0 t = t" "TELEMETRY_ENABLED (encoded_after n t) = TELEMETRY_ENABLED t"
  "encoded_after m (encoded_after n t) = encoded_after (m + n) t"
  "TELEMETRY_ENABLED t \<Longrightarrow> counted ENCODED_PACKETS (encoded_after n t) = counted ENCODED_PACKETS t + n"
  by (simp_all add: encoded_after_def after_pow funpow_add)

lemma tel_encoded: "registry_ok (register P) \<Longrightarrow> tel P (Inc ENCODED_PACKETS) t = Some (encoded_after 1 t)"
  by (simp add: tel_ok encoded_after_def)

lemma repairs_loop:
  assumes reg: "registry_ok (register P)"
  shows "ofold (\<lambda>i (p, q). do {
           (r, p) \<leftarrow> EncoderVariant_generate_repair_packet g nd enc i p;
           Some (p, q @ (case r of None \<Rightarrow> [] | Some pk \<Rightarrow> [pk])) }) ns (p, q) = Some (p', q') \<Longrightarrow>
         length q \<le> length q' \<and>
         ofold (\<lambda>i (p, q, t). do {
           (r, p) \<leftarrow> EncoderVariant_generate_repair_packet g nd enc i p;
           case r of
             None \<Rightarrow> Some (p, q, t)
           | Some pk \<Rightarrow> do { t \<leftarrow> tel P (Inc ENCODED_PACKETS) t; Some (p, q @ [pk], t) } }) ns (p, q, t) =
         Some (p', q', encoded_after (length q' - length q) t)"
proof (induction ns arbitrary: p q t)
  case (Cons i ns)
  from Cons.prems obtain r p1 where r: "EncoderVariant_generate_repair_packet g nd enc i p = Some (r, p1)"
    by (auto simp: bind_eq_Some_conv)
  show ?case
  proof (cases r)
    case None
    with Cons r show ?thesis by simp
  next
    case (Some pk)
    with Cons.prems r have "ofold (\<lambda>i (p, q). do {
           (r, p) \<leftarrow> EncoderVariant_generate_repair_packet g nd enc i p;
           Some (p, q @ (case r of None \<Rightarrow> [] | Some pk \<Rightarrow> [pk])) }) ns (p1, q @ [pk]) = Some (p', q')" by simp
    from Cons.IH[OF this, of "encoded_after 1 t"] Some r show ?thesis
      by (simp add: tel_encoded[OF reg] Suc_diff_Suc)
  qed
qed simp

lemma emit_repairs_t_ok:
  assumes "registry_ok (register P)" "emit_repairs g nd enc (p, q) = Some (p', q')"
  shows "length q \<le> length q' \<and>
         emit_repairs_t P g nd enc (p, q, t) = Some (p', q', encoded_after (length q' - length q) t)"
  using assms(2) repairs_loop[OF assms(1), of g nd enc _ p q p' q' t]
  by (simp add: emit_repairs_def emit_repairs_t_def Let_def split: prod.splits)

lemma on_send_t_ok:
  assumes reg: "registry_ok (register P)" and send: "on_send g nd pkt f q = Some (f', q')"
  shows "length q < length q' \<and> on_send_t P g nd pkt f q t = Some (f', q', encoded_after (length q' - length q) t)"
proof -
  obtain te p0 enc p1 p2 q2 p3 where s:
    "(case transition_encoder f of None \<Rightarrow> Some (None, mem_pool f)
      | Some enc \<Rightarrow> do { (enc, p) \<leftarrow> feed nd pkt enc (mem_pool f); Some (Some enc, p) }) = Some (te, p0)"
    "feed nd pkt (encoder f) p0 = Some (enc, p1)"
    "(if transition_left f > CROSS_FADE_LEN div 2
      then (case te of None \<Rightarrow> Some (p1, q @ [pkt]) | Some tenc \<Rightarrow> emit_repairs g nd tenc (p1, q @ [pkt]))
      else Some (p1, q @ [pkt])) = Some (p2, q2)"
    "emit_repairs g nd enc (p2, q2) = Some (p3, q')"
    "f' = fade_step nd p3 (f\<lparr>transition_encoder := te, encoder := enc\<rparr>)"
    using send unfolding on_send_def Let_def by (auto simp: bind_eq_Some_conv simp del: option.case)
  have two: "length (q @ [pkt]) \<le> length q2 \<and>
     (if transition_left f > CROSS_FADE_LEN div 2
      then (case te of None \<Rightarrow> Some (p1, q @ [pkt], u) | Some tenc \<Rightarrow> emit_repairs_t P g nd tenc (p1, q @ [pkt], u))
      else Some (p1, q @ [pkt], u)) = Some (p2, q2, encoded_after (length q2 - length (q @ [pkt])) u)" for u
    using s(3) emit_repairs_t_ok[OF reg, of g nd _ p1 "q @ [pkt]" p2 q2 u]
    by (auto split: if_splits option.splits)
  note three = emit_repairs_t_ok[OF reg s(4)]
  have "on_send_t P g nd pkt f q t = Some (f', q', encoded_after (length q' - length q2)
      (encoded_after (length q2 - length (q @ [pkt])) (encoded_after 1 t)))"
    unfolding on_send_t_def Let_def s(1) s(2) s(5) bind.bind_lunit prod.case tel_encoded[OF reg]
    using two three by simp
  moreover have "length q' - length q2 + (length q2 - length (q @ [pkt]) + 1) = length q' - length q" "length q < length q'"
    using two[THEN conjunct1] three[THEN conjunct1] by auto
  ultimately show ?thesis by (simp only: encoded_after_simps(3) simp_thms)
qed

text \<open>A decoder that gives packets for the first time adds the number of these and of all packets recovered
  before to the counter.\<close>

lemma unat_length:
  "length xs + length ys < 2 ^ 64 \<Longrightarrow>
   unat (of_nat (length xs) + of_nat (length ys) :: u64) = length xs + length ys"
  "length xs < 2 ^ 64 \<Longrightarrow> unat (of_nat (length xs) :: u64) = length xs"
  using unat_of_nat[where 'a = 64, of "length xs + length ys"] unat_of_nat[where 'a = 64, of "length xs"] by simp_all

lemma receive_with_t_ok:
  assumes reg: "registry_ok (register P)" and rw: "receive_with g nd pkt d p = Some (r, d', p')"
  shows "\<exists>t'. receive_with_t P g nd pkt d rec p t = Some (r, d', p', t') \<and> TELEMETRY_ENABLED t' = TELEMETRY_ENABLED t \<and>
     (TELEMETRY_ENABLED t \<longrightarrow> (case r of Inl e \<Rightarrow> counted DECODED_PACKETS t' = counted DECODED_PACKETS t
        | Inr pks \<Rightarrow> length (rec @ pks) < 2 ^ 64 \<longrightarrow> rec = [] \<or> pks \<noteq> [] \<longrightarrow>
            counted DECODED_PACKETS t' = counted DECODED_PACKETS t + length (rec @ pks)))"
proof -
  obtain r1 d1 p1 where add: "DecoderVariant_add_packet g nd pkt d p = Some (r1, d1, p1)"
    using rw by (auto simp: receive_with_def bind_eq_Some_conv)
  obtain pks d2 where get: "DecoderVariant_get_decoded_packets d1 = (pks, d2)" by (rule prod.exhaust)
  show ?thesis
  proof (cases r1)
    case (Inl e)
    with rw add show ?thesis by (auto simp: receive_with_def receive_with_t_def)
  next
    case (Inr now)
    with rw add get show ?thesis
      by (cases "\<not> DecoderVariant_is_decoded d \<and> now")
        (auto simp: receive_with_def receive_with_t_def tel_ok[OF reg] unat_length)
  qed
qed

lemma drop_packets_Nil [simp]: "drop_packets nd [] p = p"
  by (simp add: drop_packets_def)

text \<open>In the first half of a cross-fade the packets of the current decoder are counted twice when the old
  decoder gives packets too.\<close>

lemma decoded_counted_twice:
  assumes reg: "registry_ok (register P)" and on: "TELEMETRY_ENABLED t"
    and cur: "receive_with g nd pkt d p = Some (Inr rec, d', p1)"
    and old: "receive_with g nd c td p1 = Some (Inr rec2, td', p2)" "rec2 \<noteq> []" "length (rec @ rec2) < 2 ^ 64"
  shows "\<exists>t1 t'. receive_with_t P g nd pkt d [] p t = Some (Inr rec, d', p1, t1) \<and>
     receive_transition_t P g nd (Some c) (Some td) rec p1 t1 = Some (Inr (rec @ rec2), Some td', p2, t') \<and>
     counted DECODED_PACKETS t' = counted DECODED_PACKETS t + 2 * length rec + length rec2"
proof -
  from receive_with_t_ok[OF reg cur, of "[]" t] on old(3) obtain t1 where t1:
    "receive_with_t P g nd pkt d [] p t = Some (Inr rec, d', p1, t1)" "TELEMETRY_ENABLED t1"
    "counted DECODED_PACKETS t1 = counted DECODED_PACKETS t + length rec" by auto
  from receive_with_t_ok[OF reg old(1), of rec t1] old t1 obtain t' where
    "receive_with_t P g nd c td rec p1 t1 = Some (Inr rec2, td', p2, t')"
    "counted DECODED_PACKETS t' = counted DECODED_PACKETS t1 + length (rec @ rec2)" by auto
  with t1 show ?thesis by (simp add: receive_transition_t_def)
qed

lemma on_receive_t_ok:
  assumes reg: "registry_ok (register P)" and fade: "transition_left f \<le> CROSS_FADE_LEN div 2"
    and rc: "on_receive g nd pkt f = Some (r, f')"
  shows "\<exists>t'. on_receive_t P g nd pkt f t = Some (r, f', t') \<and> TELEMETRY_ENABLED t' = TELEMETRY_ENABLED t \<and>
     (TELEMETRY_ENABLED t \<longrightarrow> (case r of Inl e \<Rightarrow> counted DECODED_PACKETS t' = counted DECODED_PACKETS t
        | Inr pks \<Rightarrow> length pks < 2 ^ 64 \<longrightarrow>
            counted DECODED_PACKETS t' = counted DECODED_PACKETS t + length pks))"
proof -
  have nf: "\<not> CROSS_FADE_LEN div 2 < transition_left f" using fade by simp
  obtain r1 d p where rw: "receive_with g nd pkt (decoder f) (mem_pool f) = Some (r1, d, p)"
    using rc nf by (auto simp: on_receive_def bind_eq_Some_conv)
  have f': "r1 = r \<and> f' = f\<lparr>decoder := d, mem_pool := p\<rparr>"
    using rc rw nf
    by (auto simp: on_receive_def receive_transition_def Let_def split: sum.split_asm option.split_asm)
  from receive_with_t_ok[OF reg rw, of "[]" t] obtain t' where t':
    "receive_with_t P g nd pkt (decoder f) [] (mem_pool f) t = Some (r1, d, p, t')"
    "TELEMETRY_ENABLED t' = TELEMETRY_ENABLED t"
    "TELEMETRY_ENABLED t \<longrightarrow> (case r1 of Inl e \<Rightarrow> counted DECODED_PACKETS t' = counted DECODED_PACKETS t
       | Inr pks \<Rightarrow> length pks < 2 ^ 64 \<longrightarrow> counted DECODED_PACKETS t' = counted DECODED_PACKETS t + length pks)"
    by (cases r1) auto
  have "on_receive_t P g nd pkt f t = Some (r, f', t')"
    using t'(1) nf f'
    by (cases r1) (auto simp: on_receive_t_def receive_transition_t_def Let_def split: option.split)
  with t' f' show ?thesis by auto
qed

subsection \<open>Properties\<close>

text \<open>C30: the gauges of FEC mode and window, with the metrics on, for every configuration and after every history of
  updates of its mode manager, emergencies included. The constructor sets the window gauge but not the mode gauge. An emergency
  switch to the extreme mode and an update within the dwell time write no metric. Every other update sets the
  window gauge, and sets the mode gauge when mode or window changed. So both gauges show the manager's mode and window
  after every history without emergencies if the mode gauge happened to show the initial mode; otherwise it is
  wrong from the start, or from the emergency on, until the controller next changes something.\<close>

theorem mode_gauges:
  assumes "registry_ok (register P)" "TELEMETRY_ENABLED t" "list_all (\<lambda>x. metrics_env_ok (fst x)) xs"
  shows "\<exists>t1 m t'. AdaptiveFec_new_t P now cfg p g t = Some (AdaptiveFec_new now cfg p g, t1) \<and>
     reads FEC_MODE t1 = reads FEC_MODE t \<and>
     reads FEC_WINDOW t1 = of_nat (current_window (mode_mgr (fst (AdaptiveFec_new now cfg p g)))) \<and>
     plain_all mgr_plain xs (mode_mgr (fst (AdaptiveFec_new now cfg p g))) = Some m \<and>
     run_all mgr_run xs (mode_mgr (fst (AdaptiveFec_new now cfg p g)), t1) = Some (m, t') \<and>
     (reads FEC_MODE t = mode_number (initial_mode cfg) \<and>
      fits_all mgr_plain mgr_fits xs (mode_mgr (fst (AdaptiveFec_new now cfg p g))) \<longrightarrow> mgr_shown m t') \<and>
     (\<forall>clk loss. \<exists>r m' t''. ModeManager_update clk loss m = Some (r, m') \<and>
        ModeManager_update_t P clk loss m t' = Some (r, m', t'') \<and>
        (if emergency loss m then t'' = t' \<and> current_mode m' = Extreme \<and> (current_mode m \<noteq> Extreme \<and> mgr_shown m t' \<longrightarrow> \<not> mgr_shown m' t'')
         else if dwelling clk m then t'' = t' \<and> m' = m
         else reads FEC_WINDOW t'' = of_nat (current_window m') \<and>
              reads FEC_MODE t'' = (if (current_mode m, current_window m) = (current_mode m', current_window m')
                                    then reads FEC_MODE t' else mode_number (current_mode m'))))"
proof -
  let ?m = "mode_mgr (fst (AdaptiveFec_new now cfg p g))"
  from AdaptiveFec_new_t_ok[OF assms(1,2), of now cfg p g] obtain t1 where t1:
    "AdaptiveFec_new_t P now cfg p g t = Some (AdaptiveFec_new now cfg p g, t1)" "TELEMETRY_ENABLED t1"
    "reads FEC_MODE t1 = reads FEC_MODE t" "reads FEC_WINDOW t1 = of_nat (current_window ?m)"
    by (auto simp: reads_def)
  obtain m where m: "plain_all mgr_plain xs ?m = Some m" "mgr_ok m"
    using plain_all_mgr[OF AdaptiveFec_new_mgr_ok] by blast
  obtain t' where t': "run_all mgr_run xs (?m, t1) = Some (m, t')" "TELEMETRY_ENABLED t'"
    using mode_runs.history[OF fits_all_envs[OF assms(3)] m(1), of t1] t1(2) by blast
  have agree: "mgr_shown m t'" if "reads FEC_MODE t = mode_number (initial_mode cfg)" "fits_all mgr_plain mgr_fits xs ?m"
    using mode_metrics.history[OF that(2) m(1), of t1] t1(2-4) t'(1) that(1)
    by (auto simp: mgr_shown_def AdaptiveFec_new_mode)
  show ?thesis
    using t1(1,3,4) m(1) t'(1) agree update_t_gauges[OF assms(1) t'(2) m(2)]
    by (intro exI[of _ t1] exI[of _ m] exI[of _ t']) blast
qed

text \<open>A layer that starts in the light mode: the mode gauge reads 0 instead of 1; a loss of one half lowers the mode, which the
  gauge then shows; a loss of one is an emergency, which it does not.\<close>

theorem mode_gauges_witness:
  "\<exists>t1 m1 m2 t2. AdaptiveFec_new_t example_env 0 (FecConfig_default\<lparr>initial_mode := Light\<rparr>) (pool_new 1 4 4) std_env
        (telemetry_init\<lparr>TELEMETRY_ENABLED := True\<rparr>) =
        Some (AdaptiveFec_new 0 (FecConfig_default\<lparr>initial_mode := Light\<rparr>) (pool_new 1 4 4) std_env, t1) \<and>
     reads FEC_MODE t1 = 0 \<and>
     map_option snd (ModeManager_update_t example_env \<lparr>t_elapsed = 10 ^ 9, t_pid = 10 ^ 9, t_change = 10 ^ 9\<rparr> 1
       (mode_mgr (fst (AdaptiveFec_new 0 (FecConfig_default\<lparr>initial_mode := Light\<rparr>) (pool_new 1 4 4) std_env))) t1) = Some (m1, t1) \<and>
     current_mode m1 = Extreme \<and>
     map_option snd (ModeManager_update_t example_env \<lparr>t_elapsed = 10 ^ 9, t_pid = 10 ^ 9, t_change = 10 ^ 9\<rparr> (1 / 2)
       (mode_mgr (fst (AdaptiveFec_new 0 (FecConfig_default\<lparr>initial_mode := Light\<rparr>) (pool_new 1 4 4) std_env))) t1) = Some (m2, t2) \<and>
     current_mode m2 = Zero \<and> mgr_shown m2 t2"
proof -
  let ?cfg = "FecConfig_default\<lparr>initial_mode := Light\<rparr>" and ?t = "telemetry_init\<lparr>TELEMETRY_ENABLED := True\<rparr>"
    and ?clk = "\<lparr>t_elapsed = 10 ^ 9, t_pid = 10 ^ 9, t_change = 10 ^ 9\<rparr>"
  let ?m = "mode_mgr (fst (AdaptiveFec_new 0 ?cfg (pool_new 1 4 4) std_env))"
  have m: "?m = ModeManager_new 0 default_pid (f32 (2 / 100)) Light default_windows"
    by (simp add: AdaptiveFec_new_def FecConfig_default_def Let_def split: prod.split)
  have e: "emergency 1 ?m" "\<not> emergency (1 / 2) ?m" "\<not> dwelling ?clk ?m"
    unfolding m emergency_def dwelling_def using light_limits by (simp_all add: ModeManager_new_def)
  obtain w prev m2 where z: "ModeManager_update ?clk (1 / 2) ?m = Some ((Zero, w, prev), m2)" "current_mode m2 = Zero"
    using light_falls unfolding m by blast
  have prem: "TELEMETRY_ENABLED ?t" "list_all (\<lambda>x. metrics_env_ok (fst x)) []" by simp_all
  from mode_gauges[OF example_env_ok(2) prem, of 0 ?cfg "pool_new 1 4 4" std_env]
  obtain t1 m t' where t1: "AdaptiveFec_new_t example_env 0 ?cfg (pool_new 1 4 4) std_env ?t = Some (AdaptiveFec_new 0 ?cfg (pool_new 1 4 4) std_env, t1)"
    "reads FEC_MODE t1 = reads FEC_MODE ?t" and run: "run_all mgr_run [] (?m, t1) = Some (m, t')"
    and upd: "\<forall>clk loss. \<exists>r m' t''. ModeManager_update clk loss m = Some (r, m') \<and>
        ModeManager_update_t example_env clk loss m t' = Some (r, m', t'') \<and>
        (if emergency loss m then t'' = t' \<and> current_mode m' = Extreme \<and> (current_mode m \<noteq> Extreme \<and> mgr_shown m t' \<longrightarrow> \<not> mgr_shown m' t'')
         else if dwelling clk m then t'' = t' \<and> m' = m
         else reads FEC_WINDOW t'' = of_nat (current_window m') \<and>
              reads FEC_MODE t'' = (if (current_mode m, current_window m) = (current_mode m', current_window m')
                                    then reads FEC_MODE t' else mode_number (current_mode m')))"
    by (elim exE conjE) (rule that)
  have mt: "m = ?m" "t' = t1" using run by (simp_all add: run_all_def)
  note t3 = upd[unfolded mt, rule_format]
  from t3[of ?clk 1] e(1) obtain m1 where m1: "map_option snd (ModeManager_update_t example_env ?clk 1 ?m t1) = Some (m1, t1)"
    "current_mode m1 = Extreme" by auto
  have l: "current_mode ?m = Light" unfolding m by simp
  from t3[of ?clk "1 / 2"] e(2,3) z l obtain t2 where t2:
    "map_option snd (ModeManager_update_t example_env ?clk (1 / 2) ?m t1) = Some (m2, t2)"
    "reads FEC_WINDOW t2 = of_nat (current_window m2)" "reads FEC_MODE t2 = mode_number (current_mode m2)"
    by auto
  have "reads FEC_MODE ?t = 0" by (simp add: reads_def)
  with t1 m1 t2 z(2) show ?thesis
    by (intro exI[of _ t1] exI[of _ m1] exI[of _ m2] exI[of _ t2]) (simp add: mgr_shown_def)
qed

text \<open>The counter of encoded packets grows by the number of packets that \<open>on_send\<close> puts into the outgoing
  queue, the source packet and all repair packets of both encoders, and counting changes nothing else.\<close>

lemma encoded_packets_exact:
  assumes "registry_ok (register P)" "TELEMETRY_ENABLED t" "on_send g nd pkt f q = Some (f', q')"
  shows "\<exists>t'. on_send_t P g nd pkt f q t = Some (f', q', t') \<and>
           counted ENCODED_PACKETS t' + length q = counted ENCODED_PACKETS t + length q' \<and> length q < length q'"
  using on_send_t_ok[OF assms(1,3), of t] assms(2) by auto

end
