(* ===== verification/Connection_Telemetry.thy ===== *)
theory Connection_Telemetry
  imports Pool_Telemetry Fec_Telemetry Connection
begin

text \<open>
  The metrics of the remaining components: feature detection, SIMD dispatch and the optimization manager
  (\<open>src/src/optimize.rs\<close>), the stealth manager (\<open>src/src/stealth.rs\<close>) and the connection
  (\<open>src/src/core.rs\<close>), each operation with the calls of its own body. The byte counters that the event
  loops of \<open>src/src/main.rs\<close> keep for the UDP path are left out.

  The theory shows that the operations have the outcome of those without metrics and what the counters of
  dispatches and migrations count.
\<close>

subsection \<open>Detection and dispatch\<close>

definition instance_t :: "metrics_env \<Rightarrow> FeatureDetector \<Rightarrow> telemetry \<Rightarrow> telemetry option" where
  "instance_t P d t = do {
     t \<leftarrow> tel P (Set_to CPU_FEATURE_MASK (feature_mask d)) t;
     tel P (Set_to SIMD_ACTIVE (of_nat (simd_active d))) t }"

text \<open>The policy without a counter is \<open>Pclmulqdq\<close>.\<close>

definition dispatch_t :: "metrics_env \<Rightarrow> FeatureDetector \<Rightarrow> telemetry \<Rightarrow> (SimdPolicy \<times> telemetry) option" where
  "dispatch_t P d t =
     (if has_feature d AVX512F \<and> has_feature d AVX512VBMI
      then do { t \<leftarrow> tel P (Inc SIMD_USAGE_AVX512) t; Some (Avx512, t) }
      else if has_feature d AVX2 then do { t \<leftarrow> tel P (Inc SIMD_USAGE_AVX2) t; Some (Avx2, t) }
      else if has_feature d SSE2 then do { t \<leftarrow> tel P (Inc SIMD_USAGE_SSE2) t; Some (Sse2, t) }
      else if has_feature d PCLMULQDQ then Some (Pclmulqdq, t)
      else if has_feature d NEON then do { t \<leftarrow> tel P (Inc SIMD_USAGE_NEON) t; Some (Neon, t) }
      else do { t \<leftarrow> tel P (Inc SIMD_USAGE_SCALAR) t; Some (Scalar, t) })"

definition manager_new_with_config_t ::
  "metrics_env \<Rightarrow> nat \<Rightarrow> bool \<Rightarrow> usize \<Rightarrow> nat \<Rightarrow> bool \<Rightarrow> telemetry \<Rightarrow> (OptimizationManager \<times> telemetry) option" where
  "manager_new_with_config_t P nodes supported cap bs enable_xdp t = do {
     let enabled = (enable_xdp \<and> supported);
     t \<leftarrow> tel P (Set_to XDP_ACTIVE (if enabled then 1 else 0)) t;
     (pool, t) \<leftarrow> pool_new_t P nodes cap bs t;
     Some (\<lparr>memory_pool = pool, xdp_available = supported, use_xdp = enabled\<rparr>, t) }"

subsection \<open>Stealth manager\<close>

definition flag :: "bool \<Rightarrow> u64" where
  "flag b = (if b then 1 else 0)"

definition StealthManager_new_t ::
  "metrics_env \<Rightarrow> (BrowserProfile \<Rightarrow> OsProfile \<Rightarrow> bytes option) \<Rightarrow> (nat \<Rightarrow> u8) \<Rightarrow> StealthConfig \<Rightarrow> telemetry \<Rightarrow>
   (StealthManager \<times> telemetry) option" where
  "StealthManager_new_t P load rnd cfg t = do {
     m \<leftarrow> StealthManager_new load rnd cfg;
     t \<leftarrow> tel P (Set_to STEALTH_DOH (flag (enable_doh cfg))) t;
     t \<leftarrow> tel P (Set_to STEALTH_FRONTING (flag (enable_domain_fronting cfg))) t;
     t \<leftarrow> tel P (Set_to STEALTH_XOR (flag (enable_xor_obfuscation cfg))) t;
     Some (m, t) }"

definition resolve_domain_t ::
  "metrics_env \<Rightarrow> (string \<Rightarrow> string \<Rightarrow> string + doh_record list option) \<Rightarrow> (string \<Rightarrow> IpAddr option) \<Rightarrow> string \<Rightarrow>
   StealthManager \<Rightarrow> telemetry \<Rightarrow> (IpAddr \<times> telemetry) option" where
  "resolve_domain_t P query parse_ip domain m t =
     (if enable_doh (sm_config m)
      then (case resolve_doh query parse_ip domain (doh_provider (sm_config m)) of
              Inr ip \<Rightarrow> Some (ip, t)
            | Inl _ \<Rightarrow> do { t \<leftarrow> tel P (Inc DNS_ERRORS) t; Some (IpV4 1 1 1 1, t) })
      else Some (IpV4 1 1 1 1, t))"

subsection \<open>Connection\<close>

definition migrate_connection_t ::
  "metrics_env \<Rightarrow> ('c, 'h, 's) api \<Rightarrow> SocketAddr \<Rightarrow> ('c, 'h, 's) QuicFuscateConnection \<Rightarrow> telemetry \<Rightarrow>
   ((QuicheError + u64) \<times> ('c, 'h, 's) QuicFuscateConnection \<times> telemetry) option" where
  "migrate_connection_t P api new_peer c t = do {
     let xdp = map_option (xdp_update_remote api new_peer)
                 (open_socket api (local_addr c) new_peer (optimization_manager c));
     t \<leftarrow> (case xdp of Some _ \<Rightarrow> tel P (Set_to XDP_ACTIVE 1) t | None \<Rightarrow> tel P (Set_to XDP_ACTIVE 0) t);
     let (r, cn) = q_migrate api (local_addr c) new_peer (conn c);
     t \<leftarrow> (case r of Inr _ \<Rightarrow> tel P (Inc PATH_MIGRATIONS) t | Inl _ \<Rightarrow> Some t);
     Some (r, c\<lparr>xdp_socket := xdp, conn := cn\<rparr>, t) }"

primrec path_event_t ::
  "metrics_env \<Rightarrow> ('c, 'h, 's) api \<Rightarrow> PathEvent \<Rightarrow> ('c, 'h, 's) QuicFuscateConnection \<Rightarrow> telemetry \<Rightarrow>
   (('c, 'h, 's) QuicFuscateConnection \<times> telemetry) option" where
  "path_event_t P api (PathNew l p) c t = Some (c, t)"
| "path_event_t P api (Validated l p) c t =
     do { let c = switch_path api l p c; t \<leftarrow> tel P (Inc PATH_MIGRATIONS) t; Some (c, t) }"
| "path_event_t P api (FailedValidation l p) c t = Some (c, t)"
| "path_event_t P api (PathClosed l p) c t = Some (c, t)"
| "path_event_t P api (ReusedSourceConnectionId n old new) c t = Some (c, t)"
| "path_event_t P api (PeerMigrated l p) c t =
     do { let c = switch_path api l p c; t \<leftarrow> tel P (Inc PATH_MIGRATIONS) t; Some (c, t) }"

partial_function (option) path_events_t ::
  "metrics_env \<Rightarrow> ('c, 'h, 's) api \<Rightarrow> ('c, 'h, 's) QuicFuscateConnection \<Rightarrow> telemetry \<Rightarrow>
   (('c, 'h, 's) QuicFuscateConnection \<times> telemetry) option" where
  "path_events_t P api c t =
     (case q_path_event_next api (conn c) of
        (None, cn) \<Rightarrow> Some (c\<lparr>conn := cn\<rparr>, t)
      | (Some e, cn) \<Rightarrow> Option.bind (path_event_t P api e (c\<lparr>conn := cn\<rparr>) t) (\<lambda>(c, t). path_events_t P api c t))"

text \<open>The tick of a connection; the log line is what \<open>flush\<close> prints, if it is due.\<close>

definition update_state_t ::
  "metrics_env \<Rightarrow> (telemetry \<Rightarrow> 'f) \<Rightarrow> ('f \<Rightarrow> bytes option) \<Rightarrow> (bytes \<Rightarrow> string) \<Rightarrow>
   platform \<Rightarrow> ('c, 'h, 's) api \<Rightarrow> clock \<Rightarrow> nat \<Rightarrow> ('c, 'h, 's) QuicFuscateConnection \<Rightarrow> telemetry \<Rightarrow>
   (string option \<times> ('c, 'h, 's) QuicFuscateConnection \<times> telemetry) option" where
  "update_state_t P gather encode lossy pf api clk now c t = do {
     let s = q_stats api (conn c);
     let st = (stats c)\<lparr>packets_sent := of_nat (st_sent s), packets_lost := of_nat (st_lost s)\<rparr>;
     let st = (if st_sent s > 0
               then st\<lparr>loss_rate := f32 (usize_as_f32 (st_lost s) / usize_as_f32 (st_sent s))\<rparr> else st);
     let st = st\<lparr>rtt := usize_as_f32 (st_rtt_millis s)\<rparr>;
     (f, t) \<leftarrow> AdaptiveFec_report_loss_t P (node pf) clk (st_lost s) (st_sent s) (fec c) t;
     let c = set_fec f (c\<lparr>stats := st\<rparr>);
     (out, c, t) \<leftarrow> (if now - last_telemetry c \<ge> 1000000000
                     then do {
                       t \<leftarrow> telemetry_macro (update_memory_usage P) t;
                       let out = (if TELEMETRY_ENABLED t then flush gather encode lossy t else None);
                       Some (out, c\<lparr>last_telemetry := now\<rparr>, t) }
                     else Some (None, c, t));
     (c, t) \<leftarrow> path_events_t P api c t;
     Some (out, c, t) }"

subsection \<open>The operations with and without metrics\<close>

definition dispatches :: "telemetry \<Rightarrow> nat" where
  "dispatches t = counted SIMD_USAGE_AVX512 t + counted SIMD_USAGE_AVX2 t + counted SIMD_USAGE_SSE2 t +
     counted SIMD_USAGE_NEON t + counted SIMD_USAGE_SCALAR t"

text \<open>Each dispatch is counted under the policy it takes, except the ones to \<open>Pclmulqdq\<close>.\<close>

lemma dispatch_t_counts:
  assumes "registry_ok (register P)" "TELEMETRY_ENABLED t"
  shows "\<exists>t'. dispatch_t P d t = Some (dispatch d, t') \<and>
           dispatches t' = dispatches t + (if dispatch d = Pclmulqdq then 0 else 1)"
  using assms by (simp add: dispatch_t_def dispatch_def dispatches_def tel_ok)

text \<open>The gauge of the optimization manager agrees with its flag, and the pool's gauges are there.\<close>

lemma manager_new_t_ok:
  assumes "registry_ok (register P)" "bs < 2 ^ 64" "TELEMETRY_ENABLED t"
  shows "\<exists>t'. manager_new_with_config_t P nodes supported cap bs enable_xdp t =
           Some (manager_new_with_config nodes supported cap bs enable_xdp, t') \<and>
         pool_shown (pool_new nodes cap bs) t'"
proof -
  define t0 where "t0 = after (Set_to XDP_ACTIVE (if enable_xdp \<and> supported then 1 else 0)) t"
  have "tel P (Set_to XDP_ACTIVE (if enable_xdp \<and> supported then 1 else 0)) t = Some t0" "TELEMETRY_ENABLED t0"
    using assms(3) by (simp_all add: tel_ok[OF assms(1)] t0_def)
  moreover from this(2) obtain t' where "pool_new_t P nodes cap bs t0 = Some (pool_new nodes cap bs, t')"
    "pool_shown (pool_new nodes cap bs) t'"
    using pool_new_t_ok[OF assms(1,2), of nodes cap t0] by blast
  ultimately show ?thesis by (simp add: manager_new_with_config_t_def manager_new_with_config_def Let_def)
qed

lemma StealthManager_new_t_ok:
  assumes "registry_ok (register P)" "TELEMETRY_ENABLED t" "StealthManager_new load rnd cfg = Some m"
  shows "\<exists>t'. StealthManager_new_t P load rnd cfg t = Some (m, t') \<and> gauge STEALTH_DOH t' = Some (flag (enable_doh cfg)) \<and>
     gauge STEALTH_FRONTING t' = Some (flag (domain_fronter m \<noteq> None)) \<and>
     gauge STEALTH_XOR t' = Some (flag (xor_obfuscator m \<noteq> None))"
proof -
  obtain fp where "FingerprintProfile_new load (browser_profile cfg) (os_profile cfg) = Some fp"
    using assms(3) unfolding StealthManager_new_def by (cases "FingerprintProfile_new load (browser_profile cfg) (os_profile cfg)") simp_all
  with assms(3) have "(domain_fronter m = None) = (\<not> enable_domain_fronting cfg)"
    "(xor_obfuscator m = None) = (\<not> enable_xor_obfuscation cfg)"
    unfolding StealthManager_new_def by auto
  with assms show ?thesis by (simp add: StealthManager_new_t_def tel_ok)
qed

lemma resolve_domain_t_ok:
  assumes "registry_ok (register P)"
  shows "\<exists>t'. resolve_domain_t P query parse_ip domain m t = Some (resolve_domain query parse_ip domain m, t')"
  using assms by (cases "resolve_doh query parse_ip domain (doh_provider (sm_config m))")
    (simp_all add: resolve_domain_t_def resolve_domain_def tel_ok)

text \<open>What an operation leaves alone: the switch and the number of migrations.\<close>

definition migrations_step :: "nat \<Rightarrow> telemetry \<Rightarrow> telemetry \<Rightarrow> bool" where
  "migrations_step n t t' \<longleftrightarrow> TELEMETRY_ENABLED t' = TELEMETRY_ENABLED t \<and>
     counted PATH_MIGRATIONS t' = counted PATH_MIGRATIONS t + (if TELEMETRY_ENABLED t then n else 0)"

lemma migrations_trans: "migrations_step m t t1 \<Longrightarrow> migrations_step n t1 t2 \<Longrightarrow> migrations_step (m + n) t t2"
  by (auto simp: migrations_step_def)

lemma report_loss_t_ok:
  assumes reg: "registry_ok (register P)" and rl: "AdaptiveFec_report_loss nd clk lost tot f = Some f'"
  shows "\<exists>t'. AdaptiveFec_report_loss_t P nd clk lost tot f t = Some (f', t') \<and> migrations_step 0 t t'"
proof -
  obtain est where est: "LossEstimator_report_loss lost tot (estimator f) = Some est"
    using rl by (auto simp: AdaptiveFec_report_loss_def bind_eq_Some_conv)
  obtain mode w prev mgr where u: "ModeManager_update clk (get_estimated_loss est) (mode_mgr f) = Some ((mode, w, prev), mgr)"
    using rl est by (auto simp: AdaptiveFec_report_loss_def Let_def bind_eq_Some_conv)
  define t1 where "t1 = (if TELEMETRY_ENABLED t then after (Set_to LOSS_RATE (scale_i64 (get_estimated_loss est) 100)) t else t)"
  have "AdaptiveFec_report_loss_t P nd clk lost tot f t =
      Some (f', update_metrics_after clk (get_estimated_loss est) (mode_mgr f) mgr t1)"
    using rl est u
    by (cases prev) (simp_all add: AdaptiveFec_report_loss_def AdaptiveFec_report_loss_t_def tel_ok[OF reg]
        update_t_eq[OF reg] Let_def case_prod_beta t1_def)
  moreover have "migrations_step 0 t (update_metrics_after clk (get_estimated_loss est) (mode_mgr f) mgr t1)"
    by (simp add: migrations_step_def update_metrics_after_def t1_def)
  ultimately show ?thesis by blast
qed

fun is_migration :: "PathEvent \<Rightarrow> bool" where
  "is_migration (Validated l p) \<longleftrightarrow> True"
| "is_migration (PeerMigrated l p) \<longleftrightarrow> True"
| "is_migration _ \<longleftrightarrow> False"

lemma path_event_t_ok:
  assumes "registry_ok (register P)"
  shows "\<exists>t'. path_event_t P api e c t = Some (path_event api e c, t') \<and> migrations_step (if is_migration e then 1 else 0) t t'"
  by (cases e) (simp_all add: tel_ok[OF assms] Let_def migrations_step_def)

lemma path_events_t_ok:
  "path_events api c = Some c' \<Longrightarrow> registry_ok (register P) \<Longrightarrow>
   \<exists>n t'. path_events_t P api c t = Some (c', t') \<and> migrations_step n t t'"
proof (induction arbitrary: t rule: path_events.raw_induct [rotated, consumes 1, case_names step])
  case (step path_events' api c c')
  obtain e cn where e: "q_path_event_next api (conn c) = (e, cn)" by (rule prod.exhaust)
  show ?case
  proof (cases e)
    case None
    with step(2) e show ?thesis
      by (subst path_events_t.simps) (auto simp: migrations_step_def intro!: exI[of _ 0])
  next
    case (Some ev)
    with step(2) e have "path_events' api (path_event api ev (c\<lparr>conn := cn\<rparr>)) = Some c'" by simp
    note IH = step.IH[OF this step.prems]
    obtain t1 where t1: "path_event_t P api ev (c\<lparr>conn := cn\<rparr>) t = Some (path_event api ev (c\<lparr>conn := cn\<rparr>), t1)"
      "migrations_step (if is_migration ev then 1 else 0) t t1"
      using path_event_t_ok[OF step.prems] by blast
    from IH[of t1] obtain n t' where "path_events_t P api (path_event api ev (c\<lparr>conn := cn\<rparr>)) t1 = Some (c', t')"
      "migrations_step n t1 t'" by blast
    with migrations_trans[OF t1(2)] t1(1) e Some show ?thesis
      by (subst path_events_t.simps) auto
  qed
qed

text \<open>The tick of a connection returns with metrics whenever it returns without, in the same state.\<close>

lemma update_state_t_ok:
  assumes env: "metrics_env_ok P" and us: "update_state pf api clk now c = Some c'"
  shows "\<exists>out t'. update_state_t P gather encode lossy pf api clk now c t = Some (out, c', t')"
proof -
  have reg: "registry_ok (register P)" using env by (simp add: metrics_env_ok_def)
  let ?s = "q_stats api (conn c)"
  obtain f where f: "AdaptiveFec_report_loss (node pf) clk (st_lost ?s) (st_sent ?s) (fec c) = Some f"
    using us by (auto simp: update_state_def Let_def bind_eq_Some_conv)
  from report_loss_t_ok[OF reg f, of t] obtain t1 where
    t1: "AdaptiveFec_report_loss_t P (node pf) clk (st_lost ?s) (st_sent ?s) (fec c) t = Some (f, t1)" by blast
  obtain t2 where t2: "telemetry_macro (update_memory_usage P) t1 = Some t2"
    using update_memory_usage_ok[OF env, of t1] by (auto simp: telemetry_macro_def)
  have events: "\<exists>t'. path_events_t P api c1 u = Some (c', t')" if "path_events api c1 = Some c'" for c1 u
    using path_events_t_ok[OF that reg, of u] by blast
  let ?st = "\<lambda>st. set_fec f (c\<lparr>stats := st\<rparr>)"
  from us f obtain st where st:
    "st = (if st_sent ?s > 0 then (stats c)\<lparr>packets_sent := of_nat (st_sent ?s), packets_lost := of_nat (st_lost ?s),
              loss_rate := f32 (usize_as_f32 (st_lost ?s) / usize_as_f32 (st_sent ?s))\<rparr>
           else (stats c)\<lparr>packets_sent := of_nat (st_sent ?s), packets_lost := of_nat (st_lost ?s)\<rparr>)
          \<lparr>rtt := usize_as_f32 (st_rtt_millis ?s)\<rparr>"
    "path_events api (if now - last_telemetry (?st st) \<ge> 1000000000 then (?st st)\<lparr>last_telemetry := now\<rparr> else ?st st) = Some c'"
    by (auto simp: update_state_def Let_def)
  show ?thesis
  proof (cases "now - last_telemetry (?st st) \<ge> 1000000000")
    case True
    with events[of "(?st st)\<lparr>last_telemetry := now\<rparr>" t2] st(2) obtain t' where
      "path_events_t P api ((?st st)\<lparr>last_telemetry := now\<rparr>) t2 = Some (c', t')" by auto
    with True t1 t2 show ?thesis unfolding st(1) by (simp add: update_state_t_def Let_def)
  next
    case False
    with events[of "?st st" t1] st(2) obtain t' where "path_events_t P api (?st st) t1 = Some (c', t')" by auto
    with False t1 show ?thesis unfolding st(1) by (simp add: update_state_t_def Let_def)
  qed
qed

lemma migrate_connection_t_ok:
  assumes "registry_ok (register P)" "migrate_connection api new_peer c = (r, c')"
  shows "\<exists>t'. migrate_connection_t P api new_peer c t = Some (r, c', t') \<and>
     migrations_step (case r of Inl e \<Rightarrow> 0 | Inr _ \<Rightarrow> 1) t t' \<and>
     (TELEMETRY_ENABLED t \<longrightarrow> gauge XDP_ACTIVE t' = Some (flag (xdp_socket c' \<noteq> None)))"
proof -
  obtain r1 cn where m: "q_migrate api (local_addr c) new_peer (conn c) = (r1, cn)" by (rule prod.exhaust)
  show ?thesis
    using assms(2) m
    by (cases r1; cases "open_socket api (local_addr c) new_peer (optimization_manager c)")
      (auto simp: migrate_connection_t_def migrate_connection_def tel_ok[OF assms(1)] Let_def migrations_step_def flag_def)
qed

text \<open>A migration that quiche accepts and then validates is counted twice: at the call and at the event.\<close>

lemma migration_counted_twice:
  assumes reg: "registry_ok (register P)" and on: "TELEMETRY_ENABLED t"
    and mig: "migrate_connection api new_peer c = (Inr n, c')"
  shows "\<exists>t1 t2. migrate_connection_t P api new_peer c t = Some (Inr n, c', t1) \<and>
     path_event_t P api (Validated l new_peer) c' t1 = Some (switch_path api l new_peer c', t2) \<and>
     counted PATH_MIGRATIONS t2 = counted PATH_MIGRATIONS t + 2"
proof -
  from migrate_connection_t_ok[OF reg mig, of t] obtain t1 where t1:
    "migrate_connection_t P api new_peer c t = Some (Inr n, c', t1)" "migrations_step 1 t t1" by auto
  from path_event_t_ok[OF reg, of api "Validated l new_peer" c' t1] obtain t2 where
    "path_event_t P api (Validated l new_peer) c' t1 = Some (switch_path api l new_peer c', t2)" "migrations_step 1 t1 t2"
    by auto
  with t1 on show ?thesis by (auto simp: migrations_step_def)
qed

end
