(* ===== verification/Numa.thy ===== *)
theory Numa
  imports Memory_Pool
begin

text \<open>
  The module \<open>numa\<close> of \<open>src/src/optimize.rs\<close> (lines 57 to 107): the number of memory nodes and the node of the
  running thread, which are the arguments \<open>nodes\<close> and \<open>nd\<close> of the pool's operations. The answers of libnuma and of
  \<open>sched_getcpu\<close> are the record \<open>numa_lib\<close>; a C \<open>int\<close> that is cast to \<open>usize\<close> is extended by its sign.

  The theory shows what the pool makes of the answers: when the library does not know the node of a
  processor, every block given back is lost but counted, and shrinking the pool need not end.
\<close>

record numa_lib =
  numa_available :: int
  numa_num_configured_nodes :: int
  sched_getcpu :: int
  numa_node_of_cpu :: "int \<Rightarrow> int"

definition int_as_usize :: "int \<Rightarrow> nat" where
  "int_as_usize i = nat (i mod 2 ^ 64)"

definition is_available :: "numa_lib \<Rightarrow> bool" where
  "is_available L \<longleftrightarrow> numa_available L \<ge> 0"

definition num_nodes_of :: "numa_lib \<Rightarrow> nat" where
  "num_nodes_of L = (if is_available L then int_as_usize (numa_num_configured_nodes L) else 1)"

definition current_node :: "numa_lib \<Rightarrow> nat" where
  "current_node L =
     (if \<not> is_available L then 0
      else if sched_getcpu L < 0 then 0
      else int_as_usize (numa_node_of_cpu L (sched_getcpu L)))"

text \<open>The variant for other systems than Linux.\<close>

definition num_nodes_other :: nat where
  "num_nodes_other = 1"

definition current_node_other :: nat where
  "current_node_other = 0"

text \<open>Where the library answers as documented (at least one node, and a processor's node below their number), or is
  not there at all, the node of every thread has a queue.\<close>

definition numa_ok :: "numa_lib \<Rightarrow> bool" where
  "numa_ok L \<longleftrightarrow> numa_available L < 0 \<or>
     (0 < numa_num_configured_nodes L \<and> numa_num_configured_nodes L < 2 ^ 31 \<and>
      (0 \<le> sched_getcpu L \<longrightarrow> 0 \<le> numa_node_of_cpu L (sched_getcpu L) \<and>
         numa_node_of_cpu L (sched_getcpu L) < numa_num_configured_nodes L))"

lemma int_as_usize_small: "0 \<le> i \<Longrightarrow> i < 2 ^ 31 \<Longrightarrow> int_as_usize i = nat i"
  by (simp add: int_as_usize_def)

lemma node_in_range:
  assumes "numa_ok L"
  shows "0 < num_nodes_of L \<and> current_node L < num_nodes_of L"
proof (cases "is_available L")
  case True
  with assms have ok: "0 < numa_num_configured_nodes L" "numa_num_configured_nodes L < 2 ^ 31"
    "0 \<le> sched_getcpu L \<longrightarrow> 0 \<le> numa_node_of_cpu L (sched_getcpu L) \<and>
       numa_node_of_cpu L (sched_getcpu L) < numa_num_configured_nodes L"
    by (auto simp: numa_ok_def is_available_def)
  with True show ?thesis
    by (auto simp: num_nodes_of_def current_node_def int_as_usize_small)
qed (simp add: num_nodes_of_def current_node_def)

text \<open>A pool on these nodes loses no block: what is given back by any thread is queued.\<close>

lemma free_keeps_blocks:
  assumes "numa_ok L" "pool_inv k p" "num_nodes p = num_nodes_of L" "length b = block_size p"
  shows "pool_inv k (free (current_node L) b p)"
  using free_spec[OF assms(2,4), of "current_node L"] node_in_range[OF assms(1)] assms(3) by simp

text \<open>Where the library has no answer for a processor it returns -1, which becomes the greatest \<open>usize\<close>.\<close>

lemma unknown_node:
  assumes "is_available L" "0 \<le> sched_getcpu L" "numa_node_of_cpu L (sched_getcpu L) = - 1"
  shows "current_node L = 2 ^ 64 - 1"
  using assms by (simp add: current_node_def int_as_usize_def)

lemma unknown_node_hangs:
  assumes lib: "is_available L" "0 \<le> sched_getcpu L" "numa_node_of_cpu L (sched_getcpu L) = - 1"
    and pool: "pool_inv k p" "0 < num_nodes p" "num_nodes p \<le> 2 ^ 31" "available p < capacity p" "length b = block_size p"
  shows "set_capacity 0 (free (current_node L) b p) = None"
proof -
  let ?p = "free (current_node L) b p"
  have "\<not> current_node L < num_nodes p" using unknown_node[OF lib] pool(3) by simp
  with free_spec[OF pool(1,5), of "current_node L"] pool(4)
  have inv: "pool_inv (Suc k) ?p" "num_nodes ?p = num_nodes p" "capacity ?p = capacity p" by simp_all
  have "queued ?p < unat (capacity ?p)" using inv(1) by (auto simp: pool_inv_def word_le_nat_alt)
  moreover have "\<not> capacity ?p < 0" by simp
  ultimately show ?thesis
    using set_capacity_spec[OF inv(1), of 0] inv(2) pool(2) by auto
qed

text \<open>With no node at all the pool has no queue, and the first allocation of a pool with a capacity never returns.\<close>

lemma no_nodes_hangs:
  assumes "is_available L" "numa_num_configured_nodes L = 0" "0 < cap" "unat cap < 2 ^ 63"
  shows "alloc nd (pool_new (num_nodes_of L) cap bs) = None"
proof -
  have "num_nodes_of L = 0" using assms by (simp add: num_nodes_of_def int_as_usize_def)
  moreover have "cap < cap * 2"
    using assms(3,4) by (simp add: word_less_nat_alt unat_word_ariths unat_gt_0)
  ultimately show ?thesis by (simp add: alloc_def pool_new_def grow.simps)
qed

end
