(* ===== verification/Post_Quantum.thy ===== *)
theory Post_Quantum
  imports Prelude
begin

text \<open>
  The post-quantum utilities (\<open>PqCrypto\<close> of \<open>src/src/pq.rs\<close> and the methods of \<open>CryptoManager\<close> in \<open>src/src/crypto.rs\<close> that
  call them).

  The crates for Kyber768 and Dilithium3 are a parameter: for each kind of key, ciphertext and signature whether a byte
  string is one, and the operations on such strings. Random choices are an argument. A byte string of the wrong form
  is a panic (\<open>expect\<close>).
\<close>

record pq_lib =
  kyber_pk :: "bytes \<Rightarrow> bool"
  kyber_sk :: "bytes \<Rightarrow> bool"
  kyber_ct :: "bytes \<Rightarrow> bool"
  dil_pk :: "bytes \<Rightarrow> bool"
  dil_sk :: "bytes \<Rightarrow> bool"
  dil_sig :: "bytes \<Rightarrow> bool"
  keypair768 :: "nat \<Rightarrow> bytes \<times> bytes"
  encapsulate768 :: "nat \<Rightarrow> bytes \<Rightarrow> bytes \<times> bytes"
  decapsulate768 :: "bytes \<Rightarrow> bytes \<Rightarrow> bytes"
  keypair_dil :: "nat \<Rightarrow> bytes \<times> bytes"
  sign_detached :: "nat \<Rightarrow> bytes \<Rightarrow> bytes \<Rightarrow> bytes"
  verify_detached :: "bytes \<Rightarrow> bytes \<Rightarrow> bytes \<Rightarrow> bool"

definition kyber_keypair :: "pq_lib \<Rightarrow> nat \<Rightarrow> bytes \<times> bytes" where
  "kyber_keypair lib rnd = (case keypair768 lib rnd of (pk, sk) \<Rightarrow> (pk, sk))"

definition kyber_encapsulate :: "pq_lib \<Rightarrow> nat \<Rightarrow> bytes \<Rightarrow> (bytes \<times> bytes) option" where
  "kyber_encapsulate lib rnd pk =
     (if \<not> kyber_pk lib pk then None
      else case encapsulate768 lib rnd pk of (ss, ct) \<Rightarrow> Some (ct, ss))"

definition kyber_decapsulate :: "pq_lib \<Rightarrow> bytes \<Rightarrow> bytes \<Rightarrow> bytes option" where
  "kyber_decapsulate lib ct sk =
     (if \<not> kyber_ct lib ct then None else if \<not> kyber_sk lib sk then None else Some (decapsulate768 lib ct sk))"

definition dilithium_keypair :: "pq_lib \<Rightarrow> nat \<Rightarrow> bytes \<times> bytes" where
  "dilithium_keypair lib rnd = (case keypair_dil lib rnd of (pk, sk) \<Rightarrow> (pk, sk))"

definition dilithium_sign :: "pq_lib \<Rightarrow> nat \<Rightarrow> bytes \<Rightarrow> bytes \<Rightarrow> bytes option" where
  "dilithium_sign lib rnd msg sk = (if \<not> dil_sk lib sk then None else Some (sign_detached lib rnd msg sk))"

definition dilithium_verify :: "pq_lib \<Rightarrow> bytes \<Rightarrow> bytes \<Rightarrow> bytes \<Rightarrow> bool option" where
  "dilithium_verify lib msg sig pk =
     (if \<not> dil_pk lib pk then None else if \<not> dil_sig lib sig then None else Some (verify_detached lib sig msg pk))"

text \<open>The methods of the crypto manager pass their arguments on.\<close>

definition pq_keypair :: "pq_lib \<Rightarrow> nat \<Rightarrow> bytes \<times> bytes" where
  "pq_keypair lib rnd = kyber_keypair lib rnd"

definition pq_encapsulate :: "pq_lib \<Rightarrow> nat \<Rightarrow> bytes \<Rightarrow> (bytes \<times> bytes) option" where
  "pq_encapsulate lib rnd pk = kyber_encapsulate lib rnd pk"

definition pq_decapsulate :: "pq_lib \<Rightarrow> bytes \<Rightarrow> bytes \<Rightarrow> bytes option" where
  "pq_decapsulate lib ct sk = kyber_decapsulate lib ct sk"

definition pq_sign :: "pq_lib \<Rightarrow> nat \<Rightarrow> bytes \<Rightarrow> bytes \<Rightarrow> bytes option" where
  "pq_sign lib rnd msg sk = dilithium_sign lib rnd msg sk"

definition pq_verify :: "pq_lib \<Rightarrow> bytes \<Rightarrow> bytes \<Rightarrow> bytes \<Rightarrow> bool option" where
  "pq_verify lib msg sig pk = dilithium_verify lib msg sig pk"

lemmas pq_defs =
  kyber_keypair_def kyber_encapsulate_def kyber_decapsulate_def dilithium_keypair_def dilithium_sign_def dilithium_verify_def
  pq_keypair_def pq_encapsulate_def pq_decapsulate_def pq_sign_def pq_verify_def

text \<open>The contract of the two schemes: generated keys are well-formed, decapsulation with the secret key finds the
  encapsulated secret, and signatures verify.\<close>

definition pq_ok :: "pq_lib \<Rightarrow> bool" where
  "pq_ok lib \<longleftrightarrow>
     (\<forall>r pk sk. keypair768 lib r = (pk, sk) \<longrightarrow> kyber_pk lib pk \<and> kyber_sk lib sk \<and>
        (\<forall>r' ss ct. encapsulate768 lib r' pk = (ss, ct) \<longrightarrow> kyber_ct lib ct \<and> decapsulate768 lib ct sk = ss)) \<and>
     (\<forall>r pk sk. keypair_dil lib r = (pk, sk) \<longrightarrow> dil_pk lib pk \<and> dil_sk lib sk \<and>
        (\<forall>r' msg. dil_sig lib (sign_detached lib r' msg sk) \<and> verify_detached lib (sign_detached lib r' msg sk) msg pk))"

text \<open>Key exchange and signatures through the manager: the argument orders of the wrappers and of the crates fit together,
  nothing panics, both sides have the same secret, and a signature verifies.\<close>

lemma pq_exchange:
  assumes "pq_ok lib" "pq_keypair lib r = (pk, sk)"
  shows "\<exists>ct ss. pq_encapsulate lib r' pk = Some (ct, ss) \<and> pq_decapsulate lib ct sk = Some ss"
proof -
  obtain ss ct where e: "encapsulate768 lib r' pk = (ss, ct)" by (rule prod.exhaust)
  have k: "keypair768 lib r = (pk, sk)" using assms(2) by (simp add: pq_defs case_prod_beta)
  from assms(1) k e have "kyber_pk lib pk" "kyber_sk lib sk" "kyber_ct lib ct" "decapsulate768 lib ct sk = ss"
    unfolding pq_ok_def by blast+
  with e show ?thesis by (simp add: pq_defs)
qed

lemma pq_signature:
  assumes "pq_ok lib" "dilithium_keypair lib r = (pk, sk)"
  shows "\<exists>sig. pq_sign lib r' msg sk = Some sig \<and> pq_verify lib msg sig pk = Some True"
proof -
  have k: "keypair_dil lib r = (pk, sk)" using assms(2) by (simp add: pq_defs case_prod_beta)
  from assms(1) k have "dil_pk lib pk" "dil_sk lib sk" "dil_sig lib (sign_detached lib r' msg sk)"
    "verify_detached lib (sign_detached lib r' msg sk) msg pk"
    unfolding pq_ok_def by blast+
  then show ?thesis by (simp add: pq_defs)
qed

end
