(* ===== verification/Round_Progress.thy ===== *)
theory Round_Progress
  imports Application
begin

text \<open>
  Progress of the event loops: without repair packets the sending loop, and with it a round of the client and of the
  server, returns when the QUIC library has finitely much to send and to report.
\<close>

subsection \<open>Sending without repair packets\<close>

lemma encoder_add_ok:
  assumes "pool_ok p" "packet_ok (block_size p) pk" "list_all (packet_ok (block_size p)) (variant_window e)"
    "EncoderVariant_add_source_packet nd pk (e, p) = (e', p')"
  shows "pool_ok p' \<and> block_size p' = block_size p \<and> list_all (packet_ok (block_size p)) (variant_window e')"
  using assms drop_packet_ok
  by (cases e) (auto simp: Encoder_add_source_packet_def Encoder16_add_source_packet_def Let_def split: if_splits list.splits)

lemma feed_ok:
  assumes "pool_ok p" "packet_ok (block_size p) pk" "data pk \<noteq> None" "list_all (packet_ok (block_size p)) (variant_window e)"
  shows "\<exists>e' p'. feed nd pk e p = Some (e', p') \<and> pool_ok p' \<and> block_size p' = block_size p \<and>
           list_all (packet_ok (block_size p)) (variant_window e') \<and> num_repair e' = num_repair e"
proof -
  obtain pk' p1 where c: "clone_for_encoder nd pk p = Some (pk', p1)" "packet_ok (block_size p) pk'" "pool_ok p1"
    "block_size p1 = block_size p"
    using clone_for_encoder_ok[OF assms(1,2)] assms(3) by blast
  obtain e' p' where e: "EncoderVariant_add_source_packet nd pk' (e, p1) = (e', p')" by fastforce
  with c have f: "feed nd pk e p = Some (e', p')" by (simp add: feed_def)
  from feed_params[OF f] encoder_add_ok[OF c(3) _ _ e] c assms(4) f show ?thesis by (simp add: num_repair_def)
qed

lemma on_send_quiet:
  assumes "pool_ok (mem_pool f)" "packet_ok bs pkt" "data pkt \<noteq> None" "bs = block_size (mem_pool f)"
    "transition_encoder f = None" "transition_left f \<le> 16" "num_repair (encoder f) = 0"
    "list_all (packet_ok bs) (variant_window (encoder f))"
  shows "\<exists>f'. on_send g nd pkt f q = Some (f', q @ [pkt]) \<and> pool_ok (mem_pool f') \<and> block_size (mem_pool f') = bs \<and>
           transition_left f' \<le> 16 \<and> num_repair (encoder f') = 0 \<and> list_all (packet_ok bs) (variant_window (encoder f'))"
proof -
  obtain enc p where e: "feed nd pkt (encoder f) (mem_pool f) = Some (enc, p)" "pool_ok p" "block_size p = bs"
    "list_all (packet_ok bs) (variant_window enc)" "num_repair enc = 0"
    using feed_ok[of "mem_pool f" pkt "encoder f" nd] assms by auto
  then have "emit_repairs g nd enc s = Some s" for s by (simp add: emit_repairs_def num_repair_def case_prod_beta Let_def)
  with e assms(5) have s: "on_send g nd pkt f q = Some (fade_step nd p (f\<lparr>transition_encoder := None, encoder := enc\<rparr>), q @ [pkt])"
    by (simp add: on_send_def Let_def)
  show ?thesis
    unfolding s using e assms(6) by (auto simp: fade_step_def CROSS_FADE_LEN_def Let_def)
qed

text \<open>A connection that has nothing queued and sends no repair packets; the packets of the encoder's window are
  well-formed.\<close>

definition idle :: "nat \<Rightarrow> ('c, 'h, 's) QuicFuscateConnection \<Rightarrow> bool" where
  "idle bs c \<longleftrightarrow> outgoing_fec_packets c = [] \<and> xdp_socket c = None \<and> pool_ok (memory_pool (optimization_manager c)) \<and>
     block_size (memory_pool (optimization_manager c)) = bs \<and> transition_left (fec c) \<le> 16 \<and> num_repair (encoder (fec c)) = 0 \<and>
     list_all (packet_ok bs) (variant_window (encoder (fec c)))"

lemma transmit_source:
  assumes "xdp_socket c = None" "packet_ok bs pk" "data pk \<noteq> None" "pool_ok (memory_pool (optimization_manager c))"
    "block_size (memory_pool (optimization_manager c)) = bs"
  shows "\<exists>r buf' p. transmit pf api pk buf c = Some (r, buf', set_pool p c) \<and> pool_ok p \<and> block_size p = bs \<and>
           length buf' = length buf \<and> (\<forall>m. r = Inr m \<longrightarrow> m \<le> length buf)"
proof -
  let ?p = "drop_packet (node pf) pk (memory_pool (optimization_manager c))" and ?n = "length (frame (packet_view pk))"
  have c: "c\<lparr>xdp_socket := None\<rparr> = c" using assms(1) by (cases c) simp
  have p: "pool_ok ?p" "block_size ?p = bs" using drop_packet_ok assms(2,4,5) by auto
  obtain d where d: "data pk = Some d" using assms(3) by auto
  show ?thesis
  proof (cases "length buf < ?n")
    case True
    then have "transmit pf api pk buf c = Some (Inl (Quiche BufferTooShort), buf, set_pool ?p c)"
      using to_raw_short[OF assms(2,3)] assms(1) by (simp add: transmit_def c)
    with p show ?thesis by (intro exI[of _ "Inl (Quiche BufferTooShort)"] exI[of _ buf] exI[of _ ?p]) simp
  next
    case False
    then have "transmit pf api pk buf c = Some (Inr ?n, frame (packet_view pk) @ drop ?n buf, set_pool ?p c)"
      using to_raw_frame[OF assms(2) d, of buf] assms(1) by (simp add: transmit_def c)
    with p False show ?thesis
      by (intro exI[of _ "Inr ?n"] exI[of _ "frame (packet_view pk) @ drop ?n buf"] exI[of _ ?p]) simp
  qed
qed

lemma queue_packet_idle:
  assumes inv: "conn_inv pf c" and idle: "idle bs c"
    and b: "length b = bs" "n \<le> bs" and room: "packet_id_counter c + 1 \<noteq> 0"
  shows "\<exists>c' pk. queue_packet pf b n c = Some (c'\<lparr>outgoing_fec_packets := [pk]\<rparr>) \<and> idle bs c' \<and> conn c' = conn c \<and>
           packet_id_counter c' = packet_id_counter c + 1 \<and> packet_ok bs pk \<and> data pk \<noteq> None"
proof -
  obtain w sm where obf: "process_outgoing_packet (cpu_arch pf) (cpu pf) (sha256 pf) (take n b) (stealth_manager c) = (w, sm)"
    by fastforce
  then have w: "length w = n"
    using length_process_outgoing[of "cpu_arch pf" "cpu pf" "sha256 pf" "take n b" "stealth_manager c"] b by simp
  define pk where "pk = \<lparr>pid = packet_id_counter c, data = Some (w @ drop n b), len = n, is_systematic = True,
    coefficients = None, coeff_len = 0\<rparr>"
  have ok: "packet_ok bs pk" "data pk \<noteq> None" using w b by (simp_all add: pk_def packet_ok_def)
  have pool: "mem_pool (fec c) = memory_pool (optimization_manager c)" using inv by (simp add: conn_inv_def)
  have te: "transition_encoder (fec c) = None"
    using fec_reach_inv[of "fec c"] inv idle by (auto simp: conn_inv_def idle_def fec_inv_def fade_ok_def CROSS_FADE_LEN_def)
  obtain f where f: "on_send (gf pf) (node pf) pk (fec c) [] = Some (f, [pk])" "pool_ok (mem_pool f)" "block_size (mem_pool f) = bs"
    "transition_left f \<le> 16" "num_repair (encoder f) = 0" "list_all (packet_ok bs) (variant_window (encoder f))"
    using on_send_quiet[OF _ ok _ te, of "gf pf" "node pf" "[]"] idle pool by (auto simp: idle_def)
  let ?c = "set_fec f (c\<lparr>stealth_manager := sm, packet_id_counter := packet_id_counter c + 1\<rparr>)"
  have "slice b 0 n = Some (take n b)" "copy_at b 0 n w = Some (w @ drop n b)"
    using b w by (simp_all add: slice_def copy_at_def)
  then have "queue_packet pf b n c = Some (?c\<lparr>outgoing_fec_packets := [pk]\<rparr>)"
    using obf f(1) idle room by (simp add: queue_packet_def checked_inc_def idle_def set_fec_def flip: pk_def)
  moreover have "idle bs ?c" using f idle by (simp add: idle_def)
  ultimately show ?thesis using ok by (intro exI[of _ ?c] exI[of _ pk]) simp
qed

lemma send_idle:
  assumes inv: "conn_inv pf c" and idle: "idle bs c"
    and q: "q_send api (replicate bs 0) (conn c) = (r, b, cn)" "length b = bs" "\<forall>n. r = Inr n \<longrightarrow> n \<le> bs"
    and room: "packet_id_counter c + 1 \<noteq> 0"
  shows "\<exists>r' buf' c'. Connection_send pf api buf c = Some (r', buf', c') \<and> idle bs c' \<and> conn c' = cn \<and>
           length buf' = length buf \<and> unat (packet_id_counter c') \<le> unat (packet_id_counter c) + 1 \<and>
           (\<forall>m. r' = Inr m \<longrightarrow> m \<le> length buf \<and> (m \<noteq> 0 \<longrightarrow> r \<noteq> Inr 0 \<and> (\<exists>n. r = Inr n)))"
proof -
  let ?om = "optimization_manager c"
  obtain p where p: "alloc (node pf) (memory_pool ?om) = Some (replicate bs 0, p)" "pool_ok p" "block_size p = bs"
    using pool.al_ok[of "memory_pool ?om" "node pf"] idle by (auto simp: idle_def)
  let ?c = "set_manager (?om\<lparr>memory_pool := p\<rparr>) (c\<lparr>conn := cn\<rparr>)"
  have c: "idle bs ?c" "conn_inv pf ?c" "packet_id_counter ?c = packet_id_counter c" "conn ?c = cn"
    using p idle inv by (auto simp: idle_def conn_inv_def set_manager_def intro: fec_pool)
  have "idle bs (set_manager (free_block (node pf) b (optimization_manager ?c)) ?c)"
    using pool.fr_ok[OF p(2), of b "node pf"] c(1) p(3) q(2) by (simp add: idle_def free_block_def)
  note released = this
  consider e where "r = Inl e" | "r = Inr 0" | n where "r = Inr n" "0 < n" by (cases r) auto
  then show ?thesis
  proof cases
    case 3
    obtain d pk where d: "queue_packet pf b n ?c = Some (d\<lparr>outgoing_fec_packets := [pk]\<rparr>)" "idle bs d" "conn d = cn"
      "packet_id_counter d = packet_id_counter c + 1" "packet_ok bs pk" "data pk \<noteq> None"
      using queue_packet_idle[OF c(2,1) q(2), of n] q(3) 3 room c(3,4) by auto
    let ?d = "d\<lparr>outgoing_fec_packets := []\<rparr>"
    obtain r' buf' p' where t: "transmit pf api pk buf ?d = Some (r', buf', set_pool p' ?d)" "pool_ok p'" "block_size p' = bs"
      "length buf' = length buf" "\<forall>m. r' = Inr m \<longrightarrow> m \<le> length buf"
      using transmit_source[of ?d bs pk pf api buf] d by (auto simp: idle_def)
    have "Connection_send pf api buf c = Some (r', buf', set_pool p' ?d)"
      using idle p(1) q(1) 3 d(1) t(1) by (simp add: Connection_send_def idle_def alloc_block_def Let_def)
    moreover have "idle bs (set_pool p' ?d)" using d(2) t(2,3) by (simp add: idle_def)
    moreover have "unat (packet_id_counter c + 1) \<le> unat (packet_id_counter c) + 1" 
      using mod_less_eq_dividend[of "unat (packet_id_counter c) + 1" "2 ^ 64"] by (simp add: unat_word_ariths)
    ultimately show ?thesis
      using t(4,5) d(3,4) 3 by (intro exI[of _ r'] exI[of _ buf'] exI[of _ "set_pool p' ?d"]) simp
  qed (use idle p(1) q(1) released c(3,4) in \<open>simp_all add: Connection_send_def idle_def alloc_block_def Let_def\<close>)
qed

subsection \<open>The sending loop\<close>

text \<open>The QUIC library fills at most the buffer it is given, and a measure of what it has to send falls with every
  packet.\<close>

definition sends_end :: "('c, 'h, 's) api \<Rightarrow> nat \<Rightarrow> ('c \<Rightarrow> nat) \<Rightarrow> bool" where
  "sends_end api bs \<mu> \<longleftrightarrow>
     (\<forall>cn r b cn'. q_send api (replicate bs 0) cn = (r, b, cn') \<longrightarrow>
        length b = bs \<and> (\<forall>n. r = Inr n \<longrightarrow> n \<le> bs \<and> (n \<noteq> 0 \<longrightarrow> \<mu> cn' < \<mu> cn)))"

lemma send_loop_idle:
  assumes "sends_end api bs \<mu>" "conn_inv pf c" "idle bs c" "unat (packet_id_counter c) + \<mu> (conn c) + 1 < 2 ^ 64"
  shows "\<exists>ds out' c'. send_loop pf api out c = Some (ds, out', c') \<and> idle bs c' \<and> length ds \<le> \<mu> (conn c) \<and>
           list_all (\<lambda>d. d \<noteq> [] \<and> length d \<le> length out) ds \<and> length out' = length out"
  using assms(2-4)
proof (induction "\<mu> (conn c)" arbitrary: c out rule: less_induct)
  case less
  obtain r b cn where q: "q_send api (replicate bs 0) (conn c) = (r, b, cn)" by (rule prod_cases3)
  have contract: "length b = bs" "\<forall>n. r = Inr n \<longrightarrow> n \<le> bs" "\<And>n. r = Inr n \<Longrightarrow> n \<noteq> 0 \<Longrightarrow> \<mu> cn < \<mu> (conn c)"
    using assms(1) q unfolding sends_end_def by blast+
  have "packet_id_counter c + 1 \<noteq> 0"
    using less.prems(3) unat_eq_zero[of "packet_id_counter c + 1"] by (auto simp: unat_word_ariths)
  from send_idle[OF less.prems(1,2) q contract(1,2) this, of out]
  obtain r' out1 c1 where s: "Connection_send pf api out c = Some (r', out1, c1)" "idle bs c1" "conn c1 = cn" "length out1 = length out"
    "unat (packet_id_counter c1) \<le> unat (packet_id_counter c) + 1"
    "\<forall>m. r' = Inr m \<longrightarrow> m \<le> length out \<and> (m \<noteq> 0 \<longrightarrow> r \<noteq> Inr 0 \<and> (\<exists>n. r = Inr n))"
    by (elim exE conjE) (rule that)
  consider "\<exists>e. r' = Inl e" | "r' = Inr 0" | m where "r' = Inr m" "m \<noteq> 0" by (cases r') auto
  then show ?case
  proof cases
    case 3
    then have mu: "\<mu> (conn c1) < \<mu> (conn c)" using s(3,6) contract(3) by auto
    from less.hyps[OF mu send_inv[OF less.prems(1) s(1)] s(2), of out1] less.prems(3) s(5) mu
    obtain ds out2 c2 where l: "send_loop pf api out1 c1 = Some (ds, out2, c2)" "idle bs c2" "length ds \<le> \<mu> (conn c1)"
      "list_all (\<lambda>d. d \<noteq> [] \<and> length d \<le> length out1) ds" "length out2 = length out1" by auto
    have "slice out1 0 m = Some (take m out1)" "take m out1 \<noteq> []" using s(4,6) 3 by (auto simp: slice_def)
    with l s 3 mu show ?thesis by (subst send_loop.simps) (auto simp: slice_def)
  qed (use s in \<open>subst send_loop.simps, auto\<close>)+
qed

subsection \<open>Rounds\<close>

text \<open>A QUIC library that makes progress: what it has to send, its HTTP/3 events and bodies and its path events are finite,
  and it counts no more packets as lost than as sent.\<close>

definition quic_progress :: "('c, 'h, 's) api \<Rightarrow> nat \<Rightarrow> ('c \<Rightarrow> nat) \<Rightarrow> ('h \<times> 'c \<Rightarrow> nat) \<Rightarrow> ('c \<Rightarrow> nat) \<Rightarrow> bool" where
  "quic_progress api bs \<mu> \<nu> \<kappa> \<longleftrightarrow> sends_end api bs \<mu> \<and>
     (\<forall>s x s'. h3_poll api s = (Inr x, s') \<longrightarrow> \<nu> s' < \<nu> s) \<and>
     (\<forall>sid s d s'. h3_recv_body api sid 4096 s = (Inr d, s') \<longrightarrow> \<nu> s' < \<nu> s) \<and>
     (\<forall>sid s e s'. h3_recv_body api sid 4096 s = (Inl e, s') \<longrightarrow> \<nu> s' \<le> \<nu> s) \<and>
     (\<forall>cn e cn'. q_path_event_next api cn = (Some e, cn') \<longrightarrow> \<kappa> cn' < \<kappa> cn) \<and>
     (\<forall>cn. st_lost (q_stats api cn) \<le> st_sent (q_stats api cn))"

definition quiet :: "nat \<Rightarrow> ('c, 'h, 's) QuicFuscateConnection \<Rightarrow> bool" where
  "quiet bs c \<longleftrightarrow> idle bs c \<and> AdaptiveFec_current_mode (fec c) \<noteq> Extreme \<and> current_window (mode_mgr (fec c)) = 0"

lemma idle_update [simp]:
  "idle bs (c\<lparr>conn := cn\<rparr>) = idle bs c" "idle bs (c\<lparr>h3_conn := h\<rparr>) = idle bs c"
  by (simp_all add: idle_def)

lemma request_idle:
  "idle bs (snd (send_http3_request api path c)) = idle bs c"
  "packet_id_counter (snd (send_http3_request api path c)) = packet_id_counter c"
  by (auto simp: send_http3_request_def init_http3_def Let_def split: option.splits sum.splits prod.splits)

lemma poll_idle:
  assumes "quic_progress api bs \<mu> \<nu> \<kappa>"
  shows "\<exists>r c'. poll_http3 api c = Some (r, c') \<and> idle bs c' = idle bs c \<and> packet_id_counter c' = packet_id_counter c"
proof (cases "h3_conn c")
  case (Some h)
  obtain r s where "poll_events api (h, conn c) = Some (r, s)"
    using poll_events_returns[of api \<nu> "(h, conn c)"] assms unfolding quic_progress_def by blast
  with Some show ?thesis by (cases s) (simp add: poll_http3_def)
qed (simp add: poll_http3_def)

lemma recv_quiet:
  assumes "conn_inv pf c" "quiet bs c"
  shows "\<exists>r c'. Connection_recv pf api dat c = Some (r, c') \<and> idle bs c' \<and> packet_id_counter c' = packet_id_counter c"
  using recv_k_0[OF assms(1), of api dat] assms(2) by (fastforce simp: quiet_def idle_def)

lemma finish_round_idle:
  assumes "quic_progress api bs \<mu> \<nu> \<kappa>" "conn_reach pf api c" "idle bs c" "unat (packet_id_counter c) + \<mu> (conn c) + 1 < 2 ^ 64"
  shows "\<exists>ds out' c'. finish_round pf api clk now out c = Some (ds, out', c') \<and> length ds \<le> \<mu> (conn c) \<and>
           list_all (\<lambda>d. d \<noteq> [] \<and> length d \<le> length out) ds \<and> length out' = length out"
proof -
  obtain ds out' c1 where l: "send_loop pf api out c = Some (ds, out', c1)" "length ds \<le> \<mu> (conn c)"
    "list_all (\<lambda>d. d \<noteq> [] \<and> length d \<le> length out) ds" "length out' = length out"
    using send_loop_idle[of api bs \<mu> pf c out] conn_reach_inv[OF assms(2)] assms(1,3,4) unfolding quic_progress_def by blast
  have "conn_inv pf c1" using conn_reach_inv[OF send_loop_reach[OF l(1) assms(2)]] by simp
  then have "fec_inv (fec c1)" using fec_reach_inv by (auto simp: conn_inv_def)
  moreover have stats: "st_lost (q_stats api (conn c1)) \<le> st_sent (q_stats api (conn c1))"
    using assms(1) by (simp add: quic_progress_def)
  ultimately obtain f where
    f: "AdaptiveFec_report_loss (node pf) clk (st_lost (q_stats api (conn c1))) (st_sent (q_stats api (conn c1))) (fec c1) = Some f"
    using report_loss_inv[of "fec c1"] by blast
  have "\<exists>c'. path_events api d = Some c'" for d
    using path_events_returns[of api \<kappa>] assms(1) unfolding quic_progress_def by blast
  then have "\<exists>c2. update_state pf api clk now c1 = Some c2" by (simp add: update_state_def Let_def f)
  with l show ?thesis by (auto simp: finish_round_def)
qed

text \<open>A freshly accepted connection in the zero mode is quiet.\<close>

definition quiet_settings :: "platform \<Rightarrow> nat \<Rightarrow> settings \<Rightarrow> bool" where
  "quiet_settings pf bs st \<longleftrightarrow> config_ok (srv_fec st) \<and> initial_mode (srv_fec st) = Zero \<and>
     window_or_default (cfg_window_sizes (srv_fec st)) Zero = 0 \<and> cfg_block_size (srv_optimize st) = bs \<and>
     0 < numa_nodes pf \<and> \<not> (cfg_enable_xdp (srv_optimize st) \<and> xdp_supported pf)"

lemma fresh_quiet:
  fixes api :: "('c, 'h, 's) api"
  assumes "quiet_settings pf bs st" "\<And>scid odcid l p calls. \<exists>cn. q_accept api scid odcid l p calls = Inr cn"
  shows "\<exists>c g. new_server pf api now scid odcid local remote config sc (srv_fec st) (srv_optimize st) = Some (Inr (c, g)) \<and>
           quiet bs c \<and> packet_id_counter c = 0"
proof -
  let ?om = "manager_from_cfg (numa_nodes pf) (xdp_supported pf) (srv_optimize st)"
  have om: "\<not> xdp_on ?om" "memory_pool ?om = pool_new (numa_nodes pf) (cfg_pool_capacity (srv_optimize st)) bs"
    using assms(1) by (auto simp: quiet_settings_def manager_from_cfg_def manager_new_with_config_def xdp_on_def)
  have q: "quiet bs (fst (Connection_new pf now cn l p host sm ?om None (srv_fec st)) :: ('c, 'h, 's) QuicFuscateConnection)"
    for cn l p host sm
    using assms(1) om(2) num_repair_Zero pool_ok_new[of "numa_nodes pf"]
    by (auto simp: quiet_settings_def quiet_def idle_def Connection_new_def AdaptiveFec_new_def ModeManager_new_def Let_def
        case_prod_beta AdaptiveFec_current_mode_def EncoderVariant_new_def Encoder_new_def params_for_def)
  obtain sm where sm: "StealthManager_new (chlo_files pf) (rng pf) sc = Some sm"
    using StealthManager_new_Some[of "chlo_files pf" "rng pf" sc] by blast
  obtain cn where cn: "q_accept api scid odcid local remote (config @ [SetCcBbr2, EnableMtuProbing]) = Inr cn"
    using assms(2) by blast
  obtain c :: "('c, 'h, 's) QuicFuscateConnection" and g where c: "Connection_new pf now cn local remote [] sm ?om None (srv_fec st) = (c, g)" by (rule prod.exhaust)
  have "new_server pf api now scid odcid local remote config sc (srv_fec st) (srv_optimize st) = Some (Inr (c, g))"
    using sm cn om(1) c by (simp add: new_server_def finish_def Let_def)
  moreover have "quiet bs c" using q[of cn local remote "[]" sm] c by simp
  moreover have "packet_id_counter c = 0" using c by (auto simp: Connection_new_def Let_def case_prod_beta)
  ultimately show ?thesis by blast
qed

lemma serve_all_idle:
  assumes "quic_progress api bs \<mu> \<nu> \<kappa>" "\<And>cn. \<mu> cn \<le> n"
  shows "list_all (\<lambda>(a, c). conn_reach pf api c \<and> idle bs c \<and> unat (packet_id_counter c) + n + 1 < 2 ^ 64) cs \<Longrightarrow>
     \<exists>ds cs' out'. serve_all pf api ts cs out = Some (ds, cs', out') \<and> length ds \<le> n * length cs"
proof (induction cs arbitrary: out)
  case (Cons e cs)
  obtain a c where e: "e = (a, c)" by (rule prod.exhaust)
  have c: "conn_reach pf api c" "idle bs c" "unat (packet_id_counter c) + \<mu> (conn c) + 1 < 2 ^ 64"
    using Cons.prems assms(2)[of "conn c"] by (auto simp: e)
  obtain ds out1 c1 where f: "finish_round pf api (fst (ts a)) (snd (ts a)) out c = Some (ds, out1, c1)" "length ds \<le> n"
    using finish_round_idle[OF assms(1) c] assms(2) by (meson order_trans)
  obtain ds2 cs2 out2 where "serve_all pf api ts cs out1 = Some (ds2, cs2, out2)" "length ds2 \<le> n * length cs"
    using Cons.IH[of out1] Cons.prems by (simp add: e) blast
  with f e show ?case by simp
qed simp

lemma server_receive_idle:
  assumes "quic_progress api bs \<mu> \<nu> \<kappa>" "quiet_settings pf bs st"
    "\<And>scid odcid l p calls. \<exists>cn. q_accept api scid odcid l p calls = Inr cn"
    and cs: "list_all (\<lambda>(a, c). conn_reach pf api c \<and> quiet bs c \<and> unat (packet_id_counter c) < m) cs" "0 < m"
  shows "\<exists>r cs'. server_receive pf api st now dat a cs = Some (r, cs') \<and> length cs' \<le> Suc (length cs) \<and>
           list_all (\<lambda>(a, c). conn_reach pf api c \<and> idle bs c \<and> unat (packet_id_counter c) < m) cs'"
proof -
  have ok: "config_ok (srv_fec st)" using assms(2) by (simp add: quiet_settings_def)
  obtain c where c: "client_for pf api st now a cs = Some c" "conn_reach pf api c" "quiet bs c" "unat (packet_id_counter c) < m"
  proof (cases "map_of cs a")
    case None
    obtain c g where n: "new_server pf api now (replicate 20 0) None (srv_local st) a (srv_config st) (srv_stealth st)
      (srv_fec st) (srv_optimize st) = Some (Inr (c, g))" "quiet bs c" "packet_id_counter c = 0"
      using fresh_quiet[OF assms(2,3)] by blast
    with None cs(2) reach_server[OF ok n(1)] show ?thesis by (intro that[of c]) (auto simp: client_for_def)
  next
    case (Some c)
    then have "(a, c) \<in> set cs" by (rule map_of_SomeD)
    with Some cs(1) show ?thesis by (intro that[of c]) (auto simp: client_for_def list_all_iff)
  qed
  obtain r c1 where r: "Connection_recv pf api dat c = Some (r, c1)" "idle bs c1" "packet_id_counter c1 = packet_id_counter c"
    using recv_quiet[OF conn_reach_inv[OF c(2)] c(3)] by blast
  obtain r' c2 where p: "poll_http3 api c1 = Some (r', c2)" "idle bs c2" "packet_id_counter c2 = packet_id_counter c"
    using poll_idle[OF assms(1), of c1] r(2,3) by auto
  have reach: "conn_reach pf api c1" "conn_reach pf api c2" using reach_recv[OF c(2) r(1)] reach_poll p(1) by blast+
  have put: "list_all (\<lambda>(a, c). conn_reach pf api c \<and> idle bs c \<and> unat (packet_id_counter c) < m) (put_client a d cs)"
    "length (put_client a d cs) \<le> Suc (length cs)" if "conn_reach pf api d" "idle bs d" "packet_id_counter d = packet_id_counter c" for d
    using cs(1) that c(4) by (auto simp: put_client_def list_all_iff quiet_def)
  show ?thesis
    using c(1) r(1) p(1) put[OF reach(1) r(2,3)] put[OF reach(2) p(2,3)] by (cases r) (auto simp: server_receive_def)
qed

text \<open>The sample library makes progress: it has at most three packets to send.\<close>

lemma sample_progress: "quic_progress sample_api 8 (\<lambda>n. 3 - n) fst id"
  by (auto simp: quic_progress_def sends_end_def sample_api_def case_prod_beta split: if_splits)

lemma sample_accepts: "\<exists>cn. q_accept sample_api scid odcid l p calls = Inr cn"
  by (simp add: sample_api_def)

definition sample_settings :: settings where
  "sample_settings = \<lparr>srv_local = sample_addr, srv_config = [], srv_stealth = StealthConfig_default, srv_fec = FecConfig_default,
     srv_optimize = sample_optimize\<rparr>"

lemma sample_settings_quiet: "quiet_settings sample_platform 8 sample_settings"
  using config_ok_default
  by (simp add: quiet_settings_def sample_settings_def sample_platform_def sample_optimize_def FecConfig_default_def
      window_or_default_def default_windows_def)

lemma sample_quiet:
  obtains c where "conn_reach sample_platform sample_api c" "quiet 8 c" "packet_id_counter c = 0"
proof -
  obtain c g where c: "new_server sample_platform sample_api 0 [] None sample_addr sample_addr [] StealthConfig_default
      (srv_fec sample_settings) (srv_optimize sample_settings) = Some (Inr (c, g))" "quiet 8 c" "packet_id_counter c = 0"
    using fresh_quiet[OF sample_settings_quiet sample_accepts] by blast
  moreover have "config_ok (srv_fec sample_settings)" using sample_settings_quiet by (simp add: quiet_settings_def)
  ultimately show thesis using reach_server that by blast
qed

text \<open>C14: a round of the client returns. For a client whose connection sends no repair packets and has an empty
  window (the default mode), whatever arrived, when the QUIC library makes progress and packet numbers do not run out: no
  step panics, the sending loop ends, and at most as many datagrams go out as the library has packets, none of
  them empty or longer than the buffer.\<close>

theorem client_round_returns:
  assumes "conn_reach pf api (cl_conn s)" "quiet bs (cl_conn s)" "quic_progress api bs \<mu> \<nu> \<kappa>" "\<And>cn. \<mu> cn \<le> n"
    "unat (packet_id_counter (cl_conn s)) + n + 1 < 2 ^ 64"
  shows "\<exists>ds s'. client_round pf api path clk now input s = Some (ds, s') \<and> length ds \<le> n \<and>
           list_all (\<lambda>d. d \<noteq> [] \<and> length d \<le> length (cl_out s)) ds"
proof (cases "input = ReadError")
  case False
  let ?recv = "case input of Datagram dat \<Rightarrow> map_option snd (Connection_recv pf api dat (cl_conn s)) | _ \<Rightarrow> Some (cl_conn s)"
  obtain c where c: "?recv = Some c" "idle bs c" "packet_id_counter c = packet_id_counter (cl_conn s)" "conn_reach pf api c"
    using recv_quiet[OF conn_reach_inv[OF assms(1)] assms(2), of api] reach_recv[OF assms(1)] assms(1,2) False
    by (cases input) (fastforce simp: quiet_def)+
  define c1 where "c1 = (if q_is_established api (conn c) \<and> \<not> request_sent s then snd (send_http3_request api path c) else c)"
  have c1: "idle bs c1" "packet_id_counter c1 = packet_id_counter (cl_conn s)" "conn_reach pf api c1"
    using c by (simp_all add: c1_def request_idle reach_request)
  obtain r c2 where c2: "poll_http3 api c1 = Some (r, c2)" "idle bs c2" "packet_id_counter c2 = packet_id_counter (cl_conn s)"
    using poll_idle[OF assms(3), of c1] c1 by auto
  have reach: "conn_reach pf api c2" using reach_poll[OF c1(3) c2(1)] .
  have n: "unat (packet_id_counter c2) + \<mu> (conn c2) + 1 < 2 ^ 64" "\<mu> (conn c2) \<le> n" using assms(4)[of "conn c2"] assms(5) c2(3) by simp_all
  obtain ds out c3 where "finish_round pf api clk now (cl_out s) c2 = Some (ds, out, c3)" "length ds \<le> n"
    "list_all (\<lambda>d. d \<noteq> [] \<and> length d \<le> length (cl_out s)) ds"
    using finish_round_idle[OF assms(3) reach c2(2) n(1)] n(2) by (meson order_trans)
  with False c(1) c2(1) show ?thesis
    by (auto simp: client_round_def c1_def Let_def case_prod_beta split: if_splits)
qed (simp add: client_round_def)

theorem client_round_returns_witness:
  "\<exists>s ds s'. client_round sample_platform sample_api ''/'' \<lparr>t_elapsed = 1, t_pid = 1, t_change = 1\<rparr> 5 (Datagram [1, 2, 3]) s = Some (ds, s') \<and> length ds \<le> 3"
proof -
  obtain c where c: "conn_reach sample_platform sample_api c" "quiet 8 c" "packet_id_counter c = 0" by (rule sample_quiet)
  let ?s = "\<lparr>cl_conn = c, request_sent = False, cl_out = replicate 9 0\<rparr>"
  have "\<exists>ds s'. client_round sample_platform sample_api ''/'' \<lparr>t_elapsed = 1, t_pid = 1, t_change = 1\<rparr> 5 (Datagram [1, 2, 3]) ?s = Some (ds, s') \<and> length ds \<le> 3 \<and>
      list_all (\<lambda>d. d \<noteq> [] \<and> length d \<le> length (cl_out ?s)) ds"
    using c by (intro client_round_returns[OF _ _ sample_progress]) simp_all
  then show ?thesis by blast
qed

text \<open>C13: a round of the server returns. With the default mode for new connections, a table of quiet connections, a
  QUIC library that makes progress and accepts connections, and packet numbers that do not run out, the round does not
  panic or hang, whatever datagram arrived; it sends at most \<open>n\<close> times as many datagrams as there are clients
  (with the one that the round may add) when the library never has more than \<open>n\<close> packets to send.\<close>

theorem server_round_returns:
  assumes "quic_progress api bs \<mu> \<nu> \<kappa>" "\<And>cn. \<mu> cn \<le> n" "quiet_settings pf bs st"
    "\<And>scid odcid l p calls. \<exists>cn. q_accept api scid odcid l p calls = Inr cn"
    "list_all (\<lambda>(a, c). conn_reach pf api c \<and> quiet bs c \<and> unat (packet_id_counter c) + n + 1 < 2 ^ 64) cs" "n + 1 < 2 ^ 64"
  shows "\<exists>ds cs' out'. server_round pf api st ts now input (cs, out) = Some (ds, cs', out') \<and>
           length ds \<le> n * Suc (length cs)"
proof -
  let ?ok = "\<lambda>cs. list_all (\<lambda>(a, c). conn_reach pf api c \<and> idle bs c \<and> unat (packet_id_counter c) + n + 1 < 2 ^ 64) cs"
  obtain r cs1 where r: "(case input of None \<Rightarrow> Some (True, cs) | Some (dat, a) \<Rightarrow> server_receive pf api st now dat a cs) = Some (r, cs1)"
    "?ok cs1" "length cs1 \<le> Suc (length cs)"
  proof (cases input)
    case None
    with assms(5) show ?thesis by (intro that[of True cs]) (auto simp: list_all_iff quiet_def)
  next
    case (Some x)
    obtain dat a where x: "x = (dat, a)" by (rule prod.exhaust)
    have "list_all (\<lambda>(a, c). conn_reach pf api c \<and> quiet bs c \<and> unat (packet_id_counter c) < 2 ^ 64 - (n + 1)) cs"
      using assms(5) by (auto simp: list_all_iff)
    moreover have "0 < 2 ^ 64 - (n + 1)" using assms(6) by simp
    ultimately obtain r cs1 where "server_receive pf api st now dat a cs = Some (r, cs1)" "length cs1 \<le> Suc (length cs)"
      "list_all (\<lambda>(a, c). conn_reach pf api c \<and> idle bs c \<and> unat (packet_id_counter c) < 2 ^ 64 - (n + 1)) cs1"
      using server_receive_idle[OF assms(1,3,4), of "2 ^ 64 - (n + 1)" cs now dat a] by blast
    then show ?thesis by (intro that[of r cs1]) (auto simp: Some x list_all_iff)
  qed
  obtain ds cs2 out2 where s: "serve_all pf api ts cs1 out = Some (ds, cs2, out2)" "length ds \<le> n * length cs1"
    using serve_all_idle[OF assms(1,2) r(2)] by blast
  have "n * length cs1 \<le> n * Suc (length cs)" using r(3) by (rule mult_le_mono2)
  with r(1) s show ?thesis by (cases r) (simp_all add: server_round_def)
qed

theorem server_round_returns_witness:
  "\<exists>c ds cs out. server_round sample_platform sample_api sample_settings (\<lambda>_. (\<lparr>t_elapsed = 1, t_pid = 1, t_change = 1\<rparr>, 5)) 5 (Some ([1, 2, 3], sample_addr))
     ([(sample_addr, c)], replicate 9 0) = Some (ds, cs, out) \<and> length ds \<le> 6"
proof -
  obtain c where c: "conn_reach sample_platform sample_api c" "quiet 8 c" "packet_id_counter c = 0" by (rule sample_quiet)
  have "\<exists>ds cs out. server_round sample_platform sample_api sample_settings (\<lambda>_. (\<lparr>t_elapsed = 1, t_pid = 1, t_change = 1\<rparr>, 5)) 5
      (Some ([1, 2, 3], sample_addr)) ([(sample_addr, c)], replicate 9 0) = Some (ds, cs, out) \<and>
      length ds \<le> 3 * Suc (length [(sample_addr, c)])"
    using c by (intro server_round_returns[OF sample_progress _ sample_settings_quiet sample_accepts]) simp_all
  then show ?thesis by (simp only: list.size(3,4)) fastforce
qed

end
