(* ===== verification/Startup.thy ===== *)
theory Startup
  imports Round_Progress
begin

text \<open>
  The start of client and server and the server as a state machine (\<open>run_client\<close>, \<open>run_server\<close> of \<open>src/src/main.rs\<close>): from
  the command line and the files to the connection or the settings the event loop works with, and the
  sequences of rounds, profile changes and the shutdown that follow.

  What the program asks of its surroundings is the record \<open>world\<close>: name resolution, sockets, files, the URL parser and
  whether quiche accepts a configuration or a key file. A failing \<open>unwrap\<close> or \<open>expect\<close> is \<open>None\<close>; an \<open>io::Error\<close>
  that ends the program is a text.
\<close>

subsection \<open>The QUIC configuration\<close>

definition alpn :: bytes where
  "alpn = concat (map (\<lambda>s. of_nat (length s) # map of_char s) [''hq-interop'', ''h3-29'', ''h3-28'', ''h3-27'', ''http/0.9''])"

definition transport_calls :: "config_call list" where
  "transport_calls =
     [SetProtos alpn, SetMaxIdleTimeout 30000, SetMaxRecvUdpPayloadSize 1460, SetMaxSendUdpPayloadSize 1200,
      SetInitialMaxData 10000000, SetInitialMaxStreamDataBidiLocal 1000000, SetInitialMaxStreamDataBidiRemote 1000000,
      SetInitialMaxStreamsBidi 100, SetInitialMaxStreamsUni 100]"

record 'e world =
  resolve :: "string \<Rightarrow> string + SocketAddr list"
  connect_udp :: "SocketAddr \<Rightarrow> SocketAddr \<Rightarrow> string + unit"
  bind_udp :: "string \<Rightarrow> string + SocketAddr"
  read_file :: "string \<Rightarrow> 'e + string"
  file_parsers :: "'e parsers"
  parse_url :: "string \<Rightarrow> (string option \<times> string) option"
  profile_dir :: "string list option"
  config_new_ok :: bool
  protos_ok :: "bytes \<Rightarrow> bool"
  cert_ok :: "string \<Rightarrow> bool"
  key_ok :: "string \<Rightarrow> bool"

text \<open>The client's options beyond those it shares with the server.\<close>

record ClientArgs =
  arg_remote :: string
  arg_local :: string
  arg_url :: string
  arg_verify_peer :: bool
  arg_debug_tls :: bool
  arg_ca_file :: "string option"
  arg_list_fingerprints :: bool

text \<open>A CA file that cannot be loaded is only reported.\<close>

definition client_config :: "'e world \<Rightarrow> ClientArgs \<Rightarrow> config_call list option" where
  "client_config w args =
     (if \<not> config_new_ok w \<or> \<not> protos_ok w alpn then None
      else Some (transport_calls @ [VerifyPeer (arg_verify_peer args)] @ (if arg_debug_tls args then [LogKeys] else []) @
                 (case arg_ca_file args of None \<Rightarrow> [] | Some path \<Rightarrow> [LoadVerifyLocations path])))"

definition server_config :: "'e world \<Rightarrow> string \<Rightarrow> string \<Rightarrow> config_call list option" where
  "server_config w cert key =
     (if \<not> config_new_ok w \<or> \<not> cert_ok w cert \<or> \<not> key_ok w key \<or> \<not> protos_ok w alpn then None
      else Some ([LoadCertChain cert, LoadPrivKey key] @ transport_calls))"

subsection \<open>Starting the client\<close>

definition resolve_first :: "'e world \<Rightarrow> string \<Rightarrow> string \<Rightarrow> string + SocketAddr" where
  "resolve_first w missing name =
     (case resolve w name of
        Inl e \<Rightarrow> Inl e
      | Inr [] \<Rightarrow> Inl missing
      | Inr (a # _) \<Rightarrow> Inr a)"

definition fingerprint_listing :: "'e world \<Rightarrow> string list" where
  "fingerprint_listing w =
     ''Available browser fingerprints:'' #
     map (\<lambda>(b, o'). ''- '' @ browser_name b @ ''@'' @ os_name o') (available_profiles (profile_dir w))"

definition client_addresses :: "'e world \<Rightarrow> ClientArgs \<Rightarrow> string + SocketAddr \<times> SocketAddr" where
  "client_addresses w args =
     (case resolve_first w ''Server address not found'' (arg_remote args) of
        Inl e \<Rightarrow> Inl e
      | Inr remote \<Rightarrow>
          (case resolve_first w ''Local address invalid'' (arg_local args) of
             Inl e \<Rightarrow> Inl e
           | Inr local \<Rightarrow> (case connect_udp w local remote of Inl e \<Rightarrow> Inl e | Inr _ \<Rightarrow> Inr (local, remote))))"

datatype ('c, 'h, 's) client_outcome =
    Listed "string list"
  | ClientFailed string
  | ClientStarted "('c, 'h, 's) QuicFuscateConnection" string "FingerprintProfile list" bool

definition run_client ::
  "platform \<Rightarrow> ('c, 'h, 's) api \<Rightarrow> 'e world \<Rightarrow> Cli \<Rightarrow> ClientArgs \<Rightarrow> nat \<Rightarrow> ffi \<Rightarrow> (('c, 'h, 's) client_outcome \<times> ffi) option" where
  "run_client pf api w cli args now hooks =
     (if arg_list_fingerprints args then Some (Listed (fingerprint_listing w), hooks)
      else case client_addresses w args of
             Inl e \<Rightarrow> Some (ClientFailed e, hooks)
           | Inr (local, remote) \<Rightarrow> do {
               let (f, sc, oc) = load_settings (file_parsers w) (read_file w) cli;
               config \<leftarrow> client_config w args;
               (h, path) \<leftarrow> (case parse_url w (arg_url args) of Some u \<Rightarrow> Some u | None \<Rightarrow> parse_url w ''https://example.com/'');
               let host = unwrap_or h ''example.com'';
               (r, hooks) \<leftarrow> new_client pf api now host local remote config (apply_cli cli sc) f (opt_params cli oc)
                              (\<not> cli_no_utls cli) hooks;
               case r of
                 Inl e \<Rightarrow> None
               | Inr (c, _) \<Rightarrow> do {
                   profiles \<leftarrow> select_profiles (chlo_files pf) cli;
                   Some (case check_profiles cli profiles of
                           Inl e \<Rightarrow> ClientFailed e
                         | Inr rot \<Rightarrow> ClientStarted c path profiles rot, hooks) } })"

subsection \<open>Starting the server\<close>

record ('c, 'h, 's) Server =
  sv_settings :: settings
  sv_profiles :: "FingerprintProfile list"
  sv_rotating :: bool
  sv_index :: nat
  sv_clients :: "('c, 'h, 's) clients"
  sv_out :: bytes

definition run_server ::
  "platform \<Rightarrow> 'e world \<Rightarrow> Cli \<Rightarrow> string \<Rightarrow> string \<Rightarrow> string \<Rightarrow> (string + ('c, 'h, 's) Server) option" where
  "run_server pf w cli listen cert key =
     (case bind_udp w listen of
        Inl e \<Rightarrow> Some (Inl e)
      | Inr local \<Rightarrow> do {
          let (f, sc, oc) = load_settings (file_parsers w) (read_file w) cli;
          config \<leftarrow> server_config w cert key;
          let st = \<lparr>srv_local = local, srv_config = config, srv_stealth = apply_cli cli sc, srv_fec = f,
                    srv_optimize = opt_params cli oc\<rparr>;
          profiles \<leftarrow> select_profiles (chlo_files pf) cli;
          Some (case check_profiles cli profiles of
                  Inl e \<Rightarrow> Inl e
                | Inr rot \<Rightarrow> Inr \<lparr>sv_settings = st, sv_profiles = profiles, sv_rotating = rot, sv_index = 0,
                                     sv_clients = [], sv_out = replicate 1460 0\<rparr>) })"

text \<open>What can happen to a running server: a round of the loop, and a tick of the rotation task, when it runs.\<close>

datatype server_event = Round "SocketAddr \<Rightarrow> clock \<times> nat" nat "(bytes \<times> SocketAddr) option" | Tick

definition server_step ::
  "platform \<Rightarrow> ('c, 'h, 's) api \<Rightarrow> server_event \<Rightarrow> (SocketAddr \<times> bytes) list \<times> ('c, 'h, 's) Server \<Rightarrow>
   ((SocketAddr \<times> bytes) list \<times> ('c, 'h, 's) Server) option" where
  "server_step pf api ev x =
     (case x of (sent, s) \<Rightarrow>
        (case ev of
           Round ts now input \<Rightarrow> do {
             (ds, cs, out) \<leftarrow> server_round pf api (sv_settings s) ts now input (sv_clients s, sv_out s);
             Some (sent @ ds, s\<lparr>sv_clients := cs, sv_out := out\<rparr>) }
         | Tick \<Rightarrow>
             if \<not> sv_rotating s then Some (sent, s)
             else do {
               (i, sc) \<leftarrow> rotate_settings (sv_profiles s) (sv_index s, srv_stealth (sv_settings s));
               Some (sent, s\<lparr>sv_index := i, sv_settings := (sv_settings s)\<lparr>srv_stealth := sc\<rparr>\<rparr>) }))"

definition server_run ::
  "platform \<Rightarrow> ('c, 'h, 's) api \<Rightarrow> server_event list \<Rightarrow> ('c, 'h, 's) Server \<Rightarrow>
   ((SocketAddr \<times> bytes) list \<times> ('c, 'h, 's) Server) option" where
  "server_run pf api evs s = ofold (server_step pf api) evs ([], s)"

definition server_shutdown :: "('c, 'h, 's) api \<Rightarrow> ('c, 'h, 's) Server \<Rightarrow> ('c, 'h, 's) Server" where
  "server_shutdown api s = s\<lparr>sv_clients := shutdown api (sv_clients s)\<rparr>"

subsection \<open>The server over any sequence of events\<close>

definition senders :: "server_event list \<Rightarrow> SocketAddr set" where
  "senders evs = {a. \<exists>ts now dat. Round ts now (Some (dat, a)) \<in> set evs}"

lemma senders_simps [simp]:
  "senders [] = {}" "senders (Tick # evs) = senders evs"
  "senders (Round ts now input # evs) = (case input of None \<Rightarrow> {} | Some (dat, a) \<Rightarrow> {a}) \<union> senders evs"
  by (auto simp: senders_def split: option.splits)

text \<open>The settings are those of the start, up to the browser and the system that new connections imitate.\<close>

definition same_settings :: "settings \<Rightarrow> settings \<Rightarrow> bool" where
  "same_settings st st' \<longleftrightarrow> (\<exists>b o'. st' = st\<lparr>srv_stealth := (srv_stealth st)\<lparr>browser_profile := b, os_profile := o'\<rparr>\<rparr>)"

lemma same_settings_refl [simp]: "same_settings st st"
  unfolding same_settings_def by (intro exI[of _ "browser_profile (srv_stealth st)"] exI[of _ "os_profile (srv_stealth st)"]) simp

lemma same_settings_rotate:
  "same_settings st st' \<Longrightarrow> same_settings st (st'\<lparr>srv_stealth := (srv_stealth st')\<lparr>browser_profile := b, os_profile := o'\<rparr>\<rparr>)"
  unfolding same_settings_def by (elim exE, intro exI[of _ b] exI[of _ o']) simp

definition server_inv :: "platform \<Rightarrow> ('c, 'h, 's) api \<Rightarrow> settings \<Rightarrow> SocketAddr set \<Rightarrow> (SocketAddr \<times> bytes) list \<times> ('c, 'h, 's) Server \<Rightarrow> bool" where
  "server_inv pf api st0 A x \<longleftrightarrow> clients_ok pf api (sv_clients (snd x)) \<and> fst ` set (sv_clients (snd x)) \<subseteq> A \<and>
     fst ` set (fst x) \<subseteq> A \<and> same_settings st0 (sv_settings (snd x)) \<and>
     (sv_rotating (snd x) \<longrightarrow> sv_index (snd x) < length (sv_profiles (snd x)))"

lemma tick_total:
  assumes "server_inv pf api st0 A x"
  shows "\<exists>x'. server_step pf api Tick x = Some x' \<and> server_inv pf api st0 A x'"
proof (cases "sv_rotating (snd x)")
  case True
  let ?s = "snd x"
  let ?i = "(sv_index ?s + 1) mod length (sv_profiles ?s)"
  have i: "?i < length (sv_profiles ?s)" using assms True by (intro mod_less_divisor) (auto simp: server_inv_def)
  let ?p = "sv_profiles ?s ! ?i"
  have "server_step pf api Tick x = Some (fst x, ?s\<lparr>sv_index := ?i,
      sv_settings := (sv_settings ?s)\<lparr>srv_stealth := (srv_stealth (sv_settings ?s))\<lparr>browser_profile := browser ?p, os_profile := os ?p\<rparr>\<rparr>\<rparr>)"
    using True i by (simp add: server_step_def rotate_settings_def case_prod_beta idx_def Let_def)
  with assms i show ?thesis by (simp add: server_inv_def same_settings_rotate)
qed (use assms in \<open>auto simp: server_step_def case_prod_beta\<close>)

lemma round_step:
  assumes "server_inv pf api st0 A x" "config_ok (srv_fec st0)" "server_step pf api (Round ts now input) x = Some x'"
  shows "server_inv pf api st0 (A \<union> (case input of None \<Rightarrow> {} | Some (dat, a) \<Rightarrow> {a})) x'"
proof -
  let ?s = "snd x"
  obtain ds cs out where r: "server_round pf api (sv_settings ?s) ts now input (sv_clients ?s, sv_out ?s) = Some (ds, cs, out)"
    "x' = (fst x @ ds, ?s\<lparr>sv_clients := cs, sv_out := out\<rparr>)"
    using assms(3) by (auto simp: server_step_def case_prod_beta Option.bind_eq_Some_conv)
  have "config_ok (srv_fec (sv_settings ?s))" using assms(1,2) by (auto simp: server_inv_def same_settings_def)
  moreover define N where "N = (case input of None \<Rightarrow> {} | Some (dat, a) \<Rightarrow> {a})"
  ultimately have cs: "clients_ok pf api cs" "fst ` set cs \<subseteq> fst ` set (sv_clients ?s) \<union> N"
    "fst ` set ds \<subseteq> fst ` set (sv_clients ?s) \<union> N"
    using server_round_invariant[OF _ _ r(1)] assms(1) by (simp_all add: server_inv_def)
  have A: "fst ` set (sv_clients ?s) \<subseteq> A" "fst ` set (fst x) \<subseteq> A" using assms(1) by (simp_all add: server_inv_def)
  have mono: "fst ` set (sv_clients ?s) \<union> N \<subseteq> A \<union> N" using A(1) by (rule Un_mono) simp
  have "fst ` set cs \<subseteq> A \<union> N" using cs(2) mono by (rule subset_trans)
  moreover have "fst ` set (fst x @ ds) \<subseteq> A \<union> N"
    unfolding set_append image_Un using le_supI1[OF A(2)] subset_trans[OF cs(3) mono] by (rule Un_least)
  ultimately show ?thesis using cs(1) assms(1) by (simp add: server_inv_def r(2) flip: N_def)
qed

lemma run_inv:
  "ofold (server_step pf api) evs x = Some x' \<Longrightarrow> server_inv pf api st0 A x \<Longrightarrow> config_ok (srv_fec st0) \<Longrightarrow>
   server_inv pf api st0 (A \<union> senders evs) x'"
proof (induction evs arbitrary: x A)
  case (Cons e evs)
  obtain y where y: "server_step pf api e x = Some y" "ofold (server_step pf api) evs y = Some x'"
    using Cons.prems(1) by (auto simp: Option.bind_eq_Some_conv)
  show ?case
  proof (cases e)
    case (Round ts now input)
    from Cons.IH[OF y(2) round_step[OF Cons.prems(2,3) y(1)[unfolded Round]] Cons.prems(3)] show ?thesis
      by (simp add: Round Un_assoc)
  next
    case Tick
    with tick_total[OF Cons.prems(2)] y(1) have "server_inv pf api st0 A y" by auto
    from Cons.IH[OF y(2) this Cons.prems(3)] show ?thesis by (simp add: Tick)
  qed
qed simp

lemma run_server_start:
  assumes "run_server pf w cli listen cert key = Some (Inr s)"
  shows "server_inv pf api (sv_settings s) {} ([], s)" "srv_fec (sv_settings s) = fst (load_settings (file_parsers w) (read_file w) cli)"
  using assms
  by (auto simp: run_server_def check_profiles_def server_inv_def clients_ok_def case_prod_beta Let_def Option.bind_eq_Some_conv
      split: sum.splits if_splits)

text \<open>Without configuration files the FEC settings are valid, whatever mode the command line asks for.\<close>

lemma load_settings_default:
  "cli_config cli = None \<Longrightarrow> cli_fec_config cli = None \<Longrightarrow> config_ok (fst (load_settings ps read cli))"
  using config_ok_default by (simp add: load_settings_def config_ok_def FecConfig_validate_def split: if_splits)

text \<open>Choosing profiles never panics, so that the server panics at its start exactly when quiche rejects the configuration,
  the certificate or the key; an address that cannot be bound is an error.\<close>

lemma FingerprintProfile_new_total: "FingerprintProfile_new load b o' \<noteq> None"
  using StealthManager_new_Some[of load "\<lambda>_. 0" "StealthConfig_default\<lparr>browser_profile := b, os_profile := o'\<rparr>"] by auto

lemma parse_profile_entry_total: "parse_profile_entry load d e \<noteq> None"
  by (simp add: parse_profile_entry_def Let_def Option.bind_eq_None_conv FingerprintProfile_new_total del: not_None_eq split: list.split option.split)

lemma select_profiles_total: "select_profiles load cli \<noteq> None"
proof -
  have "omap (parse_profile_entry load d) es \<noteq> None" for d es
    using parse_profile_entry_total by (induction es) (auto simp: Option.bind_eq_None_conv simp del: not_None_eq)
  then show ?thesis
    by (simp add: select_profiles_def Option.bind_eq_None_conv FingerprintProfile_new_total del: not_None_eq split: option.split)
qed

lemma run_server_panics_iff:
  "run_server pf w cli listen cert key = None \<longleftrightarrow>
     (\<exists>local. bind_udp w listen = Inr local) \<and> \<not> (config_new_ok w \<and> cert_ok w cert \<and> key_ok w key \<and> protos_ok w alpn)"
  using select_profiles_total[of "chlo_files pf" cli]
  by (auto simp: run_server_def server_config_def case_prod_beta Let_def split: sum.split)

text \<open>A client that starts has a connection in its life cycle, when the FEC settings are valid.\<close>

lemma run_client_reach:
  assumes "run_client pf api w cli args now hooks = Some (ClientStarted c path profiles rot, hooks')"
    "config_ok (fst (load_settings (file_parsers w) (read_file w) cli))"
  shows "conn_reach pf api c"
proof -
  obtain f sc oc where l: "load_settings (file_parsers w) (read_file w) cli = (f, sc, oc)" by (rule prod_cases3)
  obtain local remote config host r hooks1 path' where
    n: "new_client pf api now host local remote config (apply_cli cli sc) f (opt_params cli oc) (\<not> cli_no_utls cli) hooks = Some (r, hooks1)"
    and r: "(case r of Inl e \<Rightarrow> None | Inr (c, _) \<Rightarrow> do { ps \<leftarrow> select_profiles (chlo_files pf) cli;
        Some (case check_profiles cli ps of Inl e \<Rightarrow> ClientFailed e | Inr rot \<Rightarrow> ClientStarted c path' ps rot, hooks1) }) =
      Some (ClientStarted c path profiles rot, hooks')"
  proof -
    obtain local remote where a: "\<not> arg_list_fingerprints args" "client_addresses w args = Inr (local, remote)"
      using assms(1) by (cases "client_addresses w args") (auto simp: run_client_def split: if_split_asm)
    show thesis using assms(1) l a by (clarsimp simp: run_client_def Let_def Option.bind_eq_Some_conv) (rule that)
  qed
  obtain c0 g where c0: "r = Inr (c0, g)" using r by (cases r) auto
  obtain ps where "(case check_profiles cli ps of Inl e \<Rightarrow> ClientFailed e | Inr rot \<Rightarrow> ClientStarted c0 path' ps rot) =
      ClientStarted c path profiles rot"
    using r unfolding c0 by (auto simp: Option.bind_eq_Some_conv)
  then have "c0 = c" by (cases "check_profiles cli ps") simp_all
  with c0 have "r = Inr (c, g)" by simp
  with n assms(2) l show ?thesis by (intro reach_client) simp_all
qed

text \<open>C12: the server over its whole life. From a successful start with valid FEC settings, after any sequence of rounds
  and profile changes: one connection per peer address, each in its life cycle; only addresses that sent a datagram have
  a connection or were sent anything; the settings are those of the start up to the imitated browser and system; and a
  profile change never panics.\<close>

theorem server_run_invariant:
  assumes "run_server pf w cli listen cert key = Some (Inr s0)"
    "config_ok (fst (load_settings (file_parsers w) (read_file w) cli))" "server_run pf api evs s0 = Some (sent, s)"
  shows "clients_ok pf api (sv_clients s) \<and> fst ` set (sv_clients s) \<subseteq> senders evs \<and> fst ` set sent \<subseteq> senders evs \<and>
         (\<exists>b o'. sv_settings s = (sv_settings s0)\<lparr>srv_stealth := (srv_stealth (sv_settings s0))\<lparr>browser_profile := b, os_profile := o'\<rparr>\<rparr>) \<and>
         (\<exists>s'. server_step pf api Tick (sent, s) = Some (sent, s'))"
proof -
  have inv: "server_inv pf api (sv_settings s0) (senders evs) (sent, s)"
    using run_inv[OF _ run_server_start(1)[OF assms(1)], of api evs "(sent, s)"] run_server_start(2)[OF assms(1)] assms(2,3)
    by (simp add: server_run_def)
  obtain y where y: "server_step pf api Tick (sent, s) = Some y" using tick_total[OF inv] by blast
  moreover have "fst y = sent" using y by (auto simp: server_step_def Option.bind_eq_Some_conv split: if_splits)
  ultimately have "\<exists>s'. server_step pf api Tick (sent, s) = Some (sent, s')" by (cases y) simp
  with inv show ?thesis by (simp add: server_inv_def same_settings_def)
qed

definition sample_cli :: Cli where
  "sample_cli = \<lparr>cli_profile = Chrome, cli_os = Windows, cli_profile_seq = None, cli_profile_interval = 0, cli_fec_mode = Zero,
     cli_pool_capacity = 4, cli_pool_block = 8, cli_xdp = False, cli_config = None, cli_fec_config = None, cli_doh_provider = [],
     cli_front_domain = [], cli_disable_doh = False, cli_disable_fronting = False, cli_disable_xor = False, cli_disable_http3 = False,
     cli_no_utls = False\<rparr>"

definition sample_world :: "string world" where
  "sample_world = \<lparr>resolve = \<lambda>_. Inr [sample_addr], connect_udp = \<lambda>_ _. Inr (), bind_udp = \<lambda>_. Inr sample_addr, read_file = \<lambda>_. Inl [],
     file_parsers = \<lparr>parse_fec = \<lambda>_. Inl [], parse_stealth = \<lambda>_. Inl [], parse_optimize = \<lambda>_. Inl []\<rparr>,
     parse_url = \<lambda>_. Some (None, ''/''), profile_dir = None, config_new_ok = True, protos_ok = \<lambda>_. True, cert_ok = \<lambda>_. True,
     key_ok = \<lambda>_. True\<rparr>"

lemma sample_start:
  obtains s :: "(nat, nat, unit) Server" where "run_server sample_platform sample_world sample_cli [] [] [] = Some (Inr s)" "sv_clients s = []"
    "quiet_settings sample_platform 8 (sv_settings s)"
proof -
  obtain fp where "FingerprintProfile_new (chlo_files sample_platform) Chrome Windows = Some fp"
    using StealthManager_new_Some[of "chlo_files sample_platform" "rng sample_platform"
        "StealthConfig_default\<lparr>browser_profile := Chrome, os_profile := Windows\<rparr>"] by auto
  then have "\<exists>s :: (nat, nat, unit) Server. run_server sample_platform sample_world sample_cli [] [] [] = Some (Inr s) \<and> sv_clients s = [] \<and>
      quiet_settings sample_platform 8 (sv_settings s)"
    using config_ok_default
    by (simp add: run_server_def sample_world_def sample_cli_def server_config_def select_profiles_def check_profiles_def
        load_settings_def opt_params_def quiet_settings_def sample_platform_def FecConfig_default_def window_or_default_def
        default_windows_def)
  then show thesis using that by blast
qed

theorem server_run_invariant_witness:
  "\<exists>(s0 :: (nat, nat, unit) Server) sent s. run_server sample_platform sample_world sample_cli [] [] [] = Some (Inr s0) \<and>
     server_run sample_platform sample_api [Round (\<lambda>_. (\<lparr>t_elapsed = 1, t_pid = 1, t_change = 1\<rparr>, 0)) 0 (Some ([], sample_addr)), Tick] s0 = Some (sent, s) \<and>
     clients_ok sample_platform sample_api (sv_clients s) \<and> fst ` set (sv_clients s) \<subseteq> {sample_addr}"
proof (rule sample_start)
  fix s0 :: "(nat, nat, unit) Server"
  let ?clk = "\<lambda>_ :: SocketAddr. (\<lparr>t_elapsed = 1, t_pid = 1, t_change = 1\<rparr>, 0)" and ?st = "sv_settings s0"
  let ?evs = "[Round ?clk 0 (Some ([], sample_addr)), Tick]"
  assume s0: "run_server sample_platform sample_world sample_cli [] [] [] = Some (Inr s0)" "sv_clients s0 = []" "quiet_settings sample_platform 8 ?st"
  obtain c g where c: "new_server sample_platform sample_api 0 (replicate 20 0) None (srv_local ?st) sample_addr (srv_config ?st)
      (srv_stealth ?st) (srv_fec ?st) (srv_optimize ?st) = Some (Inr (c, g))" "quiet 8 c"
    using fresh_quiet[OF s0(3) sample_accepts] by blast
  obtain e c1 where "Connection_recv sample_platform sample_api [] c = Some (Inl e, c1)"
    using recv_udp[of c sample_platform sample_api "[]"] c(2) by (auto simp: quiet_def idle_def accept_frame_def from_block_def)
  with c(1) have r: "server_round sample_platform sample_api ?st ?clk 0 (Some ([], sample_addr)) ([], sv_out s0) =
      Some ([], [(sample_addr, c1)], sv_out s0)"
    by (simp add: server_round_def server_receive_def put_client_def client_for_def)
  let ?s1 = "s0\<lparr>sv_clients := [(sample_addr, c1)], sv_out := sv_out s0\<rparr>"
  have one: "server_step sample_platform sample_api (Round ?clk 0 (Some ([], sample_addr))) ([], s0) = Some ([], ?s1)"
    using r s0(2) by (simp add: server_step_def)
  obtain y where y: "server_step sample_platform sample_api Tick ([], ?s1) = Some y"
    using tick_total[OF round_step[OF run_server_start(1)[OF s0(1)] _ one]] s0(3) by (auto simp: quiet_settings_def)
  have run: "server_run sample_platform sample_api ?evs s0 = Some (fst y, snd y)" using one y by (simp add: server_run_def)
  have ok: "config_ok (fst (load_settings (file_parsers sample_world) (read_file sample_world) sample_cli))"
    by (intro load_settings_default) (simp_all add: sample_cli_def)
  from server_run_invariant[OF s0(1) ok run] s0(1) run show ?thesis
    by (intro exI[of _ s0] exI[of _ "fst y"] exI[of _ "snd y"]) simp
qed

end
