(* ===== verification/Program.thy ===== *)
theory Program
  imports Telemetry Startup
begin

text \<open>
  The entry point (\<open>src/src/main.rs\<close>: \<open>Commands\<close>, \<open>main\<close>): the two commands with the default values of their
  options, and \<open>main\<close> up to the start of client or server. The crate \<open>clap\<close> turns the command line into a
  value of \<open>Commands\<close>; an option that is not given has its default.

  The arms of \<open>main\<close> pass the options \<open>xdp\<close>, \<open>xdp_stats\<close> and \<open>config\<close> (and, for the client, the pool sizes)
  without having bound them, and the server has no option \<open>xdp\<close> at all; they are read as the fields of the
  command, with \<open>xdp\<close> off for the server.
\<close>

definition client_defaults :: Cli where
  "client_defaults =
     \<lparr>cli_profile = Chrome, cli_os = Windows, cli_profile_seq = None, cli_profile_interval = 0, cli_fec_mode = Zero,
      cli_pool_capacity = 1024, cli_pool_block = 4096, cli_xdp = False, cli_config = None, cli_fec_config = None,
      cli_doh_provider = ''https://cloudflare-dns.com/dns-query'', cli_front_domain = [], cli_disable_doh = False,
      cli_disable_fronting = False, cli_disable_xor = False, cli_disable_http3 = False, cli_no_utls = False\<rparr>"

definition client_args_defaults :: "string \<Rightarrow> ClientArgs" where
  "client_args_defaults remote =
     \<lparr>arg_remote = remote, arg_local = ''0.0.0.0:0'', arg_url = ''https://example.com'', arg_verify_peer = False,
      arg_debug_tls = False, arg_ca_file = None, arg_list_fingerprints = False\<rparr>"

definition server_defaults :: Cli where
  "server_defaults =
     \<lparr>cli_profile = Chrome, cli_os = Windows, cli_profile_seq = None, cli_profile_interval = 0, cli_fec_mode = Zero,
      cli_pool_capacity = 1024, cli_pool_block = 4096, cli_xdp = False, cli_config = None, cli_fec_config = None,
      cli_doh_provider = ''https://cloudflare-dns.com/dns-query'', cli_front_domain = [], cli_disable_doh = False,
      cli_disable_fronting = False, cli_disable_xor = False, cli_disable_http3 = False, cli_no_utls = False\<rparr>"

definition default_listen :: string where
  "default_listen = ''127.0.0.1:4433''"

datatype Commands = Client_command Cli ClientArgs | Server_command Cli string string string

datatype ('c, 'h, 's) program = Client_program "('c, 'h, 's) client_outcome" | Server_program "string + ('c, 'h, 's) Server"

definition main_start ::
  "(string \<Rightarrow> bool) \<Rightarrow> platform \<Rightarrow> ('c, 'h, 's) api \<Rightarrow> 'e world \<Rightarrow> bool \<Rightarrow> Commands \<Rightarrow> nat \<Rightarrow> ffi \<Rightarrow> telemetry \<Rightarrow>
   (('c, 'h, 's) program \<times> ffi \<times> telemetry) option" where
  "main_start can_bind pf api w telemetry_flag cmd now hooks t = do {
     t \<leftarrow> main_begin can_bind telemetry_flag t;
     case cmd of
       Client_command cli args \<Rightarrow> do {
         (r, hooks) \<leftarrow> run_client pf api w cli args now hooks;
         Some (Client_program r, hooks, t) }
     | Server_command cli listen cert key \<Rightarrow> do {
         r \<leftarrow> run_server pf w cli listen cert key;
         Some (Server_program r, hooks, t) } }"

text \<open>A program asked for metrics that cannot have the port of the export does not start; otherwise the
  switch is as the flag says before anything else runs.\<close>

lemma main_start_telemetry:
  "flag \<Longrightarrow> \<not> can_bind ''0.0.0.0:9898'' \<Longrightarrow> main_start can_bind pf api w flag cmd now hooks t = None"
  "main_start can_bind pf api w flag cmd now hooks telemetry_init = Some (r, hooks', t') \<Longrightarrow>
   TELEMETRY_ENABLED t' = flag \<and> forced t' = []"
  by (simp add: main_start_def main_begin_def serve_def)
    (cases cmd; auto simp: main_start_def main_begin_def serve_def telemetry_init_def bind_eq_Some_conv split: if_splits)

text \<open>A server started with default options serves its clients with all obfuscation switched on, the pool of 1024
  blocks of 4096 bytes, and an FEC layer whose window is empty: the mode in which no received packet
  reaches the QUIC library.\<close>

lemma default_server:
  assumes "run_server pf w server_defaults listen cert key = Some (Inr s)"
  shows "srv_optimize (sv_settings s) = OptimizeConfig_default \<and> config_ok (srv_fec (sv_settings s)) \<and>
     current_window (mode_mgr (fst (AdaptiveFec_new now (srv_fec (sv_settings s)) p g))) = 0 \<and>
     enable_doh (srv_stealth (sv_settings s)) \<and> enable_domain_fronting (srv_stealth (sv_settings s)) \<and>
     enable_xor_obfuscation (srv_stealth (sv_settings s)) \<and> enable_http3_masquerading (srv_stealth (sv_settings s)) \<and>
     \<not> sv_rotating s"
proof -
  have set: "load_settings (file_parsers w) (read_file w) server_defaults =
      (FecConfig_default, StealthConfig_default, OptimizeConfig_default)"
    by (simp add: load_settings_def server_defaults_def FecConfig_default_def)
  have interval: "cli_profile_interval server_defaults = 0" by (simp add: server_defaults_def)
  have s: "srv_fec (sv_settings s) = FecConfig_default" "srv_optimize (sv_settings s) = opt_params server_defaults OptimizeConfig_default"
    "srv_stealth (sv_settings s) = apply_cli server_defaults StealthConfig_default" "\<not> sv_rotating s"
    using assms interval by (auto simp: run_server_def set Let_def bind_eq_Some_conv check_profiles_def split: sum.splits)
  have "current_window (mode_mgr (fst (AdaptiveFec_new now FecConfig_default p g))) = 0"
    by (simp add: AdaptiveFec_new_def ModeManager_new_def FecConfig_default_def window_or_default_def
        default_windows_def Let_def split: prod.split)
  with s config_ok_default show ?thesis
    by (simp add: opt_params_def apply_cli_def server_defaults_def OptimizeConfig_default_def)
qed

end
