(* ===== verification/Zero_Copy.thy ===== *)
theory Zero_Copy
  imports Connection
begin

text \<open>
  Vectored socket I/O (\<open>ZeroCopyBuffer\<close> of \<open>src/src/optimize.rs\<close>, for Unix and for Windows).

  An entry of the vector is the memory its pointer refers to and a length. The system calls are parameters: \<open>sendmsg\<close>
  is given the bytes of the vector's entries and the destination, if there is one; \<open>recvmsg\<close> is given the
  capacities of the entries and returns its result, the bytes it writes and the sender's address, if it is an
  Internet address. \<open>gather\<close> and \<open>scatter\<close> are not code of the program: they say which bytes the system calls
  read and write through the pointers and lengths that the program builds (a vector's entries are read, and filled, in order).
\<close>

record 'u net =
  sendmsg :: "SocketAddr option \<Rightarrow> bytes list \<Rightarrow> 'u \<Rightarrow> int \<times> 'u"
  recvmsg :: "nat list \<Rightarrow> 'u \<Rightarrow> int \<times> bytes \<times> SocketAddr option \<times> 'u"
  last_os_error :: "'u \<Rightarrow> string"

subsection \<open>Unix\<close>

record iovec =
  iov_base :: bytes
  iov_len :: nat

definition zc_new :: "bytes list \<Rightarrow> iovec list" where
  "zc_new buffers = map (\<lambda>b. \<lparr>iov_base = b, iov_len = length b\<rparr>) buffers"

definition gather :: "iovec list \<Rightarrow> bytes list" where
  "gather vs = map (\<lambda>v. take (iov_len v) (iov_base v)) vs"

fun scatter :: "bytes \<Rightarrow> iovec list \<Rightarrow> iovec list" where
  "scatter dat [] = []"
| "scatter dat (v # vs) =
     (let n = min (iov_len v) (length dat)
      in v\<lparr>iov_base := take n dat @ drop n (iov_base v)\<rparr> # scatter (drop n dat) vs)"

definition zc_send :: "'u net \<Rightarrow> iovec list \<Rightarrow> 'u \<Rightarrow> int \<times> 'u" where
  "zc_send net vs u = sendmsg net None (gather vs) u"

definition zc_send_to :: "'u net \<Rightarrow> iovec list \<Rightarrow> SocketAddr \<Rightarrow> 'u \<Rightarrow> int \<times> 'u" where
  "zc_send_to net vs addr u = sendmsg net (Some addr) (gather vs) u"

definition zc_recv :: "'u net \<Rightarrow> iovec list \<Rightarrow> 'u \<Rightarrow> int \<times> iovec list \<times> 'u" where
  "zc_recv net vs u =
     (case recvmsg net (map iov_len vs) u of (ret, dat, _, u) \<Rightarrow> (ret, scatter dat vs, u))"

text \<open>A sender whose address is not an Internet address is a panic (\<open>unwrap\<close>).\<close>

definition zc_recv_from :: "'u net \<Rightarrow> iovec list \<Rightarrow> 'u \<Rightarrow> ((string + int \<times> SocketAddr) \<times> iovec list \<times> 'u) option" where
  "zc_recv_from net vs u =
     (case recvmsg net (map iov_len vs) u of (ret, dat, addr, u) \<Rightarrow>
        if ret < 0 then Some (Inl (last_os_error net u), scatter dat vs, u)
        else map_option (\<lambda>a. (Inr (ret, a), scatter dat vs, u)) addr)"

definition zc_len :: "iovec list \<Rightarrow> nat" where
  "zc_len vs = sum_list (map iov_len vs)"

definition zc_is_empty :: "iovec list \<Rightarrow> bool" where
  "zc_is_empty vs \<longleftrightarrow> vs = []"

subsection \<open>Windows\<close>

text \<open>Lengths are 32-bit numbers; the calls report their success and the number of bytes separately, and only
  \<open>recv_from\<close> looks at the former. A count is cast to a signed number.\<close>

record WSABUF =
  wsa_len :: u32
  wsa_buf :: bytes

record 'u winsock =
  WSASendMsg :: "SocketAddr option \<Rightarrow> bytes list \<Rightarrow> 'u \<Rightarrow> int \<times> u32 \<times> 'u"
  WSARecvMsg :: "nat list \<Rightarrow> 'u \<Rightarrow> int \<times> u32 \<times> bytes \<times> SocketAddr option \<times> 'u"
  win_last_error :: "'u \<Rightarrow> string"

definition win_new :: "bytes list \<Rightarrow> WSABUF list" where
  "win_new buffers = map (\<lambda>b. \<lparr>wsa_len = of_nat (length b), wsa_buf = b\<rparr>) buffers"

definition win_iovecs :: "WSABUF list \<Rightarrow> iovec list" where
  "win_iovecs bufs = map (\<lambda>b. \<lparr>iov_base = wsa_buf b, iov_len = unat (wsa_len b)\<rparr>) bufs"

definition win_send :: "'u winsock \<Rightarrow> WSABUF list \<Rightarrow> 'u \<Rightarrow> int \<times> 'u" where
  "win_send net bufs u =
     (case WSASendMsg net None (gather (win_iovecs bufs)) u of (_, sent, u) \<Rightarrow> (sint sent, u))"

definition win_send_to :: "'u winsock \<Rightarrow> WSABUF list \<Rightarrow> SocketAddr \<Rightarrow> 'u \<Rightarrow> int \<times> 'u" where
  "win_send_to net bufs addr u =
     (case WSASendMsg net (Some addr) (gather (win_iovecs bufs)) u of (_, sent, u) \<Rightarrow> (sint sent, u))"

definition win_recv :: "'u winsock \<Rightarrow> WSABUF list \<Rightarrow> 'u \<Rightarrow> int \<times> iovec list \<times> 'u" where
  "win_recv net bufs u =
     (case WSARecvMsg net (map iov_len (win_iovecs bufs)) u of
        (_, recvd, dat, _, u) \<Rightarrow> (sint recvd, scatter dat (win_iovecs bufs), u))"

definition win_recv_from ::
  "'u winsock \<Rightarrow> WSABUF list \<Rightarrow> 'u \<Rightarrow> ((string + int \<times> SocketAddr) \<times> iovec list \<times> 'u) option" where
  "win_recv_from net bufs u =
     (case WSARecvMsg net (map iov_len (win_iovecs bufs)) u of (ret, recvd, dat, addr, u) \<Rightarrow>
        if ret = 0 then map_option (\<lambda>a. (Inr (sint recvd, a), scatter dat (win_iovecs bufs), u)) addr
        else Some (Inl (win_last_error net u), scatter dat (win_iovecs bufs), u))"

definition win_zc_len :: "WSABUF list \<Rightarrow> nat" where
  "win_zc_len bufs = sum_list (map (\<lambda>b. unat (wsa_len b)) bufs)"

subsection \<open>The vector is its concatenation\<close>

lemma gather_new [simp]: "gather (zc_new buffers) = buffers"
  by (induction buffers) (simp_all add: gather_def zc_new_def)

lemma zc_new_simps [simp]:
  "map iov_len (zc_new bufs) = map length bufs" "zc_new [] = []" "zc_new [b] = [\<lparr>iov_base = b, iov_len = length b\<rparr>]"
  by (simp_all add: zc_new_def)

lemma scatter_new:
  "length dat \<le> length (concat bufs) \<Longrightarrow>
   map (length \<circ> iov_base) (scatter dat (zc_new bufs)) = map length bufs \<and>
   concat (map iov_base (scatter dat (zc_new bufs))) = dat @ drop (length dat) (concat bufs)"
proof (induction bufs arbitrary: dat)
  case (Cons b bufs)
  let ?n = "min (length b) (length dat)"
  have "length (drop ?n dat) \<le> length (concat bufs)" using Cons.prems by simp
  from Cons.IH[OF this] show ?case
    by (cases "length dat \<le> length b") (simp_all add: zc_new_def Let_def min_def)
qed simp

lemma zc_len_new: "zc_len (zc_new bufs) = length (concat bufs)"
  by (simp add: zc_len_def length_concat)

text \<open>Vectored I/O through any splitting of the data, with system calls that work on memory as \<open>gather\<close> and \<open>scatter\<close> say: bytes
  received into slices are found at the front of the slices' concatenation, with the rest and the sizes of the slices
  unchanged; so a message sent from one list of slices arrives in another, whatever their boundaries.\<close>

lemma zero_copy_roundtrip:
  assumes "recvmsg net (map length dst) u' = (int (length (concat src)), concat src, addr, u'')"
    "length (concat src) \<le> length (concat dst)"
  shows "zc_send net (zc_new src) u = sendmsg net None src u \<and> zc_len (zc_new src) = length (concat src) \<and>
         (\<exists>vs. zc_recv net (zc_new dst) u' = (int (length (concat src)), vs, u'') \<and>
            map (length \<circ> iov_base) vs = map length dst \<and>
            concat (map iov_base vs) = concat src @ drop (length (concat src)) (concat dst))"
  using assms scatter_new[of "concat src" dst] by (simp add: zc_send_def zc_recv_def zc_len_new)

text \<open>On Windows the length of a slice is cut to 32 bits: the vector describes the slices exactly when none has 4 GiB or
  more.\<close>

lemma win_len_exact:
  "win_zc_len (win_new bufs) = length (concat bufs) \<longleftrightarrow> list_all (\<lambda>b. length b < 2 ^ 32) bufs"
proof -
  have le: "unat (of_nat (length b) :: u32) \<le> length b" for b :: bytes by (simp add: unat_of_nat)
  have "win_zc_len (win_new bufs) \<le> length (concat bufs)" for bufs
    using le by (induction bufs) (auto simp: win_zc_len_def win_new_def intro: add_mono)
  note sum = this
  show ?thesis
  proof (induction bufs)
    case (Cons b bufs)
    have "win_zc_len (win_new (b # bufs)) = unat (of_nat (length b) :: u32) + win_zc_len (win_new bufs)"
      by (simp add: win_zc_len_def win_new_def)
    moreover have "unat (of_nat (length b) :: u32) = length b \<longleftrightarrow> length b < 2 ^ 32"
      by (simp add: unat_of_nat mod_eq_self_iff_div_eq_0 div_eq_0_iff)
    ultimately show ?case using Cons.IH le[of b] sum[of bufs] by auto
  qed (simp add: win_zc_len_def win_new_def)
qed

end
