(* ===== verification/Xdp_Socket.thy ===== *)
theory Xdp_Socket
  imports Zero_Copy Connection_Properties
begin

text \<open>
  The packet socket (\<open>src/src/xdp_socket.rs\<close>): a connected UDP socket and, with the feature \<open>xdp\<close>, the rings of an
  AF_XDP socket in front of it.

  The operating system and the crate \<open>afxdp\<close> are parameters (\<open>xdp_sys\<close>): binding and connecting UDP sockets, the system
  calls of \<open>Zero_Copy\<close>, and the operations on the rings, whose state (both queues of the socket and both queues of the
  shared memory) is of type \<open>'k\<close>. \<open>fill\<close>, \<open>try_send\<close> and \<open>service\<close> return what is left of the buffers they are given.
  With the feature the file is not accepted by the compiler, because \<open>send\<close> uses the state it has just released after
  an error; the model takes the release as done and the use as having no effect. Telemetry is left out.
\<close>

subsection \<open>The crate and the operating system\<close>

record BufMmap =
  buf_data :: bytes
  buf_len :: u16

datatype io_error = Errno "int option"

datatype ring_error = RingNotPowerOfTwo | Create io_error

record ('u, 'k) xdp_sys =
  udp_bind :: "SocketAddr \<Rightarrow> string + 'u"
  udp_connect :: "SocketAddr \<Rightarrow> 'u \<Rightarrow> (string + unit) \<times> 'u"
  set_nonblocking :: "'u \<Rightarrow> string + unit"
  net :: "'u net"
  env_iface :: "string option"
  mmap_area :: "nat \<Rightarrow> nat \<Rightarrow> BufMmap list option"
  umem_new :: "ring_error + 'k"
  xsk_new :: "string \<Rightarrow> 'k \<Rightarrow> ring_error + 'k"
  fq_fill :: "BufMmap list \<Rightarrow> nat \<Rightarrow> 'k \<Rightarrow> BufMmap list \<times> 'k"
  tx_try_send :: "BufMmap list \<Rightarrow> nat \<Rightarrow> 'k \<Rightarrow> (string + nat) \<times> BufMmap list \<times> 'k"
  cq_service :: "BufMmap list \<Rightarrow> nat \<Rightarrow> 'k \<Rightarrow> BufMmap list \<times> 'k"
  rx_try_recv :: "nat \<Rightarrow> 'k \<Rightarrow> (string + nat) \<times> BufMmap list \<times> 'k"
  pending_len :: nat

subsection \<open>State and initialisation\<close>

record 'k XdpState =
  rings :: 'k
  xpool :: "BufMmap list"
  xpending :: "BufMmap list"

record ('u, 'k) XdpSocket =
  udp :: 'u
  xstate :: "'k XdpState option"

datatype XdpInitError = Mmap | InvalidRing | Umem io_error | Socket io_error | Unsupported

text \<open>The numbers are those of Linux: \<open>ENOSYS\<close>, \<open>EOPNOTSUPP\<close>, \<open>EPERM\<close>, \<open>EINVAL\<close>, \<open>ENODEV\<close>, \<open>EAFNOSUPPORT\<close>.\<close>

fun is_unsupported :: "io_error \<Rightarrow> bool" where
  "is_unsupported (Errno e) \<longleftrightarrow> (case e of None \<Rightarrow> False | Some n \<Rightarrow> n = 38 \<or> n = 95 \<or> n = 1 \<or> n = 22 \<or> n = 19 \<or> n = 97)"

fun from_umem_error :: "ring_error \<Rightarrow> XdpInitError" where
  "from_umem_error RingNotPowerOfTwo = InvalidRing"
| "from_umem_error (Create e) = (if is_unsupported e then Unsupported else Umem e)"

fun from_socket_error :: "ring_error \<Rightarrow> XdpInitError" where
  "from_socket_error RingNotPowerOfTwo = InvalidRing"
| "from_socket_error (Create e) = (if is_unsupported e then Unsupported else Socket e)"

definition init_state :: "('u, 'k) xdp_sys \<Rightarrow> string \<Rightarrow> XdpInitError + 'k XdpState" where
  "init_state sys iface =
     (case mmap_area sys 4096 2048 of
        None \<Rightarrow> Inl Mmap
      | Some bufs \<Rightarrow>
          (case umem_new sys of
             Inl e \<Rightarrow> Inl (from_umem_error e)
           | Inr k \<Rightarrow>
               (case xsk_new sys iface k of
                  Inl e \<Rightarrow> Inl (from_socket_error e)
                | Inr k \<Rightarrow>
                    (case fq_fill sys bufs (length bufs) k of
                       (bufs, k) \<Rightarrow> Inr \<lparr>rings = k, xpool = bufs, xpending = []\<rparr>))))"

fun is_loopback :: "IpAddr \<Rightarrow> bool" where
  "is_loopback (IpV4 a b c d) \<longleftrightarrow> a = 127"
| "is_loopback (IpV6 segs) \<longleftrightarrow> segs = [0, 0, 0, 0, 0, 0, 0, 1]"

definition infer_iface :: "('u, 'k) xdp_sys \<Rightarrow> SocketAddr \<Rightarrow> string" where
  "infer_iface sys addr =
     (case env_iface sys of
        Some i \<Rightarrow> i
      | None \<Rightarrow> if is_loopback (fst addr) then ''lo'' else ''eth0'')"

text \<open>The UDP socket that every constructor starts with: bound, connected, non-blocking.\<close>

definition open_udp :: "('u, 'k) xdp_sys \<Rightarrow> SocketAddr \<Rightarrow> SocketAddr \<Rightarrow> string + 'u" where
  "open_udp sys bnd remote =
     (case udp_bind sys bnd of
        Inl e \<Rightarrow> Inl e
      | Inr u \<Rightarrow> (case udp_connect sys remote u of
                    (Inl e, u) \<Rightarrow> Inl e
                  | (Inr _, u) \<Rightarrow> (case set_nonblocking sys u of Inl e \<Rightarrow> Inl e | Inr _ \<Rightarrow> Inr u)))"

definition XdpSocket_new_udp :: "('u, 'k) xdp_sys \<Rightarrow> SocketAddr \<Rightarrow> SocketAddr \<Rightarrow> string + ('u, 'k) XdpSocket" where
  "XdpSocket_new_udp sys bnd remote =
     (case open_udp sys bnd remote of Inl e \<Rightarrow> Inl e | Inr u \<Rightarrow> Inr \<lparr>udp = u, xstate = None\<rparr>)"

definition XdpSocket_new :: "('u, 'k) xdp_sys \<Rightarrow> SocketAddr \<Rightarrow> SocketAddr \<Rightarrow> string + ('u, 'k) XdpSocket" where
  "XdpSocket_new sys bnd remote =
     (case open_udp sys bnd remote of
        Inl e \<Rightarrow> Inl e
      | Inr u \<Rightarrow> (case init_state sys (infer_iface sys bnd) of
                    Inr st \<Rightarrow> Inr \<lparr>udp = u, xstate = Some st\<rparr>
                  | Inl e \<Rightarrow> Inr \<lparr>udp = u, xstate = None\<rparr>))"

text \<open>The old rings are released first, also when the new socket cannot be opened.\<close>

definition XdpSocket_reconfigure ::
  "('u, 'k) xdp_sys \<Rightarrow> SocketAddr \<Rightarrow> SocketAddr \<Rightarrow> ('u, 'k) XdpSocket \<Rightarrow> (string + unit) \<times> ('u, 'k) XdpSocket" where
  "XdpSocket_reconfigure sys bnd remote s =
     (let s = s\<lparr>xstate := None\<rparr>
      in case open_udp sys bnd remote of
           Inl e \<Rightarrow> (Inl e, s)
         | Inr u \<Rightarrow> (case init_state sys (infer_iface sys bnd) of
                       Inr st \<Rightarrow> (Inr (), s\<lparr>udp := u, xstate := Some st\<rparr>)
                     | Inl e \<Rightarrow> (Inr (), s\<lparr>udp := u\<rparr>)))"

definition XdpSocket_update_remote ::
  "('u, 'k) xdp_sys \<Rightarrow> SocketAddr \<Rightarrow> ('u, 'k) XdpSocket \<Rightarrow> (string + unit) \<times> ('u, 'k) XdpSocket" where
  "XdpSocket_update_remote sys remote s = (case udp_connect sys remote (udp s) of (r, u) \<Rightarrow> (r, s\<lparr>udp := u\<rparr>))"

definition is_active :: "('u, 'k) XdpSocket \<Rightarrow> bool" where
  "is_active s \<longleftrightarrow> xstate s \<noteq> None"

subsection \<open>Sending and receiving\<close>

definition udp_send :: "('u, 'k) xdp_sys \<Rightarrow> bytes list \<Rightarrow> 'u \<Rightarrow> (string + nat) \<times> 'u" where
  "udp_send sys buffers u =
     (case zc_send (net sys) (zc_new buffers) u of
        (ret, u) \<Rightarrow> (if ret < 0 then Inl (last_os_error (net sys) u) else Inr (nat ret), u))"

definition udp_recv :: "('u, 'k) xdp_sys \<Rightarrow> bytes \<Rightarrow> 'u \<Rightarrow> (string + nat) \<times> bytes \<times> 'u" where
  "udp_recv sys buf u =
     (case zc_recv (net sys) (zc_new [buf]) u of
        (ret, vs, u) \<Rightarrow>
          (if ret < 0 then Inl (last_os_error (net sys) u) else Inr (nat ret), concat (map iov_base vs), u))"

text \<open>\<open>push_back\<close> of a wrapping deque drops the oldest entry when it is full.\<close>

definition push_wrapping :: "nat \<Rightarrow> 'a list \<Rightarrow> 'a \<Rightarrow> 'a list" where
  "push_wrapping cap xs x = (if length xs < cap then xs @ [x] else tl xs @ [x])"

text \<open>A frame into the buffer \<open>b\<close>: the total length of the slices, but the bytes of the first one.\<close>

definition fill_frame :: "bytes list \<Rightarrow> BufMmap \<Rightarrow> (nat \<times> BufMmap) option" where
  "fill_frame buffers b = do {
     let n = sum_list (map length buffers);
     d \<leftarrow> idx buffers 0;
     let copy_len = min n (length (buf_data b));
     src \<leftarrow> slice d 0 copy_len;
     filled \<leftarrow> copy_at (buf_data b) 0 copy_len src;
     Some (copy_len, \<lparr>buf_data = filled, buf_len = of_nat copy_len\<rparr>) }"

definition XdpSocket_send ::
  "('u, 'k) xdp_sys \<Rightarrow> bytes list \<Rightarrow> ('u, 'k) XdpSocket \<Rightarrow> ((string + nat) \<times> ('u, 'k) XdpSocket) option" where
  "XdpSocket_send sys buffers s =
     (let fallback = (\<lambda>s. case udp_send sys buffers (udp s) of (r, u) \<Rightarrow> (r, s\<lparr>udp := u\<rparr>))
      in case xstate s of
           None \<Rightarrow> Some (fallback s)
         | Some st \<Rightarrow>
             if xpool st = [] then Some (fallback s)
             else do {
               (copy_len, b) \<leftarrow> fill_frame buffers (last (xpool st));
               let pending = push_wrapping (pending_len sys) (xpending st) b;
               let (r, pending, k) = tx_try_send sys pending 1 (rings st);
               let sent = (case r of Inl _ \<Rightarrow> 0 | Inr n \<Rightarrow> n);
               let (pool, k) = cq_service sys (butlast (xpool st)) sent k;
               Some (if sent = 1 then (Inr copy_len, s\<lparr>xstate := Some \<lparr>rings = k, xpool = pool, xpending = pending\<rparr>\<rparr>)
                     else (case r of
                             Inl _ \<Rightarrow> fallback (s\<lparr>xstate := None\<rparr>)
                           | Inr _ \<Rightarrow> fallback (s\<lparr>xstate := Some \<lparr>rings = k, xpool = pool @ pending, xpending = []\<rparr>\<rparr>))) })"

definition XdpSocket_recv ::
  "('u, 'k) xdp_sys \<Rightarrow> bytes \<Rightarrow> ('u, 'k) XdpSocket \<Rightarrow> ((string + nat) \<times> bytes \<times> ('u, 'k) XdpSocket) option" where
  "XdpSocket_recv sys buf s =
     (let fallback = (\<lambda>s. case udp_recv sys buf (udp s) of (r, buf, u) \<Rightarrow> (r, buf, s\<lparr>udp := u\<rparr>))
      in case xstate s of
           None \<Rightarrow> Some (fallback s)
         | Some st \<Rightarrow>
             (case rx_try_recv sys 1 (rings st) of
                (Inl _, q, k) \<Rightarrow> Some (fallback (s\<lparr>xstate := None\<rparr>))
              | (Inr n, q, k) \<Rightarrow>
                  (case (n > 0, q) of
                     (True, b # _) \<Rightarrow> do {
                       let copy_len = min (unat (buf_len b)) (length buf);
                       src \<leftarrow> slice (buf_data b) 0 copy_len;
                       buf \<leftarrow> copy_at buf 0 copy_len src;
                       let (_, k) = fq_fill sys [b] 1 k;
                       Some (Inr copy_len, buf, s\<lparr>xstate := Some (st\<lparr>rings := k\<rparr>)\<rparr>) }
                   | _ \<Rightarrow> Some (fallback (s\<lparr>xstate := Some (st\<lparr>rings := k\<rparr>)\<rparr>)))))"

subsection \<open>Without the feature\<close>

text \<open>The socket of a build without AF_XDP is the UDP socket alone.\<close>

record 'u UdpSocket =
  socket :: 'u

definition UdpSocket_new :: "('u, 'k) xdp_sys \<Rightarrow> SocketAddr \<Rightarrow> SocketAddr \<Rightarrow> string + 'u UdpSocket" where
  "UdpSocket_new sys bnd remote = (case open_udp sys bnd remote of Inl e \<Rightarrow> Inl e | Inr u \<Rightarrow> Inr \<lparr>socket = u\<rparr>)"

definition UdpSocket_send :: "('u, 'k) xdp_sys \<Rightarrow> bytes list \<Rightarrow> 'u UdpSocket \<Rightarrow> (string + nat) \<times> 'u UdpSocket" where
  "UdpSocket_send sys buffers s = apsnd (\<lambda>u. s\<lparr>socket := u\<rparr>) (udp_send sys buffers (socket s))"

definition UdpSocket_recv :: "('u, 'k) xdp_sys \<Rightarrow> bytes \<Rightarrow> 'u UdpSocket \<Rightarrow> (string + nat) \<times> bytes \<times> 'u UdpSocket" where
  "UdpSocket_recv sys buf s = apsnd (apsnd (\<lambda>u. s\<lparr>socket := u\<rparr>)) (udp_recv sys buf (socket s))"

definition UdpSocket_update_remote ::
  "('u, 'k) xdp_sys \<Rightarrow> SocketAddr \<Rightarrow> 'u UdpSocket \<Rightarrow> (string + unit) \<times> 'u UdpSocket" where
  "UdpSocket_update_remote sys remote s = apsnd (\<lambda>u. s\<lparr>socket := u\<rparr>) (udp_connect sys remote (socket s))"

definition UdpSocket_reconfigure ::
  "('u, 'k) xdp_sys \<Rightarrow> SocketAddr \<Rightarrow> SocketAddr \<Rightarrow> 'u UdpSocket \<Rightarrow> (string + unit) \<times> 'u UdpSocket" where
  "UdpSocket_reconfigure sys bnd remote s =
     (case open_udp sys bnd remote of Inl e \<Rightarrow> (Inl e, s) | Inr u \<Rightarrow> (Inr (), s\<lparr>socket := u\<rparr>))"

definition is_supported :: "bool \<Rightarrow> bool \<Rightarrow> bool" where
  "is_supported linux feature_xdp \<longleftrightarrow> linux \<and> feature_xdp"

subsection \<open>The contract of the rings\<close>

text \<open>What the crate documents: a buffer given to a ring is held by it until the ring returns it; \<open>held\<close> counts them.\<close>

definition frame_ok :: "BufMmap \<Rightarrow> bool" where
  "frame_ok b \<longleftrightarrow> length (buf_data b) = 2048 \<and> unat (buf_len b) \<le> 2048"

definition init_ok :: "('u, 'k) xdp_sys \<Rightarrow> ('k \<Rightarrow> nat) \<Rightarrow> bool" where
  "init_ok sys held \<longleftrightarrow> 0 < pending_len sys \<and>
     (\<forall>bufs. mmap_area sys 4096 2048 = Some bufs \<longrightarrow> length bufs = 4096 \<and> list_all frame_ok bufs) \<and>
     (\<forall>k. umem_new sys = Inr k \<longrightarrow> held k = 0) \<and> (\<forall>i k k'. xsk_new sys i k = Inr k' \<longrightarrow> held k' = held k)"

definition fill_ok :: "('u, 'k) xdp_sys \<Rightarrow> ('k \<Rightarrow> nat) \<Rightarrow> bool" where
  "fill_ok sys held \<longleftrightarrow> (\<forall>bufs n k bufs' k'. fq_fill sys bufs n k = (bufs', k') \<longrightarrow>
     set bufs' \<subseteq> set bufs \<and> length bufs' \<le> length bufs \<and> length bufs' + held k' = length bufs + held k)"

definition try_send_ok :: "('u, 'k) xdp_sys \<Rightarrow> ('k \<Rightarrow> nat) \<Rightarrow> bool" where
  "try_send_ok sys held \<longleftrightarrow> (\<forall>ps n k m ps' k'. tx_try_send sys ps n k = (Inr m, ps', k') \<longrightarrow>
     m \<le> n \<and> m \<le> length ps \<and> ps' = drop m ps \<and> held k' = held k + m)"

definition service_ok :: "('u, 'k) xdp_sys \<Rightarrow> ('k \<Rightarrow> nat) \<Rightarrow> bool" where
  "service_ok sys held \<longleftrightarrow> (\<forall>ps n k ps' k'. cq_service sys ps n k = (ps', k') \<longrightarrow>
     (\<exists>new. ps' = ps @ new \<and> list_all frame_ok new \<and> length new + held k' = held k))"

definition try_recv_ok :: "('u, 'k) xdp_sys \<Rightarrow> ('k \<Rightarrow> nat) \<Rightarrow> bool" where
  "try_recv_ok sys held \<longleftrightarrow> (\<forall>n k m q k'. rx_try_recv sys n k = (Inr m, q, k') \<longrightarrow>
     length q = m \<and> m \<le> n \<and> list_all frame_ok q \<and> held k' + m = held k)"

definition rings_ok :: "('u, 'k) xdp_sys \<Rightarrow> ('k \<Rightarrow> nat) \<Rightarrow> bool" where
  "rings_ok sys held \<longleftrightarrow> init_ok sys held \<and> fill_ok sys held \<and> try_send_ok sys held \<and> service_ok sys held \<and> try_recv_ok sys held"

definition buffers_in :: "('k \<Rightarrow> nat) \<Rightarrow> 'k XdpState \<Rightarrow> nat" where
  "buffers_in held st = length (xpool st) + length (xpending st) + held (rings st)"

definition xdp_inv :: "('k \<Rightarrow> nat) \<Rightarrow> ('u, 'k) XdpSocket \<Rightarrow> bool" where
  "xdp_inv held s \<longleftrightarrow>
     (case xstate s of None \<Rightarrow> True
      | Some st \<Rightarrow> xpending st = [] \<and> list_all frame_ok (xpool st) \<and> buffers_in held st \<le> 4096)"

lemma rings_okD:
  assumes "rings_ok sys held"
  shows "0 < pending_len sys"
    "mmap_area sys 4096 2048 = Some bufs \<Longrightarrow> length bufs = 4096 \<and> list_all frame_ok bufs"
    "umem_new sys = Inr k \<Longrightarrow> held k = 0"
    "xsk_new sys i k = Inr k' \<Longrightarrow> held k' = held k"
    "fq_fill sys bufs n k = (bufs', k') \<Longrightarrow>
       set bufs' \<subseteq> set bufs \<and> length bufs' \<le> length bufs \<and> length bufs' + held k' = length bufs + held k"
    "tx_try_send sys ps n k = (Inr m, ps', k') \<Longrightarrow> m \<le> n \<and> m \<le> length ps \<and> ps' = drop m ps \<and> held k' = held k + m"
    "cq_service sys ps n k = (ps', k') \<Longrightarrow> \<exists>new. ps' = ps @ new \<and> list_all frame_ok new \<and> length new + held k' = held k"
    "rx_try_recv sys n k = (Inr m, q, k') \<Longrightarrow> length q = m \<and> m \<le> n \<and> list_all frame_ok q \<and> held k' + m = held k"
proof -
  have laws: "init_ok sys held" "fill_ok sys held" "try_send_ok sys held" "service_ok sys held" "try_recv_ok sys held"
    using assms by (simp_all add: rings_ok_def)
  note init = laws(1)[unfolded init_ok_def]
  show "0 < pending_len sys" using init by (elim conjE)
  show "mmap_area sys 4096 2048 = Some bufs \<Longrightarrow> length bufs = 4096 \<and> list_all frame_ok bufs" using init by (elim conjE) blast
  show "umem_new sys = Inr k \<Longrightarrow> held k = 0" using init by (elim conjE) blast
  show "xsk_new sys i k = Inr k' \<Longrightarrow> held k' = held k" using init by (elim conjE) blast
  show "fq_fill sys bufs n k = (bufs', k') \<Longrightarrow>
      set bufs' \<subseteq> set bufs \<and> length bufs' \<le> length bufs \<and> length bufs' + held k' = length bufs + held k"
    using laws(2) unfolding fill_ok_def by blast
  show "tx_try_send sys ps n k = (Inr m, ps', k') \<Longrightarrow> m \<le> n \<and> m \<le> length ps \<and> ps' = drop m ps \<and> held k' = held k + m"
    using laws(3) unfolding try_send_ok_def by blast
  show "cq_service sys ps n k = (ps', k') \<Longrightarrow> \<exists>new. ps' = ps @ new \<and> list_all frame_ok new \<and> length new + held k' = held k"
    using laws(4) unfolding service_ok_def by blast
  show "rx_try_recv sys n k = (Inr m, q, k') \<Longrightarrow> length q = m \<and> m \<le> n \<and> list_all frame_ok q \<and> held k' + m = held k"
    using laws(5) unfolding try_recv_ok_def by blast
qed

lemma init_state_ok:
  assumes "rings_ok sys held" "init_state sys iface = Inr st"
  shows "xpending st = [] \<and> list_all frame_ok (xpool st) \<and> buffers_in held st = 4096"
proof -
  obtain bufs k0 k1 where b: "mmap_area sys 4096 2048 = Some bufs" "umem_new sys = Inr k0" "xsk_new sys iface k0 = Inr k1"
    using assms(2) by (auto simp: init_state_def split: option.splits sum.splits)
  obtain bufs' k2 where f: "fq_fill sys bufs (length bufs) k1 = (bufs', k2)" by (rule prod.exhaust)
  have st: "st = \<lparr>rings = k2, xpool = bufs', xpending = []\<rparr>" using assms(2) b f by (simp add: init_state_def)
  show ?thesis
    using rings_okD(2)[OF assms(1) b(1)] rings_okD(3)[OF assms(1) b(2)] rings_okD(4)[OF assms(1) b(3)] rings_okD(5)[OF assms(1) f]
    by (auto simp: st buffers_in_def list_all_iff)
qed

lemma fill_frame_single:
  assumes "frame_ok b"
  shows "\<exists>b'. fill_frame [d] b = Some (min (length d) 2048, b') \<and> frame_ok b' \<and>
           take (unat (buf_len b')) (buf_data b') = take 2048 d \<and> unat (buf_len b') = min (length d) 2048"
proof -
  let ?n = "min (length d) 2048"
  have n: "unat (of_nat ?n :: u16) = ?n" by (simp add: unat_of_nat)
  have "fill_frame [d] b = Some (?n, \<lparr>buf_data = take ?n d @ drop ?n (buf_data b), buf_len = of_nat ?n\<rparr>)"
    using assms by (simp add: fill_frame_def idx_def slice_def copy_at_def frame_ok_def Let_def)
  with assms n show ?thesis by (simp add: frame_ok_def min_def)
qed

subsection \<open>Every history of a socket\<close>

inductive xdp_reach :: "('u, 'k) xdp_sys \<Rightarrow> ('u, 'k) XdpSocket \<Rightarrow> bool" for sys where
  xdp_new: "XdpSocket_new sys bnd remote = Inr s \<Longrightarrow> xdp_reach sys s"
| xdp_new_udp: "XdpSocket_new_udp sys bnd remote = Inr s \<Longrightarrow> xdp_reach sys s"
| xdp_reconfigure: "xdp_reach sys s \<Longrightarrow> XdpSocket_reconfigure sys bnd remote s = (r, s') \<Longrightarrow> xdp_reach sys s'"
| xdp_update_remote: "xdp_reach sys s \<Longrightarrow> XdpSocket_update_remote sys remote s = (r, s') \<Longrightarrow> xdp_reach sys s'"
| xdp_send: "xdp_reach sys s \<Longrightarrow> XdpSocket_send sys bufs s = Some (r, s') \<Longrightarrow> xdp_reach sys s'"
| xdp_recv: "xdp_reach sys s \<Longrightarrow> XdpSocket_recv sys buf s = Some (r, buf', s') \<Longrightarrow> xdp_reach sys s'"

lemma fill_frame_ok: "frame_ok b \<Longrightarrow> fill_frame bufs b = Some (n, b') \<Longrightarrow> frame_ok b' \<and> n \<le> 2048"
  by (auto simp: fill_frame_def copy_at_def slice_def frame_ok_def Let_def min_def Option.bind_eq_Some_conv unat_of_nat
      split: if_splits)

text \<open>What a send does to the state: nothing, the release of the rings, or a step that keeps every buffer.\<close>

lemma send_state:
  assumes "rings_ok sys held" "xdp_inv held s" "XdpSocket_send sys bufs s = Some (r, s')"
  shows "case xstate s' of None \<Rightarrow> True
         | Some st' \<Rightarrow> xpending st' = [] \<and> list_all frame_ok (xpool st') \<and>
             (\<exists>st. xstate s = Some st \<and> buffers_in held st' = buffers_in held st)"
proof -
  let ?fb = "\<lambda>s. case udp_send sys bufs (udp s) of (r, u) \<Rightarrow> (r, s\<lparr>udp := u\<rparr>)"
  have fb: "xstate (snd (?fb x)) = xstate x" for x by (simp add: case_prod_beta)
  consider "xstate s = None" | st where "xstate s = Some st" "xpool st = []" | st where "xstate s = Some st" "xpool st \<noteq> []"
    by (cases "xstate s") auto
  then show ?thesis
  proof cases
    case 1
    with assms(3) fb[of s] show ?thesis by (simp add: XdpSocket_send_def case_prod_beta)
  next
    case 2
    with assms(2,3) fb[of s] show ?thesis by (auto simp: XdpSocket_send_def case_prod_beta xdp_inv_def)
  next
    case (3 st)
    have inv: "xpending st = []" "list_all frame_ok (xpool st)" using assms(2) 3(1) by (simp_all add: xdp_inv_def)
    then have frames: "frame_ok (last (xpool st))" "list_all frame_ok (butlast (xpool st))"
      using 3(2) by (auto simp: list_all_iff dest: in_set_butlastD)
    obtain n b where b: "fill_frame bufs (last (xpool st)) = Some (n, b)"
      using assms(3) 3 by (auto simp: XdpSocket_send_def Let_def Option.bind_eq_Some_conv)
    obtain t ps k where t: "tx_try_send sys [b] 1 (rings st) = (t, ps, k)" by (rule prod_cases3)
    define sent where "sent = (case t of Inl _ \<Rightarrow> 0 | Inr n \<Rightarrow> n)"
    obtain pool k' where c: "cq_service sys (butlast (xpool st)) sent k = (pool, k')" by (rule prod.exhaust)
    have p: "push_wrapping (pending_len sys) [] b = [b]" using rings_okD(1)[OF assms(1)] by (simp add: push_wrapping_def)
    have s': "(r, s') = (if sent = 1 then (Inr n, s\<lparr>xstate := Some \<lparr>rings = k', xpool = pool, xpending = ps\<rparr>\<rparr>)
        else (case t of Inl _ \<Rightarrow> ?fb (s\<lparr>xstate := None\<rparr>)
              | Inr _ \<Rightarrow> ?fb (s\<lparr>xstate := Some \<lparr>rings = k', xpool = pool @ ps, xpending = []\<rparr>\<rparr>)))"
      using assms(3) 3 b t c p inv(1) by (simp add: XdpSocket_send_def Let_def flip: sent_def)
    show ?thesis
    proof (cases t)
      case (Inl e)
      then have "s' = snd (?fb (s\<lparr>xstate := None\<rparr>))" using s' by (simp add: sent_def case_prod_beta)
      then show ?thesis using fb[of "s\<lparr>xstate := None\<rparr>"] by simp
    next
      case (Inr m)
      then have m: "sent = m" "ps = drop m [b]" "m \<le> 1" "held k = held (rings st) + m"
        using rings_okD(6)[OF assms(1), of "[b]" 1 "rings st" m ps k] t by (simp_all add: sent_def)
      obtain new where new: "pool = butlast (xpool st) @ new" "list_all frame_ok new" "length new + held k' = held k"
        using rings_okD(7)[OF assms(1) c] by blast
      have pos: "length (xpool st) = Suc (length (xpool st) - 1)" using 3(2) by (cases "xpool st") simp_all
      let ?st = "if m = 1 then \<lparr>rings = k', xpool = pool, xpending = []\<rparr> else \<lparr>rings = k', xpool = pool @ [b], xpending = []\<rparr>"
      have "xstate s' = Some ?st"
        using s' m Inr fb[of "s\<lparr>xstate := Some ?st\<rparr>"] by (cases m) (auto simp: case_prod_beta)
      moreover have "list_all frame_ok (xpool ?st)"
        using new frames fill_frame_ok[OF frames(1) b] by simp
      moreover have "buffers_in held ?st = buffers_in held st"
        using new m inv(1) pos by (cases m) (auto simp: buffers_in_def)
      ultimately show ?thesis using 3(1) by simp
    qed
  qed
qed

lemma recv_state:
  assumes "rings_ok sys held" "xdp_inv held s" "XdpSocket_recv sys buf s = Some (r, buf', s')"
  shows "case xstate s' of None \<Rightarrow> True
         | Some st' \<Rightarrow> xpending st' = [] \<and> list_all frame_ok (xpool st') \<and>
             (\<exists>st. xstate s = Some st \<and> buffers_in held st' \<le> buffers_in held st \<and> buffers_in held st \<le> buffers_in held st' + 1)"
proof -
  let ?fb = "\<lambda>s. case udp_recv sys buf (udp s) of (r, buf, u) \<Rightarrow> (r, buf, s\<lparr>udp := u\<rparr>)"
  have fb: "xstate (snd (snd (?fb x))) = xstate x" for x by (simp add: case_prod_beta)
  show ?thesis
  proof (cases "xstate s")
    case None
    with assms(3) fb[of s] show ?thesis by (simp add: XdpSocket_recv_def case_prod_beta)
  next
    case (Some st)
    have inv: "xpending st = []" "list_all frame_ok (xpool st)" using assms(2) Some by (simp_all add: xdp_inv_def)
    obtain t q k where t: "rx_try_recv sys 1 (rings st) = (t, q, k)" by (rule prod_cases3)
    show ?thesis
    proof (cases t)
      case (Inl e)
      with assms(3) Some t have "s' = snd (snd (?fb (s\<lparr>xstate := None\<rparr>)))" by (simp add: XdpSocket_recv_def case_prod_beta)
      then show ?thesis using fb[of "s\<lparr>xstate := None\<rparr>"] by simp
    next
      case (Inr m)
      then have m: "length q = m" "m \<le> 1" "held k + m = held (rings st)" using rings_okD(8)[OF assms(1), of 1 "rings st" m q k] t by simp_all
      have "\<exists>k'. xstate s' = Some (st\<lparr>rings := k'\<rparr>) \<and> held k' \<le> held (rings st) \<and> held (rings st) \<le> held k' + 1"
      proof (cases q)
        case Nil
        with assms(3) Some t Inr m have "s' = snd (snd (?fb (s\<lparr>xstate := Some (st\<lparr>rings := k\<rparr>)\<rparr>)))"
          by (simp add: XdpSocket_recv_def case_prod_beta)
        then show ?thesis using fb[of "s\<lparr>xstate := Some (st\<lparr>rings := k\<rparr>)\<rparr>"] m Nil by auto
      next
        case (Cons b q')
        obtain left k' where f: "fq_fill sys [b] 1 k = (left, k')" by (rule prod.exhaust)
        have "xstate s' = Some (st\<lparr>rings := k'\<rparr>)"
          using assms(3) Some t Inr m Cons f by (auto simp: XdpSocket_recv_def Let_def Option.bind_eq_Some_conv)
        moreover have "length left + held k' = 1 + held k" "length left \<le> 1" using rings_okD(5)[OF assms(1) f] by simp_all
        ultimately show ?thesis using m Cons by (intro exI[of _ k']) auto
      qed
      then show ?thesis using inv Some by (auto simp: buffers_in_def)
    qed
  qed
qed

lemma xdp_reach_inv:
  assumes "rings_ok sys held"
  shows "xdp_reach sys s \<Longrightarrow> xdp_inv held s"
proof (induction rule: xdp_reach.induct)
  case (xdp_new bnd remote s)
  then show ?case using init_state_ok[OF assms] by (auto simp: XdpSocket_new_def xdp_inv_def split: sum.splits)
next
  case (xdp_reconfigure s bnd remote r s')
  then show ?case using init_state_ok[OF assms] by (auto simp: XdpSocket_reconfigure_def xdp_inv_def Let_def split: sum.splits)
next
  case (xdp_send s bufs r s')
  then show ?case using send_state[OF assms, of s bufs r s'] by (auto simp: xdp_inv_def split: option.splits)
next
  case (xdp_recv s buf r buf' s')
  then show ?case using recv_state[OF assms, of s buf r buf' s'] by (auto simp: xdp_inv_def split: option.splits)
qed (auto simp: XdpSocket_new_udp_def XdpSocket_update_remote_def xdp_inv_def split: sum.splits prod.splits)

lemma send_single:
  assumes "xdp_inv held s"
  shows "XdpSocket_send sys [d] s \<noteq> None"
proof -
  consider "xstate s = None" | st where "xstate s = Some st" "xpool st = []" | st where "xstate s = Some st" "xpool st \<noteq> []"
    by (cases "xstate s") auto
  then show ?thesis
  proof cases
    case (3 st)
    then have "frame_ok (last (xpool st))" using assms by (simp add: xdp_inv_def list_all_iff)
    then show ?thesis using fill_frame_single[of "last (xpool st)" d] 3 by (auto simp: XdpSocket_send_def Let_def case_prod_beta)
  qed (simp_all add: XdpSocket_send_def)
qed

lemma recv_total:
  assumes "rings_ok sys held"
  shows "XdpSocket_recv sys buf s \<noteq> None"
proof (cases "xstate s")
  case (Some st)
  obtain t q k where t: "rx_try_recv sys 1 (rings st) = (t, q, k)" by (rule prod_cases3)
  consider e where "t = Inl e" | "t = Inr 0" | m where "t = Inr m" "0 < m" "q = []" | m b q' where "t = Inr m" "0 < m" "q = b # q'"
    by (cases t; cases q) auto
  then show ?thesis
  proof cases
    case (4 m b q')
    then have "frame_ok b" using rings_okD(8)[OF assms, of 1 "rings st" m q k] t by simp
    then show ?thesis using Some t 4 by (auto simp: XdpSocket_recv_def Let_def slice_def copy_at_def frame_ok_def case_prod_beta)
  qed (use Some t in \<open>simp_all add: XdpSocket_recv_def\<close>)
qed (simp add: XdpSocket_recv_def)

subsection \<open>Properties\<close>

text \<open>C33: ownership of the frame buffers. Whatever operations a socket has gone through, with rings that keep their
  contract, an active socket has no frame pending between calls, every pooled frame has 2048 bytes, and at most the 4096
  frames of the mapped area exist in pool and rings; sending a slice and receiving never panic; a send loses no frame, and
  a reception at most one (the frame it could not put back into the fill queue).\<close>

theorem xdp_buffers:
  assumes "rings_ok sys held" "xdp_reach sys s"
  shows "(\<forall>st. xstate s = Some st \<longrightarrow> xpending st = [] \<and> list_all frame_ok (xpool st) \<and> buffers_in held st \<le> 4096) \<and>
         (\<exists>r s'. XdpSocket_send sys [d] s = Some (r, s') \<and>
            (\<forall>st'. xstate s' = Some st' \<longrightarrow> (\<exists>st. xstate s = Some st \<and> buffers_in held st' = buffers_in held st))) \<and>
         (\<exists>r buf' s'. XdpSocket_recv sys buf s = Some (r, buf', s') \<and>
            (\<forall>st'. xstate s' = Some st' \<longrightarrow> (\<exists>st. xstate s = Some st \<and>
               buffers_in held st' \<le> buffers_in held st \<and> buffers_in held st \<le> buffers_in held st' + 1)))"
proof -
  have inv: "xdp_inv held s" using xdp_reach_inv[OF assms] .
  obtain r s' where s: "XdpSocket_send sys [d] s = Some (r, s')" using send_single[OF inv, of sys d] by auto
  obtain r2 buf' s2 where r: "XdpSocket_recv sys buf s = Some (r2, buf', s2)" using recv_total[OF assms(1), of buf s] by auto
  from inv s r send_state[OF assms(1) inv s] recv_state[OF assms(1) inv r] show ?thesis
    by (auto simp: xdp_inv_def split: option.splits)
qed

text \<open>A system whose rings accept every frame and return it at once, for concrete instances; \<open>'k\<close> counts the frames held.\<close>

definition sample_frame :: BufMmap where
  "sample_frame = \<lparr>buf_data = replicate 2048 0, buf_len = 0\<rparr>"

definition sample_sys :: "(bytes list, nat) xdp_sys" where
  "sample_sys =
     \<lparr>udp_bind = \<lambda>_. Inr [], udp_connect = \<lambda>_ u. (Inr (), u), set_nonblocking = \<lambda>_. Inr (),
      net = \<lparr>sendmsg = \<lambda>_ bs u. (int (length (concat bs)), u @ [concat bs]), recvmsg = \<lambda>_ u. (-1, [], None, u), last_os_error = \<lambda>_. ''again''\<rparr>,
      env_iface = None, mmap_area = \<lambda>n m. Some (replicate n \<lparr>buf_data = replicate m 0, buf_len = 0\<rparr>),
      umem_new = Inr 0, xsk_new = \<lambda>_ k. Inr k,
      fq_fill = \<lambda>bs n k. (take 2048 bs, k + (length bs - 2048)),
      tx_try_send = \<lambda>ps n k. (Inr (min n (length ps)), drop n ps, k + min n (length ps)),
      cq_service = \<lambda>ps n k. (ps @ replicate (min n k) sample_frame, k - min n k),
      rx_try_recv = \<lambda>n k. (Inr 0, [], k), pending_len = 16\<rparr>"

lemma sample_rings: "rings_ok sample_sys id"
proof -
  have f: "frame_ok sample_frame" by (simp add: frame_ok_def sample_frame_def)
  then have "frame_ok \<lparr>buf_data = replicate 2048 0, buf_len = 0\<rparr>" by (simp add: sample_frame_def)
  moreover have "drop n ps = drop (min n (length ps)) ps" for n and ps :: "BufMmap list" by (simp add: min_def)
  ultimately show ?thesis
    using f by (auto simp: rings_ok_def init_ok_def fill_ok_def try_send_ok_def service_ok_def try_recv_ok_def sample_sys_def
        list_all_iff dest: in_set_takeD)
qed

theorem xdp_buffers_witness:
  "\<exists>s st. XdpSocket_new sample_sys (IpV4 127 0 0 1, 4433) (IpV4 127 0 0 1, 4433) = Inr s \<and> xstate s = Some st \<and> buffers_in id st \<le> 4096 \<and>
     (\<exists>r s'. XdpSocket_send sample_sys [[1, 2]] s = Some (r, s'))"
proof -
  obtain s st where s: "XdpSocket_new sample_sys (IpV4 127 0 0 1, 4433) (IpV4 127 0 0 1, 4433) = Inr s" "xstate s = Some st"
    by (auto simp: XdpSocket_new_def open_udp_def init_state_def sample_sys_def)
  from xdp_buffers[OF sample_rings xdp_new[OF s(1)], of "[1, 2]"] s show ?thesis by blast
qed

text \<open>A socket without rings (a build without the feature, a kernel without support, or after an error of the
  rings) behaves in every operation like the plain UDP socket: it refines it.\<close>

lemma inactive_is_udp:
  assumes "\<not> is_active s"
  shows "XdpSocket_send sys bufs s = Some (map_prod id (\<lambda>t. s\<lparr>udp := socket t\<rparr>) (UdpSocket_send sys bufs \<lparr>socket = udp s\<rparr>)) \<and>
         XdpSocket_recv sys buf s =
           Some (map_prod id (map_prod id (\<lambda>t. s\<lparr>udp := socket t\<rparr>)) (UdpSocket_recv sys buf \<lparr>socket = udp s\<rparr>)) \<and>
         XdpSocket_update_remote sys remote s =
           map_prod id (\<lambda>t. s\<lparr>udp := socket t\<rparr>) (UdpSocket_update_remote sys remote \<lparr>socket = udp s\<rparr>) \<and>
         ((\<exists>e. XdpSocket_new sys bnd remote = Inl e) \<longleftrightarrow> (\<exists>e. UdpSocket_new sys bnd remote = Inl e)) \<and>
         (\<forall>e. fst (XdpSocket_reconfigure sys bnd remote s) = Inl e \<longleftrightarrow>
              fst (UdpSocket_reconfigure sys bnd remote \<lparr>socket = udp s\<rparr>) = Inl e)"
  using assms
  by (auto simp: is_active_def XdpSocket_send_def UdpSocket_send_def XdpSocket_recv_def UdpSocket_recv_def
      XdpSocket_update_remote_def UdpSocket_update_remote_def XdpSocket_new_def UdpSocket_new_def
      XdpSocket_reconfigure_def UdpSocket_reconfigure_def case_prod_beta map_prod_def apsnd_def split: sum.splits)

text \<open>An active socket with a free frame hands the rings the first 2048 bytes of a slice and reports their number; what
  is beyond is lost.\<close>

lemma send_active:
  assumes "xdp_inv held s" "xstate s = Some st" "xpool st \<noteq> []" "0 < pending_len sys"
  shows "\<exists>b. take (unat (buf_len b)) (buf_data b) = take 2048 d \<and>
     (\<forall>ps k. tx_try_send sys [b] 1 (rings st) = (Inr 1, ps, k) \<longrightarrow> (\<exists>s'. XdpSocket_send sys [d] s = Some (Inr (min (length d) 2048), s')))"
proof -
  have "frame_ok (last (xpool st))" "xpending st = []" using assms(1-3) by (simp_all add: xdp_inv_def list_all_iff)
  then show ?thesis
    using fill_frame_single[of "last (xpool st)" d] assms(2-4)
    by (fastforce simp: XdpSocket_send_def Let_def push_wrapping_def case_prod_beta)
qed

text \<open>A connection with a packet socket sends a packet without its frame header. The socket is given exactly the
  payload, and the payload, read as a frame by the receiver, is never the packet that was sent: it is an
  error, or a packet with a shorter payload.\<close>

lemma xdp_frame_lost:
  assumes "xdp_socket c = Some x" "packet_ok bs pk" "data pk = Some d"
  shows "\<exists>r x' p. transmit pf api pk buf c = Some (r, buf, set_pool p (c\<lparr>xdp_socket := Some x'\<rparr>)) \<and>
           x' = snd (xdp_send api (take (len pk) d) x) \<and> v_payload (packet_view pk) = take (len pk) d \<and>
           (case parse_frame (take (len pk) d) of
              Inl e \<Rightarrow> True
            | Inr v \<Rightarrow> v \<noteq> packet_view pk \<and> length (v_payload v) < len pk)"
proof -
  have l: "len pk \<le> length d" using assms(2,3) by (simp add: packet_ok_def)
  then have "slice d 0 (len pk) = Some (take (len pk) d)" by (simp add: slice_def)
  then have t: "transmit pf api pk buf c =
      Some (case fst (xdp_send api (take (len pk) d) x) of Inl e \<Rightarrow> Inl (Fec e) | Inr _ \<Rightarrow> Inr (len pk), buf,
        set_pool (drop_packet (node pf) pk (memory_pool (optimization_manager c)))
          (c\<lparr>xdp_socket := Some (snd (xdp_send api (take (len pk) d) x))\<rparr>))"
    using assms(1,3) by (simp add: transmit_def Let_def case_prod_beta)
  have view: "v_payload (packet_view pk) = take (len pk) d" using assms(3) by (simp add: packet_view_def)
  have short: "parse_frame w = Inr v \<Longrightarrow> length (v_payload v) < length w" for w v
    by (auto simp: parse_frame_def Let_def split: if_splits)
  show ?thesis
    using t view short[of "take (len pk) d"] l by (fastforce split: sum.split)
qed

end
