(* ===== verification/Socket_Telemetry.thy ===== *)
theory Socket_Telemetry
  imports Telemetry Xdp_Socket
begin

text \<open>
  The metrics of the packet sockets (\<open>src/src/xdp_socket.rs\<close>): the operations of \<open>XdpSocket\<close> with the calls
  they make. The readings of the clock after a transfer are an argument, in microseconds.

  The theory shows that the operations have the outcome of those without metrics, that the gauge
  \<open>XDP_ACTIVE\<close> follows the state of a socket except after a reconfiguration that fails, and that the byte
  counters add up to what the socket reports as transferred.
\<close>

definition udp_send_t ::
  "metrics_env \<Rightarrow> ('u, 'k) xdp_sys \<Rightarrow> bytes list \<Rightarrow> ('u, 'k) XdpSocket \<Rightarrow> telemetry \<Rightarrow>
   ((string + nat) \<times> ('u, 'k) XdpSocket \<times> telemetry) option" where
  "udp_send_t P sys buffers s t =
     (case udp_send sys buffers (udp s) of
        (Inl e, u) \<Rightarrow> Some (Inl e, s\<lparr>udp := u\<rparr>, t)
      | (Inr n, u) \<Rightarrow> do { t \<leftarrow> tel P (Inc_by BYTES_SENT (of_nat n)) t; Some (Inr n, s\<lparr>udp := u\<rparr>, t) })"

definition udp_recv_t ::
  "metrics_env \<Rightarrow> ('u, 'k) xdp_sys \<Rightarrow> bytes \<Rightarrow> ('u, 'k) XdpSocket \<Rightarrow> telemetry \<Rightarrow>
   ((string + nat) \<times> bytes \<times> ('u, 'k) XdpSocket \<times> telemetry) option" where
  "udp_recv_t P sys buf s t =
     (case udp_recv sys buf (udp s) of
        (Inl e, buf, u) \<Rightarrow> Some (Inl e, buf, s\<lparr>udp := u\<rparr>, t)
      | (Inr n, buf, u) \<Rightarrow> do { t \<leftarrow> tel P (Inc_by BYTES_RECEIVED (of_nat n)) t; Some (Inr n, buf, s\<lparr>udp := u\<rparr>, t) })"

text \<open>The metrics of a failure of the rings, and those of a frame of \<open>n\<close> bytes; the clock is read twice.\<close>

definition fallback_metrics :: "metrics_env \<Rightarrow> telemetry \<Rightarrow> telemetry option" where
  "fallback_metrics P t = do { t \<leftarrow> tel P (Inc XDP_FALLBACKS) t; tel P (Set_to XDP_ACTIVE 0) t }"

definition frame_metrics ::
  "metrics_env \<Rightarrow> metric \<Rightarrow> metric \<Rightarrow> nat \<times> nat \<Rightarrow> nat \<Rightarrow> telemetry \<Rightarrow> telemetry option" where
  "frame_metrics P byte_count latency micros n t = do {
     t \<leftarrow> tel P (Inc_by byte_count (of_nat n)) t;
     t \<leftarrow> tel P (Inc_by latency (of_nat (fst micros))) t;
     let tput = n * 8 * 1000000 div max (snd micros) 1;
     tel P (Set_to XDP_THROUGHPUT (of_nat (tput div 1000000))) t }"

definition XdpSocket_new_udp_t ::
  "metrics_env \<Rightarrow> ('u, 'k) xdp_sys \<Rightarrow> SocketAddr \<Rightarrow> SocketAddr \<Rightarrow> telemetry \<Rightarrow>
   ((string + ('u, 'k) XdpSocket) \<times> telemetry) option" where
  "XdpSocket_new_udp_t P sys bnd remote t =
     (case open_udp sys bnd remote of
        Inl e \<Rightarrow> Some (Inl e, t)
      | Inr u \<Rightarrow> do { t \<leftarrow> tel P (Set_to XDP_ACTIVE 0) t; Some (Inr \<lparr>udp = u, xstate = None\<rparr>, t) })"

definition XdpSocket_new_t ::
  "metrics_env \<Rightarrow> ('u, 'k) xdp_sys \<Rightarrow> SocketAddr \<Rightarrow> SocketAddr \<Rightarrow> telemetry \<Rightarrow>
   ((string + ('u, 'k) XdpSocket) \<times> telemetry) option" where
  "XdpSocket_new_t P sys bnd remote t =
     (case open_udp sys bnd remote of
        Inl e \<Rightarrow> Some (Inl e, t)
      | Inr u \<Rightarrow>
          (case init_state sys (infer_iface sys bnd) of
             Inr st \<Rightarrow> do { t \<leftarrow> tel P (Set_to XDP_ACTIVE 1) t; Some (Inr \<lparr>udp = u, xstate = Some st\<rparr>, t) }
           | Inl e \<Rightarrow> do { t \<leftarrow> fallback_metrics P t; Some (Inr \<lparr>udp = u, xstate = None\<rparr>, t) }))"

definition XdpSocket_reconfigure_t ::
  "metrics_env \<Rightarrow> ('u, 'k) xdp_sys \<Rightarrow> SocketAddr \<Rightarrow> SocketAddr \<Rightarrow> ('u, 'k) XdpSocket \<Rightarrow> telemetry \<Rightarrow>
   ((string + unit) \<times> ('u, 'k) XdpSocket \<times> telemetry) option" where
  "XdpSocket_reconfigure_t P sys bnd remote s t =
     (let s = s\<lparr>xstate := None\<rparr>
      in case open_udp sys bnd remote of
           Inl e \<Rightarrow> Some (Inl e, s, t)
         | Inr u \<Rightarrow>
             (case init_state sys (infer_iface sys bnd) of
                Inr st \<Rightarrow> do { t \<leftarrow> tel P (Set_to XDP_ACTIVE 1) t; Some (Inr (), s\<lparr>udp := u, xstate := Some st\<rparr>, t) }
              | Inl e \<Rightarrow> do { t \<leftarrow> fallback_metrics P t; Some (Inr (), s\<lparr>udp := u\<rparr>, t) }))"

definition XdpSocket_send_t ::
  "metrics_env \<Rightarrow> ('u, 'k) xdp_sys \<Rightarrow> nat \<times> nat \<Rightarrow> bytes list \<Rightarrow> ('u, 'k) XdpSocket \<Rightarrow> telemetry \<Rightarrow>
   ((string + nat) \<times> ('u, 'k) XdpSocket \<times> telemetry) option" where
  "XdpSocket_send_t P sys micros buffers s t =
     (case xstate s of
        None \<Rightarrow> udp_send_t P sys buffers s t
      | Some st \<Rightarrow>
          if xpool st = [] then udp_send_t P sys buffers s t
          else do {
            (copy_len, b) \<leftarrow> fill_frame buffers (last (xpool st));
            let pending = push_wrapping (pending_len sys) (xpending st) b;
            let (r, pending, k) = tx_try_send sys pending 1 (rings st);
            let sent = (case r of Inl _ \<Rightarrow> 0 | Inr n \<Rightarrow> n);
            let (pool, k) = cq_service sys (butlast (xpool st)) sent k;
            if sent = 1
            then do {
              t \<leftarrow> frame_metrics P XDP_BYTES_SENT XDP_SEND_LATENCY micros copy_len t;
              Some (Inr copy_len, s\<lparr>xstate := Some \<lparr>rings = k, xpool = pool, xpending = pending\<rparr>\<rparr>, t) }
            else (case r of
                    Inl _ \<Rightarrow> do { t \<leftarrow> fallback_metrics P t; udp_send_t P sys buffers (s\<lparr>xstate := None\<rparr>) t }
                  | Inr _ \<Rightarrow> udp_send_t P sys buffers
                      (s\<lparr>xstate := Some \<lparr>rings = k, xpool = pool @ pending, xpending = []\<rparr>\<rparr>) t) })"

definition XdpSocket_recv_t ::
  "metrics_env \<Rightarrow> ('u, 'k) xdp_sys \<Rightarrow> nat \<times> nat \<Rightarrow> bytes \<Rightarrow> ('u, 'k) XdpSocket \<Rightarrow> telemetry \<Rightarrow>
   ((string + nat) \<times> bytes \<times> ('u, 'k) XdpSocket \<times> telemetry) option" where
  "XdpSocket_recv_t P sys micros buf s t =
     (case xstate s of
        None \<Rightarrow> udp_recv_t P sys buf s t
      | Some st \<Rightarrow>
          (case rx_try_recv sys 1 (rings st) of
             (Inl _, q, k) \<Rightarrow> do { t \<leftarrow> fallback_metrics P t; udp_recv_t P sys buf (s\<lparr>xstate := None\<rparr>) t }
           | (Inr n, q, k) \<Rightarrow>
               (case (n > 0, q) of
                  (True, b # _) \<Rightarrow> do {
                    let copy_len = min (unat (buf_len b)) (length buf);
                    src \<leftarrow> slice (buf_data b) 0 copy_len;
                    buf \<leftarrow> copy_at buf 0 copy_len src;
                    let (_, k) = fq_fill sys [b] 1 k;
                    t \<leftarrow> frame_metrics P XDP_BYTES_RECEIVED XDP_RECV_LATENCY micros copy_len t;
                    Some (Inr copy_len, buf, s\<lparr>xstate := Some (st\<lparr>rings := k\<rparr>)\<rparr>, t) }
                | _ \<Rightarrow> udp_recv_t P sys buf (s\<lparr>xstate := Some (st\<lparr>rings := k\<rparr>)\<rparr>) t)))"

subsection \<open>What the operations do to the metrics\<close>

text \<open>The gauge shows whether the socket uses the rings.\<close>

definition active_shown :: "('u, 'k) XdpSocket \<Rightarrow> telemetry \<Rightarrow> bool" where
  "active_shown s t \<longleftrightarrow> gauge XDP_ACTIVE t = Some (if is_active s then 1 else 0)"

definition bytes_sent :: "telemetry \<Rightarrow> nat" where
  "bytes_sent t = counted BYTES_SENT t + counted XDP_BYTES_SENT t"

definition bytes_received :: "telemetry \<Rightarrow> nat" where
  "bytes_received t = counted BYTES_RECEIVED t + counted XDP_BYTES_RECEIVED t"

text \<open>What a transfer reports, as far as it fits a counter.\<close>

fun transferred :: "string + nat \<Rightarrow> nat" where
  "transferred (Inl e) = 0"
| "transferred (Inr n) = n mod 2 ^ 64"

text \<open>The metrics of one operation: \<open>ns\<close> bytes sent, \<open>nr\<close> received, and the new value of the gauge if it was set.\<close>

definition step_metrics :: "nat \<Rightarrow> nat \<Rightarrow> bool option \<Rightarrow> telemetry \<Rightarrow> telemetry \<Rightarrow> bool" where
  "step_metrics ns nr act t t' \<longleftrightarrow> TELEMETRY_ENABLED t' = TELEMETRY_ENABLED t \<and>
     (TELEMETRY_ENABLED t \<longrightarrow> bytes_sent t' = bytes_sent t + ns \<and> bytes_received t' = bytes_received t + nr \<and>
        gauge XDP_ACTIVE t' = (case act of None \<Rightarrow> gauge XDP_ACTIVE t | Some b \<Rightarrow> Some (if b then 1 else 0)))"

lemmas step_simps = step_metrics_def bytes_sent_def bytes_received_def

lemma step_refl: "step_metrics 0 0 None t t"
  by (simp add: step_simps)

lemma step_trans:
  "step_metrics a b act t t1 \<Longrightarrow> step_metrics c d None t1 t2 \<Longrightarrow> step_metrics (a + c) (b + d) act t t2"
  by (auto simp: step_metrics_def)

lemma unat_of_nat_mod: "unat (of_nat n :: u64) = n mod 2 ^ 64"
  by (simp add: unat_of_nat)

lemma step_active:
  assumes "registry_ok (register P)"
  shows "\<exists>t'. tel P (Set_to XDP_ACTIVE 1) t = Some t' \<and> step_metrics 0 0 (Some True) t t'"
    and "\<exists>t'. tel P (Set_to XDP_ACTIVE 0) t = Some t' \<and> step_metrics 0 0 (Some False) t t'"
    and "\<exists>t'. fallback_metrics P t = Some t' \<and> step_metrics 0 0 (Some False) t t'"
  by (simp_all add: fallback_metrics_def tel_ok[OF assms] step_simps)

lemma step_sent:
  assumes "registry_ok (register P)"
  shows "\<exists>t'. tel P (Inc_by BYTES_SENT (of_nat n)) t = Some t' \<and> step_metrics (n mod 2 ^ 64) 0 None t t'"
    and "\<exists>t'. frame_metrics P XDP_BYTES_SENT XDP_SEND_LATENCY micros n t = Some t' \<and> step_metrics (n mod 2 ^ 64) 0 None t t'"
  by (simp_all add: frame_metrics_def Let_def tel_ok[OF assms] step_simps unat_of_nat_mod)

lemma step_received:
  assumes "registry_ok (register P)"
  shows "\<exists>t'. tel P (Inc_by BYTES_RECEIVED (of_nat n)) t = Some t' \<and> step_metrics 0 (n mod 2 ^ 64) None t t'"
    and "\<exists>t'. frame_metrics P XDP_BYTES_RECEIVED XDP_RECV_LATENCY micros n t = Some t' \<and> step_metrics 0 (n mod 2 ^ 64) None t t'"
  by (simp_all add: frame_metrics_def Let_def tel_ok[OF assms] step_simps unat_of_nat_mod)

lemma udp_send_t_ok:
  assumes "registry_ok (register P)" "udp_send sys buffers (udp s) = (r, u)"
  shows "\<exists>t'. udp_send_t P sys buffers s t = Some (r, s\<lparr>udp := u\<rparr>, t') \<and> step_metrics (transferred r) 0 None t t'"
proof (cases r)
  case (Inl e)
  with assms(2) step_refl[of t] show ?thesis by (simp add: udp_send_t_def)
next
  case (Inr n)
  with assms(2) step_sent(1)[OF assms(1), of n t] show ?thesis by (auto simp: udp_send_t_def)
qed

lemma udp_recv_t_ok:
  assumes "registry_ok (register P)" "udp_recv sys buf (udp s) = (r, buf', u)"
  shows "\<exists>t'. udp_recv_t P sys buf s t = Some (r, buf', s\<lparr>udp := u\<rparr>, t') \<and> step_metrics 0 (transferred r) None t t'"
proof (cases r)
  case (Inl e)
  with assms(2) step_refl[of t] show ?thesis by (simp add: udp_recv_t_def)
next
  case (Inr n)
  with assms(2) step_received(1)[OF assms(1), of n t] show ?thesis by (auto simp: udp_recv_t_def)
qed

lemma XdpSocket_send_t_ok:
  assumes reg: "registry_ok (register P)" and send: "XdpSocket_send sys buffers s = Some (r, s')"
  shows "\<exists>act t'. XdpSocket_send_t P sys micros buffers s t = Some (r, s', t') \<and>
     step_metrics (transferred r) 0 act t t' \<and>
     (case act of None \<Rightarrow> is_active s' = is_active s | Some b \<Rightarrow> is_active s' = b)"
proof -
  have udp: "\<exists>t'. udp_send_t P sys buffers s1 t1 = Some (r, s', t') \<and> step_metrics (transferred r) 0 None t1 t' \<and> xstate s' = xstate s1"
    if "(case udp_send sys buffers (udp s1) of (r, u) \<Rightarrow> (r, s1\<lparr>udp := u\<rparr>)) = (r, s')" for s1 t1
    using that udp_send_t_ok[OF reg, of sys buffers s1 r _ t1] by (auto split: prod.splits)
  show ?thesis
  proof (cases "xstate s = None \<or> xpool (the (xstate s)) = []")
    case True
    then have "XdpSocket_send_t P sys micros buffers s t = udp_send_t P sys buffers s t"
      "(case udp_send sys buffers (udp s) of (r, u) \<Rightarrow> (r, s\<lparr>udp := u\<rparr>)) = (r, s')"
      using send by (cases "xstate s"; simp add: XdpSocket_send_def XdpSocket_send_t_def Let_def)+
    with udp[of s t] show ?thesis by (intro exI[of _ None]) (auto simp: is_active_def)
  next
    case False
    then obtain st where st: "xstate s = Some st" "xpool st \<noteq> []" by auto
    with send obtain n b where b: "fill_frame buffers (last (xpool st)) = Some (n, b)"
      by (auto simp: XdpSocket_send_def Let_def bind_eq_Some_conv)
    obtain x pend k where tx: "tx_try_send sys (push_wrapping (pending_len sys) (xpending st) b) 1 (rings st) = (x, pend, k)"
      by (rule prod_cases3)
    obtain pool k' where cq: "cq_service sys (butlast (xpool st)) (case x of Inl _ \<Rightarrow> 0 | Inr n \<Rightarrow> n) k = (pool, k')"
      by (rule prod.exhaust)
    consider (sent) "x = Inr 1" | (err) e where "x = Inl e" | (none) m where "x = Inr m" "m \<noteq> 1"
      by (cases x) auto
    then show ?thesis
    proof cases
      case sent
      with send st b tx cq have "r = Inr n" "s' = s\<lparr>xstate := Some \<lparr>rings = k', xpool = pool, xpending = pend\<rparr>\<rparr>"
        by (auto simp: XdpSocket_send_def Let_def)
      with sent st b tx cq step_sent(2)[OF reg, of micros n t] show ?thesis
        by (intro exI[of _ None]) (auto simp: XdpSocket_send_t_def Let_def is_active_def)
    next
      case err
      with send st b tx cq have "(case udp_send sys buffers (udp s) of (r, u) \<Rightarrow> (r, s\<lparr>xstate := None, udp := u\<rparr>)) = (r, s')"
        by (auto simp: XdpSocket_send_def Let_def split: prod.splits)
      then have fb: "(case udp_send sys buffers (udp (s\<lparr>xstate := None\<rparr>)) of (r, u) \<Rightarrow> (r, (s\<lparr>xstate := None\<rparr>)\<lparr>udp := u\<rparr>)) = (r, s')"
        by simp
      obtain t1 where t1: "fallback_metrics P t = Some t1" "step_metrics 0 0 (Some False) t t1"
        using step_active(3)[OF reg, of t] by blast
      from udp[OF fb, of t1] obtain t' where t': "udp_send_t P sys buffers (s\<lparr>xstate := None\<rparr>) t1 = Some (r, s', t')"
        "step_metrics (transferred r) 0 None t1 t'" "xstate s' = None" by auto
      from step_trans[OF t1(2) t'(2)] err st b tx cq t1 t' show ?thesis
        by (intro exI[of _ "Some False"] exI[of _ t']) (simp add: XdpSocket_send_t_def Let_def is_active_def)
    next
      case none
      let ?s1 = "s\<lparr>xstate := Some \<lparr>rings = k', xpool = pool @ pend, xpending = []\<rparr>\<rparr>"
      from none send st b tx cq have "(case udp_send sys buffers (udp ?s1) of (r, u) \<Rightarrow> (r, ?s1\<lparr>udp := u\<rparr>)) = (r, s')"
        by (auto simp: XdpSocket_send_def Let_def split: prod.splits)
      from udp[OF this, of t] none st b tx cq show ?thesis
        by (intro exI[of _ None]) (auto simp: XdpSocket_send_t_def Let_def is_active_def)
    qed
  qed
qed

lemma XdpSocket_recv_t_ok:
  assumes reg: "registry_ok (register P)" and recv: "XdpSocket_recv sys buf s = Some (r, buf', s')"
  shows "\<exists>act t'. XdpSocket_recv_t P sys micros buf s t = Some (r, buf', s', t') \<and>
     step_metrics 0 (transferred r) act t t' \<and>
     (case act of None \<Rightarrow> is_active s' = is_active s | Some b \<Rightarrow> is_active s' = b)"
proof -
  have udp: "\<exists>t'. udp_recv_t P sys buf s1 t1 = Some (r, buf', s', t') \<and> step_metrics 0 (transferred r) None t1 t' \<and> xstate s' = xstate s1"
    if "(case udp_recv sys buf (udp s1) of (r, b, u) \<Rightarrow> (r, b, s1\<lparr>udp := u\<rparr>)) = (r, buf', s')" for s1 t1
    using that udp_recv_t_ok[OF reg, of sys buf s1 r buf' _ t1] by (auto split: prod.splits)
  show ?thesis
  proof (cases "xstate s")
    case None
    then have "XdpSocket_recv_t P sys micros buf s t = udp_recv_t P sys buf s t"
      "(case udp_recv sys buf (udp s) of (r, b, u) \<Rightarrow> (r, b, s\<lparr>udp := u\<rparr>)) = (r, buf', s')"
      using recv by (simp_all add: XdpSocket_recv_def XdpSocket_recv_t_def Let_def)
    with udp[of s t] show ?thesis by (intro exI[of _ None]) (auto simp: is_active_def)
  next
    case (Some st)
    obtain x q k where rx: "rx_try_recv sys 1 (rings st) = (x, q, k)" by (rule prod_cases3)
    consider (err) e where "x = Inl e" | (frame) n b q' where "x = Inr n" "0 < n" "q = b # q'"
      | (none) n where "x = Inr n" "n = 0 \<or> q = []"
      by (cases x; cases q) auto
    then show ?thesis
    proof cases
      case err
      with recv Some rx have fb: "(case udp_recv sys buf (udp (s\<lparr>xstate := None\<rparr>)) of
          (r, b, u) \<Rightarrow> (r, b, (s\<lparr>xstate := None\<rparr>)\<lparr>udp := u\<rparr>)) = (r, buf', s')"
        by (auto simp: XdpSocket_recv_def Let_def split: prod.splits)
      obtain t1 where t1: "fallback_metrics P t = Some t1" "step_metrics 0 0 (Some False) t t1"
        using step_active(3)[OF reg, of t] by blast
      from udp[OF fb, of t1] obtain t' where t': "udp_recv_t P sys buf (s\<lparr>xstate := None\<rparr>) t1 = Some (r, buf', s', t')"
        "step_metrics 0 (transferred r) None t1 t'" "xstate s' = None" by auto
      from step_trans[OF t1(2) t'(2)] err Some rx t1 t' show ?thesis
        by (intro exI[of _ "Some False"] exI[of _ t']) (simp add: XdpSocket_recv_t_def is_active_def)
    next
      case frame
      let ?n = "min (unat (buf_len b)) (length buf)"
      obtain bs k' where fq: "fq_fill sys [b] 1 k = (bs, k')" by (rule prod.exhaust)
      with frame recv Some rx obtain src where src: "slice (buf_data b) 0 ?n = Some src" "copy_at buf 0 ?n src = Some buf'"
        "r = Inr ?n" "s' = s\<lparr>xstate := Some (st\<lparr>rings := k'\<rparr>)\<rparr>"
        by (auto simp: XdpSocket_recv_def Let_def bind_eq_Some_conv)
      obtain t' where "frame_metrics P XDP_BYTES_RECEIVED XDP_RECV_LATENCY micros ?n t = Some t'"
        "step_metrics 0 (transferred (Inr ?n)) None t t'"
        using step_received(2)[OF reg, of micros ?n t] by auto
      with src frame Some rx fq show ?thesis
        by (intro exI[of _ None] exI[of _ t']) (simp add: XdpSocket_recv_t_def Let_def is_active_def)
    next
      case none
      let ?s1 = "s\<lparr>xstate := Some (st\<lparr>rings := k\<rparr>)\<rparr>"
      from none recv Some rx have fb: "(case udp_recv sys buf (udp ?s1) of (r, b, u) \<Rightarrow> (r, b, ?s1\<lparr>udp := u\<rparr>)) = (r, buf', s')"
        by (cases "n = 0") (auto simp: XdpSocket_recv_def Let_def split: prod.splits)
      have "XdpSocket_recv_t P sys micros buf s t = udp_recv_t P sys buf ?s1 t"
        using none Some rx by (cases "n = 0") (auto simp: XdpSocket_recv_t_def split: list.split)
      with udp[OF fb, of t] Some show ?thesis by (intro exI[of _ None]) (auto simp: is_active_def)
    qed
  qed
qed

lemma XdpSocket_reconfigure_t_ok:
  assumes reg: "registry_ok (register P)" and rc: "XdpSocket_reconfigure sys bnd remote s = (r, s')"
  shows "\<exists>act t'. XdpSocket_reconfigure_t P sys bnd remote s t = Some (r, s', t') \<and> step_metrics 0 0 act t t' \<and>
     (case r of Inl e \<Rightarrow> t' = t \<and> \<not> is_active s' | Inr _ \<Rightarrow> act = Some (is_active s'))"
proof (cases "open_udp sys bnd remote")
  case (Inl e)
  with rc step_refl[of t] show ?thesis
    by (intro exI[of _ None]) (auto simp: XdpSocket_reconfigure_def XdpSocket_reconfigure_t_def is_active_def)
next
  case (Inr u)
  show ?thesis
  proof (cases "init_state sys (infer_iface sys bnd)")
    case (Inl e)
    with rc Inr step_active(3)[OF reg, of t] show ?thesis
      by (auto simp: XdpSocket_reconfigure_def XdpSocket_reconfigure_t_def is_active_def Let_def)
  next
    case (Inr st)
    with rc \<open>open_udp sys bnd remote = Inr u\<close> step_active(1)[OF reg, of t] show ?thesis
      by (auto simp: XdpSocket_reconfigure_def XdpSocket_reconfigure_t_def is_active_def Let_def)
  qed
qed

lemma XdpSocket_new_t_ok:
  assumes reg: "registry_ok (register P)" and new: "XdpSocket_new sys bnd remote = Inr s"
  shows "\<exists>t'. XdpSocket_new_t P sys bnd remote t = Some (Inr s, t') \<and> step_metrics 0 0 (Some (is_active s)) t t'"
proof -
  obtain u where u: "open_udp sys bnd remote = Inr u" using new by (auto simp: XdpSocket_new_def split: sum.splits)
  with new step_active[OF reg, of t] show ?thesis
    by (cases "init_state sys (infer_iface sys bnd)")
      (auto simp: XdpSocket_new_def XdpSocket_new_t_def is_active_def)
qed

subsection \<open>Histories of a socket\<close>

datatype sock_op = Send "bytes list" "nat \<times> nat" | Recv bytes "nat \<times> nat" | Reconfigure SocketAddr SocketAddr

fun sock_run ::
  "('u, 'k) xdp_sys \<Rightarrow> metrics_env \<Rightarrow> sock_op \<Rightarrow> ('u, 'k) XdpSocket \<Rightarrow> telemetry \<Rightarrow> (('u, 'k) XdpSocket \<times> telemetry) option" where
  "sock_run sys P (Send bufs micros) s t = map_option snd (XdpSocket_send_t P sys micros bufs s t)"
| "sock_run sys P (Recv buf micros) s t = map_option (snd \<circ> snd) (XdpSocket_recv_t P sys micros buf s t)"
| "sock_run sys P (Reconfigure bnd remote) s t = map_option snd (XdpSocket_reconfigure_t P sys bnd remote s t)"

fun sock_plain :: "('u, 'k) xdp_sys \<Rightarrow> sock_op \<Rightarrow> ('u, 'k) XdpSocket \<Rightarrow> ('u, 'k) XdpSocket option" where
  "sock_plain sys (Send bufs micros) s = map_option snd (XdpSocket_send sys bufs s)"
| "sock_plain sys (Recv buf micros) s = map_option (snd \<circ> snd) (XdpSocket_recv sys buf s)"
| "sock_plain sys (Reconfigure bnd remote) s = Some (snd (XdpSocket_reconfigure sys bnd remote s))"

text \<open>Reconfigurations succeed.\<close>

fun sock_fits :: "('u, 'k) xdp_sys \<Rightarrow> sock_op \<Rightarrow> ('u, 'k) XdpSocket \<Rightarrow> bool" where
  "sock_fits sys (Send bufs micros) s \<longleftrightarrow> True"
| "sock_fits sys (Recv buf micros) s \<longleftrightarrow> True"
| "sock_fits sys (Reconfigure bnd remote) s \<longleftrightarrow> fst (XdpSocket_reconfigure sys bnd remote s) = Inr ()"

lemma step_shown:
  assumes "step_metrics ns nr act t t'"
    "case act of None \<Rightarrow> is_active s' = is_active s | Some b \<Rightarrow> is_active s' = b"
    "TELEMETRY_ENABLED t" "active_shown s t"
  shows "active_shown s' t'"
  using assms by (cases act) (auto simp: step_metrics_def active_shown_def)

interpretation socket_metrics: instrumented "sock_run sys" "sock_plain sys" "sock_fits sys" active_shown
  for sys :: "('u, 'k) xdp_sys"
proof unfold_locales
  fix P x t and s s' :: "('u, 'k) XdpSocket"
  assume "metrics_env_ok P" and fits: "sock_fits sys x s" and pl: "sock_plain sys x s = Some s'"
  then have reg: "registry_ok (register P)" by (simp add: metrics_env_ok_def)
  have "\<exists>ns nr act t'. sock_run sys P x s t = Some (s', t') \<and> step_metrics ns nr act t t' \<and>
      (case act of None \<Rightarrow> is_active s' = is_active s | Some b \<Rightarrow> is_active s' = b)"
  proof (cases x)
    case (Send bufs micros)
    then obtain r where "XdpSocket_send sys bufs s = Some (r, s')" using pl by auto
    from XdpSocket_send_t_ok[OF reg this, of micros t] Send show ?thesis by fastforce
  next
    case (Recv buf micros)
    then obtain r buf' where "XdpSocket_recv sys buf s = Some (r, buf', s')" using pl by auto
    from XdpSocket_recv_t_ok[OF reg this, of micros t] Recv show ?thesis by fastforce
  next
    case (Reconfigure bnd remote)
    then have "XdpSocket_reconfigure sys bnd remote s = (Inr (), s')" using fits pl by (auto intro: prod_eqI)
    from XdpSocket_reconfigure_t_ok[OF reg this, of t] Reconfigure show ?thesis by fastforce
  qed
  then show "\<exists>t'. sock_run sys P x s t = Some (s', t') \<and> TELEMETRY_ENABLED t' = TELEMETRY_ENABLED t \<and>
      (TELEMETRY_ENABLED t \<longrightarrow> active_shown s t \<longrightarrow> active_shown s' t')"
    by (elim exE conjE) (auto simp: step_metrics_def intro: step_shown)
qed

subsection \<open>Property\<close>

text \<open>C34: with the metrics on, after every history of transfers and successful reconfigurations of a packet socket the
  operations have the outcome of those without metrics and the gauge \<open>XDP_ACTIVE\<close> tells whether the socket uses
  its rings; a reconfiguration that fails takes the rings away without a call on any metric, and the gauge
  goes on showing an active socket.\<close>

theorem xdp_active_gauge:
  assumes "registry_ok (register P)" "TELEMETRY_ENABLED t" "XdpSocket_new sys bnd remote = Inr s0"
    and "fits_all (sock_plain sys) (sock_fits sys) xs s0" "plain_all (sock_plain sys) xs s0 = Some s"
  shows "\<exists>t1 t'. XdpSocket_new_t P sys bnd remote t = Some (Inr s0, t1) \<and>
           run_all (sock_run sys) xs (s0, t1) = Some (s, t') \<and> active_shown s t' \<and>
           (\<forall>bnd' remote' e s'. is_active s \<and> XdpSocket_reconfigure sys bnd' remote' s = (Inl e, s') \<longrightarrow>
              XdpSocket_reconfigure_t P sys bnd' remote' s t' = Some (Inl e, s', t') \<and>
              \<not> is_active s' \<and> \<not> active_shown s' t')"
proof -
  from XdpSocket_new_t_ok[OF assms(1,3), of t] obtain t1 where t1:
    "XdpSocket_new_t P sys bnd remote t = Some (Inr s0, t1)" "step_metrics 0 0 (Some (is_active s0)) t t1" by blast
  then have "TELEMETRY_ENABLED t1" "active_shown s0 t1"
    using assms(2) by (simp_all add: step_metrics_def active_shown_def)
  with socket_metrics.history[OF assms(4,5), of t1] obtain t' where t':
    "run_all (sock_run sys) xs (s0, t1) = Some (s, t')" "active_shown s t'" by blast
  have "XdpSocket_reconfigure_t P sys bnd' remote' s t' = Some (Inl e, s', t') \<and> \<not> is_active s' \<and> \<not> active_shown s' t'"
    if "is_active s" "XdpSocket_reconfigure sys bnd' remote' s = (Inl e, s')" for bnd' remote' e s'
    using XdpSocket_reconfigure_t_ok[OF assms(1) that(2), of t'] that(1) t'(2) by (auto simp: active_shown_def)
  with t1(1) t' show ?thesis by blast
qed

definition sample_xdp :: "(bytes list, nat) XdpSocket" where
  "sample_xdp = projr (XdpSocket_new sample_sys (IpV4 127 0 0 1, 1) (IpV4 127 0 0 1, 2))"

lemma sample_xdp_new: "XdpSocket_new sample_sys (IpV4 127 0 0 1, 1) (IpV4 127 0 0 1, 2) = Inr sample_xdp"
  by (simp add: sample_xdp_def XdpSocket_new_def open_udp_def init_state_def sample_sys_def)

theorem xdp_active_gauge_witness:
  "\<exists>s t1 t'. XdpSocket_new_t example_env sample_sys (IpV4 127 0 0 1, 1) (IpV4 127 0 0 1, 2)
       (telemetry_init\<lparr>TELEMETRY_ENABLED := True\<rparr>) = Some (Inr sample_xdp, t1) \<and>
     run_all (sock_run sample_sys) [(example_env, Reconfigure (IpV4 127 0 0 1, 1) (IpV4 127 0 0 1, 3))] (sample_xdp, t1) = Some (s, t') \<and>
     is_active s \<and> gauge XDP_ACTIVE t' = Some 1"
proof -
  let ?op = "Reconfigure (IpV4 127 0 0 1, 1) (IpV4 127 0 0 1, 3)"
  obtain s where s: "XdpSocket_reconfigure sample_sys (IpV4 127 0 0 1, 1) (IpV4 127 0 0 1, 3) sample_xdp = (Inr (), s)"
    "is_active s"
    by (simp add: XdpSocket_reconfigure_def open_udp_def init_state_def is_active_def sample_sys_def Let_def)
  then have "fits_all (sock_plain sample_sys) (sock_fits sample_sys) [(example_env, ?op)] sample_xdp"
    "plain_all (sock_plain sample_sys) [(example_env, ?op)] sample_xdp = Some s"
    by (simp_all add: plain_all_def example_env_ok)
  from xdp_active_gauge[OF example_env_ok(2) _ sample_xdp_new this, of "telemetry_init\<lparr>TELEMETRY_ENABLED := True\<rparr>"] s(2)
  show ?thesis by (auto simp: active_shown_def)
qed

text \<open>The byte counters of both paths together grow by what the socket reports as sent or received.\<close>

lemma transfer_counters:
  assumes "registry_ok (register P)" "TELEMETRY_ENABLED t"
  shows "XdpSocket_send sys buffers s = Some (r, s') \<Longrightarrow>
      \<exists>t'. XdpSocket_send_t P sys micros buffers s t = Some (r, s', t') \<and> bytes_sent t' = bytes_sent t + transferred r"
    and "XdpSocket_recv sys buf s = Some (r, buf', s') \<Longrightarrow>
      \<exists>t'. XdpSocket_recv_t P sys micros buf s t = Some (r, buf', s', t') \<and> bytes_received t' = bytes_received t + transferred r"
  using XdpSocket_send_t_ok[OF assms(1), of sys buffers s r s' micros t]
    XdpSocket_recv_t_ok[OF assms(1), of sys buf s r buf' s' micros t] assms(2)
  by (auto simp: step_metrics_def)

end
