(* ===== verification/Spec2Isabelle.thy ===== *)
theory Spec2Isabelle
  imports
    Adaptive_Fec
    Application
    Block_Integrity
    Block_Leak
    Connection
    Connection_Properties
    Connection_Telemetry
    Cpu_Dispatch
    Crypto
    Csr_Matrix
    Dense_Matrix
    F32
    Fake_Tls
    Fec16
    Fec_Decoder
    Fec_Encoder
    Fec_Roundtrip
    Fec_Telemetry
    Fingerprint
    Gf16
    Gf_Field
    Gf_Tables
    Linear_Algebra
    Loss_Estimator
    Memory_Pool
    Mode_Manager
    Numa
    Obfuscation
    Packet
    Pool_Telemetry
    Post_Quantum
    Prelude
    Program
    Round_Progress
    Shift_Product
    Socket_Telemetry
    Startup
    Stealth
    Telemetry
    Tls_Ffi
    Wiedemann
    Window_Delivery
    Xdp_Socket
    Zero_Copy
begin

text \<open>
\<^bold>\<open>QuicFuscate\<close>: a QUIC tunnel with adaptive forward error correction and traffic obfuscation.

  This development models the program's own code under \<open>src/src/\<close>. It is read as it stands, in a debug build
  (unchecked arithmetic panics), and proved correct where it is; where the code does something else than it means to, a
  theorem says what it does.

  \<^bold>\<open>The parts and how they interact.\<close>
  The start-up code and event loops (\<open>main.rs\<close>) combine command line and configuration file, create connections, drive them in
  rounds and, on the server, rotate the imitated browser.
  A connection (\<open>core.rs\<close>) sits between the socket and the QUIC library quiche. On the way out a QUIC packet is written
  into a block of the memory pool (\<open>optimize.rs\<close>), obfuscated by the stealth manager (\<open>stealth.rs\<close>), given to the adaptive
  FEC layer (\<open>fec/adaptive.rs\<close>), which adds repair packets made by the encoder of the current mode
  (\<open>fec/decoder.rs\<close>), and framed (\<open>fec/encoder.rs\<close>), or handed unframed to a packet socket (\<open>xdp_socket.rs\<close>) if there is one. On the way in a frame is parsed, decoded,
  deobfuscated and handed to quiche. Once per round the connection reports loss to the FEC layer, whose estimator and mode
  manager choose mode and window; a change starts a cross-fade between the old and the new codec. The codecs compute in
  GF(2^8) or in 16-bit arithmetic (\<open>fec/gf_tables.rs\<close>) with kernels chosen by the detected CPU features. The
  stealth manager also prepares the TLS configuration (fingerprints, forged records of \<open>fake_tls.rs\<close>, the hooks of
  \<open>tls_ffi.rs\<close>) and headers. The cipher suites are in \<open>crypto.rs\<close>; \<open>pq.rs\<close> wraps post-quantum primitives that nothing calls.

  \<^bold>\<open>The theories.\<close>
  \<^item> \<open>Prelude\<close>: types, the option monad, slices and indexing that panic, strings, shared lemmas.
  \<^item> \<open>Cpu_Dispatch\<close> (\<open>optimize.rs\<close>: \<open>FeatureDetector\<close>, \<open>dispatch\<close>, \<open>dispatch_bitslice\<close>).
  \<^item> \<open>Gf_Tables\<close>, \<open>Shift_Product\<close>, \<open>Gf_Field\<close> (\<open>fec/gf_tables.rs\<close>): the table, shift, carry-less and slice products,
    the inverse and the table initialisation. The bytes with this product are an instance of the class \<open>field\<close>; without a
    carry-less kernel \<open>gf_mul\<close> is its product, with one it is another bilinear map, which is given. \<open>Gf16\<close>: the 16-bit routines, a ring that is no field.
    Both loops are interpretations of the locale \<open>shift_product\<close>.
  \<^item> \<open>Memory_Pool\<close> (\<open>optimize.rs\<close>: \<open>MemoryPool\<close>, \<open>OptimizeConfig\<close>, \<open>OptimizationManager\<close>): reachable pools give zeroed blocks
    of the configured size (locale \<open>block_allocator\<close>); when \<open>set_capacity\<close> ends. \<open>Numa\<close> (\<open>optimize.rs\<close>:
    module \<open>numa\<close>): nodes and the node of a thread, and what an unknown processor does to the pool.
  \<^item> \<open>Packet\<close> (\<open>fec/encoder.rs\<close>): framing as a refinement of the wire format, with its round trip.
  \<^item> \<open>Linear_Algebra\<close>: Cauchy systems and row operations over any field.
  \<^item> \<open>Fec_Encoder\<close>, \<open>Csr_Matrix\<close>, \<open>Dense_Matrix\<close>, \<open>Wiedemann\<close>, \<open>Fec_Decoder\<close> (\<open>fec/decoder.rs\<close>): the encoder window
    (locale \<open>sliding_window\<close>, shared with the 16-bit encoder, the codec variants and the loss estimator), repair packets, the flat CSR
    arrays as a refinement of sparse rows, block inversion, and both decoding strategies. Gauss-Jordan elimination is
    proved correct in the locales \<open>row_operations\<close> and \<open>solvable_rows\<close>. \<open>Fec_Roundtrip\<close>: encoder and decoder together.
    \<open>Fec16\<close>: the codec of the extreme mode and the choice of a codec.
  \<^item> \<open>F32\<close>: single-precision rounding. \<open>Loss_Estimator\<close>, \<open>Mode_Manager\<close>, \<open>Adaptive_Fec\<close> (\<open>fec/adaptive.rs\<close>, the Kalman filter
    of \<open>fec/mod.rs\<close>): estimator, configuration, controller, mode selection and the layer itself, whose
    reachable states are the inductive predicate \<open>fec_reach\<close>.
  \<^item> \<open>Crypto\<close> (\<open>crypto.rs\<close>; the locale \<open>cipher\<close> is interpreted for each of the six suites and for the selector), \<open>Post_Quantum\<close>
    (\<open>pq.rs\<close>), \<open>Fingerprint\<close>, \<open>Obfuscation\<close>, \<open>Stealth\<close> (\<open>stealth.rs\<close>), \<open>Fake_Tls\<close> (\<open>fake_tls.rs\<close>), \<open>Tls_Ffi\<close>
    (\<open>tls_ffi.rs\<close>).
  \<^item> \<open>Connection\<close>, \<open>Connection_Properties\<close> (\<open>core.rs\<close>, \<open>error.rs\<close>): all operations of a connection; reachable connections
    are \<open>conn_reach\<close>. \<open>Block_Integrity\<close>: the sizes of all blocks in pool, queue and codecs. \<open>Window_Delivery\<close>: a whole window over the wire, from the repair packets of one side to the QUIC library of the
    other. \<open>Block_Leak\<close>: the pool blocks that the repair packets of an abandoned window keep.
  \<^item> \<open>Zero_Copy\<close> (\<open>optimize.rs\<close>: \<open>ZeroCopyBuffer\<close>): vectored sends and receptions. \<open>Xdp_Socket\<close> (\<open>xdp_socket.rs\<close>): the packet
    socket, its frames between pool, pending list and rings, and the plain UDP socket of builds without the feature.
  \<^item> \<open>Telemetry\<close> (\<open>telemetry.rs\<close>): the metrics, their lazy registration, the switch and the export. \<open>Pool_Telemetry\<close>,
    \<open>Fec_Telemetry\<close>, \<open>Socket_Telemetry\<close>, \<open>Connection_Telemetry\<close>: the operations of the pool, the FEC layer, the packet sockets,
    the managers and the connection once more, with the metrics they write (names ending in \<open>_t\<close>) and, for the pool, with the
    overflow checks of a debug build. The locale \<open>instrumented\<close> (an operation with metrics has the outcome of the one without
    and keeps its gauges in step) is interpreted for pool, mode manager and socket.
  \<^item> \<open>Application\<close> (\<open>app_config.rs\<close>, \<open>main.rs\<close>): configuration and the rounds of client and server. \<open>Round_Progress\<close>: that they
    return. \<open>Startup\<close> (\<open>main.rs\<close>: \<open>run_client\<close>, \<open>run_server\<close>): starting up, and the server over its whole life. \<open>Program\<close>
    (\<open>main.rs\<close>: \<open>Commands\<close>, \<open>main\<close>): the commands with their default options, and what a default server is.

  \<^bold>\<open>What the theorems show.\<close>
  Round trips: any \<open>k\<close> repair packets, or the \<open>k\<close> source packets, of a window reconstruct it, also over the wire and through the
  obfuscation of two connections; frames and obfuscation invert, ciphers unless the CPUs choose different variants, and the
  names of profile files are read back; a packet sent by one connection
  reaches the QUIC library of the other. Invariants: of the pool, the encoder window, the FEC layer, a connection and all blocks it
  holds, the frames of a packet socket and the server over every sequence of rounds and profile changes. Equivalences and refinements: table and shift product,
  wire format and parser, packet sockets without rings and UDP sockets, operations with and without metrics. Gauges: which of them
  follow the state of pool, mode manager and packet socket, and when they do not. Bounds: the loss estimate under rounding, the
  number of repair packets. Termination: \<open>set_capacity\<close>, \<open>update_state\<close>, and the rounds of client and server with all loops in them
  when the QUIC library has finitely much to say. Errors: what the decoders do with mixtures and duplicates of packets, that a window gets
  too few repair packets to survive on them, how the receiver's numbering makes source packets collide, that the default mode
  delivers nothing, that packet sockets lose the frame header, which metrics count wrongly, which blocks an abandoned window keeps, that the recorded ClientHello is never installed.

  \<^bold>\<open>Conventions.\<close>
  \<^item> \<open>None\<close> is a panic or a call that does not return; \<open>Result\<close> is a sum with the error on the left.
  \<^item> Machine integers that wrap or overflow are words; indices and lengths are \<open>nat\<close>. Checked arithmetic is written out. The
    arithmetic of the plain pool operations and of packet numbers is modulo \<open>2 ^ 64\<close>; \<open>Pool_Telemetry\<close> has the checks and shows that the two agree
    in range.
  \<^item> Loops are primitive or well-founded recursion, without fuel. Only loops whose end depends on quiche are \<open>partial_function\<close>s:
    \<open>path_events\<close> (and its variant with metrics), \<open>read_body\<close> and \<open>poll_events\<close>, which are proved to return when quiche's queues are finite, and
    \<open>send_loop\<close>, which is proved to return for connections whose mode adds no repair packets.
  \<^item> Data shared behind \<open>Arc\<close> and \<open>Mutex\<close> is state passed along; operations run one after the other, parallel iterators in order.
  \<^item> The blocks of a pool have at least one byte: for a size of 0 the crate \<open>aligned_box\<close> reports an error and \<open>alloc_numa_block\<close>
    panics, where the model has empty blocks (\<open>OptimizeConfig::validate\<close> refuses the size, \<open>main\<close> only warns).
  \<^item> quiche's configuration accepts the ciphers and protocols it is given: the results of \<open>set_ciphers\<close> are ignored by the code, and the
    \<open>unwrap\<close> of \<open>set_application_protos\<close> in the stealth manager is taken to succeed. The copy of the ClientHello that \<open>tls_ffi.rs\<close> keeps in test
    builds is left out.
  \<^item> \<open>f32\<close> arithmetic is rounded operation by operation; NaN and infinities are not represented.
  \<^item> Some of the code is not accepted by the compiler. It is read in the evident way: struct literals that omit \<open>coeff_len\<close> set it
    to 0, the mask \<open>0x10000\<close> is taken in 16 bits, \<open>map_iana_to_quiche_cipher\<close> is a function of its module,
    \<open>continue\<close> in the server's asynchronous block ends the round, and the \<open>match\<close> over HTTP/3 events is
    read as complete with the three kinds it lists. The options that the arms of \<open>main\<close> do not bind are the fields of the command.
    In \<open>xdp_socket.rs\<close> the uses of the ring state after it was released have no effect.

  \<^bold>\<open>Parameters.\<close>
  The crates (quiche as the record \<open>api\<close>, AEAD ciphers, SHA-256, TOML, base64, QPACK, the HTTP client, \<open>cpufeatures\<close>, libnuma, \<open>prometheus\<close> and \<open>sysinfo\<close>), the
  patched library behind the hooks, clock readings, random numbers, files and sockets are arguments. Theorems
  that need something of them name it as a hypothesis and have a witness with a concrete instance.

  \<^bold>\<open>Not modelled.\<close>
  The vendored copy of quiche under \<open>src/libs/\<close> is third-party code and enters through the record \<open>api\<close>. Of \<open>main.rs\<close> the parsing of
  the command line by the crate \<open>clap\<close>, the task that prints statistics, the byte counters and profile gauges written by the event loops, and the
  interleaving of tasks by tokio are left out: the profile rotation is a step between two rounds. Of the decoders the gauge of
  the decoding time is left out, of \<open>xdp_socket.rs\<close> the stubs for systems other than Unix, which only return errors, and the
  metrics of builds without the feature. Operations on shared state by several threads are not interleaved inside an operation. Tests and
  benchmarks are not part of the program.

  \<^bold>\<open>Open ends.\<close>
  How many blocks a connection holds beyond the repair packets of one window (\<open>Block_Leak\<close>), rounds of connections whose
  mode adds repair packets, and delivery across a cross-fade have no theorem.
\<close>

end
